(* ===== verification/Prelude.thy ===== *)
theory Prelude
  imports Main "HOL-Library.AList" "HOL-Library.Word" "HOL-Library.Sublist"
begin

text \<open>
  Shared vocabulary of the development: the parts of the Go language and of its
  standard library that the modelled code relies on, and the generic lemmas the
  component theories share.

  \<^item> 64-bit integers: \<open>wrap64\<close> is the two's complement wrap-around of Go's
    \<open>int\<close>, \<open>int64\<close> and \<open>time.Duration\<close>; \<open>go_div\<close> and \<open>go_mod\<close> truncate towards zero.
  \<^item> \<open>time.Time\<close> is a number of nanoseconds since Go's zero time (1 January of year 1, UTC),
    so that \<open>IsZero\<close> is equality with 0; \<open>time_sub\<close> saturates as \<open>Time.Sub\<close> does.
  \<^item> a Go map is an association list with distinct keys. The list order stands for the
    order in which a \<open>range\<close> loop visits the map, which Go leaves open: every theorem
    holds for all orders.
  \<^item> strings are byte strings; decimal and hexadecimal printing, \<open>strings.TrimSpace\<close>,
    \<open>strings.Contains\<close>, \<open>strings.Join\<close> and \<open>Duration.String\<close>.
\<close>

named_theorems go_map_simps \<open>lookup, size and key facts of Go maps\<close>
named_theorems go_time_simps \<open>unfolding of the time operations\<close>

section \<open>Integers\<close>

definition wrap64 :: "int \<Rightarrow> int" where
  "wrap64 x = (x + 2 ^ 63) mod 2 ^ 64 - 2 ^ 63"

definition in_int64 :: "int \<Rightarrow> bool" where
  "in_int64 x \<longleftrightarrow> - (2 ^ 63) \<le> x \<and> x < 2 ^ 63"

definition go_div :: "int \<Rightarrow> int \<Rightarrow> int" where
  "go_div a b = sgn a * sgn b * (\<bar>a\<bar> div \<bar>b\<bar>)"

definition go_mod :: "int \<Rightarrow> int \<Rightarrow> int" where
  "go_mod a b = a - b * go_div a b"

lemma wrap64_id: "in_int64 x \<Longrightarrow> wrap64 x = x"
  by (simp add: wrap64_def in_int64_def)

lemma wrap64_range: "in_int64 (wrap64 x)"
  using pos_mod_bound [of "2 ^ 64" "x + 2 ^ 63"] pos_mod_sign [of "2 ^ 64" "x + 2 ^ 63"]
  by (simp add: wrap64_def in_int64_def)

lemma wrap64_upper:
  assumes "2 ^ 63 \<le> x" "x < 2 ^ 64"
  shows "wrap64 x = x - 2 ^ 64"
proof -
  have "x + 2 ^ 63 = (x - 2 ^ 63) + 2 ^ 64" by simp
  then have "(x + 2 ^ 63) mod 2 ^ 64 = (x - 2 ^ 63) mod 2 ^ 64" by (simp only: mod_add_self2)
  also have "\<dots> = x - 2 ^ 63" using assms by (intro mod_pos_pos_trivial) simp_all
  finally show ?thesis by (simp add: wrap64_def)
qed

lemma go_div_nonneg: "0 \<le> a \<Longrightarrow> 0 < b \<Longrightarrow> go_div a b = a div b"
  by (cases "a = 0") (auto simp: go_div_def sgn_if)

lemma go_mod_nonneg: "0 \<le> a \<Longrightarrow> 0 < b \<Longrightarrow> go_mod a b = a mod b"
  by (simp add: go_mod_def go_div_nonneg minus_mult_div_eq_mod)

lemma go_mod_neg: "a < 0 \<Longrightarrow> 0 < b \<Longrightarrow> go_mod a b = - ((- a) mod b)"
  by (simp add: go_mod_def go_div_def minus_mult_div_eq_mod [symmetric])

section \<open>Time and durations\<close>

type_synonym gotime = int
type_synonym duration = int

abbreviation second :: duration where "second \<equiv> 1000000000"
abbreviation minute :: duration where "minute \<equiv> 60 * second"
abbreviation hour :: duration where "hour \<equiv> 3600 * second"

definition max_duration :: duration where "max_duration = 2 ^ 63 - 1"
definition min_duration :: duration where "min_duration = - (2 ^ 63)"

definition time_is_zero :: "gotime \<Rightarrow> bool" where
  "time_is_zero t \<longleftrightarrow> t = 0"

definition time_sub :: "gotime \<Rightarrow> gotime \<Rightarrow> duration" where
  "time_sub t u = max min_duration (min max_duration (t - u))"

definition time_add :: "gotime \<Rightarrow> duration \<Rightarrow> gotime" where
  "time_add t d = t + d"

definition time_unix :: "gotime \<Rightarrow> int" where
  "time_unix t = t div second - 62135596800"

declare time_is_zero_def [go_time_simps] time_sub_def [go_time_simps]
  time_add_def [go_time_simps] max_duration_def [go_time_simps] min_duration_def [go_time_simps]

lemma time_sub_ge_iff: "d \<le> max_duration \<Longrightarrow> min_duration < d \<Longrightarrow> d \<le> time_sub t u \<longleftrightarrow> d \<le> t - u"
  by (auto simp: time_sub_def)

lemma time_sub_gt_iff: "d < max_duration \<Longrightarrow> min_duration \<le> d \<Longrightarrow> d < time_sub t u \<longleftrightarrow> d < t - u"
  by (auto simp: time_sub_def)

lemma time_unix_mono: "t \<le> u \<Longrightarrow> time_unix t \<le> time_unix u"
  by (simp add: time_unix_def zdiv_mono1)

section \<open>Go maps as association lists\<close>

type_synonym ('k, 'v) gomap = "('k \<times> 'v) list"

abbreviation gm_get :: "('k, 'v) gomap \<Rightarrow> 'k \<Rightarrow> 'v option" where
  "gm_get \<equiv> map_of"

abbreviation gm_put :: "'k \<Rightarrow> 'v \<Rightarrow> ('k, 'v) gomap \<Rightarrow> ('k, 'v) gomap" where
  "gm_put \<equiv> AList.update"

abbreviation gm_del :: "'k \<Rightarrow> ('k, 'v) gomap \<Rightarrow> ('k, 'v) gomap" where
  "gm_del \<equiv> AList.delete"

definition gm_has :: "('k, 'v) gomap \<Rightarrow> 'k \<Rightarrow> bool" where
  "gm_has m k \<longleftrightarrow> map_of m k \<noteq> None"

definition gm_wf :: "('k, 'v) gomap \<Rightarrow> bool" where
  "gm_wf m \<longleftrightarrow> distinct (map fst m)"

lemma gm_get_put [simp, go_map_simps]:
  "gm_get (gm_put k v m) k' = (if k' = k then Some v else gm_get m k')"
  by (simp add: update_conv')

lemma gm_get_del [simp, go_map_simps]:
  "gm_get (gm_del k m) k' = (if k' = k then None else gm_get m k')"
  by (simp add: delete_conv')

lemma gm_has_put [simp, go_map_simps]: "gm_has (gm_put k v m) k' \<longleftrightarrow> k' = k \<or> gm_has m k'"
  by (simp add: gm_has_def)

lemma gm_has_del [simp, go_map_simps]: "gm_has (gm_del k m) k' \<longleftrightarrow> k' \<noteq> k \<and> gm_has m k'"
  by (simp add: gm_has_def)

lemma gm_has_iff_fst: "gm_has m k \<longleftrightarrow> k \<in> fst ` set m"
  by (simp add: gm_has_def map_of_eq_None_iff)

lemma gm_wf_Nil [simp]: "gm_wf []"
  by (simp add: gm_wf_def)

lemma gm_wf_Cons: "gm_wf (x # m) \<longleftrightarrow> fst x \<notin> fst ` set m \<and> gm_wf m"
  by (simp add: gm_wf_def)

lemma gm_wf_put [simp]: "gm_wf m \<Longrightarrow> gm_wf (gm_put k v m)"
  by (simp add: gm_wf_def distinct_update)

lemma gm_wf_del [simp]: "gm_wf m \<Longrightarrow> gm_wf (gm_del k m)"
  by (simp add: gm_wf_def distinct_delete)

lemma gm_wf_filter [simp]: "gm_wf m \<Longrightarrow> gm_wf (filter P m)"
  by (simp add: gm_wf_def distinct_map_filter)

lemma gm_wf_get_iff: "gm_wf m \<Longrightarrow> gm_get m k = Some v \<longleftrightarrow> (k, v) \<in> set m"
  by (simp add: gm_wf_def)

lemma gm_del_absent: "\<not> gm_has m k \<Longrightarrow> gm_del k m = m"
  by (simp add: gm_has_iff_fst delete_idem)

lemma gm_put_fresh: "\<not> gm_has m k \<Longrightarrow> gm_put k v m = m @ [(k, v)]"
  by (induction m) (auto simp: gm_has_iff_fst)

lemma length_gm_put [go_map_simps]:
  "length (gm_put k v m) = (if gm_has m k then length m else Suc (length m))"
  by (induction m) (auto simp: gm_has_def)

lemma length_gm_del [go_map_simps]:
  "gm_wf m \<Longrightarrow> gm_has m k \<Longrightarrow> Suc (length (gm_del k m)) = length m"
proof (induction m)
  case Nil
  then show ?case by (simp add: gm_has_def)
next
  case (Cons x m)
  show ?case
  proof (cases "fst x = k")
    case True
    with Cons.prems have "\<not> gm_has m k"
      by (auto simp: gm_wf_def gm_has_iff_fst)
    with True show ?thesis by (cases x) (simp add: gm_del_absent)
  next
    case False
    with Cons.prems have "gm_has m k" by (auto simp: gm_has_iff_fst)
    with False Cons show ?thesis by (cases x) (simp add: gm_wf_def)
  qed
qed

lemma length_gm_del_le: "length (gm_del k m) \<le> length m"
  by (rule length_delete_le)

section \<open>Strings\<close>

fun dec_digits :: "nat \<Rightarrow> nat list" where
  "dec_digits n = (if n < 10 then [n] else dec_digits (n div 10) @ [n mod 10])"

declare dec_digits.simps [simp del]

definition digit_char :: "nat \<Rightarrow> char" where
  "digit_char d = ''0123456789'' ! d"

definition hex_char :: "nat \<Rightarrow> char" where
  "hex_char d = ''0123456789abcdef'' ! d"

definition dec_nat :: "nat \<Rightarrow> string" where
  "dec_nat n = map digit_char (dec_digits n)"

definition dec_int :: "int \<Rightarrow> string" where
  "dec_int i = (if i < 0 then CHR ''-'' # dec_nat (nat (- i)) else dec_nat (nat i))"

text \<open>\<open>strings.Join\<close>.\<close>

fun str_join :: "string \<Rightarrow> string list \<Rightarrow> string" where
  "str_join sep [] = []"
| "str_join sep [s] = s"
| "str_join sep (s # t # ts) = s @ sep @ str_join sep (t # ts)"

text \<open>
  \<open>strings.TrimSpace\<close> removes leading and trailing Unicode white space. The encodings
  of the white-space characters in UTF-8 are listed as byte strings.
\<close>

definition space_seqs :: "string list" where
  "space_seqs =
     map (\<lambda>n. [char_of (n :: nat)]) [9, 10, 11, 12, 13, 32]
     @ map (map (\<lambda>n. char_of (n :: nat)))
        ([[194, 133], [194, 160], [225, 154, 128]]
         @ map (\<lambda>k. [226, 128, 128 + k]) [0..<11]
         @ [[226, 128, 168], [226, 128, 169], [226, 128, 175], [226, 129, 159], [227, 128, 128]])"

lemma space_seqs_nonempty: "p \<in> set space_seqs \<Longrightarrow> p \<noteq> []"
  by (auto simp: space_seqs_def)

function trim_left :: "string list \<Rightarrow> string \<Rightarrow> string" where
  "trim_left ws s =
     (case find (\<lambda>p. p \<noteq> [] \<and> prefix p s) ws of
        None \<Rightarrow> s
      | Some p \<Rightarrow> trim_left ws (drop (length p) s))"
  by pat_completeness auto
termination
  by (relation "measure (\<lambda>(ws, s). length s)")
     (auto simp: find_Some_iff dest: prefix_length_le, fastforce simp: prefix_def)

declare trim_left.simps [simp del]

definition trim_space :: "string \<Rightarrow> string" where
  "trim_space s = rev (trim_left (map rev space_seqs) (rev (trim_left space_seqs s)))"

text \<open>Trimming leaves a string alone that starts and ends with a printable ASCII character.\<close>

definition graphic :: "char \<Rightarrow> bool" where
  "graphic c \<longleftrightarrow> 33 \<le> (of_char c :: nat) \<and> (of_char c :: nat) \<le> 126"

lemma trim_left_id: "\<forall>p \<in> set ws. p \<noteq> [] \<longrightarrow> \<not> prefix p s \<Longrightarrow> trim_left ws s = s"
  by (subst trim_left.simps) (auto simp: find_None_iff split: option.splits dest!: iffD1 [OF find_Some_iff])

lemma space_seqs_not_graphic: "\<forall>p \<in> set space_seqs. \<not> graphic (hd p) \<and> \<not> graphic (last p)"
  by (simp add: space_seqs_def graphic_def upt_rec)

lemma trim_space_graphic:
  assumes "s \<noteq> []" and "graphic (hd s)" and "graphic (last s)"
  shows "trim_space s = s"
proof -
  have "trim_left space_seqs s = s"
    using assms space_seqs_not_graphic by (intro trim_left_id) (auto simp: prefix_def)
  moreover have "trim_left (map rev space_seqs) (rev s) = rev s"
  proof (rule trim_left_id, intro ballI impI notI)
    fix p assume p: "p \<in> set (map rev space_seqs)" "p \<noteq> []" "prefix p (rev s)"
    then obtain zs where "rev s = p @ zs" by (auto simp: prefix_def)
    then have "hd (rev s) = hd p" using p(2) by simp
    then have "hd p = last s" by (simp add: hd_rev)
    moreover obtain r where "r \<in> set space_seqs" "p = rev r" using p(1) by auto
    ultimately show False using p(2) assms space_seqs_not_graphic by (auto simp: hd_rev)
  qed
  ultimately show ?thesis by (simp add: trim_space_def)
qed

definition str_contains_char :: "char \<Rightarrow> string \<Rightarrow> bool" where
  "str_contains_char c s \<longleftrightarrow> c \<in> set s"

definition to_lower_char :: "char \<Rightarrow> char" where
  "to_lower_char c = (let n = of_char c :: nat in if 65 \<le> n \<and> n \<le> 90 then char_of (n + 32) else c)"

subsection \<open>Decimal numerals\<close>

definition char_digit :: "char \<Rightarrow> nat option" where
  "char_digit c = (let n = of_char c :: nat in if 48 \<le> n \<and> n \<le> 57 then Some (n - 48) else None)"

lemma dec_digits_lt: "d \<in> set (dec_digits n) \<Longrightarrow> d < 10"
proof (induction n rule: dec_digits.induct)
  case (1 n)
  then show ?case
    by (cases "n < 10") (auto simp: dec_digits.simps [of n])
qed

lemma dec_digits_nonempty [simp]: "dec_digits n \<noteq> []"
  by (subst dec_digits.simps) simp

lemma dec_nat_nonempty [simp]: "dec_nat n \<noteq> []"
  by (simp add: dec_nat_def)

lemma less_10_cases: "(d :: nat) < 10 \<Longrightarrow> d \<in> {0, 1, 2, 3, 4, 5, 6, 7, 8, 9}"
  by auto

lemma less_16_cases: "(d :: nat) < 16 \<Longrightarrow> d < 10 \<or> d \<in> {10, 11, 12, 13, 14, 15}"
  by auto

lemma of_char_digit_char: "d < 10 \<Longrightarrow> of_char (digit_char d) = (48 + d :: nat)"
  using less_10_cases [of d] by (auto simp: digit_char_def)

lemma char_digit_digit_char [simp]: "d < 10 \<Longrightarrow> char_digit (digit_char d) = Some d"
  by (simp add: char_digit_def of_char_digit_char)

lemma dec_nat_chars: "c \<in> set (dec_nat n) \<Longrightarrow> 48 \<le> (of_char c :: nat) \<and> (of_char c :: nat) \<le> 57"
  by (auto simp: dec_nat_def of_char_digit_char dest: dec_digits_lt)

lemma dec_digits_byte:
  "n < 256 \<Longrightarrow> dec_digits n =
     (if n < 10 then [n] else if n < 100 then [n div 10, n mod 10]
      else [n div 100, n div 10 mod 10, n mod 10])"
  by (auto simp: dec_digits.simps [of n] dec_digits.simps [of "n div 10"]
      dec_digits.simps [of "n div 100"] div_mult2_eq [symmetric])

section \<open>Printing a duration\<close>

text \<open>
  \<open>Duration.String\<close>: below one second the unit is ns, \<open>\<mu>\<close>s or ms, otherwise hours, minutes
  and seconds, with the fraction printed without trailing zeros.
\<close>

fun pad_left :: "nat \<Rightarrow> string \<Rightarrow> string" where
  "pad_left w s = replicate (w - length s) (CHR ''0'') @ s"

definition frac_digits :: "nat \<Rightarrow> nat \<Rightarrow> string" where
  "frac_digits v prec =
     (let ds = pad_left prec (dec_nat v);
          kept = rev (dropWhile (\<lambda>c. c = CHR ''0'') (rev ds))
      in if v = 0 then [] else CHR ''.'' # kept)"

definition dur_abs :: "int \<Rightarrow> string" where
  "dur_abs u =
     (if u = 0 then ''0s''
      else if u < 1000 then dec_int u @ ''ns''
      else if u < 1000000 then
        dec_int (u div 1000) @ frac_digits (nat (u mod 1000)) 3
        @ [char_of (194 :: nat), char_of (181 :: nat), CHR ''s'']
      else if u < second then dec_int (u div 1000000) @ frac_digits (nat (u mod 1000000)) 6 @ ''ms''
      else let secs = u div second; frac = frac_digits (nat (u mod second)) 9;
               s = dec_int (secs mod 60) @ frac @ ''s'';
               mins = secs div 60
           in if mins = 0 then s
              else let m = dec_int (mins mod 60) @ ''m'' @ s; hrs = mins div 60
                   in if hrs = 0 then m else dec_int hrs @ ''h'' @ m)"

definition duration_string :: "duration \<Rightarrow> string" where
  "duration_string d = (if d < 0 then CHR ''-'' # dur_abs (- d) else dur_abs d)"

text \<open>\<open>Duration.Round(time.Second)\<close>: to the nearest multiple, halfway away from zero.\<close>

definition round_second :: "duration \<Rightarrow> duration" where
  "round_second d =
     max min_duration (min max_duration (sgn d * (((\<bar>d\<bar> + second div 2) div second) * second)))"

end
