(* ===== verification/Kinetic_Types.thy ===== *)
theory Kinetic_Types
  imports Complex_Main Prelude "HOL-Library.List_Lexorder" "HOL-Library.Char_ord" "HOL-Library.Multiset"
begin

text \<open>
  \<open>control/kinetic_types.go\<close>: the vocabulary of Kinetic Defense. Layers, enforcement modes and
  sensor coverage are enumerations; \<open>EvaluateCoverage\<close> folds the sensor map into the system
  verdict; \<open>KineticEvent\<close> is the unified event record with its deduplication fingerprint;
  \<open>KineticTelemetry\<close> holds the counters the dashboard shows; \<open>BoundedEventQueue\<close> is the
  drop-oldest ring behind the live stream.

  Confidence values (Go floats) are exact rationals. \<open>sha256\<close> is a parameter.

  The locale \<open>bounded_log\<close> is the contract of a log that keeps the newest entries only; it is
  interpreted here for \<open>BoundedEventQueue\<close> and in \<open>Block_State\<close> for the event list of \<open>State\<close>.
\<close>

section \<open>Enumerations\<close>

datatype DefenseLayer =
    LayerIngressNetwork | LayerHostXDR | LayerEgress | LayerApplicationL7
  | LayerThreatIntel | LayerFIM | LayerBootTrust | LayerPolicyTrust
  | LayerNamed string

fun layer_text :: "DefenseLayer \<Rightarrow> string" where
  "layer_text LayerIngressNetwork = ''ingress_network''"
| "layer_text LayerHostXDR = ''host_xdr''"
| "layer_text LayerEgress = ''egress''"
| "layer_text LayerApplicationL7 = ''application_l7''"
| "layer_text LayerThreatIntel = ''threat_intel''"
| "layer_text LayerFIM = ''fim''"
| "layer_text LayerBootTrust = ''boot_trust''"
| "layer_text LayerPolicyTrust = ''policy_trust''"
| "layer_text (LayerNamed s) = s"

datatype EnforcementMode = EnforcementObserve | EnforcementContain | EnforcementBlock

datatype SensorCoverageStatus =
    CoverageOnline | CoverageDegraded | CoverageOffline | CoverageDisabled | CoverageNotApplicable

section \<open>Sensor coverage\<close>

record SensorCoverage =
  sc_Name :: string
  sc_Layer :: DefenseLayer
  sc_Status :: SensorCoverageStatus
  sc_Required :: bool
  sc_LastOK :: "gotime option"
  sc_LastError :: string
  sc_SelfTest :: string
  sc_CoverageReason :: string

record SystemCoverage =
  sy_OverallStatus :: SensorCoverageStatus
  sy_Nominal :: bool
  sy_Sensors :: "(string, SensorCoverage) gomap"
  sy_Summary :: string

text \<open>The accumulators of the loop of \<open>EvaluateCoverage\<close>.\<close>

record coverage_scan =
  cs_sensors :: "(string, SensorCoverage) gomap"
  cs_hasOffline :: bool
  cs_hasDegraded :: bool
  cs_offlineNames :: "string list"
  cs_degradedNames :: "string list"

definition coverage_step :: "string \<times> SensorCoverage \<Rightarrow> coverage_scan \<Rightarrow> coverage_scan" where
  "coverage_step kv s =
     (case kv of (k, v) \<Rightarrow>
       let s = s\<lparr> cs_sensors := gm_put k v (cs_sensors s) \<rparr>
       in if \<not> sc_Required v then s
          else case sc_Status v of
            CoverageOffline \<Rightarrow> s\<lparr> cs_hasOffline := True, cs_offlineNames := cs_offlineNames s @ [sc_Name v] \<rparr>
          | CoverageDisabled \<Rightarrow> s\<lparr> cs_hasOffline := True, cs_offlineNames := cs_offlineNames s @ [sc_Name v] \<rparr>
          | CoverageDegraded \<Rightarrow> s\<lparr> cs_hasDegraded := True, cs_degradedNames := cs_degradedNames s @ [sc_Name v] \<rparr>
          | _ \<Rightarrow> s)"

definition coverage_init :: coverage_scan where
  "coverage_init = \<lparr> cs_sensors = [], cs_hasOffline = False, cs_hasDegraded = False,
                     cs_offlineNames = [], cs_degradedNames = [] \<rparr>"

definition EvaluateCoverage :: "(string, SensorCoverage) gomap \<Rightarrow> SystemCoverage" where
  "EvaluateCoverage sensors =
     (let s = fold coverage_step sensors coverage_init
      in if cs_hasOffline s then
           \<lparr> sy_OverallStatus = CoverageOffline, sy_Nominal = False, sy_Sensors = cs_sensors s,
             sy_Summary = ''Critical mandatory sensors offline: '' @ str_join '', '' (sort (cs_offlineNames s)) \<rparr>
         else if cs_hasDegraded s then
           \<lparr> sy_OverallStatus = CoverageDegraded, sy_Nominal = False, sy_Sensors = cs_sensors s,
             sy_Summary = ''Mandatory sensors degraded: '' @ str_join '', '' (sort (cs_degradedNames s)) \<rparr>
         else
           \<lparr> sy_OverallStatus = CoverageOnline, sy_Nominal = True, sy_Sensors = cs_sensors s,
             sy_Summary = ''All mandatory sensors operational'' \<rparr>)"

subsection \<open>What the loop collects\<close>

definition sensor_offline :: "SensorCoverage \<Rightarrow> bool" where
  "sensor_offline v \<longleftrightarrow> sc_Required v \<and> (sc_Status v = CoverageOffline \<or> sc_Status v = CoverageDisabled)"

definition sensor_degraded :: "SensorCoverage \<Rightarrow> bool" where
  "sensor_degraded v \<longleftrightarrow> sc_Required v \<and> sc_Status v = CoverageDegraded"

lemma coverage_step_eq:
  "coverage_step (k, v) s = \<lparr>
     cs_sensors = gm_put k v (cs_sensors s),
     cs_hasOffline = (cs_hasOffline s \<or> sensor_offline v),
     cs_hasDegraded = (cs_hasDegraded s \<or> sensor_degraded v),
     cs_offlineNames = cs_offlineNames s @ (if sensor_offline v then [sc_Name v] else []),
     cs_degradedNames = cs_degradedNames s @ (if sensor_degraded v then [sc_Name v] else []) \<rparr>"
  by (simp add: coverage_step_def Let_def sensor_offline_def sensor_degraded_def
      split: SensorCoverageStatus.split)

lemma coverage_fold:
  "fold coverage_step m s = \<lparr>
     cs_sensors = fold (\<lambda>(k, v). gm_put k v) m (cs_sensors s),
     cs_hasOffline = (cs_hasOffline s \<or> (\<exists>v \<in> snd ` set m. sensor_offline v)),
     cs_hasDegraded = (cs_hasDegraded s \<or> (\<exists>v \<in> snd ` set m. sensor_degraded v)),
     cs_offlineNames = cs_offlineNames s @ map sc_Name (filter sensor_offline (map snd m)),
     cs_degradedNames = cs_degradedNames s @ map sc_Name (filter sensor_degraded (map snd m)) \<rparr>"
proof (induction m arbitrary: s)
  case (Cons x m)
  obtain k v where x: "x = (k, v)" by force
  show ?case
    by (simp add: x Cons.IH coverage_step_eq disj_assoc)
qed simp

lemma fold_put_get: "gm_wf m \<Longrightarrow> gm_get (fold (\<lambda>(k, v). gm_put k v) m acc) k =
    (case gm_get m k of None \<Rightarrow> gm_get acc k | Some v \<Rightarrow> Some v)"
  by (induction m arbitrary: acc)
     (auto simp: gm_wf_Cons split: option.splits dest: map_of_SomeD intro: rev_image_eqI)

lemma sort_mset_eq: "mset xs = mset ys \<Longrightarrow> sort xs = (sort ys :: 'a :: linorder list)"
  by (metis mset_sort properties_for_sort sorted_sort)

lemma EvaluateCoverage_cases:
  "sy_OverallStatus (EvaluateCoverage m) =
     (if \<exists>v \<in> snd ` set m. sensor_offline v then CoverageOffline
      else if \<exists>v \<in> snd ` set m. sensor_degraded v then CoverageDegraded else CoverageOnline)"
  by (simp add: EvaluateCoverage_def coverage_fold coverage_init_def Let_def)

lemma EvaluateCoverage_nominal:
  "sy_Nominal (EvaluateCoverage m) \<longleftrightarrow>
     (\<forall>v \<in> snd ` set m. \<not> sensor_offline v \<and> \<not> sensor_degraded v)"
  by (auto simp: EvaluateCoverage_def coverage_fold coverage_init_def Let_def)

lemma EvaluateCoverage_order:
  assumes "mset m = mset m'"
  shows "sy_OverallStatus (EvaluateCoverage m) = sy_OverallStatus (EvaluateCoverage m')"
    and "sy_Nominal (EvaluateCoverage m) = sy_Nominal (EvaluateCoverage m')"
    and "sy_Summary (EvaluateCoverage m) = sy_Summary (EvaluateCoverage m')"
proof -
  have set: "set m = set m'" using assms by (metis set_mset_mset)
  have names: "sort (map sc_Name (filter P (map snd m))) = sort (map sc_Name (filter P (map snd m')))" for P
    by (rule sort_mset_eq) (use assms in \<open>simp add: mset_filter\<close>)
  show "sy_OverallStatus (EvaluateCoverage m) = sy_OverallStatus (EvaluateCoverage m')"
    "sy_Nominal (EvaluateCoverage m) = sy_Nominal (EvaluateCoverage m')"
    "sy_Summary (EvaluateCoverage m) = sy_Summary (EvaluateCoverage m')"
    by (simp_all add: EvaluateCoverage_def coverage_fold coverage_init_def Let_def set names)
qed

section \<open>Layer state, events and telemetry\<close>

record DefenseLayerState =
  dl_Layer :: DefenseLayer
  dl_DetectionEnabled :: bool
  dl_DetectionHealthy :: bool
  dl_EnforcementMode :: EnforcementMode
  dl_EnforcementHealthy :: bool
  dl_ModeReason :: string
  dl_Coverage :: SensorCoverageStatus

text \<open>The dynamic types that occur as metadata values.\<close>

datatype metavalue = MetaBool bool | MetaInt int | MetaInt32 int | MetaInt64 int
  | MetaUint nat | MetaUint32 nat | MetaUint64 nat | MetaFloat rat | MetaString string

record KineticEvent =
  ke_ID :: string
  ke_Time :: gotime
  ke_Layer :: DefenseLayer
  ke_Sensor :: string
  ke_RuleID :: string
  ke_Category :: string
  ke_Severity :: string
  ke_Score :: int
  ke_Confidence :: rat
  ke_SourceIP :: string
  ke_DestinationIP :: string
  ke_Port :: "16 word"
  ke_Protocol :: string
  ke_Interface :: string
  ke_Process :: string
  ke_PID :: int
  ke_Domain :: string
  ke_JA3Fingerprint :: string
  ke_Subnet :: string
  ke_Hits :: int
  ke_RatePerSec :: rat
  ke_Action :: string
  ke_Decision :: string
  ke_EvidenceID :: string
  ke_PolicyGeneration :: "64 word"
  ke_Fingerprint :: string
  ke_Metadata :: "(string, metavalue) gomap"

text \<open>A literal that sets no field: Go's zero value.\<close>

definition empty_event :: KineticEvent where
  "empty_event = \<lparr> ke_ID = [], ke_Time = 0, ke_Layer = LayerNamed [], ke_Sensor = [], ke_RuleID = [],
     ke_Category = [], ke_Severity = [], ke_Score = 0, ke_Confidence = 0, ke_SourceIP = [],
     ke_DestinationIP = [], ke_Port = 0, ke_Protocol = [], ke_Interface = [], ke_Process = [], ke_PID = 0,
     ke_Domain = [], ke_JA3Fingerprint = [], ke_Subnet = [], ke_Hits = 0, ke_RatePerSec = 0, ke_Action = [],
     ke_Decision = [], ke_EvidenceID = [], ke_PolicyGeneration = 0, ke_Fingerprint = [], ke_Metadata = [] \<rparr>"

type_synonym digest = "8 word list"

definition hex_bytes :: "8 word list \<Rightarrow> string" where
  "hex_bytes bs = concat (map (\<lambda>b. [hex_char (unat b div 16), hex_char (unat b mod 16)]) bs)"

definition fingerprint_text :: "KineticEvent \<Rightarrow> string" where
  "fingerprint_text e = str_join ''|''
     [layer_text (ke_Layer e), ke_RuleID e, ke_SourceIP e, ke_DestinationIP e, ke_Subnet e,
      dec_nat (unat (ke_Port e)), ke_Protocol e, ke_Domain e]"

definition ComputeFingerprint :: "(string \<Rightarrow> digest) \<Rightarrow> KineticEvent \<Rightarrow> KineticEvent" where
  "ComputeFingerprint sha256 e = e\<lparr> ke_Fingerprint := hex_bytes (take 16 (sha256 (fingerprint_text e))) \<rparr>"

record KineticTelemetry =
  kt_HitsTotal :: "64 word"
  kt_VelocityBurstsTotal :: "64 word"
  kt_PortscansTotal :: "64 word"
  kt_SubnetStrikesTotal :: "64 word"
  kt_L7StrikesTotal :: "64 word"
  kt_BansEnforcedTotal :: "64 word"
  kt_BansExpiredTotal :: "64 word"
  kt_ResponseAppliedTotal :: "64 word"
  kt_ResponseSuppressedTotal :: "64 word"
  kt_ResponseRollbackTotal :: "64 word"
  kt_ResponseFailedTotal :: "64 word"
  kt_ActiveTrackingIPs :: int
  kt_ActiveSubnetsV4 :: int
  kt_ActiveSubnetsV6 :: int
  kt_ActiveWideV4 :: int
  kt_TrackingCapacity :: int
  kt_TrackingDropsTotal :: "64 word"
  kt_TrackingEvictionsTotal :: "64 word"
  kt_AggregateEvictionsTotal :: "64 word"
  kt_KernelEventsEmitted :: "64 word"
  kt_KernelRingDrops :: "64 word"
  kt_KernelTrackInsertFailures :: "64 word"
  kt_IngressMode :: string
  kt_LastStrikeAt :: "gotime option"
  kt_Layers :: "(DefenseLayer, DefenseLayerState) gomap"
  kt_Coverage :: SystemCoverage

definition reported_elsewhere :: "DefenseLayer \<Rightarrow> string \<Rightarrow> DefenseLayer \<times> DefenseLayerState" where
  "reported_elsewhere l reason =
     (l, \<lparr> dl_Layer = l, dl_DetectionEnabled = False, dl_DetectionHealthy = False,
           dl_EnforcementMode = EnforcementObserve, dl_EnforcementHealthy = False,
           dl_ModeReason = reason, dl_Coverage = CoverageNotApplicable \<rparr>)"

definition default_layers :: "(DefenseLayer, DefenseLayerState) gomap" where
  "default_layers =
     [(LayerIngressNetwork,
        \<lparr> dl_Layer = LayerIngressNetwork, dl_DetectionEnabled = True, dl_DetectionHealthy = False,
          dl_EnforcementMode = EnforcementObserve, dl_EnforcementHealthy = False,
          dl_ModeReason = ''awaiting verified kernel ingress telemetry'', dl_Coverage = CoverageOffline \<rparr>),
      reported_elsewhere LayerHostXDR ''reported by the XDR subsystem, not inferred by Kinetic Defense'',
      reported_elsewhere LayerEgress ''reported by the egress subsystem, not inferred by Kinetic Defense'',
      reported_elsewhere LayerApplicationL7 ''reported by the L7 subsystem, not inferred by Kinetic Defense'',
      reported_elsewhere LayerThreatIntel ''reported by the threat-intelligence subsystem'',
      reported_elsewhere LayerFIM ''reported by the integrity subsystem'',
      reported_elsewhere LayerBootTrust ''reported by the boot-trust subsystem'',
      reported_elsewhere LayerPolicyTrust ''reported by the policy/evidence subsystem'']"

definition DefaultKineticTelemetry :: KineticTelemetry where
  "DefaultKineticTelemetry = \<lparr>
     kt_HitsTotal = 0, kt_VelocityBurstsTotal = 0, kt_PortscansTotal = 0, kt_SubnetStrikesTotal = 0,
     kt_L7StrikesTotal = 0, kt_BansEnforcedTotal = 0, kt_BansExpiredTotal = 0, kt_ResponseAppliedTotal = 0,
     kt_ResponseSuppressedTotal = 0, kt_ResponseRollbackTotal = 0, kt_ResponseFailedTotal = 0,
     kt_ActiveTrackingIPs = 0, kt_ActiveSubnetsV4 = 0, kt_ActiveSubnetsV6 = 0, kt_ActiveWideV4 = 0,
     kt_TrackingCapacity = 65536, kt_TrackingDropsTotal = 0, kt_TrackingEvictionsTotal = 0,
     kt_AggregateEvictionsTotal = 0, kt_KernelEventsEmitted = 0, kt_KernelRingDrops = 0,
     kt_KernelTrackInsertFailures = 0, kt_IngressMode = [], kt_LastStrikeAt = None,
     kt_Layers = default_layers,
     kt_Coverage = EvaluateCoverage
       [(''xdp_ingress'',
          \<lparr> sc_Name = ''xdp_ingress'', sc_Layer = LayerIngressNetwork, sc_Status = CoverageOffline,
            sc_Required = True, sc_LastOK = None, sc_LastError = [], sc_SelfTest = ''unverified'',
            sc_CoverageReason = ''no verified kernel ingress producer has reported yet'' \<rparr>)] \<rparr>"

section \<open>Logs that keep the newest entries\<close>

definition take_last :: "nat \<Rightarrow> 'a list \<Rightarrow> 'a list" where
  "take_last n xs = drop (length xs - n) xs"

lemma length_take_last [simp]: "length (take_last n xs) = min n (length xs)"
  by (auto simp: take_last_def)

lemma take_last_id: "length xs \<le> n \<Longrightarrow> take_last n xs = xs"
  by (simp add: take_last_def)

lemma take_last_snoc: "take_last (Suc n) (xs @ [x]) = take_last n xs @ [x]"
  by (simp add: take_last_def)

lemma take_last_append_take_last: "take_last n (take_last n xs @ ys) = take_last n (xs @ ys)"
proof (cases "n \<le> length xs")
  case True
  then have "length xs - n + (n + length ys - n) = length xs + length ys - n" by simp
  with True show ?thesis by (cases "n \<le> length ys") (simp_all add: take_last_def add.commute)
qed (simp add: take_last_def)

locale bounded_log =
  fixes items :: "'q \<Rightarrow> 'e list" and cap :: "'q \<Rightarrow> nat" and push :: "'e \<Rightarrow> 'q \<Rightarrow> 'q"
    and rep :: "'e \<Rightarrow> 'q \<Rightarrow> 'e"
  assumes cap_push: "cap (push e q) = cap q"
    and items_push: "0 < cap q \<Longrightarrow> length (items q) \<le> cap q \<Longrightarrow>
       items (push e q) = take_last (cap q) (items q @ [rep e q])"
    and rep_push: "rep e (push e' q) = rep e q"
begin

definition good :: "'q \<Rightarrow> bool" where
  "good q \<longleftrightarrow> 0 < cap q \<and> length (items q) \<le> cap q"

lemma good_push: "good q \<Longrightarrow> good (push e q)"
  by (simp add: good_def cap_push items_push)

lemma good_fold: "good q \<Longrightarrow> good (fold push es q)"
  by (induction es arbitrary: q) (auto intro: good_push)

lemma rep_fold: "rep e (fold push es q) = rep e q"
  by (induction es arbitrary: q) (simp_all add: rep_push)

lemma items_fold:
  "good q \<Longrightarrow> items (fold push es q) = take_last (cap q) (items q @ map (\<lambda>e. rep e q) es)"
proof (induction es arbitrary: q)
  case Nil
  then show ?case by (simp add: good_def take_last_id)
next
  case (Cons e es)
  have "items (fold push (e # es) q) =
      take_last (cap q) (take_last (cap q) (items q @ [rep e q]) @ map (\<lambda>e. rep e q) es)"
    using Cons.IH [OF good_push [OF Cons.prems]] Cons.prems
    by (simp add: cap_push rep_push items_push good_def)
  then show ?case by (simp add: take_last_append_take_last)
qed

lemma newest_kept: "good q \<Longrightarrow> items (push e q) \<noteq> [] \<and> last (items (push e q)) = rep e q"
  by (cases "cap q") (auto simp: good_def items_push take_last_snoc)

end

section \<open>The event queue\<close>

record BoundedEventQueue =
  q_capacity :: int
  q_events :: "KineticEvent list"
  q_drops :: "64 word"

definition NewBoundedEventQueue :: "int \<Rightarrow> BoundedEventQueue" where
  "NewBoundedEventQueue capacity =
     (let capacity = (if capacity \<le> 0 then 250 else capacity)
      in \<lparr> q_capacity = capacity, q_events = [], q_drops = 0 \<rparr>)"

definition queue_push :: "KineticEvent \<Rightarrow> BoundedEventQueue \<Rightarrow> BoundedEventQueue" where
  "queue_push event q =
     (let q = (if int (length (q_events q)) \<ge> q_capacity q
               then q\<lparr> q_events := tl (q_events q), q_drops := q_drops q + 1 \<rparr> else q)
      in q\<lparr> q_events := q_events q @ [event] \<rparr>)"

definition queue_snapshot :: "BoundedEventQueue \<Rightarrow> KineticEvent list \<times> 64 word" where
  "queue_snapshot q = (q_events q, q_drops q)"

definition queue_capacity :: "BoundedEventQueue \<Rightarrow> int" where
  "queue_capacity q = q_capacity q"

lemma queue_push_items:
  assumes "0 < nat (q_capacity q)" and "length (q_events q) \<le> nat (q_capacity q)"
  shows "q_events (queue_push e q) = take_last (nat (q_capacity q)) (q_events q @ [e])"
proof (cases "int (length (q_events q)) \<ge> q_capacity q")
  case True
  with assms have "nat (q_capacity q) = length (q_events q)" and "q_events q \<noteq> []" by auto
  with True show ?thesis by (cases "q_events q") (simp_all add: queue_push_def take_last_def)
next
  case False
  then show ?thesis by (simp add: queue_push_def take_last_id)
qed

interpretation evq: bounded_log q_events "\<lambda>q. nat (q_capacity q)" queue_push "\<lambda>e q. e"
  by unfold_locales (simp add: queue_push_def Let_def, rule queue_push_items, simp_all)

text \<open>The drop counter accounts for every event that is no longer held.\<close>

lemma queue_drops_push:
  assumes "evq.good q"
  shows "q_drops (queue_push e q) + of_nat (length (q_events (queue_push e q)))
       = q_drops q + of_nat (length (q_events q)) + 1"
  using assms by (cases "q_events q") (auto simp: queue_push_def evq.good_def)

lemma queue_drops_fold:
  "evq.good q \<Longrightarrow> q_drops (fold queue_push es q) + of_nat (length (q_events (fold queue_push es q)))
     = q_drops q + of_nat (length (q_events q)) + of_nat (length es)"
proof (induction es arbitrary: q)
  case (Cons e es)
  with Cons.IH [OF evq.good_push [OF Cons.prems]] queue_drops_push [OF Cons.prems]
  show ?case by simp
qed simp

lemma new_queue_good: "evq.good (NewBoundedEventQueue c)"
  by (simp add: evq.good_def NewBoundedEventQueue_def Let_def)

section \<open>Properties\<close>

text \<open>
  \<open>EvaluateCoverage\<close> is fail-safe and deterministic. The system is nominal exactly when no
  required sensor is offline, disabled or degraded; an offline or disabled required sensor
  dominates a degraded one; and status, verdict and summary text do not depend on the order in
  which the map is visited.
\<close>
theorem coverage_verdict:
  assumes "mset m' = mset m"
  shows "sy_OverallStatus (EvaluateCoverage m') =
      (if \<exists>v \<in> snd ` set m. sc_Required v \<and> sc_Status v \<in> {CoverageOffline, CoverageDisabled} then CoverageOffline
       else if \<exists>v \<in> snd ` set m. sc_Required v \<and> sc_Status v = CoverageDegraded then CoverageDegraded
       else CoverageOnline)
    \<and> (sy_Nominal (EvaluateCoverage m') \<longleftrightarrow> sy_OverallStatus (EvaluateCoverage m') = CoverageOnline)
    \<and> sy_Summary (EvaluateCoverage m') = sy_Summary (EvaluateCoverage m)"
  using EvaluateCoverage_order [OF assms] EvaluateCoverage_cases [of m] EvaluateCoverage_nominal [of m]
  by (auto simp: sensor_offline_def sensor_degraded_def)

theorem coverage_verdict_witness:
  "sy_OverallStatus (EvaluateCoverage (sy_Sensors (kt_Coverage DefaultKineticTelemetry))) = CoverageOffline"
  using coverage_verdict [OF refl, of "sy_Sensors (kt_Coverage DefaultKineticTelemetry)"]
  by (simp add: DefaultKineticTelemetry_def EvaluateCoverage_def coverage_step_def coverage_init_def)

text \<open>
  After any sequence of pushes the event queue holds exactly the newest events, never more than
  its capacity, and the drop counter (modulo its 64 bits) is the number of events pushed
  that it no longer holds.
\<close>
theorem event_queue_history:
  "let q = NewBoundedEventQueue c; q' = fold queue_push es q
   in q_events q' = take_last (nat (queue_capacity q)) es
      \<and> int (length (q_events q')) \<le> queue_capacity q' \<and> queue_capacity q' = queue_capacity q
      \<and> q_drops q' = of_nat (length es - length (q_events q'))"
proof -
  let ?q = "NewBoundedEventQueue c" and ?q' = "fold queue_push es (NewBoundedEventQueue c)"
  have items: "q_events ?q' = take_last (nat (q_capacity ?q)) es"
    using evq.items_fold [OF new_queue_good, of es] by (simp add: NewBoundedEventQueue_def Let_def)
  have cap: "q_capacity ?q' = q_capacity ?q"
    by (induction es arbitrary: c rule: rev_induct) (simp_all add: queue_push_def Let_def)
  have "q_drops ?q' + of_nat (length (q_events ?q')) = (of_nat (length es) :: 64 word)"
    using queue_drops_fold [OF new_queue_good, of es] by (simp add: NewBoundedEventQueue_def Let_def)
  moreover have "length (q_events ?q') \<le> length es" by (simp add: items)
  ultimately have "q_drops ?q' = of_nat (length es - length (q_events ?q'))"
    by (simp add: of_nat_diff algebra_simps eq_diff_eq)
  moreover have "0 \<le> q_capacity ?q" by (simp add: NewBoundedEventQueue_def Let_def)
  then have "int (length (q_events ?q')) \<le> q_capacity ?q" unfolding items length_take_last by linarith
  ultimately show ?thesis
    by (simp add: items cap queue_capacity_def Let_def)
qed

end
