(* ===== verification/Kinetic_Rules.thy ===== *)
theory Kinetic_Rules
  imports Kinetic_Types
begin

text \<open>
  \<open>control/kinetic_rules.go\<close>: the registry of Kinetic rules, a map from rule identifiers to
  definitions. The twenty standard rules are split in the network rules and the TLS rules,
  in the order of the source. A Go map has no order: \<open>rules_List\<close> returns the values in
  the order of the representing list, whatever it is.

  The lemmas give the lookup, count and update laws of the registry, and the table of what the
  standard rules allow.
\<close>

record KineticRuleDefinition =
  kr_ID :: string
  kr_Layer :: DefenseLayer
  kr_Category :: string
  kr_Severity :: string
  kr_DefaultScore :: int
  kr_ContainEligible :: bool
  kr_BlockEligible :: bool
  kr_SignalSource :: string
  kr_Summary :: string
  kr_DefaultTTL :: duration

type_synonym KineticRuleRegistry = "(string, KineticRuleDefinition) gomap"

definition rule_def :: "string \<Rightarrow> DefenseLayer \<Rightarrow> string \<Rightarrow> string \<Rightarrow> int \<Rightarrow> bool \<Rightarrow> bool \<Rightarrow> string \<Rightarrow> string
    \<Rightarrow> duration \<Rightarrow> KineticRuleDefinition" where
  "rule_def rid layer category severity score contain block source summary ttl =
     \<lparr> kr_ID = rid, kr_Layer = layer, kr_Category = category, kr_Severity = severity,
       kr_DefaultScore = score, kr_ContainEligible = contain, kr_BlockEligible = block,
       kr_SignalSource = source, kr_Summary = summary, kr_DefaultTTL = ttl \<rparr>"

definition network_rules :: "KineticRuleDefinition list" where
  "network_rules =
     [rule_def ''NET.INGRESS.IP_RATE'' LayerIngressNetwork ''rate_limit'' ''medium'' 75 True True
        ''ebpf_sliding_window''
        ''Single IP exceeded sustained hit rate threshold'' (24 * hour),
      rule_def ''NET.INGRESS.IP_VELOCITY'' LayerIngressNetwork ''burst_limit'' ''high'' 85 True True
        ''ebpf_sliding_window''
        ''Single IP exceeded instantaneous velocity/burst threshold'' (24 * hour),
      rule_def ''NET.INGRESS.SYN_FLOOD'' LayerIngressNetwork ''flood'' ''high'' 90 True True
        ''ebpf_xdp''
        ''Abnormal TCP SYN-only packet flood without handshake completion'' (24 * hour),
      rule_def ''NET.INGRESS.PORT_SCAN'' LayerIngressNetwork ''reconnaissance'' ''high'' 95 True True
        ''ebpf_sliding_window''
        ''Hostile portscan or connection attempt to protected dark port'' (24 * hour),
      rule_def ''NET.INGRESS.PORT_DIVERSITY'' LayerIngressNetwork ''reconnaissance'' ''medium'' 65 True False
        ''ebpf_sliding_window''
        ''Single IP probed multiple distinct destination ports'' (6 * hour),
      rule_def ''NET.INGRESS.SUBNET_V4'' LayerIngressNetwork ''botnet_aggregation'' ''high'' 100 True True
        ''radix_subnet_aggregator''
        ''Coordinated traffic surge across IPv4 /24 subnet block'' (24 * hour),
      rule_def ''NET.INGRESS.SUBNET_V6'' LayerIngressNetwork ''botnet_aggregation'' ''high'' 100 True True
        ''radix_subnet_aggregator''
        ''Coordinated traffic surge across IPv6 /64 subnet block'' (24 * hour),
      rule_def ''NET.INGRESS.WIDE_V4'' LayerIngressNetwork ''botnet_aggregation'' ''critical'' 120 False False
        ''radix_subnet_aggregator''
        ''Mass distributed botnet surge across IPv4 /16 sector block'' (24 * hour),
      rule_def ''NET.INGRESS.LOW_SLOW_SCAN'' LayerIngressNetwork ''reconnaissance'' ''high'' 92 True True
        ''kinetic_long_window''
        ''Source probed distinct destination ports across a long low-rate window'' (24 * hour),
      rule_def ''NET.INGRESS.THREAT_INTEL_MATCH'' LayerThreatIntel ''threat_intelligence'' ''high'' 80 False False
        ''threat_intel_correlate''
        ''Ingress source matched an active threat-intelligence prefix'' (0),
      rule_def ''NET.INGRESS.MALFORMED_TCP'' LayerIngressNetwork ''protocol_anomaly'' ''high'' 80 True True
        ''ebpf_xdp''
        ''Illegal or evasive TCP flag combinations detected in kernel'' (12 * hour)]"

definition tls_rules :: "KineticRuleDefinition list" where
  "tls_rules =
     [rule_def ''TLS.CLIENTHELLO.MALFORMED'' LayerApplicationL7 ''protocol_anomaly'' ''medium'' 45 False False
        ''l7_tls_parser''
        ''Malformed or truncated TLS ClientHello observed'' (0),
      rule_def ''TLS.SNI.MISSING'' LayerApplicationL7 ''protocol_anomaly'' ''low'' 25 False False
        ''l7_tls_parser''
        ''TLS ClientHello omitted SNI'' (0),
      rule_def ''TLS.HOST_MISMATCH'' LayerApplicationL7 ''domain_spoofing'' ''medium'' 60 False False
        ''l7_tls_http_correlator''
        ''HTTP Host did not match recent TLS SNI from the same source'' (0),
      rule_def ''TLS.SNI.INVALID'' LayerApplicationL7 ''protocol_anomaly'' ''medium'' 60 False False
        ''l7_tls_parser''
        ''Repeated direct IP or malformed hostname presented in TLS SNI'' (12 * hour),
      rule_def ''TLS.SNI.REPEATED_INVALID'' LayerApplicationL7 ''protocol_anomaly'' ''high'' 100 True True
        ''l7_tls_parser''
        ''Repeated invalid or missing TLS SNI crossed the configured strike threshold'' (24 * hour),
      rule_def ''TLS.SNI.FOREIGN'' LayerApplicationL7 ''domain_spoofing'' ''high'' 85 False False
        ''l7_tls_parser''
        ''TLS SNI requests domain outside authorized server scope'' (24 * hour),
      rule_def ''TLS.JA3.MALICIOUS'' LayerApplicationL7 ''threat_signature'' ''critical'' 150 True True
        ''l7_tls_parser''
        ''Client TLS handshake matched known malicious JA3 fingerprint'' (48 * hour),
      rule_def ''TLS.JA3.STRUCTURAL_SPOOF'' LayerApplicationL7 ''evasion_detection'' ''high'' 90 False False
        ''l7_tls_parser''
        ''TLS ClientHello simulates browser JA3 but lacks ALPN or GREASE extensions'' (48 * hour),
      rule_def ''TLS.HANDSHAKE.FLOOD'' LayerApplicationL7 ''resource_exhaustion'' ''high'' 95 True True
        ''l7_tls_parser''
        ''Client completed multiple TLS handshakes with zero subsequent HTTP requests'' (24 * hour)]"

definition NewKineticRuleRegistry :: KineticRuleRegistry where
  "NewKineticRuleRegistry = fold (\<lambda>d rules. gm_put (kr_ID d) d rules) (network_rules @ tls_rules) []"

definition rules_Get :: "KineticRuleRegistry \<Rightarrow> string \<Rightarrow> KineticRuleDefinition option" where
  "rules_Get r rid = gm_get r rid"

definition rules_CountLayer :: "KineticRuleRegistry \<Rightarrow> DefenseLayer \<Rightarrow> nat" where
  "rules_CountLayer r layer = fold (\<lambda>(_, d) count. if kr_Layer d = layer then count + 1 else count) r 0"

definition rules_List :: "KineticRuleRegistry \<Rightarrow> KineticRuleDefinition list" where
  "rules_List r = map snd r"

datatype rule_error = RuleIDEmpty | RuleLayerEmpty string

definition rules_Register :: "KineticRuleDefinition \<Rightarrow> KineticRuleRegistry \<Rightarrow> rule_error + KineticRuleRegistry" where
  "rules_Register d r =
     (if kr_ID d = [] then Inl RuleIDEmpty
      else if layer_text (kr_Layer d) = [] then Inl (RuleLayerEmpty (kr_ID d))
      else Inr (gm_put (kr_ID d) d r))"

section \<open>The standard registry\<close>

text \<open>The identifiers are distinct, so the registry holds exactly the listed definitions.\<close>

lemma standard_ids_distinct: "distinct (map kr_ID (network_rules @ tls_rules))"
  by (simp add: network_rules_def tls_rules_def rule_def_def)

lemma fold_put_fresh:
  "distinct (map f ds) \<Longrightarrow> \<forall>d \<in> set ds. f d \<notin> fst ` set acc \<Longrightarrow>
     fold (\<lambda>d m. gm_put (f d) d m) ds acc = acc @ map (\<lambda>d. (f d, d)) ds"
proof (induction ds arbitrary: acc)
  case (Cons d ds)
  then have "gm_put (f d) d acc = acc @ [(f d, d)]" by (intro gm_put_fresh) (simp add: gm_has_iff_fst)
  moreover have "\<forall>d' \<in> set ds. f d' \<notin> fst ` set (acc @ [(f d, d)])"
    using Cons.prems by (auto simp: image_iff)
  ultimately show ?case using Cons.IH [of "acc @ [(f d, d)]"] Cons.prems by simp
qed simp

lemma NewKineticRuleRegistry_alist:
  "NewKineticRuleRegistry = map (\<lambda>d. (kr_ID d, d)) (network_rules @ tls_rules)"
  unfolding NewKineticRuleRegistry_def
  by (subst fold_put_fresh [of kr_ID]) (use standard_ids_distinct in auto)

lemma standard_registry_wf: "gm_wf NewKineticRuleRegistry"
  using standard_ids_distinct by (simp add: NewKineticRuleRegistry_alist gm_wf_def comp_def)

lemma rules_Get_standard:
  "rules_Get NewKineticRuleRegistry rid = Some d \<longleftrightarrow> d \<in> set (network_rules @ tls_rules) \<and> kr_ID d = rid"
  unfolding rules_Get_def gm_wf_get_iff [OF standard_registry_wf]
  by (auto simp: NewKineticRuleRegistry_alist)

lemma count_layer_filter: "rules_CountLayer r layer = length (filter (\<lambda>(_, d). kr_Layer d = layer) r)"
proof -
  have "fold (\<lambda>(_, d) count. if kr_Layer d = layer then count + 1 else count) r n =
      n + length (filter (\<lambda>(_, d). kr_Layer d = layer) r)" for n
    by (induction r arbitrary: n) auto
  then show ?thesis by (simp add: rules_CountLayer_def)
qed

text \<open>The rule table, as the checks a rule must pass to lead to a response.\<close>

lemma standard_rules_all:
  "\<forall>d \<in> set (network_rules @ tls_rules).
     0 < kr_DefaultScore d \<and> kr_DefaultScore d \<le> 150
     \<and> (kr_BlockEligible d \<longrightarrow> kr_ContainEligible d)
     \<and> (kr_ContainEligible d \<longrightarrow> 6 * hour \<le> kr_DefaultTTL d \<and> kr_DefaultTTL d \<le> 48 * hour)
     \<and> layer_text (kr_Layer d) \<noteq> []"
  by (simp add: network_rules_def tls_rules_def rule_def_def)

lemma standard_rules_ineligible:
  "d \<in> set (network_rules @ tls_rules) \<Longrightarrow>
     kr_ID d = ''NET.INGRESS.WIDE_V4'' \<or> kr_ID d = ''NET.INGRESS.THREAT_INTEL_MATCH'' \<Longrightarrow>
     \<not> kr_ContainEligible d \<and> \<not> kr_BlockEligible d"
  by (auto simp: network_rules_def tls_rules_def rule_def_def)

section \<open>Registering\<close>

lemma rules_Register_Inr:
  assumes "rules_Register d r = Inr r'"
  shows "rules_Get r' rid = (if rid = kr_ID d then Some d else rules_Get r rid)" and "gm_wf r \<Longrightarrow> gm_wf r'"
  using assms by (auto simp: rules_Register_def rules_Get_def split: if_splits)

lemma rules_Register_defined:
  "(\<exists>r'. rules_Register d r = Inr r') \<longleftrightarrow> kr_ID d \<noteq> [] \<and> layer_text (kr_Layer d) \<noteq> []"
  by (simp add: rules_Register_def)

lemma rules_List_Get: "gm_wf r \<Longrightarrow> d \<in> set (rules_List r) \<longleftrightarrow> (\<exists>rid. rules_Get r rid = Some d)"
  by (force simp: rules_List_def rules_Get_def gm_wf_get_iff)

section \<open>Properties\<close>

text \<open>
  The standard registry knows each of its rules under its own identifier and no other; a
  rule that may block may also contain; every rule that may contain has a ban time between six and
  forty-eight hours; the /16 campaign rule and the threat-feed match never lead to a response.
\<close>
theorem standard_registry_table:
  assumes "rules_Get NewKineticRuleRegistry rid = Some d"
  shows "kr_ID d = rid \<and> d \<in> set (rules_List NewKineticRuleRegistry)
    \<and> (kr_BlockEligible d \<longrightarrow> kr_ContainEligible d)
    \<and> (kr_ContainEligible d \<longrightarrow> 6 * hour \<le> kr_DefaultTTL d \<and> kr_DefaultTTL d \<le> 48 * hour)
    \<and> (rid \<in> {''NET.INGRESS.WIDE_V4'', ''NET.INGRESS.THREAT_INTEL_MATCH''} \<longrightarrow>
        \<not> kr_ContainEligible d \<and> \<not> kr_BlockEligible d)"
proof -
  from assms have d: "d \<in> set (network_rules @ tls_rules)" and rid: "kr_ID d = rid"
    by (simp_all add: rules_Get_standard)
  from standard_rules_all d have "kr_BlockEligible d \<longrightarrow> kr_ContainEligible d"
    "kr_ContainEligible d \<longrightarrow> 6 * hour \<le> kr_DefaultTTL d \<and> kr_DefaultTTL d \<le> 48 * hour" by blast+
  moreover have "d \<in> set (rules_List NewKineticRuleRegistry)"
    using assms rules_List_Get [OF standard_registry_wf] by blast
  ultimately show ?thesis using standard_rules_ineligible [OF d] rid by blast
qed

theorem standard_registry_table_witness:
  "\<exists>d. rules_Get NewKineticRuleRegistry ''NET.INGRESS.WIDE_V4'' = Some d \<and> \<not> kr_ContainEligible d"
proof -
  let ?d = "rule_def ''NET.INGRESS.WIDE_V4'' LayerIngressNetwork ''botnet_aggregation'' ''critical'' 120 False False
        ''radix_subnet_aggregator'' ''Mass distributed botnet surge across IPv4 /16 sector block'' (24 * hour)"
  have "rules_Get NewKineticRuleRegistry ''NET.INGRESS.WIDE_V4'' = Some ?d"
    by (simp add: rules_Get_standard network_rules_def rule_def_def)
  with standard_registry_table [OF this] show ?thesis by auto
qed

end
