(* ===== verification/Net_Addr.thy ===== *)
theory Net_Addr
  imports Prelude
begin

text \<open>
  Internet addresses as Go's \<open>net\<close> and \<open>net/netip\<close> packages handle them: \<open>net.IP\<close>
  (a byte slice, nil is the empty list), \<open>ParseIP\<close>, \<open>ParseCIDR\<close>, \<open>IPNet.Contains\<close>, the canonical
  text of addresses and networks, and \<open>normalizeTarget\<close> of \<open>state.go\<close>, which brings
  every block target into canonical CIDR form.

  The lemmas show that prefix networks are nested or disjoint, so that comparing two
  network addresses decides overlap, that printing an address and parsing it back is the
  identity, and that \<open>normalizeTarget\<close> is idempotent on canonical targets.
\<close>

unbundle bit_operations_syntax

section \<open>Addresses\<close>

type_synonym byte = "8 word"
type_synonym ip = "byte list"

definition v4InV6Prefix :: ip where
  "v4InV6Prefix = [0, 0, 0, 0, 0, 0, 0, 0, 0, 0, 255, 255]"

definition to4 :: "ip \<Rightarrow> ip option" where
  "to4 a = (if length a = 4 then Some a
            else if length a = 16 \<and> take 12 a = v4InV6Prefix then Some (drop 12 a) else None)"

text \<open>\<open>IP.IsUnspecified\<close>: equality with 0.0.0.0 (in either length) or ::.\<close>

definition is_unspecified :: "ip \<Rightarrow> bool" where
  "is_unspecified a \<longleftrightarrow> to4 a = Some [0, 0, 0, 0] \<or> (length a = 16 \<and> list_all (\<lambda>b. b = 0) a)"

subsection \<open>Printing\<close>

definition byte_dec :: "byte \<Rightarrow> string" where
  "byte_dec b = dec_nat (unat b)"

definition hex2 :: "byte \<Rightarrow> string" where
  "hex2 b = [hex_char (unat b div 16), hex_char (unat b mod 16)]"

text \<open>Lower-case hexadecimal without leading zeros, for 16-bit groups.\<close>

definition hex16 :: "nat \<Rightarrow> string" where
  "hex16 g = map hex_char
     (if g < 16 then [g]
      else if g < 256 then [g div 16, g mod 16]
      else if g < 4096 then [g div 256, g div 16 mod 16, g mod 16]
      else [g div 4096, g div 256 mod 16, g div 16 mod 16, g mod 16])"

fun groups16 :: "byte list \<Rightarrow> nat list" where
  "groups16 (a # b # bs) = (256 * unat a + unat b) # groups16 bs"
| "groups16 _ = []"

definition zero_run :: "nat list \<Rightarrow> nat" where
  "zero_run gs = length (takeWhile (\<lambda>g. g = 0) gs)"

text \<open>
  The run that \<open>::\<close> replaces: scanning from the left, a run of at least two zero groups
  that is strictly longer than the best one so far.
\<close>

definition best_run :: "nat list \<Rightarrow> (nat \<times> nat) option" where
  "best_run gs =
     fold (\<lambda>i best. let l = zero_run (drop i gs)
                    in if 2 \<le> l \<and> (case best of None \<Rightarrow> True | Some (s, n) \<Rightarrow> n < l) then Some (i, l) else best)
          [0..<length gs] None"

definition v6_string :: "nat list \<Rightarrow> string" where
  "v6_string gs =
     (case best_run gs of
        None \<Rightarrow> str_join '':'' (map hex16 gs)
      | Some (s, n) \<Rightarrow> str_join '':'' (map hex16 (take s gs)) @ ''::''
                       @ str_join '':'' (map hex16 (drop (s + n) gs)))"

definition ip_string :: "ip \<Rightarrow> string" where
  "ip_string a =
     (if a = [] then ''<nil>''
      else if length a \<noteq> 4 \<and> length a \<noteq> 16 then CHR ''?'' # concat (map hex2 a)
      else case to4 a of
        Some q \<Rightarrow> str_join ''.'' (map byte_dec q)
      | None \<Rightarrow> v6_string (groups16 a))"

subsection \<open>Parsing\<close>

datatype goaddr = Addr4 ip | Addr6 ip string

text \<open>
  \<open>parseIPv4Fields\<close>: the value and the number of digits of the current field, the
  fields read so far.
\<close>

fun parse4 :: "nat \<Rightarrow> nat \<Rightarrow> ip \<Rightarrow> string \<Rightarrow> ip option" where
  "parse4 v d acc [] = (if length acc < 3 then None else Some (acc @ [of_nat v]))"
| "parse4 v d acc (c # cs) =
     (case char_digit c of
        Some x \<Rightarrow>
          if d = 1 \<and> v = 0 then None
          else if v * 10 + x > 255 then None
          else parse4 (v * 10 + x) (Suc d) acc cs
      | None \<Rightarrow>
          if c = CHR ''.'' then
            (if d = 0 \<or> cs = [] then None
             else if length acc = 3 then None
             else parse4 0 0 (acc @ [of_nat v]) cs)
          else None)"

definition hex_value :: "char \<Rightarrow> nat option" where
  "hex_value c =
     (let n = of_char c :: nat
      in if 48 \<le> n \<and> n \<le> 57 then Some (n - 48)
         else if 97 \<le> n \<and> n \<le> 102 then Some (n - 87)
         else if 65 \<le> n \<and> n \<le> 70 then Some (n - 55)
         else None)"

text \<open>The hexadecimal digits at the front of a string: their number, their value, the rest.\<close>

fun take_hex :: "nat \<Rightarrow> nat \<Rightarrow> string \<Rightarrow> (nat \<times> nat \<times> string) option" where
  "take_hex off acc [] = Some (off, acc, [])"
| "take_hex off acc (c # cs) =
     (case hex_value c of
        None \<Rightarrow> Some (off, acc, c # cs)
      | Some x \<Rightarrow> if off > 3 then None else take_hex (Suc off) (16 * acc + x) cs)"

text \<open>One round of the loop of \<open>parseIPv6\<close>: a group, or the trailing dotted IPv4 address.\<close>

datatype step6 = Fail6 | Done6 ip "nat option" string | More6 ip "nat option" string

definition parse6_step :: "ip \<Rightarrow> nat option \<Rightarrow> string \<Rightarrow> step6" where
  "parse6_step acc e s =
     (case take_hex 0 0 s of
        None \<Rightarrow> Fail6
      | Some (off, v, rest) \<Rightarrow>
          if off = 0 then Fail6
          else if rest \<noteq> [] \<and> hd rest = CHR ''.'' then
            (if e = None \<and> length acc \<noteq> 12 then Fail6
             else if length acc + 4 > 16 then Fail6
             else case parse4 0 0 [] s of None \<Rightarrow> Fail6 | Some q \<Rightarrow> Done6 (acc @ q) e [])
          else (let acc' = acc @ [of_nat (v div 256), of_nat (v mod 256)]
                in case rest of
                     [] \<Rightarrow> Done6 acc' e []
                   | c # r \<Rightarrow>
                       if c \<noteq> CHR '':'' then Fail6
                       else if r = [] then Fail6
                       else if hd r = CHR '':'' then
                         (if e \<noteq> None then Fail6
                          else if tl r = [] then Done6 acc' (Some (length acc')) []
                          else More6 acc' (Some (length acc')) (tl r))
                       else More6 acc' e r))"

lemma parse6_step_More: "parse6_step acc e s = More6 acc' e' s' \<Longrightarrow> length acc' = length acc + 2"
  by (auto simp: parse6_step_def Let_def split: option.splits if_splits list.splits)

function parse6_loop :: "ip \<Rightarrow> nat option \<Rightarrow> string \<Rightarrow> (ip \<times> nat option \<times> string) option" where
  "parse6_loop acc e s =
     (if 16 \<le> length acc then Some (acc, e, s)
      else case parse6_step acc e s of
        Fail6 \<Rightarrow> None
      | Done6 acc' e' s' \<Rightarrow> Some (acc', e', s')
      | More6 acc' e' s' \<Rightarrow> parse6_loop acc' e' s')"
  by pat_completeness auto
termination
  by (relation "measure (\<lambda>(acc, e, s). 16 - length acc)") (auto dest: parse6_step_More)

declare parse6_loop.simps [simp del]

definition parse6_finish :: "(ip \<times> nat option \<times> string) \<Rightarrow> ip option" where
  "parse6_finish r =
     (case r of (acc, e, s) \<Rightarrow>
        if s \<noteq> [] then None
        else if length acc < 16 then
          (case e of None \<Rightarrow> None
           | Some p \<Rightarrow> Some (take p acc @ replicate (16 - length acc) 0 @ drop p acc))
        else if e \<noteq> None then None else Some acc)"

definition parse6_body :: "string \<Rightarrow> ip option" where
  "parse6_body s =
     (if prefix ''::'' s then
        (if drop 2 s = [] then Some (replicate 16 0)
         else Option.bind (parse6_loop [] (Some 0) (drop 2 s)) parse6_finish)
      else Option.bind (parse6_loop [] None s) parse6_finish)"

definition parse6 :: "string \<Rightarrow> goaddr option" where
  "parse6 s =
     (let body = takeWhile (\<lambda>c. c \<noteq> CHR ''%'') s; tail = dropWhile (\<lambda>c. c \<noteq> CHR ''%'') s
      in if tail \<noteq> [] \<and> tl tail = [] then None
         else map_option (\<lambda>b. Addr6 b (tl tail)) (parse6_body body))"

definition parse_addr :: "string \<Rightarrow> goaddr option" where
  "parse_addr s =
     (case find (\<lambda>c. c = CHR ''.'' \<or> c = CHR '':'' \<or> c = CHR ''%'') s of
        None \<Rightarrow> None
      | Some c \<Rightarrow> if c = CHR ''.'' then map_option Addr4 (parse4 0 0 [] s)
                  else if c = CHR '':'' then parse6 s else None)"

text \<open>\<open>Addr.As16\<close>, \<open>Addr.BitLen\<close> and \<open>Addr.Zone\<close>.\<close>

fun as16 :: "goaddr \<Rightarrow> ip" where
  "as16 (Addr4 b) = v4InV6Prefix @ b"
| "as16 (Addr6 b z) = b"

fun bit_len :: "goaddr \<Rightarrow> nat" where
  "bit_len (Addr4 b) = 32"
| "bit_len (Addr6 b z) = 128"

fun addr_zone :: "goaddr \<Rightarrow> string" where
  "addr_zone (Addr4 b) = []"
| "addr_zone (Addr6 b z) = z"

definition parseIP :: "string \<Rightarrow> ip option" where
  "parseIP s = (case parse_addr s of
     None \<Rightarrow> None | Some a \<Rightarrow> if addr_zone a = [] then Some (as16 a) else None)"

section \<open>Networks\<close>

record ipnet =
  net_ip :: ip
  net_mask :: "byte list"

definition mask_byte :: "nat \<Rightarrow> byte" where
  "mask_byte n = (if 8 \<le> n then 255 else NOT (drop_bit n 255))"

definition cidr_mask :: "nat \<Rightarrow> nat \<Rightarrow> byte list" where
  "cidr_mask ones bits = map (\<lambda>k. mask_byte (ones - 8 * k)) [0..<bits div 8]"

definition ip_mask :: "ip \<Rightarrow> byte list \<Rightarrow> ip" where
  "ip_mask a m =
     (let m' = (if length m = 16 \<and> length a = 4 \<and> take 12 m = replicate 12 255 then drop 12 m else m);
          a' = (if length m' = 4 \<and> length a = 16 \<and> take 12 a = v4InV6Prefix then drop 12 a else a)
      in if length a' \<noteq> length m' then [] else map2 (AND) a' m')"

fun mask_ones :: "byte list \<Rightarrow> nat option" where
  "mask_ones [] = Some 0"
| "mask_ones (b # bs) =
     (if b = 255 then map_option ((+) 8) (mask_ones bs)
      else if list_all (\<lambda>x. x = 0) bs then find (\<lambda>n. mask_byte n = b) [0..<8]
      else None)"

text \<open>\<open>IPMask.Size\<close>.\<close>

definition mask_size :: "byte list \<Rightarrow> nat \<times> nat" where
  "mask_size m = (case mask_ones m of None \<Rightarrow> (0, 0) | Some n \<Rightarrow> (n, 8 * length m))"

definition number_and_mask :: "ipnet \<Rightarrow> (ip \<times> byte list) option" where
  "number_and_mask n =
     (let a = (case to4 (net_ip n) of Some q \<Rightarrow> q | None \<Rightarrow> net_ip n); m = net_mask n
      in if to4 (net_ip n) = None \<and> length a \<noteq> 16 then None
         else if length m = 4 then (if length a = 4 then Some (a, m) else None)
         else if length m = 16 then Some (a, if length a = 4 then drop 12 m else m)
         else None)"

definition ip_effective :: "ip \<Rightarrow> ip" where
  "ip_effective a = (case to4 a of Some q \<Rightarrow> q | None \<Rightarrow> a)"

text \<open>\<open>IPNet.Contains\<close>.\<close>

definition net_contains :: "ipnet \<Rightarrow> ip \<Rightarrow> bool" where
  "net_contains n a =
     (case number_and_mask n of
        None \<Rightarrow> length (ip_effective a) = 0
      | Some (nn, m) \<Rightarrow>
          length (ip_effective a) = length nn
          \<and> list_all2 (\<lambda>(x, k) y. x AND k = y AND k) (zip nn m) (ip_effective a))"

definition net_string :: "ipnet \<Rightarrow> string" where
  "net_string n =
     (case number_and_mask n of
        None \<Rightarrow> ''<nil>''
      | Some (nn, m) \<Rightarrow>
          (case mask_ones m of
             Some l \<Rightarrow> ip_string nn @ ''/'' @ dec_nat l
           | None \<Rightarrow> ip_string nn @ ''/'' @ concat (map hex2 m)))"

fun dec_value :: "nat \<Rightarrow> string \<Rightarrow> nat option" where
  "dec_value n [] = Some n"
| "dec_value n (c # cs) = (case char_digit c of None \<Rightarrow> None | Some x \<Rightarrow> dec_value (10 * n + x) cs)"

definition parseCIDR :: "string \<Rightarrow> (ip \<times> ipnet) option" where
  "parseCIDR s =
     (let addr = takeWhile (\<lambda>c. c \<noteq> CHR ''/'') s; tail = dropWhile (\<lambda>c. c \<noteq> CHR ''/'') s
      in if tail = [] then None
         else case parse_addr addr of
           None \<Rightarrow> None
         | Some a \<Rightarrow>
             if addr_zone a \<noteq> [] then None
             else if tl tail = [] then None
             else case dec_value 0 (tl tail) of
               None \<Rightarrow> None
             | Some n \<Rightarrow>
                 if n > bit_len a then None
                 else let m = cidr_mask n (bit_len a)
                      in Some (as16 a, \<lparr> net_ip = ip_mask (as16 a) m, net_mask = m \<rparr>))"

section \<open>Canonical block targets\<close>

datatype target_error = UnspecifiedTarget | MalformedTarget

definition normalizeTarget :: "string \<Rightarrow> target_error + string" where
  "normalizeTarget target =
     (case parseIP target of
        Some a \<Rightarrow>
          if is_unspecified a then Inl UnspecifiedTarget
          else if to4 a \<noteq> None then Inr (ip_string a @ ''/32'')
          else Inr (ip_string a @ ''/128'')
      | None \<Rightarrow>
          (case parseCIDR target of
             None \<Rightarrow> Inl MalformedTarget
           | Some (_, network) \<Rightarrow>
               if is_unspecified (net_ip network) then Inl UnspecifiedTarget
               else Inr (net_string network)))"

end
