(* ===== verification/Kinetic_Windows.thy ===== *)
theory Kinetic_Windows
  imports Kinetic_Types Net_Addr
begin

text \<open>
  The rolling windows of Kinetic Defense: \<open>control/kinetic_live.go\<close> (window specifications, the
  per-second and per-minute traffic history, \<open>TrafficWindow\<close>, \<open>sourceWindowCountsLocked\<close>) and the
  per-source windows of \<open>control/kinetic_engine.go\<close> (\<open>recordLongWindowsLocked\<close>,
  \<open>windowHitsLocked\<close>).

  Every window is a ring of slots: slot \<open>epoch mod size\<close> holds the counters of one epoch and is
  reset when another epoch takes it over. The locale \<open>ring_window\<close> states this contract once, for
  counters that wrap or saturate, and proves that summing the slots whose epoch lies in a
  window of at most \<open>size\<close> epochs gives the exact (wrapped or saturated) totals of the samples
  recorded in it, when samples arrive in epoch order. It is interpreted for the second and
  the minute history of the engine and for the five-minute and the hourly ring of a source.

  Go \<open>int\<close> counters are unbounded integers here (they would need \<open>2^63\<close> packets to overflow);
  the \<open>uint16\<close>, \<open>uint32\<close> and \<open>uint64\<close> counters are words.
\<close>

section \<open>Window specifications\<close>

record KineticWindowSpec =
  ws_Name :: string
  ws_Duration :: duration

definition parseKineticWindow :: "string \<Rightarrow> KineticWindowSpec option" where
  "parseKineticWindow raw =
     (let w = map to_lower_char (trim_space raw)
      in if w = [] \<or> w = ''live'' then Some \<lparr> ws_Name = ''live'', ws_Duration = minute \<rparr>
         else if w = ''1m'' then Some \<lparr> ws_Name = ''1m'', ws_Duration = minute \<rparr>
         else if w = ''5m'' then Some \<lparr> ws_Name = ''5m'', ws_Duration = 5 * minute \<rparr>
         else if w = ''15m'' then Some \<lparr> ws_Name = ''15m'', ws_Duration = 15 * minute \<rparr>
         else if w = ''1h'' then Some \<lparr> ws_Name = ''1h'', ws_Duration = hour \<rparr>
         else if w = ''24h'' then Some \<lparr> ws_Name = ''24h'', ws_Duration = 24 * hour \<rparr>
         else None)"

definition positiveRingIndex :: "int \<Rightarrow> int \<Rightarrow> nat" where
  "positiveRingIndex epoch n =
     (if n \<le> 0 then 0
      else let idx = go_mod epoch n in nat (if idx < 0 then idx + n else idx))"

definition addUint16Saturating :: "16 word \<Rightarrow> int \<Rightarrow> 16 word" where
  "addUint16Saturating dst v =
     (if v \<le> 0 then dst
      else let remaining = uint (65535 - dst);
               v = (if v > remaining then remaining else v)
           in if v > 0 then dst + of_int v else dst)"

definition addUint32Saturating :: "32 word \<Rightarrow> int \<Rightarrow> 32 word" where
  "addUint32Saturating dst v =
     (if v \<le> 0 then dst
      else let remaining = uint (4294967295 - dst);
               add = (if v > remaining then remaining else v)
           in dst + of_int add)"

definition maxInt :: "int \<Rightarrow> int \<Rightarrow> int" where "maxInt a b = (if a > b then a else b)"
definition minInt :: "int \<Rightarrow> int \<Rightarrow> int" where "minInt a b = (if a < b then a else b)"

section \<open>Traffic history of the engine\<close>

record KineticTrafficBucket =
  tb_Epoch :: int
  tb_Hits :: "64 word"
  tb_Attempts :: "64 word"
  tb_SYNs :: "64 word"
  tb_ACKs :: "64 word"

definition traffic_bucket :: "int \<Rightarrow> KineticTrafficBucket" where
  "traffic_bucket e = \<lparr> tb_Epoch = e, tb_Hits = 0, tb_Attempts = 0, tb_SYNs = 0, tb_ACKs = 0 \<rparr>"

text \<open>The fields of \<open>KineticEngine\<close> that hold the history; the engine record extends this one.\<close>

record kinetic_history =
  kh_secondHistory :: "KineticTrafficBucket list"
  kh_minuteHistory :: "KineticTrafficBucket list"
  kh_startedAt :: gotime

definition history_wf :: "'a kinetic_history_scheme \<Rightarrow> bool" where
  "history_wf e \<longleftrightarrow> length (kh_secondHistory e) = 60 \<and> length (kh_minuteHistory e) = 1441"

definition record_slot :: "int \<Rightarrow> int \<Rightarrow> int \<Rightarrow> int \<Rightarrow> int \<Rightarrow> KineticTrafficBucket list \<Rightarrow> KineticTrafficBucket list" where
  "record_slot epoch hits attempts syns acks ring =
     (let idx = positiveRingIndex epoch (int (length ring));
          b = (if tb_Epoch (ring ! idx) \<noteq> epoch then traffic_bucket epoch else ring ! idx)
      in ring[idx := b\<lparr> tb_Hits := tb_Hits b + of_int (maxInt hits 0),
                        tb_Attempts := tb_Attempts b + of_int (maxInt attempts 0),
                        tb_SYNs := tb_SYNs b + of_int (maxInt syns 0),
                        tb_ACKs := tb_ACKs b + of_int (maxInt acks 0) \<rparr>])"

definition recordTrafficHistoryLocked ::
    "int \<Rightarrow> int \<Rightarrow> int \<Rightarrow> int \<Rightarrow> int \<Rightarrow> 'a kinetic_history_scheme \<Rightarrow> 'a kinetic_history_scheme" where
  "recordTrafficHistoryLocked secEpoch hits attempts syns acks e =
     (if secEpoch \<le> 0 \<or> hits \<le> 0 then e
      else e\<lparr> kh_secondHistory := record_slot secEpoch hits attempts syns acks (kh_secondHistory e),
             kh_minuteHistory := record_slot (go_div secEpoch 60) hits attempts syns acks (kh_minuteHistory e) \<rparr>)"

record KineticTrafficWindow =
  tw_Name :: string
  tw_Seconds :: int
  tw_GeneratedAt :: gotime
  tw_Hits :: "64 word"
  tw_Attempts :: "64 word"
  tw_SYNs :: "64 word"
  tw_ACKs :: "64 word"
  tw_BucketResolution :: string
  tw_HistoryComplete :: bool
  tw_RuntimeSeconds :: int

definition add_traffic :: "(KineticTrafficBucket \<Rightarrow> bool) \<Rightarrow> KineticTrafficBucket list
    \<Rightarrow> KineticTrafficWindow \<Rightarrow> KineticTrafficWindow" where
  "add_traffic sel ring out =
     fold (\<lambda>b out. if sel b then out\<lparr> tw_Hits := tw_Hits out + tb_Hits b,
                                      tw_Attempts := tw_Attempts out + tb_Attempts b,
                                      tw_SYNs := tw_SYNs out + tb_SYNs b,
                                      tw_ACKs := tw_ACKs out + tb_ACKs b \<rparr> else out) ring out"

text \<open>
  \<open>TrafficWindow\<close>. The parameter \<open>clock\<close> is the reading of \<open>time.Now\<close> that replaces a zero
  \<open>now\<close>. \<open>int64(d.Seconds())\<close> truncates the duration to whole seconds.
\<close>

definition TrafficWindow ::
    "gotime \<Rightarrow> KineticWindowSpec \<Rightarrow> gotime \<Rightarrow> 'a kinetic_history_scheme \<Rightarrow> KineticTrafficWindow" where
  "TrafficWindow clock spec now e =
     (let now = (if time_is_zero now then clock else now);
          runtime = go_div (time_sub now (kh_startedAt e)) second;
          out = \<lparr> tw_Name = ws_Name spec, tw_Seconds = go_div (ws_Duration spec) second, tw_GeneratedAt = now,
                  tw_Hits = 0, tw_Attempts = 0, tw_SYNs = 0, tw_ACKs = 0, tw_BucketResolution = ''60s'',
                  tw_HistoryComplete = (\<not> time_is_zero (kh_startedAt e)
                     \<and> time_sub now (kh_startedAt e) \<ge> ws_Duration spec),
                  tw_RuntimeSeconds = (if runtime < 0 then 0 else runtime) \<rparr>
      in if ws_Duration spec \<le> minute then
           let cutoff = time_unix now - go_div (ws_Duration spec) second + 1
           in add_traffic (\<lambda>b. tb_Epoch b \<ge> cutoff \<and> tb_Epoch b \<le> time_unix now) (kh_secondHistory e)
                (out\<lparr> tw_BucketResolution := ''1s'' \<rparr>)
         else
           let cutoffUnix = time_unix (time_add now (- ws_Duration spec)); nowUnix = time_unix now
           in add_traffic (\<lambda>b. tb_Epoch b > 0 \<and> tb_Epoch b * 60 + 59 \<ge> cutoffUnix \<and> tb_Epoch b * 60 \<le> nowUnix)
                (kh_minuteHistory e) out)"

section \<open>Per-source windows\<close>

record IPTrackingBucket =
  ib_SrcIP :: ip
  ib_IsV6 :: bool
  ib_Hits :: int
  ib_Attempts :: int
  ib_Attempts1m :: int
  ib_WindowHits :: int
  ib_Velocity1s :: int
  ib_CurrentSecEpoch :: int
  ib_LastSeen :: gotime
  ib_FirstSeen :: gotime
  ib_PortsSeen :: "(16 word, bool) gomap"
  ib_PortAttempts :: "(16 word, 16 word) gomap"
  ib_SYNCount :: int
  ib_ACKCount :: int
  ib_SYN1m :: int
  ib_ACK1m :: int
  ib_MalformedCount :: int
  ib_Score :: int
  ib_LastStrikeRule :: string
  ib_LastStrikeAt :: gotime
  ib_RuleLastSeen :: "(string, gotime) gomap"
  ib_CurrentMinute :: int
  ib_LastWindowEpoch :: int
  ib_Hits1m :: int
  ib_FiveMinEpochs :: "int list"
  ib_FiveMinHits :: "16 word list"
  ib_FiveMinAttempts :: "16 word list"
  ib_FiveMinSYNs :: "16 word list"
  ib_FiveMinACKs :: "16 word list"
  ib_HourlyEpochs :: "int list"
  ib_HourlyHits :: "32 word list"
  ib_HourlyAttempts :: "32 word list"
  ib_HourlySYNs :: "32 word list"
  ib_HourlyACKs :: "32 word list"

text \<open>The Go zero value of the record: arrays of zeros, empty maps.\<close>

definition empty_bucket :: IPTrackingBucket where
  "empty_bucket = \<lparr> ib_SrcIP = [], ib_IsV6 = False, ib_Hits = 0, ib_Attempts = 0, ib_Attempts1m = 0,
     ib_WindowHits = 0, ib_Velocity1s = 0, ib_CurrentSecEpoch = 0, ib_LastSeen = 0, ib_FirstSeen = 0,
     ib_PortsSeen = [], ib_PortAttempts = [], ib_SYNCount = 0, ib_ACKCount = 0, ib_SYN1m = 0, ib_ACK1m = 0,
     ib_MalformedCount = 0, ib_Score = 0, ib_LastStrikeRule = [], ib_LastStrikeAt = 0, ib_RuleLastSeen = [],
     ib_CurrentMinute = 0, ib_LastWindowEpoch = 0, ib_Hits1m = 0,
     ib_FiveMinEpochs = replicate 13 0, ib_FiveMinHits = replicate 13 0, ib_FiveMinAttempts = replicate 13 0,
     ib_FiveMinSYNs = replicate 13 0, ib_FiveMinACKs = replicate 13 0,
     ib_HourlyEpochs = replicate 25 0, ib_HourlyHits = replicate 25 0, ib_HourlyAttempts = replicate 25 0,
     ib_HourlySYNs = replicate 25 0, ib_HourlyACKs = replicate 25 0 \<rparr>"

definition rings_wf :: "IPTrackingBucket \<Rightarrow> bool" where
  "rings_wf b \<longleftrightarrow>
     length (ib_FiveMinEpochs b) = 13 \<and> length (ib_FiveMinHits b) = 13 \<and> length (ib_FiveMinAttempts b) = 13
     \<and> length (ib_FiveMinSYNs b) = 13 \<and> length (ib_FiveMinACKs b) = 13
     \<and> length (ib_HourlyEpochs b) = 25 \<and> length (ib_HourlyHits b) = 25 \<and> length (ib_HourlyAttempts b) = 25
     \<and> length (ib_HourlySYNs b) = 25 \<and> length (ib_HourlyACKs b) = 25"

text \<open>The one-minute counters.\<close>

definition record_minute :: "int \<Rightarrow> int \<Rightarrow> int \<Rightarrow> int \<Rightarrow> int \<Rightarrow> IPTrackingBucket \<Rightarrow> IPTrackingBucket" where
  "record_minute windowEpoch hits attempts syns acks bucket =
     (let m = go_div windowEpoch 60;
          b = (if ib_CurrentMinute bucket \<noteq> m
               then bucket\<lparr> ib_CurrentMinute := m, ib_Hits1m := 0, ib_Attempts1m := 0, ib_SYN1m := 0, ib_ACK1m := 0 \<rparr>
               else bucket)
      in b\<lparr> ib_Hits1m := ib_Hits1m b + hits, ib_Attempts1m := ib_Attempts1m b + attempts,
            ib_SYN1m := ib_SYN1m b + syns, ib_ACK1m := ib_ACK1m b + acks,
            ib_LastWindowEpoch := windowEpoch \<rparr>)"

definition record_five :: "int \<Rightarrow> int \<Rightarrow> int \<Rightarrow> int \<Rightarrow> int \<Rightarrow> IPTrackingBucket \<Rightarrow> IPTrackingBucket" where
  "record_five windowEpoch hits attempts syns acks bucket =
     (let five = go_div windowEpoch 300;
          idx = positiveRingIndex five (int (length (ib_FiveMinHits bucket)));
          b = (if ib_FiveMinEpochs bucket ! idx \<noteq> five
               then bucket\<lparr> ib_FiveMinEpochs := (ib_FiveMinEpochs bucket)[idx := five],
                            ib_FiveMinHits := (ib_FiveMinHits bucket)[idx := 0],
                            ib_FiveMinAttempts := (ib_FiveMinAttempts bucket)[idx := 0],
                            ib_FiveMinSYNs := (ib_FiveMinSYNs bucket)[idx := 0],
                            ib_FiveMinACKs := (ib_FiveMinACKs bucket)[idx := 0] \<rparr>
               else bucket)
      in b\<lparr> ib_FiveMinHits := (ib_FiveMinHits b)[idx := addUint16Saturating (ib_FiveMinHits b ! idx) hits],
            ib_FiveMinAttempts := (ib_FiveMinAttempts b)[idx := addUint16Saturating (ib_FiveMinAttempts b ! idx) attempts],
            ib_FiveMinSYNs := (ib_FiveMinSYNs b)[idx := addUint16Saturating (ib_FiveMinSYNs b ! idx) syns],
            ib_FiveMinACKs := (ib_FiveMinACKs b)[idx := addUint16Saturating (ib_FiveMinACKs b ! idx) acks] \<rparr>)"

definition record_hour :: "int \<Rightarrow> int \<Rightarrow> int \<Rightarrow> int \<Rightarrow> int \<Rightarrow> IPTrackingBucket \<Rightarrow> IPTrackingBucket" where
  "record_hour windowEpoch hits attempts syns acks bucket =
     (let hr = go_div windowEpoch 3600;
          idx = positiveRingIndex hr (int (length (ib_HourlyHits bucket)));
          b = (if ib_HourlyEpochs bucket ! idx \<noteq> hr
               then bucket\<lparr> ib_HourlyEpochs := (ib_HourlyEpochs bucket)[idx := hr],
                            ib_HourlyHits := (ib_HourlyHits bucket)[idx := 0],
                            ib_HourlyAttempts := (ib_HourlyAttempts bucket)[idx := 0],
                            ib_HourlySYNs := (ib_HourlySYNs bucket)[idx := 0],
                            ib_HourlyACKs := (ib_HourlyACKs bucket)[idx := 0] \<rparr>
               else bucket)
      in b\<lparr> ib_HourlyHits := (ib_HourlyHits b)[idx := addUint32Saturating (ib_HourlyHits b ! idx) hits],
            ib_HourlyAttempts := (ib_HourlyAttempts b)[idx := addUint32Saturating (ib_HourlyAttempts b ! idx) attempts],
            ib_HourlySYNs := (ib_HourlySYNs b)[idx := addUint32Saturating (ib_HourlySYNs b ! idx) syns],
            ib_HourlyACKs := (ib_HourlyACKs b)[idx := addUint32Saturating (ib_HourlyACKs b ! idx) acks] \<rparr>)"

definition recordLongWindowsLocked ::
    "int \<Rightarrow> int \<Rightarrow> int \<Rightarrow> int \<Rightarrow> int \<Rightarrow> IPTrackingBucket \<Rightarrow> IPTrackingBucket" where
  "recordLongWindowsLocked windowEpoch hits attempts syns acks bucket =
     (if hits \<le> 0 then bucket
      else record_hour windowEpoch hits attempts syns acks
             (record_five windowEpoch hits attempts syns acks
               (record_minute windowEpoch hits attempts syns acks bucket)))"

definition windowHitsLocked :: "IPTrackingBucket \<Rightarrow> duration \<Rightarrow> int" where
  "windowHitsLocked bucket window =
     (if window \<le> 0 then 0
      else if window \<le> minute then ib_Hits1m bucket
      else let nowFive = go_div (ib_LastWindowEpoch bucket) 300;
               nowFive = (if nowFive = 0 then go_div (time_unix (ib_LastSeen bucket)) 300 else nowFive);
               buckets = go_div (wrap64 (wrap64 (window + 5 * minute) - 1)) (5 * minute);
               buckets = (if buckets > int (length (ib_FiveMinHits bucket))
                          then int (length (ib_FiveMinHits bucket)) else buckets)
           in fold (\<lambda>i total. let epoch = ib_FiveMinEpochs bucket ! i
                     in if epoch > 0 \<and> nowFive - epoch \<ge> 0 \<and> nowFive - epoch < buckets
                        then total + uint (ib_FiveMinHits bucket ! i) else total)
                [0..<length (ib_FiveMinHits bucket)] 0)"

text \<open>The four sums of \<open>sourceWindowCountsLocked\<close> over one ring.\<close>

definition ring_counts :: "int \<Rightarrow> int \<Rightarrow> int \<Rightarrow> int list \<Rightarrow> ('w :: len) word list \<Rightarrow> 'w word list \<Rightarrow> 'w word list
    \<Rightarrow> 'w word list \<Rightarrow> int \<times> int \<times> int \<times> int" where
  "ring_counts width cutoffUnix nowUnix epochs hits attempts syns acks =
     fold (\<lambda>i (h, a, s, k).
             let epoch = epochs ! i; bucketStart = epoch * width; bucketEnd = bucketStart + (width - 1)
             in if epoch > 0 \<and> bucketEnd \<ge> cutoffUnix \<and> bucketStart \<le> nowUnix
                then (h + uint (hits ! i), a + uint (attempts ! i), s + uint (syns ! i), k + uint (acks ! i))
                else (h, a, s, k))
       [0..<length hits] (0, 0, 0, 0)"

definition sourceWindowCountsLocked ::
    "IPTrackingBucket \<Rightarrow> KineticWindowSpec \<Rightarrow> gotime \<Rightarrow> int \<times> int \<times> int \<times> int" where
  "sourceWindowCountsLocked bucket spec now =
     (if time_is_zero now \<or> ws_Duration spec \<le> 0 then (0, 0, 0, 0)
      else if time_sub now (ib_LastSeen bucket) > ws_Duration spec then (0, 0, 0, 0)
      else if ws_Duration spec \<le> minute then
        (if ib_CurrentMinute bucket = go_div (time_unix now) 60
         then (ib_Hits1m bucket, ib_Attempts1m bucket, ib_SYN1m bucket, ib_ACK1m bucket) else (0, 0, 0, 0))
      else
        let cutoffUnix = time_unix (time_add now (- ws_Duration spec)); nowUnix = time_unix now
        in if ws_Duration spec \<le> hour
           then ring_counts 300 cutoffUnix nowUnix (ib_FiveMinEpochs bucket) (ib_FiveMinHits bucket)
                  (ib_FiveMinAttempts bucket) (ib_FiveMinSYNs bucket) (ib_FiveMinACKs bucket)
           else ring_counts 3600 cutoffUnix nowUnix (ib_HourlyEpochs bucket) (ib_HourlyHits bucket)
                  (ib_HourlyAttempts bucket) (ib_HourlySYNs bucket) (ib_HourlyACKs bucket))"

section \<open>Ring arithmetic and saturating counters\<close>

lemma positiveRingIndex_mod: "0 < n \<Longrightarrow> positiveRingIndex e n = nat (e mod n)"
proof (cases "0 \<le> e")
  case True
  assume n: "0 < n"
  then have "\<not> e mod n < 0" by (meson not_less pos_mod_sign)
  with True n show ?thesis by (simp add: positiveRingIndex_def go_mod_nonneg Let_def)
next
  case False
  assume n: "0 < n"
  with False have m: "go_mod e n = - ((- e) mod n)" by (simp add: go_mod_neg)
  have bounds: "0 \<le> (- e) mod n" "(- e) mod n < n" using n by simp_all
  have "e mod n = (if (- e) mod n = 0 then 0 else n - (- e) mod n)"
    using zmod_zminus1_eq_if [of "- e" n] by simp
  with m n bounds show ?thesis by (auto simp: positiveRingIndex_def Let_def)
qed

lemma positiveRingIndex_less: "0 < n \<Longrightarrow> positiveRingIndex e (int n) < n"
  by (simp add: positiveRingIndex_mod nat_less_iff)

lemma uint_add_small:
  fixes d :: "('w :: len) word"
  assumes "0 \<le> v" and "uint d + v < 2 ^ LENGTH('w)"
  shows "uint (d + of_int v) = uint d + v"
proof -
  have "v < 2 ^ LENGTH('w)" using assms by (smt (verit) unsigned_greater_eq)
  then have "uint (of_int v :: 'w word) = v" using assms(1)
    by (simp add: unsigned_of_int take_bit_int_eq_self)
  then show ?thesis using assms by (simp add: uint_plus_if')
qed

lemma uint_addUint16: "uint (addUint16Saturating d v) = min 65535 (uint d + max 0 v)"
proof -
  have b: "0 \<le> uint d" "uint d \<le> 65535" using unsigned_less [of d, where ?'a = int] by auto
  have r: "uint (65535 - d) = 65535 - uint d" using b by (simp add: uint_sub_if')
  show ?thesis
    using b by (auto simp: addUint16Saturating_def r Let_def uint_add_small)
qed

lemma uint_addUint32: "uint (addUint32Saturating d v) = min 4294967295 (uint d + max 0 v)"
proof -
  have b: "0 \<le> uint d" "uint d \<le> 4294967295" using unsigned_less [of d, where ?'a = int] by auto
  have r: "uint (4294967295 - d) = 4294967295 - uint d" using b by (simp add: uint_sub_if')
  show ?thesis
    using b by (auto simp: addUint32Saturating_def r Let_def uint_add_small)
qed

section \<open>The contract of a ring of epochs\<close>

datatype counter = HitsC | AttemptsC | SYNsC | ACKsC

lemma mod_eq_close: "(a :: int) mod n = b mod n \<Longrightarrow> a \<le> b \<Longrightarrow> b < a + n \<Longrightarrow> a = b"
proof -
  assume "a mod n = b mod n" "a \<le> b" "b < a + n"
  then have "n dvd b - a" "0 \<le> b - a" "b - a < n" by (auto simp: mod_eq_dvd_iff dvd_diff_commute)
  then show "a = b" using zdvd_imp_le [of n "b - a"] by fastforce
qed

locale ring_window =
  fixes epoch_at :: "'r \<Rightarrow> nat \<Rightarrow> int" and count_at :: "counter \<Rightarrow> 'r \<Rightarrow> nat \<Rightarrow> nat"
    and rec :: "int \<Rightarrow> 'x \<Rightarrow> 'r \<Rightarrow> 'r" and key :: "int \<Rightarrow> int" and n :: nat
    and amount :: "counter \<Rightarrow> 'x \<Rightarrow> nat" and clip :: "nat \<Rightarrow> nat" and ok :: "int \<Rightarrow> 'x \<Rightarrow> bool"
    and wf :: "'r \<Rightarrow> bool"
  assumes n_pos: "0 < n"
    and wf_rec: "wf r \<Longrightarrow> ok e x \<Longrightarrow> wf (rec e x r)"
    and epoch_rec: "wf r \<Longrightarrow> ok e x \<Longrightarrow> i < n \<Longrightarrow>
       epoch_at (rec e x r) i = (if i = nat (key e mod int n) then key e else epoch_at r i)"
    and count_rec: "wf r \<Longrightarrow> ok e x \<Longrightarrow> i < n \<Longrightarrow> count_at f (rec e x r) i =
       (if i = nat (key e mod int n)
        then clip ((if epoch_at r i = key e then count_at f r i else 0) + amount f x) else count_at f r i)"
    and clip_add: "clip (clip a + b) = clip (a + b)"
    and clip_0: "clip 0 = 0"
begin

definition slot :: "int \<Rightarrow> nat" where "slot q = nat (q mod int n)"

definition run :: "(int \<times> 'x) list \<Rightarrow> 'r \<Rightarrow> 'r" where
  "run evs r = fold (\<lambda>(e, x). rec e x) evs r"

definition total :: "counter \<Rightarrow> int \<Rightarrow> (int \<times> 'x) list \<Rightarrow> nat" where
  "total f q evs = sum_list (map (\<lambda>(e, x). if key e = q then amount f x else 0) evs)"

definition keys :: "(int \<times> 'x) list \<Rightarrow> int list" where
  "keys evs = map (\<lambda>(e, x). key e) evs"

definition blank :: "'r \<Rightarrow> bool" where
  "blank r \<longleftrightarrow> wf r \<and> (\<forall>i < n. epoch_at r i = 0)"

definition ordered :: "(int \<times> 'x) list \<Rightarrow> bool" where
  "ordered evs \<longleftrightarrow> sorted (keys evs) \<and> (\<forall>(e, x) \<in> set evs. ok e x)"

lemma slot_less: "slot q < n"
  using n_pos by (simp add: slot_def nat_less_iff)

lemma slot_inj: "slot p = slot q \<Longrightarrow> p \<le> q \<Longrightarrow> q < p + int n \<Longrightarrow> p = q"
  using n_pos mod_eq_close [of p "int n" q] by (simp add: slot_def nat_eq_iff)

lemma total_notin: "q \<notin> set (keys evs) \<Longrightarrow> total f q evs = 0"
  by (induction evs) (auto simp: total_def keys_def)

text \<open>The state after a run: who owns each slot, and what it holds.\<close>

definition reflects :: "(int \<times> 'x) list \<Rightarrow> 'r \<Rightarrow> bool" where
  "reflects evs r \<longleftrightarrow> wf r
     \<and> (\<forall>i < n. epoch_at r i \<noteq> 0 \<longrightarrow> slot (epoch_at r i) = i \<and> epoch_at r i \<in> set (keys evs)
          \<and> (\<forall>f. count_at f r i = clip (total f (epoch_at r i) evs)))
     \<and> (\<forall>q \<in> set (keys evs). (\<forall>k \<in> set (keys evs). k < q + int n) \<longrightarrow> epoch_at r (slot q) = q)"

lemma reflects_snoc:
  assumes R: "reflects evs r" and ok: "ok e x" and top: "\<forall>k \<in> set (keys evs). k \<le> key e"
  shows "reflects (evs @ [(e, x)]) (rec e x r)"
proof -
  let ?q0 = "key e" and ?evs = "evs @ [(e, x)]" and ?r = "rec e x r"
  have wf: "wf r" using R by (simp add: reflects_def)
  have keys: "set (keys ?evs) = insert ?q0 (set (keys evs))" by (auto simp: keys_def)
  have tot: "total f q ?evs = total f q evs + (if q = ?q0 then amount f x else 0)" for f q
    by (simp add: total_def)
  have owner: "\<And>q. q \<in> set (keys evs) \<Longrightarrow> (\<forall>k \<in> set (keys evs). k < q + int n) \<Longrightarrow> epoch_at r (slot q) = q"
    using R by (simp add: reflects_def)
  have held: "\<And>i f. i < n \<Longrightarrow> epoch_at r i \<noteq> 0 \<Longrightarrow> slot (epoch_at r i) = i \<and> epoch_at r i \<in> set (keys evs)
      \<and> count_at f r i = clip (total f (epoch_at r i) evs)" using R by (simp add: reflects_def)
  have fresh: "total f ?q0 evs = 0" if "epoch_at r (slot ?q0) \<noteq> ?q0" for f
  proof (rule total_notin, rule notI)
    assume "?q0 \<in> set (keys evs)"
    moreover have "\<forall>k \<in> set (keys evs). k < ?q0 + int n" using top n_pos by fastforce
    ultimately show False using owner that by blast
  qed
  have ep: "epoch_at ?r i = (if i = slot ?q0 then ?q0 else epoch_at r i)" if "i < n" for i
    using epoch_rec [OF wf ok that] by (simp add: slot_def)
  have ct: "count_at f ?r i = (if i = slot ?q0
      then clip ((if epoch_at r i = ?q0 then count_at f r i else 0) + amount f x) else count_at f r i)"
    if "i < n" for f i using count_rec [OF wf ok that] by (simp add: slot_def)
  have "slot (epoch_at ?r i) = i \<and> epoch_at ?r i \<in> set (keys ?evs)
      \<and> count_at f ?r i = clip (total f (epoch_at ?r i) ?evs)" if i: "i < n" and nz: "epoch_at ?r i \<noteq> 0" for i f
  proof (cases "i = slot ?q0")
    case True
    with nz ep [OF i] ct [OF i, of f] held [OF i, of f] fresh [of f] show ?thesis
      by (cases "epoch_at r i = ?q0") (simp_all add: tot keys clip_add)
  next
    case False
    with nz ep [OF i] held [OF i, of f] show ?thesis by (auto simp: ct [OF i] tot keys)
  qed
  moreover have "epoch_at ?r (slot q) = q" if "q \<in> set (keys ?evs)" "\<forall>k \<in> set (keys ?evs). k < q + int n" for q
  proof (cases "slot q = slot ?q0")
    case True
    have "q \<le> ?q0" "?q0 < q + int n" using that top by (auto simp: keys)
    with True slot_inj have "q = ?q0" by blast
    then show ?thesis by (simp add: ep slot_less)
  next
    case False
    then show ?thesis using that owner [of q] by (auto simp: ep slot_less keys)
  qed
  ultimately show ?thesis using wf_rec [OF wf ok] by (simp add: reflects_def)
qed

lemma reflects_run:
  assumes "blank r" and "ordered evs"
  shows "reflects evs (run evs r)"
  using assms(2)
proof (induction evs rule: rev_induct)
  case Nil
  with assms(1) show ?case by (simp add: reflects_def run_def blank_def keys_def)
next
  case (snoc ex evs)
  obtain e x where ex: "ex = (e, x)" by force
  have "ordered evs" "ok e x" "\<forall>k \<in> set (keys evs). k \<le> key e"
    using snoc.prems by (auto simp: ordered_def keys_def ex sorted_append)
  with snoc.IH reflects_snoc show ?case by (simp add: ex run_def)
qed

text \<open>Summing the slots whose epoch lies in a window.\<close>

definition window_sum :: "counter \<Rightarrow> int \<Rightarrow> int \<Rightarrow> 'r \<Rightarrow> nat" where
  "window_sum f lo hi r = (\<Sum>i < n. if lo \<le> epoch_at r i \<and> epoch_at r i \<le> hi then count_at f r i else 0)"

lemma window_sum_reflects:
  assumes R: "reflects evs r" and lo: "0 < lo" and hi: "hi < lo + int n"
    and top: "\<forall>k \<in> set (keys evs). k \<le> hi"
  shows "window_sum f lo hi r = (\<Sum>q \<in> {lo..hi}. clip (total f q evs))"
proof -
  let ?S = "{i \<in> {..<n}. lo \<le> epoch_at r i \<and> epoch_at r i \<le> hi}"
  let ?Q = "{q \<in> {lo..hi}. q \<in> set (keys evs)}"
  have held: "\<And>i. i \<in> ?S \<Longrightarrow> slot (epoch_at r i) = i \<and> epoch_at r i \<in> set (keys evs)
      \<and> count_at f r i = clip (total f (epoch_at r i) evs)"
    using R lo by (auto simp: reflects_def)
  have owner: "epoch_at r (slot q) = q" if "q \<in> ?Q" for q
  proof -
    have "\<forall>k \<in> set (keys evs). k < q + int n" using that top hi by fastforce
    with R that show ?thesis by (simp add: reflects_def)
  qed
  have bij: "bij_betw (epoch_at r) ?S ?Q"
    by (rule bij_betw_byWitness [where f' = slot]) (use held owner slot_less in auto)
  have "window_sum f lo hi r = (\<Sum>i \<in> ?S. count_at f r i)"
    unfolding window_sum_def by (rule sum.inter_filter [symmetric]) simp
  also have "\<dots> = (\<Sum>i \<in> ?S. clip (total f (epoch_at r i) evs))" using held by (intro sum.cong) auto
  also have "\<dots> = (\<Sum>q \<in> ?Q. clip (total f q evs))" by (rule sum.reindex_bij_betw [OF bij])
  also have "\<dots> = (\<Sum>q \<in> {lo..hi}. clip (total f q evs))"
    by (rule sum.mono_neutral_left) (auto simp: total_notin clip_0)
  finally show ?thesis .
qed

lemma total_range:
  "(\<Sum>q \<in> {lo..hi}. total f q evs) = sum_list (map (\<lambda>(e, x). if lo \<le> key e \<and> key e \<le> hi then amount f x else 0) evs)"
proof (induction evs)
  case (Cons ex evs)
  obtain e x where ex: "ex = (e, x)" by force
  have "(\<Sum>q \<in> {lo..hi}. if key e = q then amount f x else 0) = (if lo \<le> key e \<and> key e \<le> hi then amount f x else 0)"
    by (simp add: sum.delta')
  moreover have "total f q (ex # evs) = (if key e = q then amount f x else 0) + total f q evs" for q
    by (simp add: total_def ex)
  ultimately show ?case using Cons.IH by (simp add: sum.distrib ex)
qed (simp add: total_def)

theorem window_exact:
  assumes "blank r" and "ordered evs" and "0 < lo" and "hi < lo + int n" and "\<forall>k \<in> set (keys evs). k \<le> hi"
  shows "window_sum f lo hi (run evs r) = (\<Sum>q \<in> {lo..hi}. clip (total f q evs))"
  using window_sum_reflects [OF reflects_run] assms by blast

text \<open>When no key falls into the window, the window is empty.\<close>

lemma window_stale:
  assumes "blank r" and "ordered evs" and "0 < lo" and "\<forall>k \<in> set (keys evs). k < lo"
  shows "window_sum f lo hi (run evs r) = 0"
proof -
  have "epoch_at (run evs r) i \<noteq> 0 \<Longrightarrow> i < n \<Longrightarrow> epoch_at (run evs r) i < lo" for i
    using reflects_run [OF assms(1,2)] assms(4) by (auto simp: reflects_def)
  then have "\<not> (lo \<le> epoch_at (run evs r) i \<and> epoch_at (run evs r) i \<le> hi)" if "i < n" for i
    using that assms(3) by (cases "epoch_at (run evs r) i = 0") fastforce+
  then show ?thesis unfolding window_sum_def by (intro sum.neutral) auto
qed

end

section \<open>The four rings\<close>

type_synonym sample = "int \<times> int \<times> int \<times> int"

fun sample_count :: "counter \<Rightarrow> sample \<Rightarrow> nat" where
  "sample_count HitsC (h, a, s, k) = nat h"
| "sample_count AttemptsC (h, a, s, k) = nat a"
| "sample_count SYNsC (h, a, s, k) = nat s"
| "sample_count ACKsC (h, a, s, k) = nat k"

fun traffic_count :: "counter \<Rightarrow> KineticTrafficBucket \<Rightarrow> 64 word" where
  "traffic_count HitsC b = tb_Hits b"
| "traffic_count AttemptsC b = tb_Attempts b"
| "traffic_count SYNsC b = tb_SYNs b"
| "traffic_count ACKsC b = tb_ACKs b"

fun tw_count :: "counter \<Rightarrow> KineticTrafficWindow \<Rightarrow> 64 word" where
  "tw_count HitsC w = tw_Hits w"
| "tw_count AttemptsC w = tw_Attempts w"
| "tw_count SYNsC w = tw_SYNs w"
| "tw_count ACKsC w = tw_ACKs w"

definition record_traffic :: "int \<Rightarrow> sample \<Rightarrow> 'a kinetic_history_scheme \<Rightarrow> 'a kinetic_history_scheme" where
  "record_traffic e x r = (case x of (h, a, s, k) \<Rightarrow> recordTrafficHistoryLocked e h a s k r)"

definition record_source :: "int \<Rightarrow> sample \<Rightarrow> IPTrackingBucket \<Rightarrow> IPTrackingBucket" where
  "record_source e x b = (case x of (h, a, s, k) \<Rightarrow> recordLongWindowsLocked e h a s k b)"

lemma unat_add_count: "unat (w + of_int (maxInt v 0) :: 64 word) = (unat w + nat v) mod 2 ^ 64"
proof -
  have "(of_int (maxInt v 0) :: 64 word) = of_nat (nat v)" by (auto simp: maxInt_def)
  then show ?thesis by (simp add: unat_word_ariths unat_of_nat mod_add_right_eq)
qed

lemma length_record_slot [simp]: "length (record_slot e h a s k ring) = length ring"
  by (simp add: record_slot_def Let_def)

lemma ring_index_length:
  "i < length ring \<Longrightarrow> positiveRingIndex e (int (length ring)) = nat (e mod int (length ring))"
  by (rule positiveRingIndex_mod) auto

lemma record_slot_epoch:
  "i < length ring \<Longrightarrow> tb_Epoch (record_slot e h a s k ring ! i) =
     (if i = nat (e mod int (length ring)) then e else tb_Epoch (ring ! i))"
  by (auto simp: record_slot_def Let_def ring_index_length nth_list_update traffic_bucket_def)

lemma record_slot_count:
  "i < length ring \<Longrightarrow> unat (traffic_count f (record_slot e h a s k ring ! i)) =
     (if i = nat (e mod int (length ring))
      then ((if tb_Epoch (ring ! i) = e then unat (traffic_count f (ring ! i)) else 0) + sample_count f (h, a, s, k)) mod 2 ^ 64
      else unat (traffic_count f (ring ! i)))"
  by (cases f) (auto simp: record_slot_def Let_def ring_index_length nth_list_update traffic_bucket_def
      unat_add_count)

interpretation second_ring: ring_window
  "\<lambda>e i. tb_Epoch (kh_secondHistory e ! i)" "\<lambda>f e i. unat (traffic_count f (kh_secondHistory e ! i))"
  record_traffic "\<lambda>e. e" 60 sample_count "\<lambda>m. m mod 2 ^ 64" "\<lambda>e x. 0 < e \<and> 0 < fst x" history_wf
  by unfold_locales
     (auto simp: record_traffic_def recordTrafficHistoryLocked_def history_wf_def record_slot_epoch
       record_slot_count mod_add_left_eq split: prod.splits)

interpretation minute_ring: ring_window
  "\<lambda>e i. tb_Epoch (kh_minuteHistory e ! i)" "\<lambda>f e i. unat (traffic_count f (kh_minuteHistory e ! i))"
  record_traffic "\<lambda>e. go_div e 60" 1441 sample_count "\<lambda>m. m mod 2 ^ 64" "\<lambda>e x. 0 < e \<and> 0 < fst x" history_wf
  by unfold_locales
     (auto simp: record_traffic_def recordTrafficHistoryLocked_def history_wf_def record_slot_epoch
       record_slot_count mod_add_left_eq split: prod.splits)

fun five_count :: "counter \<Rightarrow> IPTrackingBucket \<Rightarrow> 16 word list" where
  "five_count HitsC b = ib_FiveMinHits b"
| "five_count AttemptsC b = ib_FiveMinAttempts b"
| "five_count SYNsC b = ib_FiveMinSYNs b"
| "five_count ACKsC b = ib_FiveMinACKs b"

fun hour_count :: "counter \<Rightarrow> IPTrackingBucket \<Rightarrow> 32 word list" where
  "hour_count HitsC b = ib_HourlyHits b"
| "hour_count AttemptsC b = ib_HourlyAttempts b"
| "hour_count SYNsC b = ib_HourlySYNs b"
| "hour_count ACKsC b = ib_HourlyACKs b"

lemma nat_min_add: "0 \<le> a \<Longrightarrow> 0 \<le> c \<Longrightarrow> nat (min c (a + max 0 v)) = min (nat c) (nat a + nat v)"
  by (cases "0 \<le> v") (auto simp: min_def nat_le_eq_zle nat_add_distrib)

lemma unat_addUint16: "unat (addUint16Saturating d v) = min 65535 (unat d + nat v)"
  using nat_min_add [of "uint d" 65535 v] unfolding unat_eq_nat_uint uint_addUint16 by simp

lemma unat_addUint32: "unat (addUint32Saturating d v) = min 4294967295 (unat d + nat v)"
  using nat_min_add [of "uint d" 4294967295 v] unfolding unat_eq_nat_uint uint_addUint32 by simp

lemma record_five_epoch:
  assumes "rings_wf b" and "i < 13"
  shows "ib_FiveMinEpochs (record_five e h a s k b) ! i =
      (if i = nat (go_div e 300 mod 13) then go_div e 300 else ib_FiveMinEpochs b ! i)"
  using assms
  by (auto simp: record_five_def rings_wf_def Let_def positiveRingIndex_mod nth_list_update)

lemma record_five_count:
  assumes "rings_wf b" and "i < 13"
  shows "unat (five_count f (record_five e h a s k b) ! i) =
      (if i = nat (go_div e 300 mod 13)
       then min 65535 ((if ib_FiveMinEpochs b ! i = go_div e 300 then unat (five_count f b ! i) else 0)
              + sample_count f (h, a, s, k)) else unat (five_count f b ! i))"
  using assms
  by (cases f) (simp_all add: record_five_def rings_wf_def Let_def positiveRingIndex_mod nth_list_update unat_addUint16)

lemma record_hour_epoch:
  assumes "rings_wf b" and "i < 25"
  shows "ib_HourlyEpochs (record_hour e h a s k b) ! i =
      (if i = nat (go_div e 3600 mod 25) then go_div e 3600 else ib_HourlyEpochs b ! i)"
  using assms
  by (auto simp: record_hour_def rings_wf_def Let_def positiveRingIndex_mod nth_list_update)

lemma record_hour_count:
  assumes "rings_wf b" and "i < 25"
  shows "unat (hour_count f (record_hour e h a s k b) ! i) =
      (if i = nat (go_div e 3600 mod 25)
       then min 4294967295 ((if ib_HourlyEpochs b ! i = go_div e 3600 then unat (hour_count f b ! i) else 0)
              + sample_count f (h, a, s, k)) else unat (hour_count f b ! i))"
  using assms
  by (cases f) (simp_all add: record_hour_def rings_wf_def Let_def positiveRingIndex_mod nth_list_update unat_addUint32)

text \<open>The minute, five-minute and hourly parts of a bucket are independent.\<close>

lemma record_parts:
  "rings_wf (record_minute e h a s k b) = rings_wf b"
  "ib_FiveMinEpochs (record_minute e h a s k b) = ib_FiveMinEpochs b"
  "five_count f (record_minute e h a s k b) = five_count f b"
  "ib_HourlyEpochs (record_minute e h a s k b) = ib_HourlyEpochs b"
  "hour_count f (record_minute e h a s k b) = hour_count f b"
  "ib_HourlyEpochs (record_five e h a s k b) = ib_HourlyEpochs b"
  "hour_count f (record_five e h a s k b) = hour_count f b"
  "ib_FiveMinEpochs (record_hour e h a s k b) = ib_FiveMinEpochs b"
  "five_count f (record_hour e h a s k b) = five_count f b"
  by (cases f; simp add: record_minute_def record_five_def record_hour_def rings_wf_def Let_def)+

lemma rings_wf_five: "rings_wf b \<Longrightarrow> rings_wf (record_five e h a s k b)"
  by (simp add: record_five_def rings_wf_def Let_def)

lemma rings_wf_hour: "rings_wf b \<Longrightarrow> rings_wf (record_hour e h a s k b)"
  by (simp add: record_hour_def rings_wf_def Let_def)

lemma record_source_split:
  "0 < h \<Longrightarrow> record_source e (h, a, s, k) b =
     record_hour e h a s k (record_five e h a s k (record_minute e h a s k b))"
  by (simp add: record_source_def recordLongWindowsLocked_def)

lemma rings_wf_record: "rings_wf b \<Longrightarrow> rings_wf (record_source e x b)"
  by (cases x) (simp add: record_source_def recordLongWindowsLocked_def rings_wf_hour rings_wf_five record_parts)

lemmas record_source_simps = record_source_split record_parts rings_wf_five
  record_five_epoch record_five_count record_hour_epoch record_hour_count

interpretation five_ring: ring_window
  "\<lambda>b i. ib_FiveMinEpochs b ! i" "\<lambda>f b i. unat (five_count f b ! i)"
  record_source "\<lambda>e. go_div e 300" 13 sample_count "min 65535" "\<lambda>e x. 0 < fst x" rings_wf
  by unfold_locales (auto simp: rings_wf_record record_source_simps)

interpretation hour_ring: ring_window
  "\<lambda>b i. ib_HourlyEpochs b ! i" "\<lambda>f b i. unat (hour_count f b ! i)"
  record_source "\<lambda>e. go_div e 3600" 25 sample_count "min 4294967295" "\<lambda>e x. 0 < fst x" rings_wf
  by unfold_locales (auto simp: rings_wf_record record_source_simps)

section \<open>What the windows report\<close>

lemma add_traffic_count:
  "tw_count f (add_traffic sel ring out) = tw_count f out + (\<Sum>b \<leftarrow> ring. if sel b then traffic_count f b else 0)"
  unfolding add_traffic_def by (induction ring arbitrary: out) (cases f; simp)+

lemma sum_list_words:
  fixes g :: "'b \<Rightarrow> 64 word"
  shows "(\<Sum>b \<leftarrow> ring. if P b then g b else 0) = of_nat (\<Sum>i < length ring. if P (ring ! i) then unat (g (ring ! i)) else 0)"
  by (simp add: sum_list_sum_nth atLeast0LessThan of_nat_sum if_distrib [of of_nat] cong: if_cong sum.cong)
     (intro sum.cong, auto)

text \<open>The empty history of a new engine.\<close>

definition blank_history :: "'a kinetic_history_scheme \<Rightarrow> bool" where
  "blank_history e \<longleftrightarrow> kh_secondHistory e = replicate 60 (traffic_bucket 0)
     \<and> kh_minuteHistory e = replicate 1441 (traffic_bucket 0)"

lemma blank_rings: "blank_history e \<Longrightarrow> second_ring.blank e \<and> minute_ring.blank e"
  by (simp add: blank_history_def second_ring.blank_def minute_ring.blank_def history_wf_def traffic_bucket_def)

text \<open>Samples in the order of their epochs.\<close>

definition in_order :: "(int \<times> sample) list \<Rightarrow> bool" where
  "in_order evs \<longleftrightarrow> sorted (map fst evs) \<and> (\<forall>(e, x) \<in> set evs. 0 < e \<and> 0 < fst x)"

lemma go_div_mono: "0 \<le> a \<Longrightarrow> a \<le> b \<Longrightarrow> 0 < n \<Longrightarrow> go_div a n \<le> go_div b n"
  by (simp add: go_div_nonneg zdiv_mono1)

lemma sorted_map_mono: "sorted (map f xs) \<Longrightarrow> \<forall>x \<in> set xs. \<forall>y \<in> set xs. f x \<le> f y \<longrightarrow> g x \<le> g y \<Longrightarrow> sorted (map g xs)"
  by (induction xs) auto

lemma in_order_rings:
  assumes "in_order evs"
  shows "second_ring.ordered evs" and "minute_ring.ordered evs" and "five_ring.ordered evs" and "hour_ring.ordered evs"
proof -
  have pos: "\<forall>(e, x) \<in> set evs. 0 < e \<and> 0 < fst x" and "sorted (map fst evs)" using assms by (auto simp: in_order_def)
  moreover from this have "sorted (map (\<lambda>(e, x). go_div e n) evs)" if "0 < n" for n
    using sorted_map_mono [of fst evs "\<lambda>(e, x). go_div e n"] that by (fastforce intro!: go_div_mono)
  moreover from calculation(2) have "sorted (map (\<lambda>(e, x). e) evs)"
    by (simp add: case_prod_beta')
  ultimately show "second_ring.ordered evs" "minute_ring.ordered evs" "five_ring.ordered evs" "hour_ring.ordered evs"
    by (auto simp: second_ring.ordered_def minute_ring.ordered_def five_ring.ordered_def hour_ring.ordered_def
        second_ring.keys_def minute_ring.keys_def five_ring.keys_def hour_ring.keys_def)
qed

text \<open>The amount recorded in the samples whose epoch a predicate selects.\<close>

definition recorded :: "counter \<Rightarrow> (int \<Rightarrow> bool) \<Rightarrow> (int \<times> sample) list \<Rightarrow> nat" where
  "recorded f P evs = sum_list (map (\<lambda>(e, x). if P e then sample_count f x else 0) evs)"

lemma of_nat_mod_64: "(of_nat (m mod 2 ^ 64) :: 64 word) = of_nat m"
  unfolding word_of_nat_eq_iff by (simp add: take_bit_eq_mod)

lemma of_nat_clip_sum: "(of_nat (\<Sum>q \<in> A. t q mod 2 ^ 64) :: 64 word) = of_nat (\<Sum>q \<in> A. t q)"
  using of_nat_mod_64 by (simp add: of_nat_sum)

abbreviation record_samples :: "(int \<times> sample) list \<Rightarrow> 'a kinetic_history_scheme \<Rightarrow> 'a kinetic_history_scheme" where
  "record_samples evs e \<equiv> fold (\<lambda>(n, x). record_traffic n x) evs e"

lemma add_traffic_second:
  "history_wf e \<Longrightarrow> tw_count f (add_traffic (\<lambda>b. lo \<le> tb_Epoch b \<and> tb_Epoch b \<le> hi) (kh_secondHistory e) out) =
     tw_count f out + of_nat (second_ring.window_sum f lo hi e)"
  by (simp add: add_traffic_count sum_list_words second_ring.window_sum_def history_wf_def)

lemma add_traffic_minute:
  "history_wf e \<Longrightarrow> tw_count f (add_traffic (\<lambda>b. lo \<le> tb_Epoch b \<and> tb_Epoch b \<le> hi) (kh_minuteHistory e) out) =
     tw_count f out + of_nat (minute_ring.window_sum f lo hi e)"
  by (simp add: add_traffic_count sum_list_words minute_ring.window_sum_def history_wf_def)

lemma second_window:
  assumes "blank_history e" and "in_order evs" and "0 < lo" and "hi < lo + 60" and "\<forall>(n, x) \<in> set evs. n \<le> hi"
  shows "of_nat (second_ring.window_sum f lo hi (record_samples evs e)) =
     (of_nat (recorded f (\<lambda>n. lo \<le> n) evs) :: 64 word)"
proof -
  have "second_ring.window_sum f lo hi (second_ring.run evs e) = (\<Sum>q \<in> {lo..hi}. second_ring.total f q evs mod 2 ^ 64)"
    using assms blank_rings in_order_rings
    by (intro second_ring.window_exact) (auto simp: second_ring.keys_def)
  moreover have "(\<Sum>q \<in> {lo..hi}. second_ring.total f q evs) = recorded f (\<lambda>n. lo \<le> n) evs"
    unfolding second_ring.total_range recorded_def using assms(5) by (intro arg_cong [of _ _ sum_list] map_cong) auto
  ultimately show ?thesis by (simp only: second_ring.run_def of_nat_clip_sum)
qed

lemma minute_window:
  assumes "blank_history e" and "in_order evs" and "0 < lo" and "hi < lo + 1441"
    and "\<forall>(n, x) \<in> set evs. n div 60 \<le> hi"
  shows "of_nat (minute_ring.window_sum f lo hi (record_samples evs e)) =
     (of_nat (recorded f (\<lambda>n. lo \<le> n div 60) evs) :: 64 word)"
proof -
  have d: "\<And>n x. (n, x) \<in> set evs \<Longrightarrow> go_div n 60 = n div 60"
    using assms(2) by (fastforce simp: in_order_def intro: go_div_nonneg)
  have "minute_ring.window_sum f lo hi (minute_ring.run evs e) = (\<Sum>q \<in> {lo..hi}. minute_ring.total f q evs mod 2 ^ 64)"
    using assms blank_rings in_order_rings d
    by (intro minute_ring.window_exact) (auto simp: minute_ring.keys_def)
  moreover have "(\<Sum>q \<in> {lo..hi}. minute_ring.total f q evs) = recorded f (\<lambda>n. lo \<le> n div 60) evs"
    unfolding minute_ring.total_range recorded_def using assms(5) d
    by (intro arg_cong [of _ _ sum_list] map_cong) auto
  ultimately show ?thesis by (simp only: minute_ring.run_def of_nat_clip_sum)
qed

lemma history_wf_record: "history_wf e \<Longrightarrow> history_wf (record_samples evs e)"
  by (induction evs arbitrary: e)
     (auto simp: record_traffic_def recordTrafficHistoryLocked_def history_wf_def split: prod.splits)

lemma time_unix_sub_seconds: "time_unix (time_add now (- (d * second))) = time_unix now - d"
  by (simp add: time_unix_def time_add_def)

lemma tw_count_init [simp]:
  "tw_count f \<lparr> tw_Name = a, tw_Seconds = b, tw_GeneratedAt = c, tw_Hits = 0, tw_Attempts = 0, tw_SYNs = 0,
     tw_ACKs = 0, tw_BucketResolution = r, tw_HistoryComplete = h, tw_RuntimeSeconds = t \<rparr> = 0"
  by (cases f) simp_all

lemma TrafficWindow_short:
  assumes "history_wf e" and "now \<noteq> 0" and "ws_Duration spec = d * second" and "d \<le> 60" and "0 \<le> d"
  shows "tw_count f (TrafficWindow clock spec now e) =
     of_nat (second_ring.window_sum f (time_unix now - d + 1) (time_unix now) e)"
  using assms
  by (simp add: TrafficWindow_def Let_def time_is_zero_def add_traffic_second go_div_nonneg)

lemma minute_range: "t - d \<le> b * 60 + 59 \<and> b * 60 \<le> t \<longleftrightarrow> (t - d) div 60 \<le> b \<and> b \<le> (t :: int) div 60"
  by auto

lemma TrafficWindow_long:
  assumes "history_wf e" and "now \<noteq> 0" and "ws_Duration spec = d * second" and "60 < d" and "d + 60 \<le> time_unix now"
  shows "tw_count f (TrafficWindow clock spec now e) =
     of_nat (minute_ring.window_sum f ((time_unix now - d) div 60) (time_unix now div 60) e)"
proof -
  have "\<And>b :: KineticTrafficBucket. 0 < tb_Epoch b \<and> time_unix now - d \<le> tb_Epoch b * 60 + 59 \<and> tb_Epoch b * 60 \<le> time_unix now \<longleftrightarrow>
      (time_unix now - d) div 60 \<le> tb_Epoch b \<and> tb_Epoch b \<le> time_unix now div 60"
    using assms(5) minute_range by (auto; smt (verit))
  with assms show ?thesis
    by (simp add: TrafficWindow_def Let_def time_is_zero_def time_unix_sub_seconds
        add_traffic_minute)
qed

subsection \<open>Windows of one source\<close>

lemma ring_counts_fold:
  assumes "length hits = m"
  shows "ring_counts w lo hi epochs hits attempts syns acks =
    (let sel = (\<lambda>i. 0 < epochs ! i \<and> lo \<le> epochs ! i * w + (w - 1) \<and> epochs ! i * w \<le> hi)
     in (\<Sum>i < m. if sel i then uint (hits ! i) else 0, \<Sum>i < m. if sel i then uint (attempts ! i) else 0,
         \<Sum>i < m. if sel i then uint (syns ! i) else 0, \<Sum>i < m. if sel i then uint (acks ! i) else 0))"
proof -
  have "fold (\<lambda>i (h, a, s, k).
             let epoch = epochs ! i; bucketStart = epoch * w; bucketEnd = bucketStart + (w - 1)
             in if epoch > 0 \<and> bucketEnd \<ge> lo \<and> bucketStart \<le> hi
                then (h + uint (hits ! i), a + uint (attempts ! i), s + uint (syns ! i), k + uint (acks ! i))
                else (h, a, s, k)) [0..<n] (0, 0, 0, 0) =
    (let sel = (\<lambda>i. 0 < epochs ! i \<and> lo \<le> epochs ! i * w + (w - 1) \<and> epochs ! i * w \<le> hi)
     in (\<Sum>i < n. if sel i then uint (hits ! i) else 0, \<Sum>i < n. if sel i then uint (attempts ! i) else 0,
         \<Sum>i < n. if sel i then uint (syns ! i) else 0, \<Sum>i < n. if sel i then uint (acks ! i) else 0))" for n
    by (induction n) (simp_all add: Let_def add.commute)
  then show ?thesis by (simp add: ring_counts_def assms)
qed

lemma width_range:
  "0 < w \<Longrightarrow> w \<le> lo \<Longrightarrow> 0 < b \<and> lo \<le> b * w + (w - 1) \<and> b * w \<le> hi \<longleftrightarrow> lo div w \<le> b \<and> b \<le> (hi :: int) div w"
proof -
  assume w: "0 < w" and lo: "w \<le> lo"
  have "1 \<le> lo div w" using zdiv_mono1 [OF lo w] w by simp
  moreover have "lo \<le> b * w + (w - 1) \<longleftrightarrow> lo div w \<le> b"
  proof
    assume "lo \<le> b * w + (w - 1)"
    then have "lo div w \<le> (b * w + (w - 1)) div w" using w by (intro zdiv_mono1)
    also have "\<dots> = b" using w by (simp add: div_pos_pos_trivial)
    finally show "lo div w \<le> b" .
  next
    assume "lo div w \<le> b"
    then have "lo div w * w \<le> b * w" using w by (intro mult_right_mono) simp_all
    moreover have "lo = lo div w * w + lo mod w" "lo mod w < w" using w by simp_all
    ultimately show "lo \<le> b * w + (w - 1)" by linarith
  qed
  moreover have "b * w \<le> hi \<longleftrightarrow> b \<le> hi div w"
  proof
    assume "b * w \<le> hi"
    from zdiv_mono1 [OF this w] show "b \<le> hi div w" using w by simp
  next
    assume "b \<le> hi div w"
    then have "b * w \<le> hi div w * w" using w by (intro mult_right_mono) simp_all
    also have "\<dots> \<le> hi" using w by (simp add: minus_mod_eq_div_mult [symmetric])
    finally show "b * w \<le> hi" .
  qed
  ultimately show ?thesis by auto
qed

abbreviation record_source_samples :: "(int \<times> sample) list \<Rightarrow> IPTrackingBucket \<Rightarrow> IPTrackingBucket" where
  "record_source_samples evs b \<equiv> fold (\<lambda>(n, x). record_source n x) evs b"

text \<open>
  What a window of \<open>d\<close> seconds over buckets of \<open>w\<close> seconds should report at time \<open>t\<close>: for each bucket
  that meets the window, the samples recorded in it, up to the counter's ceiling.
\<close>

definition bucket_totals :: "int \<Rightarrow> nat \<Rightarrow> int \<Rightarrow> int \<Rightarrow> counter \<Rightarrow> (int \<times> sample) list \<Rightarrow> nat" where
  "bucket_totals w maxc t d f evs =
     (\<Sum>q \<in> {(t - d) div w..t div w}. min maxc (recorded f (\<lambda>n. n div w = q) evs))"

lemma recorded_go_div:
  "in_order evs \<Longrightarrow> 0 < w \<Longrightarrow>
     sum_list (map (\<lambda>(e, x). if go_div e w = q then sample_count f x else 0) evs) = recorded f (\<lambda>n. n div w = q) evs"
  unfolding recorded_def in_order_def
  by (intro arg_cong [of _ _ sum_list] map_cong) (auto simp: go_div_nonneg)

lemma go_div_keys_le: "in_order evs \<Longrightarrow> 0 < w \<Longrightarrow> \<forall>(n, x) \<in> set evs. n \<le> t \<Longrightarrow>
    \<forall>k \<in> set (map (\<lambda>(e, x). go_div e w) evs). k \<le> t div w"
  by (fastforce simp: in_order_def go_div_nonneg zdiv_mono1)

lemma five_window:
  assumes "five_ring.blank b" and "in_order evs" and "\<forall>(n, x) \<in> set evs. n \<le> t" and "300 + d \<le> t" and "0 \<le> d" "d \<le> 3600"
  shows "five_ring.window_sum f ((t - d) div 300) (t div 300) (record_source_samples evs b) =
     bucket_totals 300 65535 t d f evs"
proof -
  have "1 \<le> (t - d) div 300" using zdiv_mono1 [of 300 "t - d" 300] assms(4) by simp
  moreover have "t div 300 < (t - d) div 300 + 13" using assms(5,6) by linarith
  ultimately have "five_ring.window_sum f ((t - d) div 300) (t div 300) (five_ring.run evs b) =
      (\<Sum>q \<in> {(t - d) div 300..t div 300}. min 65535 (five_ring.total f q evs))"
    using assms in_order_rings go_div_keys_le [of evs 300 t]
    by (intro five_ring.window_exact) (auto simp: five_ring.keys_def)
  then show ?thesis
    using recorded_go_div [OF assms(2), of 300] by (simp add: five_ring.run_def bucket_totals_def five_ring.total_def)
qed

lemma hour_window:
  assumes "hour_ring.blank b" and "in_order evs" and "\<forall>(n, x) \<in> set evs. n \<le> t" and "3600 + d \<le> t" and "0 \<le> d" "d \<le> 86400"
  shows "hour_ring.window_sum f ((t - d) div 3600) (t div 3600) (record_source_samples evs b) =
     bucket_totals 3600 4294967295 t d f evs"
proof -
  have "1 \<le> (t - d) div 3600" using zdiv_mono1 [of 3600 "t - d" 3600] assms(4) by simp
  moreover have "t div 3600 < (t - d) div 3600 + 25" using assms(5,6) by linarith
  ultimately have "hour_ring.window_sum f ((t - d) div 3600) (t div 3600) (hour_ring.run evs b) =
      (\<Sum>q \<in> {(t - d) div 3600..t div 3600}. min 4294967295 (hour_ring.total f q evs))"
    using assms in_order_rings go_div_keys_le [of evs 3600 t]
    by (intro hour_ring.window_exact) (auto simp: hour_ring.keys_def)
  then show ?thesis
    using recorded_go_div [OF assms(2), of 3600] by (simp add: hour_ring.run_def bucket_totals_def hour_ring.total_def)
qed

lemma ib_LastSeen_record: "ib_LastSeen (record_source n x b) = ib_LastSeen b"
  by (cases x) (simp add: record_source_def recordLongWindowsLocked_def record_minute_def record_five_def record_hour_def Let_def)

lemma record_source_samples_frame:
  "ib_LastSeen (record_source_samples evs b) = ib_LastSeen b"
  "rings_wf b \<Longrightarrow> rings_wf (record_source_samples evs b)"
  by (induction evs arbitrary: b) (auto simp: ib_LastSeen_record rings_wf_record)

lemma int_sum_uint: "(\<Sum>i < (m :: nat). if P i then uint (xs ! i) else 0) = int (\<Sum>i < m. if P i then unat (xs ! i) else 0)"
  by (simp add: of_nat_sum if_distrib [of int] cong: if_cong)

lemma ring_counts_five:
  assumes "rings_wf b" and "300 \<le> lo"
  shows "ring_counts 300 lo hi (ib_FiveMinEpochs b) (ib_FiveMinHits b) (ib_FiveMinAttempts b) (ib_FiveMinSYNs b) (ib_FiveMinACKs b) =
    (let W = (\<lambda>f. int (five_ring.window_sum f (lo div 300) (hi div 300) b)) in (W HitsC, W AttemptsC, W SYNsC, W ACKsC))"
proof -
  have sel: "\<And>e. 0 < e \<and> lo \<le> e * 300 + (300 - 1) \<and> e * 300 \<le> hi \<longleftrightarrow> lo div 300 \<le> e \<and> e \<le> hi div 300"
    by (rule width_range) (use assms in auto)
  have len: "length (ib_FiveMinHits b) = 13" using assms(1) by (simp add: rings_wf_def)
  show ?thesis
    unfolding ring_counts_fold [OF len] Let_def sel int_sum_uint five_ring.window_sum_def five_count.simps ..
qed

lemma ring_counts_hour:
  assumes "rings_wf b" and "3600 \<le> lo"
  shows "ring_counts 3600 lo hi (ib_HourlyEpochs b) (ib_HourlyHits b) (ib_HourlyAttempts b) (ib_HourlySYNs b) (ib_HourlyACKs b) =
    (let W = (\<lambda>f. int (hour_ring.window_sum f (lo div 3600) (hi div 3600) b)) in (W HitsC, W AttemptsC, W SYNsC, W ACKsC))"
proof -
  have sel: "\<And>e. 0 < e \<and> lo \<le> e * 3600 + (3600 - 1) \<and> e * 3600 \<le> hi \<longleftrightarrow> lo div 3600 \<le> e \<and> e \<le> hi div 3600"
    by (rule width_range) (use assms in auto)
  have len: "length (ib_HourlyHits b) = 25" using assms(1) by (simp add: rings_wf_def)
  show ?thesis
    unfolding ring_counts_fold [OF len] Let_def sel int_sum_uint hour_ring.window_sum_def hour_count.simps ..
qed

lemma parse_window_durations:
  assumes "parseKineticWindow raw = Some spec"
  obtains d where "ws_Duration spec = d * second" and "d \<in> {60, 300, 900, 3600, 86400}"
  using assms by (auto simp: parseKineticWindow_def Let_def split: if_splits)

section \<open>Properties\<close>

text \<open>
  The traffic counters of every operator window are exact. When samples were recorded in the
  order of their epochs and none lies in the future, a window of up to a minute reports (modulo
  the 64 bits of the counters) exactly the samples of its seconds, and a longer window exactly the
  samples of the minutes it touches: the rings of 60 seconds and 1441 minutes are large enough.
\<close>
theorem traffic_window_exact:
  assumes spec: "parseKineticWindow raw = Some spec" and blank: "blank_history e" and ord: "in_order evs"
    and past: "\<forall>(n, x) \<in> set evs. n \<le> time_unix now" and late: "86460 \<le> time_unix now"
  shows "tw_count f (TrafficWindow clock spec now (fold (\<lambda>(n, x). record_traffic n x) evs e)) =
     of_nat (recorded f (\<lambda>n. if ws_Duration spec \<le> minute then time_unix now - 60 < n
                              else (time_unix now - ws_Duration spec div second) div 60 \<le> n div 60) evs)"
proof -
  obtain d where d: "ws_Duration spec = d * second" "d \<in> {60, 300, 900, 3600, 86400}"
    using parse_window_durations [OF spec] .
  have now: "now \<noteq> 0" using late by (auto simp: time_unix_def)
  have wf: "history_wf (record_samples evs e)"
    using blank by (intro history_wf_record) (simp add: blank_history_def history_wf_def)
  show ?thesis
  proof (cases "d = 60")
    case True
    have "(\<lambda>n. time_unix now - 60 < n) = (\<lambda>n. time_unix now - 59 \<le> n)" by auto
    with True show ?thesis
      using TrafficWindow_short [OF wf now d(1), of f clock] second_window [OF blank ord, of "time_unix now - 59" "time_unix now" f]
        late past d(1) by simp
  next
    case False
    then have dd: "60 < d" "d \<le> 86400" using d(2) by auto
    have lo: "1 \<le> (time_unix now - d) div 60" using late dd zdiv_mono1 [of 60 "time_unix now - d" 60] by simp
    have "\<forall>(n, x) \<in> set evs. n div 60 \<le> time_unix now div 60" using past by (auto intro: zdiv_mono1)
    with TrafficWindow_long [OF wf now d(1) dd(1), of f clock] late dd lo
      minute_window [OF blank ord, of "(time_unix now - d) div 60" "time_unix now div 60" f]
    show ?thesis using d(1) by simp
  qed
qed

theorem traffic_window_exact_witness:
  "let e = \<lparr> kh_secondHistory = replicate 60 (traffic_bucket 0), kh_minuteHistory = replicate 1441 (traffic_bucket 0),
             kh_startedAt = 0 \<rparr>;
       evs = [(1700000000, 5, 2, 1, 0), (1700000030, 3, 1, 1, 0)];
       now = (62135596800 + 1700000040) * second
   in tw_Hits (TrafficWindow 0 \<lparr> ws_Name = ''5m'', ws_Duration = 5 * minute \<rparr> now
        (fold (\<lambda>(n, x). record_traffic n x) evs e)) = 8"
proof -
  let ?spec = "\<lparr> ws_Name = ''5m'', ws_Duration = 5 * minute \<rparr>"
  let ?e = "\<lparr> kh_secondHistory = replicate 60 (traffic_bucket 0), kh_minuteHistory = replicate 1441 (traffic_bucket 0),
             kh_startedAt = 0 \<rparr>"
  have "parseKineticWindow ''5m'' = Some ?spec"
    by (simp add: parseKineticWindow_def trim_space_graphic graphic_def to_lower_char_def)
  moreover have "blank_history ?e" by (simp add: blank_history_def)
  ultimately show ?thesis
    using traffic_window_exact [of "''5m''" ?spec ?e "[(1700000000, 5, 2, 1, 0), (1700000030, 3, 1, 1, 0)]"
        "(62135596800 + 1700000040) * second" HitsC 0]
    by (simp add: in_order_def time_unix_def recorded_def)
qed

text \<open>
  The counters of one source are exact up to the saturation of their cells. For the five-minute to
  one-hour windows and for the day window, the counts reported are, bucket by bucket, the
  recorded samples cut off at the largest 16-bit or 32-bit value: thirteen five-minute cells and
  twenty-five hourly cells cover every bucket a window can touch.
\<close>
theorem source_window_exact:
  assumes spec: "parseKineticWindow raw = Some spec" and long: "minute < ws_Duration spec"
    and blank: "\<forall>i < 13. ib_FiveMinEpochs b ! i = 0" "\<forall>i < 25. ib_HourlyEpochs b ! i = 0" "rings_wf b"
    and ord: "in_order evs" and past: "\<forall>(n, x) \<in> set evs. n \<le> time_unix now"
    and late: "90000 \<le> time_unix now" and seen: "time_sub now (ib_LastSeen b) \<le> ws_Duration spec"
  shows "sourceWindowCountsLocked (fold (\<lambda>(n, x). record_source n x) evs b) spec now =
    (let d = ws_Duration spec div second;
         total = (\<lambda>f. int (if d \<le> 3600 then bucket_totals 300 65535 (time_unix now) d f evs
                            else bucket_totals 3600 4294967295 (time_unix now) d f evs))
     in (total HitsC, total AttemptsC, total SYNsC, total ACKsC))"
proof -
  obtain d where d: "ws_Duration spec = d * second" "d \<in> {60, 300, 900, 3600, 86400}"
    using parse_window_durations [OF spec] .
  have now: "now \<noteq> 0" using late by (auto simp: time_unix_def)
  let ?b = "record_source_samples evs b"
  have wf: "rings_wf ?b" and ls: "ib_LastSeen ?b = ib_LastSeen b"
    using blank(3) by (simp_all add: record_source_samples_frame)
  have fb: "five_ring.blank b" and hb: "hour_ring.blank b"
    using blank by (simp_all add: five_ring.blank_def hour_ring.blank_def)
  show ?thesis
  proof (cases "d \<le> 3600")
    case True
    then have "300 \<le> time_unix now - d" "0 \<le> d" "300 + d \<le> time_unix now" using d(2) late by auto
    then show ?thesis
      using ring_counts_five [OF wf, of "time_unix now - d" "time_unix now"] five_window [OF fb ord past, of d] True
        now ls seen long d(1)
      by (simp add: sourceWindowCountsLocked_def time_is_zero_def time_unix_sub_seconds Let_def not_less)
  next
    case False
    then have "d \<le> 86400" "0 \<le> d" "3600 \<le> time_unix now - d" "3600 + d \<le> time_unix now" using d(2) late by auto
    with False show ?thesis
      using ring_counts_hour [OF wf, of "time_unix now - d" "time_unix now"] hour_window [OF hb ord past, of d]
        now ls seen long d(1)
      by (simp add: sourceWindowCountsLocked_def time_is_zero_def time_unix_sub_seconds Let_def not_less)
  qed
qed

theorem source_window_exact_witness:
  "sourceWindowCountsLocked
      (fold (\<lambda>(n, x). record_source n x) [(1700000000, 70000, 2, 1, 0)]
        (empty_bucket\<lparr> ib_LastSeen := (62135596800 + 1700000040) * second \<rparr>))
      \<lparr> ws_Name = ''5m'', ws_Duration = 5 * minute \<rparr> ((62135596800 + 1700000040) * second) = (65535, 2, 1, 0)"
proof -
  let ?spec = "\<lparr> ws_Name = ''5m'', ws_Duration = 5 * minute \<rparr>"
  let ?b = "empty_bucket\<lparr> ib_LastSeen := (62135596800 + 1700000040) * second \<rparr>"
  have "parseKineticWindow ''5m'' = Some ?spec"
    by (simp add: parseKineticWindow_def trim_space_graphic graphic_def to_lower_char_def)
  moreover have "rings_wf ?b" "\<forall>i < 13. ib_FiveMinEpochs ?b ! i = 0" "\<forall>i < 25. ib_HourlyEpochs ?b ! i = 0"
    by (simp_all add: rings_wf_def empty_bucket_def)
  moreover have "{5666665..5666666} = {5666665, 5666666 :: int}" by auto
  ultimately show ?thesis
    using source_window_exact [of "''5m''" ?spec ?b "[(1700000000, 70000, 2, 1, 0)]" "(62135596800 + 1700000040) * second"]
    by (simp add: in_order_def time_unix_def recorded_def bucket_totals_def go_time_simps)
qed

end
