(* ===== verification/Config_Types.thy ===== *)
theory Config_Types
  imports Prelude
begin

text \<open>
  The configuration records the modelled components read: \<open>KineticConfig\<close> (\<open>control/config.go\<close>), the
  runtime settings that override it (\<open>control/runtime_settings.go\<close>) and the fields of \<open>Config\<close>
  that the state, the response engine and the expiry worker use. \<open>kineticConfigFromRuntime\<close> copies
  the runtime settings over a base configuration.
\<close>

record KineticConfig =
  kc_Enabled :: bool
  kc_EnforcementMode :: string
  kc_IPThreshold :: int
  kc_VelocityLimit :: int
  kc_RangeThreshold :: int
  kc_IPv6SubThreshold :: int
  kc_WideRangeThreshold :: int
  kc_PortscanThreshold :: int
  kc_SYNThreshold :: int
  kc_SYNAckRatio :: int
  kc_LowSlowMinSeconds :: int
  kc_SubnetMinSources :: int
  kc_IPv6SubnetMinSources :: int
  kc_WideMinSources :: int
  kc_AutoContainSingleIP :: bool
  kc_AutoContainIPv4Subnet :: bool
  kc_AutoContainIPv6Subnet :: bool
  kc_MaxTrackingIPs :: int
  kc_BanTTLSeconds :: int
  kc_MaxStrikesPerSec :: int
  kc_ServicePortsWeb :: "16 word list"
  kc_ServicePortsMail :: "16 word list"
  kc_ServicePortsAdmin :: "16 word list"
  kc_GeoIPCSV :: string
  kc_GeoIPSigningKeys :: "string list"

record KineticRuntimeSettings =
  ks_Enabled :: bool
  ks_EnforcementMode :: string
  ks_IPThreshold :: int
  ks_VelocityLimit :: int
  ks_RangeThreshold :: int
  ks_IPv6SubThreshold :: int
  ks_WideRangeThreshold :: int
  ks_PortscanThreshold :: int
  ks_SYNThreshold :: int
  ks_SYNAckRatio :: int
  ks_LowSlowMinSeconds :: int
  ks_SubnetMinSources :: int
  ks_IPv6SubnetMinSources :: int
  ks_WideMinSources :: int
  ks_AutoContainSingleIP :: bool
  ks_AutoContainIPv4Subnet :: bool
  ks_AutoContainIPv6Subnet :: bool
  ks_MaxTrackingIPs :: int
  ks_BanTTLSeconds :: int
  ks_MaxStrikesPerSec :: int
  ks_ServicePortsWeb :: "16 word list"
  ks_ServicePortsMail :: "16 word list"
  ks_ServicePortsAdmin :: "16 word list"

record NetworkRuntimeSettings =
  nr_DefaultTTLSeconds :: int
  nr_MaxTTLSeconds :: int
  nr_MaxBlockEntries :: int
  nr_StrictASNDrop :: bool

record DefenseConfig =
  df_Allowlist :: "string list"
  df_Enforcement :: string
  df_DefaultTTLSeconds :: int
  df_MaxTTLSeconds :: int
  df_MaxBlockEntries :: int
  df_StrictASNDrop :: bool

text \<open>The part of \<open>Config\<close> that the modelled components read.\<close>

record Config =
  cf_NodeName :: string
  cf_Defense :: DefenseConfig
  cf_PolicyRequireSigned :: bool
  cf_XDREnabled :: bool
  cf_XDRMode :: string
  cf_XDRQueueCapacity :: int
  cf_L7Enabled :: bool
  cf_L7Mode :: string
  cf_L7InlineEnabled :: bool
  cf_ReleaseChannel :: string
  cf_EmergencyStopFile :: string
  cf_Kinetic :: KineticConfig

definition kineticConfigFromRuntime :: "KineticConfig \<Rightarrow> KineticRuntimeSettings \<Rightarrow> KineticConfig" where
  "kineticConfigFromRuntime base runtime = base\<lparr>
     kc_Enabled := ks_Enabled runtime,
     kc_EnforcementMode := ks_EnforcementMode runtime,
     kc_IPThreshold := ks_IPThreshold runtime,
     kc_VelocityLimit := ks_VelocityLimit runtime,
     kc_RangeThreshold := ks_RangeThreshold runtime,
     kc_IPv6SubThreshold := ks_IPv6SubThreshold runtime,
     kc_WideRangeThreshold := ks_WideRangeThreshold runtime,
     kc_PortscanThreshold := ks_PortscanThreshold runtime,
     kc_SYNThreshold := ks_SYNThreshold runtime,
     kc_SYNAckRatio := ks_SYNAckRatio runtime,
     kc_LowSlowMinSeconds := ks_LowSlowMinSeconds runtime,
     kc_SubnetMinSources := ks_SubnetMinSources runtime,
     kc_IPv6SubnetMinSources := ks_IPv6SubnetMinSources runtime,
     kc_WideMinSources := ks_WideMinSources runtime,
     kc_AutoContainSingleIP := ks_AutoContainSingleIP runtime,
     kc_AutoContainIPv4Subnet := ks_AutoContainIPv4Subnet runtime,
     kc_AutoContainIPv6Subnet := ks_AutoContainIPv6Subnet runtime,
     kc_MaxTrackingIPs := ks_MaxTrackingIPs runtime,
     kc_BanTTLSeconds := ks_BanTTLSeconds runtime,
     kc_MaxStrikesPerSec := ks_MaxStrikesPerSec runtime,
     kc_ServicePortsWeb := ks_ServicePortsWeb runtime,
     kc_ServicePortsMail := ks_ServicePortsMail runtime,
     kc_ServicePortsAdmin := ks_ServicePortsAdmin runtime \<rparr>"

end
