(* ===== verification/State_Model.thy ===== *)
theory State_Model
  imports Kinetic_Types Config_Types
begin

text \<open>
  \<open>control/state.go\<close>: the shared state of the control plane. This theory holds the records,
  the setters, the evidence path, the event list with its subscribers, the owner map of
  XDR degradation causes and the incident list. Blocks are in \<open>Block_State\<close>, derived verdicts
  in \<open>State_Status\<close>.

  Methods take the environment they read as arguments: \<open>env\<close> carries the clock readings of a
  call, the stream of random identifiers (the state counts how many were minted), the hash
  function and the operations of the attached evidence ledger, whose own state is part of
  \<open>State\<close>. A lock is held for the whole of each modelled operation, so operations are atomic
  state transformers; log output is returned where a method composes it.

  The lemmas show that the event list is a bounded log of the newest events, that the
  published degradation flag and reason are a function of the cause map alone after every
  operation that goes through the map, and how a status scan can break that link.
\<close>

section \<open>Records\<close>

record Event =
  ev_ID :: string
  ev_Time :: gotime
  ev_Severity :: string
  ev_Kind :: string
  ev_Source :: string
  ev_Message :: string
  ev_Target :: string

definition mk_event :: "gotime \<Rightarrow> string \<Rightarrow> string \<Rightarrow> string \<Rightarrow> string \<Rightarrow> string \<Rightarrow> Event" where
  "mk_event t severity kind source message target =
     \<lparr> ev_ID = [], ev_Time = t, ev_Severity = severity, ev_Kind = kind, ev_Source = source,
       ev_Message = message, ev_Target = target \<rparr>"

record BlockEntry =
  be_ID :: string
  be_Target :: string
  be_Reason :: string
  be_Source :: string
  be_CreatedAt :: gotime
  be_ExpiresAt :: gotime
  be_Enforced :: bool

record BehaviorSummary =
  bs_Profiles :: int
  bs_WarmProfiles :: int
  bs_MaxProfiles :: int
  bs_Saturated :: bool
  bs_DroppedObservations :: "64 word"
  bs_LastSaved :: "gotime option"
  bs_IntegrityOK :: bool
  bs_Error :: string

record XDRStatus =
  xs_Enabled :: bool
  xs_Mode :: string
  xs_Degraded :: bool
  xs_DegradedReason :: string
  xs_Processes :: int
  xs_OpenConnections :: int
  xs_IncidentsTotal :: "64 word"
  xs_ActionsTotal :: "64 word"
  xs_LastScan :: "gotime option"
  xs_Sensor :: string
  xs_ProtectedObjects :: int
  xs_QueueDepth :: int
  xs_QueueCapacity :: int
  xs_EvaluationDrops :: "64 word"
  xs_EvaluationsTotal :: "64 word"
  xs_AnomaliesTotal :: "64 word"
  xs_Behavior :: BehaviorSummary

record XDRIncident =
  in_ID :: string
  in_Time :: gotime
  in_Severity :: string
  in_Process :: string
  in_Remote :: string
  in_RuleIDs :: "string list"
  in_Summary :: string
  in_Decision :: string
  in_Action :: string
  in_Outcome :: string
  in_Acknowledged :: bool

record EvidenceRecord =
  er_ID :: string
  er_Time :: gotime
  er_Severity :: string
  er_Kind :: string
  er_Source :: string
  er_Message :: string
  er_Target :: string

record EvidenceStatus =
  es_Enabled :: bool
  es_Healthy :: bool
  es_Full :: bool
  es_Records :: "64 word"
  es_HeadHash :: string
  es_Error :: string
  es_VerifyScope :: string

datatype ledger_error = EvidenceBudgetExhausted | EvidenceUnavailable string

record ReleaseStatus =
  rs_Channel :: string
  rs_Phase :: string
  rs_Since :: gotime
  rs_Ready :: bool
  rs_Blockers :: "string list"
  rs_CoreMisses :: int
  rs_EmergencyStop :: bool
  rs_FailSafeVerified :: bool
  rs_KernelPolicyState :: string
  rs_LastTransition :: "gotime option"
  rs_Detail :: string
  rs_FailSafeReason :: string
  rs_FailSafeAt :: "gotime option"
  rs_NominalSince :: "gotime option"

record PolicyStatus =
  ps_Verified :: bool
  ps_Generation :: "64 word"
  ps_UpdatedAt :: "gotime option"
  ps_Signer :: string
  ps_Error :: string
  ps_MinimumGeneration :: "64 word"

text \<open>The fields of \<open>L7Status\<close> that the coverage derivation reads or writes.\<close>

record L7Status =
  l7_Enabled :: bool
  l7_Mode :: string
  l7_Healthy :: bool
  l7_RequestsTotal :: "64 word"
  l7_LastInspection :: "gotime option"
  l7_InlineEnabled :: bool
  l7_InlineHealthy :: bool
  l7_SelfTestOutcome :: string
  l7_SelfTestAt :: "gotime option"
  l7_InlineRequestsTotal :: "64 word"
  l7_InlineLastError :: string
  l7_Coverage :: string
  l7_CoverageRequired :: bool
  l7_LastRequestAt :: "gotime option"
  l7_WebSurfaceNote :: string
  l7_Miswired :: bool
  l7_CoverageReason :: string
  l7_TrafficPathVerified :: bool
  l7_TLSEnabled :: bool
  l7_TLSHandshakesTotal :: "64 word"

record StreamDiagnostics =
  sd_ActiveClients :: int
  sd_TotalConnects :: int
  sd_TotalDisconnects :: int
  sd_LastHeartbeatAt :: "gotime option"
  sd_WriteErrors :: int

text \<open>A \<open>time.Time\<close> with its optional monotonic reading. \<open>UTC\<close> and \<open>Round(0)\<close> strip it.\<close>

record gostamp =
  gs_wall :: gotime
  gs_mono :: "int option"

definition stamp_add :: "gostamp \<Rightarrow> duration \<Rightarrow> gostamp" where
  "stamp_add t d = \<lparr> gs_wall = time_add (gs_wall t) d, gs_mono = map_option (\<lambda>m. m + d) (gs_mono t) \<rparr>"

definition stamp_utc :: "gostamp \<Rightarrow> gostamp" where
  "stamp_utc t = t\<lparr> gs_mono := None \<rparr>"

text \<open>\<open>Time.After\<close> compares monotonic readings when both times have one.\<close>

definition stamp_after :: "gostamp \<Rightarrow> gostamp \<Rightarrow> bool" where
  "stamp_after t u = (case (gs_mono t, gs_mono u) of
     (Some a, Some b) \<Rightarrow> a > b | _ \<Rightarrow> gs_wall t > gs_wall u)"

record 'l env =
  env_now :: gotime
  env_mono :: int
  env_mint :: "nat \<Rightarrow> string"
  env_sha256 :: "string \<Rightarrow> digest"
  env_append :: "EvidenceRecord \<Rightarrow> 'l \<Rightarrow> ledger_error option \<times> 'l"
  env_ledger_status :: "'l \<Rightarrow> EvidenceStatus"

text \<open>\<open>time.Now()\<close>: both readings.\<close>

definition env_stamp :: "'l env \<Rightarrow> gostamp" where
  "env_stamp en = \<lparr> gs_wall = env_now en, gs_mono = Some (env_mono en) \<rparr>"

record 'l State =
  st_enforcement :: string
  st_releaseXDRMode :: string
  st_started :: gotime
  st_coreConnected :: bool
  st_coreMode :: string
  st_allowlistReady :: bool
  st_feedVectors :: int
  st_feedStatus :: string
  st_lastFeedSync :: "gotime option"
  st_lastFeedAttempt :: "gotime option"
  st_lastFeedFullSync :: "gotime option"
  st_feedGeneration :: "64 word"
  st_feedFingerprint :: string
  st_feedBlockVectors :: int
  st_feedCorrelateVectors :: int
  st_feedAnnotateVectors :: int
  st_blocks :: "(string, BlockEntry) gomap"
  st_blockDeadlines :: "(string, gostamp) gomap"
  st_events :: "Event list"
  st_eventCap :: nat
  st_subscribers :: "(nat, Event list) gomap"
  st_xdr :: XDRStatus
  st_xdrCauses :: "(string, string) gomap"
  st_caseHistoryFailures :: int
  st_l7 :: L7Status
  st_incidents :: "XDRIncident list"
  st_incidentDedupe :: "(string, gotime) gomap"
  st_incidentCap :: nat
  st_policy :: PolicyStatus
  st_release :: ReleaseStatus
  st_evidence :: "'l option"
  st_evidenceStatus :: EvidenceStatus
  st_evidenceErr :: "ledger_error option"
  st_kinetic :: KineticTelemetry
  st_sensors :: "(string, SensorCoverage) gomap"
  st_streamDiagnostics :: StreamDiagnostics
  st_minted :: nat

definition NewState :: "gotime \<Rightarrow> Config \<Rightarrow> 'l State" where
  "NewState now cfg = \<lparr>
     st_enforcement = df_Enforcement (cf_Defense cfg), st_releaseXDRMode = [], st_started = now,
     st_coreConnected = False, st_coreMode = ''offline'', st_allowlistReady = False,
     st_feedVectors = 0, st_feedStatus = [], st_lastFeedSync = None, st_lastFeedAttempt = None,
     st_lastFeedFullSync = None, st_feedGeneration = 0, st_feedFingerprint = [], st_feedBlockVectors = 0,
     st_feedCorrelateVectors = 0, st_feedAnnotateVectors = 0,
     st_blocks = [], st_blockDeadlines = [], st_events = [], st_eventCap = 250, st_subscribers = [],
     st_xdr = \<lparr> xs_Enabled = cf_XDREnabled cfg, xs_Mode = cf_XDRMode cfg, xs_Degraded = False,
       xs_DegradedReason = [], xs_Processes = 0, xs_OpenConnections = 0, xs_IncidentsTotal = 0,
       xs_ActionsTotal = 0, xs_LastScan = None, xs_Sensor = ''initializing'', xs_ProtectedObjects = 0,
       xs_QueueDepth = 0, xs_QueueCapacity = cf_XDRQueueCapacity cfg, xs_EvaluationDrops = 0,
       xs_EvaluationsTotal = 0, xs_AnomaliesTotal = 0,
       xs_Behavior = \<lparr> bs_Profiles = 0, bs_WarmProfiles = 0, bs_MaxProfiles = 0, bs_Saturated = False,
         bs_DroppedObservations = 0, bs_LastSaved = None, bs_IntegrityOK = False, bs_Error = [] \<rparr> \<rparr>,
     st_xdrCauses = [], st_caseHistoryFailures = 0,
     st_l7 = \<lparr> l7_Enabled = cf_L7Enabled cfg, l7_Mode = cf_L7Mode cfg, l7_Healthy = (\<not> cf_L7Enabled cfg),
       l7_RequestsTotal = 0, l7_LastInspection = None, l7_InlineEnabled = cf_L7InlineEnabled cfg,
       l7_InlineHealthy = (\<not> cf_L7InlineEnabled cfg), l7_SelfTestOutcome = [], l7_SelfTestAt = None,
       l7_InlineRequestsTotal = 0, l7_InlineLastError = [], l7_Coverage = [], l7_CoverageRequired = False,
       l7_LastRequestAt = None, l7_WebSurfaceNote = [], l7_Miswired = False, l7_CoverageReason = [],
       l7_TrafficPathVerified = False, l7_TLSEnabled = False, l7_TLSHandshakesTotal = 0 \<rparr>,
     st_incidents = [], st_incidentDedupe = [], st_incidentCap = 250,
     st_policy = \<lparr> ps_Verified = False, ps_Generation = 0, ps_UpdatedAt = None, ps_Signer = [], ps_Error = [],
       ps_MinimumGeneration = 0 \<rparr>,
     st_release = \<lparr> rs_Channel = cf_ReleaseChannel cfg, rs_Phase = ''observe'', rs_Since = now, rs_Ready = False,
       rs_Blockers = [], rs_CoreMisses = 0, rs_EmergencyStop = False, rs_FailSafeVerified = False,
       rs_KernelPolicyState = [], rs_LastTransition = None, rs_Detail = [], rs_FailSafeReason = [],
       rs_FailSafeAt = None, rs_NominalSince = None \<rparr>,
     st_evidence = None,
     st_evidenceStatus = \<lparr> es_Enabled = False, es_Healthy = False, es_Full = False, es_Records = 0,
       es_HeadHash = [], es_Error = [], es_VerifyScope = [] \<rparr>,
     st_evidenceErr = None, st_kinetic = DefaultKineticTelemetry,
     st_sensors = sy_Sensors (kt_Coverage DefaultKineticTelemetry),
     st_streamDiagnostics = \<lparr> sd_ActiveClients = 0, sd_TotalConnects = 0, sd_TotalDisconnects = 0,
       sd_LastHeartbeatAt = None, sd_WriteErrors = 0 \<rparr>,
     st_minted = 0 \<rparr>"

text \<open>The answer of \<open>EvidenceLedger.Healthy\<close> is an argument.\<close>

definition AttachEvidenceLedger :: "'l env \<Rightarrow> 'l \<Rightarrow> ledger_error option \<Rightarrow> 'l State \<Rightarrow> ledger_error option \<times> 'l State" where
  "AttachEvidenceLedger en ledger healthy s =
     (case healthy of
        Some e \<Rightarrow> (Some e, s)
      | None \<Rightarrow> (None, s\<lparr> st_evidence := Some ledger, st_evidenceErr := None,
                           st_evidenceStatus := env_ledger_status en ledger \<rparr>))"

text \<open>\<open>randomID\<close>: the next identifier of the random stream.\<close>

definition randomID :: "'l env \<Rightarrow> 'l State \<Rightarrow> string \<times> 'l State" where
  "randomID en s = (env_mint en (st_minted s), s\<lparr> st_minted := Suc (st_minted s) \<rparr>)"

section \<open>Setters\<close>

definition SetModes :: "string \<Rightarrow> string \<Rightarrow> 'l State \<Rightarrow> 'l State" where
  "SetModes enforcement xdrMode s =
     s\<lparr> st_enforcement := enforcement, st_releaseXDRMode := xdrMode, st_xdr := (st_xdr s)\<lparr> xs_Mode := xdrMode \<rparr> \<rparr>"

definition Modes :: "'l State \<Rightarrow> string \<times> string" where
  "Modes s = (st_enforcement s, if st_releaseXDRMode s = [] then xs_Mode (st_xdr s) else st_releaseXDRMode s)"

definition SetReleaseStatus :: "ReleaseStatus \<Rightarrow> 'l State \<Rightarrow> 'l State" where
  "SetReleaseStatus status s = s\<lparr> st_release := status \<rparr>"

definition SetCore :: "bool \<Rightarrow> string \<Rightarrow> 'l State \<Rightarrow> 'l State" where
  "SetCore isup mode s = s\<lparr> st_coreConnected := isup, st_coreMode := mode \<rparr>"

definition SetAllowlistReady :: "bool \<Rightarrow> 'l State \<Rightarrow> 'l State" where
  "SetAllowlistReady ready s = s\<lparr> st_allowlistReady := ready \<rparr>"

definition SetFeedVectors :: "int \<Rightarrow> gotime \<Rightarrow> 'l State \<Rightarrow> 'l State" where
  "SetFeedVectors n ts s = s\<lparr> st_feedVectors := n, st_lastFeedSync := Some ts \<rparr>"

definition SetFeedState :: "int \<Rightarrow> int \<Rightarrow> int \<Rightarrow> 64 word \<Rightarrow> string \<Rightarrow> string \<Rightarrow> gotime \<Rightarrow> gotime \<Rightarrow> gotime
    \<Rightarrow> 'l State \<Rightarrow> 'l State" where
  "SetFeedState blockCount correlateCount annotateCount gen fingerprint status lastAttempt lastSuccess lastFullSuccess s =
     s\<lparr> st_feedVectors := blockCount + correlateCount + annotateCount,
        st_feedBlockVectors := blockCount, st_feedCorrelateVectors := correlateCount,
        st_feedAnnotateVectors := annotateCount, st_feedGeneration := gen,
        st_feedFingerprint := fingerprint, st_feedStatus := status,
        st_lastFeedAttempt := (if time_is_zero lastAttempt then st_lastFeedAttempt s else Some lastAttempt),
        st_lastFeedSync := (if time_is_zero lastSuccess then st_lastFeedSync s else Some lastSuccess),
        st_lastFeedFullSync := (if time_is_zero lastFullSuccess then st_lastFeedFullSync s else Some lastFullSuccess) \<rparr>"

definition SetPolicyStatus :: "PolicyStatus \<Rightarrow> 'l State \<Rightarrow> 'l State" where
  "SetPolicyStatus p s = s\<lparr> st_policy := p \<rparr>"

definition SetEvidenceStatus :: "EvidenceStatus \<Rightarrow> 'l State \<Rightarrow> 'l State" where
  "SetEvidenceStatus status s = s\<lparr> st_evidenceStatus := status \<rparr>"

definition SetL7Status :: "L7Status \<Rightarrow> 'l State \<Rightarrow> 'l State" where
  "SetL7Status status s = s\<lparr> st_l7 := status \<rparr>"

definition UpdateL7Status :: "(L7Status \<Rightarrow> L7Status) \<Rightarrow> 'l State \<Rightarrow> 'l State" where
  "UpdateL7Status upd s = s\<lparr> st_l7 := upd (st_l7 s) \<rparr>"

definition SetKineticTelemetry :: "KineticTelemetry \<Rightarrow> 'l State \<Rightarrow> 'l State" where
  "SetKineticTelemetry t s = s\<lparr> st_kinetic := t \<rparr>"

definition UpdateKineticTelemetry :: "(KineticTelemetry \<Rightarrow> KineticTelemetry) \<Rightarrow> 'l State \<Rightarrow> 'l State" where
  "UpdateKineticTelemetry fn s = s\<lparr> st_kinetic := fn (st_kinetic s) \<rparr>"

definition SetSensorCoverage :: "SensorCoverage \<Rightarrow> 'l State \<Rightarrow> 'l State" where
  "SetSensorCoverage cov s =
     (let sensors = gm_put (sc_Name cov) cov (st_sensors s)
      in s\<lparr> st_sensors := sensors,
            st_kinetic := (st_kinetic s)\<lparr> kt_Coverage := EvaluateCoverage sensors \<rparr> \<rparr>)"

definition state_SensorCoverage :: "string \<Rightarrow> 'l State \<Rightarrow> SensorCoverage option" where
  "state_SensorCoverage name s = gm_get (st_sensors s) name"

definition state_SystemCoverage :: "'l State \<Rightarrow> SystemCoverage" where
  "state_SystemCoverage s = kt_Coverage (st_kinetic s)"

section \<open>XDR degradation causes\<close>

definition xdrCauseEngine :: string where "xdrCauseEngine = ''engine''"
definition xdrCauseCaseHistory :: string where "xdrCauseCaseHistory = ''case_history''"
definition xdrCauseEvidence :: string where "xdrCauseEvidence = ''evidence_ledger''"
definition caseHistoryFailureThreshold :: int where "caseHistoryFailureThreshold = 2"

definition cause_text :: "(string, string) gomap \<Rightarrow> string \<Rightarrow> string" where
  "cause_text m k = (case gm_get m k of Some r \<Rightarrow> r | None \<Rightarrow> [])"

definition causes_reason :: "(string, string) gomap \<Rightarrow> string" where
  "causes_reason m = str_join ''; '' (map (cause_text m) (sort (map fst m)))"

text \<open>Returns the journal line, empty when nothing changed.\<close>

definition recomputeXDRDegradedLocked :: "'l State \<Rightarrow> string \<times> 'l State" where
  "recomputeXDRDegradedLocked s =
     (let m = st_xdrCauses s; degraded = (length m > 0); keys = sort (map fst m);
          reason = causes_reason m;
          detail = map (\<lambda>k. k @ ''='' @ cause_text m k) keys
      in if xs_Degraded (st_xdr s) = degraded \<and> xs_DegradedReason (st_xdr s) = reason then ([], s)
         else (if degraded then ''xdr degraded: '' @ str_join ''; '' detail
               else ''xdr recovered: no degradation causes remain'',
               s\<lparr> st_xdr := (st_xdr s)\<lparr> xs_Degraded := degraded, xs_DegradedReason := reason \<rparr> \<rparr>))"

definition markXDRCauseLocked :: "string \<Rightarrow> string \<Rightarrow> 'l State \<Rightarrow> string \<times> 'l State" where
  "markXDRCauseLocked cause reason s =
     (if gm_get (st_xdrCauses s) cause = Some reason then ([], s)
      else recomputeXDRDegradedLocked (s\<lparr> st_xdrCauses := gm_put cause reason (st_xdrCauses s) \<rparr>))"

definition clearXDRCauseLocked :: "string \<Rightarrow> 'l State \<Rightarrow> string \<times> 'l State" where
  "clearXDRCauseLocked cause s =
     (if \<not> gm_has (st_xdrCauses s) cause then ([], s)
      else recomputeXDRDegradedLocked (s\<lparr> st_xdrCauses := gm_del cause (st_xdrCauses s) \<rparr>))"

definition markXDRCause :: "string \<Rightarrow> string \<Rightarrow> 'l State \<Rightarrow> 'l State" where
  "markXDRCause cause reason s = snd (markXDRCauseLocked cause reason s)"

definition clearXDRCause :: "string \<Rightarrow> 'l State \<Rightarrow> 'l State" where
  "clearXDRCause cause s = snd (clearXDRCauseLocked cause s)"

definition MarkXDRDegraded :: "string \<Rightarrow> 'l State \<Rightarrow> 'l State" where
  "MarkXDRDegraded reason s = markXDRCause xdrCauseEngine reason s"

definition SetXDRDegraded :: "bool \<Rightarrow> string \<Rightarrow> 'l State \<Rightarrow> 'l State" where
  "SetXDRDegraded degraded reason s =
     (if degraded then markXDRCause xdrCauseEngine reason s else clearXDRCause xdrCauseEngine s)"

definition noteCaseHistoryFailure :: "string \<Rightarrow> 'l State \<Rightarrow> 'l State" where
  "noteCaseHistoryFailure err s =
     (let s = s\<lparr> st_caseHistoryFailures := st_caseHistoryFailures s + 1 \<rparr>
      in if st_caseHistoryFailures s \<ge> caseHistoryFailureThreshold
         then markXDRCause xdrCauseCaseHistory (''case history integrity unavailable: '' @ err) s else s)"

definition noteCaseHistorySuccess :: "'l State \<Rightarrow> 'l State" where
  "noteCaseHistorySuccess s = clearXDRCause xdrCauseCaseHistory (s\<lparr> st_caseHistoryFailures := 0 \<rparr>)"

definition SetXDREnabled :: "bool \<Rightarrow> bool \<Rightarrow> 'l State \<Rightarrow> 'l State" where
  "SetXDREnabled enabled networkSensor s =
     (let x = (st_xdr s)\<lparr> xs_Enabled := enabled \<rparr>
      in s\<lparr> st_xdr :=
           (if \<not> enabled then x\<lparr> xs_Sensor := ''disabled-by-operator'' \<rparr>
            else if xs_Sensor x = [] \<or> xs_Sensor x = ''initializing'' then
              x\<lparr> xs_Sensor := (if networkSensor then ''procfs+network-bounded'' else ''procfs-bounded'') \<rparr>
            else x) \<rparr>)"

definition SetXDRStatus :: "XDRStatus \<Rightarrow> 'l State \<Rightarrow> 'l State" where
  "SetXDRStatus x s =
     (let old = st_xdr s;
          x = (if xs_IncidentsTotal x = 0 then x\<lparr> xs_IncidentsTotal := xs_IncidentsTotal old \<rparr> else x);
          x = (if xs_ActionsTotal x = 0 then x\<lparr> xs_ActionsTotal := xs_ActionsTotal old \<rparr> else x);
          x = (if xs_Degraded old \<and> \<not> xs_Degraded x
               then x\<lparr> xs_Degraded := True, xs_DegradedReason := xs_DegradedReason old \<rparr> else x)
      in s\<lparr> st_xdr := x \<rparr>)"

definition UpdateXDRScan :: "int \<Rightarrow> int \<Rightarrow> gotime \<Rightarrow> bool \<Rightarrow> string \<Rightarrow> int \<Rightarrow> 'l State \<Rightarrow> 'l State" where
  "UpdateXDRScan processes connections ts degraded reason protected s =
     (let x = (st_xdr s)\<lparr> xs_Enabled := True, xs_Processes := processes,
                xs_OpenConnections := (if connections \<ge> 0 then connections else xs_OpenConnections (st_xdr s)),
                xs_LastScan := Some ts, xs_Degraded := degraded, xs_DegradedReason := reason,
                xs_ProtectedObjects := protected \<rparr>
      in s\<lparr> st_xdr := (if xs_Sensor x = [] \<or> xs_Sensor x = ''initializing''
                       then x\<lparr> xs_Sensor := ''procfs-fallback'' \<rparr> else x) \<rparr>)"

definition UpdateXDRRuntime :: "int \<Rightarrow> int \<Rightarrow> 64 word \<Rightarrow> 64 word \<Rightarrow> 64 word \<Rightarrow> BehaviorSummary \<Rightarrow> 'l State \<Rightarrow> 'l State" where
  "UpdateXDRRuntime queueDepth queueCapacity drops evaluations anomalies behavior s =
     s\<lparr> st_xdr := (st_xdr s)\<lparr> xs_QueueDepth := queueDepth, xs_QueueCapacity := queueCapacity,
          xs_EvaluationDrops := drops, xs_EvaluationsTotal := evaluations, xs_AnomaliesTotal := anomalies,
          xs_Behavior := behavior \<rparr> \<rparr>"

section \<open>Evidence and events\<close>

definition RecordEvidence :: "'l env \<Rightarrow> EvidenceRecord \<Rightarrow> 'l State \<Rightarrow> ledger_error option \<times> 'l State" where
  "RecordEvidence en record s =
     (case st_evidence s of
        None \<Rightarrow> (None, s)
      | Some l \<Rightarrow>
          let (err, l') = env_append en record l;
              s = s\<lparr> st_evidence := Some l', st_evidenceErr := err, st_evidenceStatus := env_ledger_status en l' \<rparr>
          in (err, case err of
                None \<Rightarrow> clearXDRCause xdrCauseEvidence s
              | Some EvidenceBudgetExhausted \<Rightarrow>
                  clearXDRCause xdrCauseEvidence
                    (s\<lparr> st_evidenceStatus := (st_evidenceStatus s)\<lparr> es_Full := True \<rparr> \<rparr>)
              | Some (EvidenceUnavailable _) \<Rightarrow>
                  markXDRCause xdrCauseEvidence ''mandatory evidence ledger unavailable''
                    (s\<lparr> st_evidenceStatus := (st_evidenceStatus s)
                          \<lparr> es_Healthy := False, es_Error := ''evidence integrity unavailable'' \<rparr> \<rparr>)))"

definition EvidenceHealthy :: "'l State \<Rightarrow> ledger_error option" where
  "EvidenceHealthy s = st_evidenceErr s"

definition EvidenceGateCondition :: "'l State \<Rightarrow> string \<times> ledger_error option" where
  "EvidenceGateCondition s =
     (case st_evidenceErr s of
        None \<Rightarrow> ([], None)
      | Some EvidenceBudgetExhausted \<Rightarrow> (''evidence ledger retention budget reached'', Some EvidenceBudgetExhausted)
      | Some e \<Rightarrow> (''mandatory evidence ledger unavailable'', Some e))"

definition evidence_of_event :: "Event \<Rightarrow> EvidenceRecord" where
  "evidence_of_event e = \<lparr> er_ID = ev_ID e, er_Time = ev_Time e, er_Severity = ev_Severity e, er_Kind = ev_Kind e,
     er_Source = ev_Source e, er_Message = ev_Message e, er_Target = ev_Target e \<rparr>"

text \<open>A subscriber channel buffers 32 events; a send to a full channel is dropped.\<close>

definition deliver :: "Event \<Rightarrow> (nat, Event list) gomap \<Rightarrow> (nat, Event list) gomap" where
  "deliver e subs = map (\<lambda>(ch, buf). (ch, if length buf < 32 then buf @ [e] else buf)) subs"

definition append_event :: "Event \<Rightarrow> 'l State \<Rightarrow> 'l State" where
  "append_event e s =
     (let events = st_events s @ [e];
          events = (if length events > st_eventCap s then drop (length events - st_eventCap s) events else events)
      in s\<lparr> st_events := events, st_subscribers := deliver e (st_subscribers s) \<rparr>)"

definition AddEvent :: "'l env \<Rightarrow> Event \<Rightarrow> 'l State \<Rightarrow> 'l State" where
  "AddEvent en e s =
     (let (e, s) = (if ev_ID e = [] then (case randomID en s of (i, s) \<Rightarrow> (e\<lparr> ev_ID := i \<rparr>, s)) else (e, s));
          e = (if time_is_zero (ev_Time e) then e\<lparr> ev_Time := env_now en \<rparr> else e)
      in append_event e (snd (RecordEvidence en (evidence_of_event e) s)))"

definition Subscribe :: "nat \<Rightarrow> 'l State \<Rightarrow> 'l State" where
  "Subscribe ch s = s\<lparr> st_subscribers := gm_put ch [] (st_subscribers s) \<rparr>"

definition Unsubscribe :: "nat \<Rightarrow> 'l State \<Rightarrow> 'l State" where
  "Unsubscribe ch s =
     (if gm_has (st_subscribers s) ch then s\<lparr> st_subscribers := gm_del ch (st_subscribers s) \<rparr> else s)"

section \<open>Incidents\<close>

definition incidentFingerprint :: "XDRIncident \<Rightarrow> string" where
  "incidentFingerprint i =
     (let rule = (case in_RuleIDs i of [] \<Rightarrow> [] | r # _ \<Rightarrow> r)
      in rule @ ''|'' @ in_Severity i @ ''|'' @ in_Process i @ ''|'' @ in_Remote i @ ''|'' @ in_Summary i)"

definition RestoreIncidents :: "XDRIncident list \<Rightarrow> 'l State \<Rightarrow> 'l State" where
  "RestoreIncidents incidents s =
     (let restored = filter (\<lambda>i. in_ID i \<noteq> []) incidents
      in if restored = [] then s
         else let existing = map in_ID (st_incidents s);
                  all = st_incidents s @ filter (\<lambda>i. in_ID i \<notin> set existing) restored
              in s\<lparr> st_incidents := (if length all > st_incidentCap s
                                      then drop (length all - st_incidentCap s) all else all) \<rparr>)"

text \<open>The bounded duplicate map: entries are dropped in iteration order until 2048 remain.\<close>

definition trim_dedupe :: "(string, gotime) gomap \<Rightarrow> (string, gotime) gomap" where
  "trim_dedupe m = (if length m > 4096 then drop (length m - 2048) m else m)"

definition push_incident :: "XDRIncident \<Rightarrow> 'l State \<Rightarrow> 'l State" where
  "push_incident i s =
     (let all = st_incidents s @ [i]; x = st_xdr s;
          x = x\<lparr> xs_IncidentsTotal := xs_IncidentsTotal x + 1 \<rparr>;
          x = (if in_Action i \<noteq> [] \<and> in_Action i \<noteq> ''none'' then x\<lparr> xs_ActionsTotal := xs_ActionsTotal x + 1 \<rparr> else x)
      in s\<lparr> st_incidents := (if length all > st_incidentCap s then drop (length all - st_incidentCap s) all else all),
            st_xdr := x \<rparr>)"

text \<open>
  \<open>AddIncident\<close>. The case engine is reached through \<open>ingest\<close>: \<open>None\<close> when none is attached,
  otherwise its answer for an incident (\<open>Some err\<close> on failure).
\<close>

definition AddIncident :: "'l env \<Rightarrow> (XDRIncident \<Rightarrow> string option) option \<Rightarrow> XDRIncident \<Rightarrow> 'l State \<Rightarrow> 'l State" where
  "AddIncident en ingest i s =
     (let (i, s) = (if in_ID i = [] then (case randomID en s of (n, s) \<Rightarrow> (i\<lparr> in_ID := n \<rparr>, s)) else (i, s));
          i = (if time_is_zero (in_Time i) then i\<lparr> in_Time := env_now en \<rparr> else i);
          scanner = (in_RuleIDs i \<noteq> [] \<and> prefix ''L7.SCANNER'' (hd (in_RuleIDs i)));
          fp = incidentFingerprint i; now = env_now en;
          repeated = (scanner \<and> (case gm_get (st_incidentDedupe s) fp of
             Some prev \<Rightarrow> time_sub now prev < 60 * second | None \<Rightarrow> False))
      in if repeated then s\<lparr> st_incidentDedupe := gm_put fp now (st_incidentDedupe s) \<rparr>
         else
           let s = (if scanner then s\<lparr> st_incidentDedupe := gm_put fp now (trim_dedupe (st_incidentDedupe s)) \<rparr> else s);
               s = push_incident i s
           in case ingest of
                None \<Rightarrow> s
              | Some f \<Rightarrow> (case f i of Some err \<Rightarrow> noteCaseHistoryFailure err s | None \<Rightarrow> noteCaseHistorySuccess s))"

fun acknowledge :: "string \<Rightarrow> XDRIncident list \<Rightarrow> XDRIncident list option" where
  "acknowledge rid [] = None"
| "acknowledge rid (i # is) =
     (if in_ID i = rid then Some (i\<lparr> in_Acknowledged := True \<rparr> # is) else map_option (Cons i) (acknowledge rid is))"

definition AcknowledgeIncident :: "string \<Rightarrow> 'l State \<Rightarrow> bool \<times> 'l State" where
  "AcknowledgeIncident rid s =
     (case acknowledge rid (st_incidents s) of
        None \<Rightarrow> (False, s) | Some is \<Rightarrow> (True, s\<lparr> st_incidents := is \<rparr>))"

section \<open>Stream diagnostics\<close>

definition RecordStreamConnect :: "'l State \<Rightarrow> 'l State" where
  "RecordStreamConnect s = s\<lparr> st_streamDiagnostics := (st_streamDiagnostics s)
     \<lparr> sd_TotalConnects := sd_TotalConnects (st_streamDiagnostics s) + 1,
       sd_ActiveClients := int (length (st_subscribers s)) \<rparr> \<rparr>"

definition RecordStreamDisconnect :: "'l State \<Rightarrow> 'l State" where
  "RecordStreamDisconnect s = s\<lparr> st_streamDiagnostics := (st_streamDiagnostics s)
     \<lparr> sd_TotalDisconnects := sd_TotalDisconnects (st_streamDiagnostics s) + 1,
       sd_ActiveClients := int (length (st_subscribers s)) \<rparr> \<rparr>"

definition RecordStreamHeartbeat :: "'l env \<Rightarrow> 'l State \<Rightarrow> 'l State" where
  "RecordStreamHeartbeat en s = s\<lparr> st_streamDiagnostics := (st_streamDiagnostics s)
     \<lparr> sd_LastHeartbeatAt := Some (env_now en) \<rparr> \<rparr>"

definition RecordStreamWriteError :: "'l State \<Rightarrow> 'l State" where
  "RecordStreamWriteError s = s\<lparr> st_streamDiagnostics := (st_streamDiagnostics s)
     \<lparr> sd_WriteErrors := sd_WriteErrors (st_streamDiagnostics s) + 1 \<rparr> \<rparr>"

definition state_StreamDiagnostics :: "'l State \<Rightarrow> StreamDiagnostics" where
  "state_StreamDiagnostics s = (st_streamDiagnostics s)\<lparr> sd_ActiveClients := int (length (st_subscribers s)) \<rparr>"

section \<open>What the evidence and event path leaves alone\<close>

text \<open>
  The part of the state that decides enforcement: blocks, modes, release, policy, coverage and
  telemetry. Recording evidence, events and degradation causes does not touch it.
\<close>

definition enforcement_view where
  "enforcement_view s = (st_blocks s, st_blockDeadlines s, st_enforcement s, st_releaseXDRMode s, st_release s,
     st_policy s, st_sensors s, st_kinetic s, st_coreConnected s, st_allowlistReady s, st_l7 s, st_started s)"

lemma view_causes:
  "enforcement_view (snd (recomputeXDRDegradedLocked s)) = enforcement_view s"
  "enforcement_view (snd (markXDRCauseLocked k r s)) = enforcement_view s"
  "enforcement_view (snd (clearXDRCauseLocked k s)) = enforcement_view s"
  "enforcement_view (markXDRCause k r s) = enforcement_view s"
  "enforcement_view (clearXDRCause k s) = enforcement_view s"
  by (simp_all add: enforcement_view_def recomputeXDRDegradedLocked_def markXDRCauseLocked_def clearXDRCauseLocked_def
      markXDRCause_def clearXDRCause_def Let_def)

lemma view_RecordEvidence: "enforcement_view (snd (RecordEvidence en r s)) = enforcement_view s"
  by (auto simp: RecordEvidence_def Let_def view_causes split: option.split prod.split ledger_error.split)
     (simp_all add: enforcement_view_def)

lemma view_randomID: "enforcement_view (snd (randomID en s)) = enforcement_view s"
  by (simp add: randomID_def enforcement_view_def)

lemma view_append_event: "enforcement_view (append_event e s) = enforcement_view s"
  by (simp add: append_event_def enforcement_view_def Let_def)

lemma view_AddEvent: "enforcement_view (AddEvent en e s) = enforcement_view s"
  by (auto simp: AddEvent_def Let_def view_append_event view_RecordEvidence randomID_def split: prod.split)
     (simp add: enforcement_view_def)

lemmas enforcement_view_simps = view_causes view_RecordEvidence view_randomID view_append_event view_AddEvent

lemma enforcement_viewD:
  assumes "enforcement_view s = enforcement_view s'"
  shows "st_blocks s = st_blocks s'" "st_blockDeadlines s = st_blockDeadlines s'" "st_enforcement s = st_enforcement s'"
    "st_releaseXDRMode s = st_releaseXDRMode s'" "st_release s = st_release s'" "st_policy s = st_policy s'"
    "st_sensors s = st_sensors s'" "st_kinetic s = st_kinetic s'" "st_coreConnected s = st_coreConnected s'"
    "st_allowlistReady s = st_allowlistReady s'" "st_l7 s = st_l7 s'" "st_started s = st_started s'"
  using assms by (simp_all add: enforcement_view_def)

lemmas AddEvent_frame [simp] = enforcement_viewD [OF view_AddEvent]
lemmas RecordEvidence_frame [simp] = enforcement_viewD [OF view_RecordEvidence]

section \<open>The event list is a bounded log\<close>

interpretation evlog: bounded_log st_events st_eventCap append_event "\<lambda>e s. e"
  by unfold_locales (simp_all add: append_event_def Let_def take_last_def)

lemma causes_keep_events:
  "st_events (snd (recomputeXDRDegradedLocked s)) = st_events s \<and> st_eventCap (snd (recomputeXDRDegradedLocked s)) = st_eventCap s"
  "st_events (markXDRCause k r s) = st_events s \<and> st_eventCap (markXDRCause k r s) = st_eventCap s"
  "st_events (clearXDRCause k s) = st_events s \<and> st_eventCap (clearXDRCause k s) = st_eventCap s"
  by (simp_all add: recomputeXDRDegradedLocked_def markXDRCauseLocked_def clearXDRCauseLocked_def
      markXDRCause_def clearXDRCause_def Let_def)

lemma RecordEvidence_events:
  "st_events (snd (RecordEvidence en r s)) = st_events s" "st_eventCap (snd (RecordEvidence en r s)) = st_eventCap s"
  by (auto simp: RecordEvidence_def Let_def causes_keep_events split: option.split prod.split ledger_error.split)

text \<open>The event as it is stored: with an identifier and a time.\<close>

definition stamped :: "'l env \<Rightarrow> Event \<Rightarrow> 'l State \<Rightarrow> Event" where
  "stamped en e s =
     (let e = (if ev_ID e = [] then e\<lparr> ev_ID := env_mint en (st_minted s) \<rparr> else e)
      in if time_is_zero (ev_Time e) then e\<lparr> ev_Time := env_now en \<rparr> else e)"

lemma AddEvent_events:
  assumes "evlog.good s"
  shows "st_events (AddEvent en e s) = take_last (st_eventCap s) (st_events s @ [stamped en e s])"
    and "st_eventCap (AddEvent en e s) = st_eventCap s"
    and "evlog.good (AddEvent en e s)"
proof -
  have ex: "\<exists>s0. AddEvent en e s = append_event (stamped en e s) s0 \<and> st_events s0 = st_events s \<and> st_eventCap s0 = st_eventCap s"
    by (cases "ev_ID e = []")
       (auto simp: AddEvent_def stamped_def randomID_def Let_def RecordEvidence_events intro!: exI)
  then obtain s0 where s0: "AddEvent en e s = append_event (stamped en e s) s0" "st_events s0 = st_events s"
    "st_eventCap s0 = st_eventCap s" by blast
  then have "evlog.good s0" using assms by (simp add: evlog.good_def)
  then show "st_events (AddEvent en e s) = take_last (st_eventCap s) (st_events s @ [stamped en e s])"
    "st_eventCap (AddEvent en e s) = st_eventCap s" "evlog.good (AddEvent en e s)"
    using s0 evlog.items_push [of s0] evlog.good_push [of s0] evlog.cap_push [of _ s0] by (simp_all add: evlog.good_def)
qed

section \<open>Degradation causes\<close>

text \<open>The published flag and reason are those of the cause map.\<close>

definition xdr_synced :: "'l State \<Rightarrow> bool" where
  "xdr_synced s \<longleftrightarrow> xs_Degraded (st_xdr s) = (st_xdrCauses s \<noteq> [])
     \<and> xs_DegradedReason (st_xdr s) = causes_reason (st_xdrCauses s)"

lemma recompute_synced: "xdr_synced (snd (recomputeXDRDegradedLocked s))"
  by (auto simp: recomputeXDRDegradedLocked_def xdr_synced_def Let_def)

lemma recompute_causes: "st_xdrCauses (snd (recomputeXDRDegradedLocked s)) = st_xdrCauses s"
  by (simp add: recomputeXDRDegradedLocked_def Let_def)

lemma mark_causes:
  "st_xdrCauses (markXDRCause k r s) = gm_put k r (st_xdrCauses s)"
  by (auto simp: markXDRCause_def markXDRCauseLocked_def recompute_causes update_triv)

lemma clear_causes: "st_xdrCauses (clearXDRCause k s) = gm_del k (st_xdrCauses s)"
  by (simp add: clearXDRCause_def clearXDRCauseLocked_def recompute_causes gm_del_absent)

lemma mark_synced: "xdr_synced s \<Longrightarrow> xdr_synced (markXDRCause k r s)"
  by (simp add: markXDRCause_def markXDRCauseLocked_def recompute_synced)

lemma clear_synced: "xdr_synced s \<Longrightarrow> xdr_synced (clearXDRCause k s)"
  by (simp add: clearXDRCause_def clearXDRCauseLocked_def recompute_synced)

lemma RecordEvidence_synced: "xdr_synced s \<Longrightarrow> xdr_synced (snd (RecordEvidence en r s))"
  by (auto simp: RecordEvidence_def Let_def split: option.split prod.split ledger_error.split
      intro!: mark_synced clear_synced) (simp_all add: xdr_synced_def)

lemma AddEvent_synced: "xdr_synced s \<Longrightarrow> xdr_synced (AddEvent en e s)"
proof -
  assume s: "xdr_synced s"
  have app: "xdr_synced (append_event e' s') = xdr_synced s'" for e' and s' :: "'a State"
    by (simp add: append_event_def xdr_synced_def Let_def)
  have "xdr_synced (s\<lparr> st_minted := n \<rparr>)" for n using s by (simp add: xdr_synced_def)
  then show ?thesis using s
    by (auto simp: AddEvent_def Let_def app randomID_def intro!: RecordEvidence_synced split: prod.split)
qed

text \<open>The reason names every cause, whatever the order of the map.\<close>

lemma causes_reason_order:
  assumes "gm_wf m" and "mset m = mset m'"
  shows "causes_reason m = causes_reason m'"
proof -
  have "gm_wf m'" using assms by (metis gm_wf_def mset_eq_imp_distinct_iff mset_map)
  then have "gm_get m k = gm_get m' k" for k
    using assms by (metis (no_types, lifting) gm_wf_get_iff mset_eq_setD not_Some_eq surj_pair)
  moreover have "sort (map fst m) = sort (map fst m')" by (rule sort_mset_eq) (simp add: assms(2))
  ultimately show ?thesis by (simp add: causes_reason_def cause_text_def [abs_def])
qed

text \<open>The operations that report a degradation through the cause map.\<close>

datatype routed_op =
    EngineDegraded bool string | CaseFailed string | CaseOK | EvidenceOp EvidenceRecord | EventOp Event

fun run_routed :: "'l env \<Rightarrow> routed_op \<Rightarrow> 'l State \<Rightarrow> 'l State" where
  "run_routed en (EngineDegraded b r) s = SetXDRDegraded b r s"
| "run_routed en (CaseFailed err) s = noteCaseHistoryFailure err s"
| "run_routed en CaseOK s = noteCaseHistorySuccess s"
| "run_routed en (EvidenceOp r) s = snd (RecordEvidence en r s)"
| "run_routed en (EventOp e) s = AddEvent en e s"

lemma synced_failures: "xdr_synced (s\<lparr> st_caseHistoryFailures := n \<rparr>) = xdr_synced s"
  by (simp add: xdr_synced_def)

lemma run_routed_synced: "xdr_synced s \<Longrightarrow> xdr_synced (run_routed en op s)"
  by (cases op)
     (simp_all add: SetXDRDegraded_def noteCaseHistoryFailure_def noteCaseHistorySuccess_def Let_def synced_failures
       mark_synced clear_synced RecordEvidence_synced AddEvent_synced)

lemma engine_keeps_other_causes:
  "k \<noteq> xdrCauseEngine \<Longrightarrow> gm_get (st_xdrCauses (SetXDRDegraded b r s)) k = gm_get (st_xdrCauses s) k"
  by (simp add: SetXDRDegraded_def mark_causes clear_causes)

lemma NewState_synced: "xdr_synced (NewState now cfg)"
  by (simp add: NewState_def xdr_synced_def causes_reason_def)

lemma causes_keep_failures:
  "st_caseHistoryFailures (markXDRCause k r s) = st_caseHistoryFailures s"
  "st_caseHistoryFailures (clearXDRCause k s) = st_caseHistoryFailures s"
  by (simp_all add: recomputeXDRDegradedLocked_def markXDRCauseLocked_def clearXDRCauseLocked_def
      markXDRCause_def clearXDRCause_def Let_def)

section \<open>Properties\<close>

text \<open>
  C39: The degradation of XDR has one owner. Starting from a state whose published flag and reason
  agree with the cause map, they agree after every sequence of engine reports, case-history results,
  evidence records and events: the platform is degraded exactly when some cause remains, and the
  reason lists every remaining cause. An engine report, also its recovery, leaves the causes of the
  case history and of the evidence ledger as they are.
\<close>
theorem degradation_owned:
  assumes "xdr_synced s"
  shows "let s' = fold (run_routed en) ops s
     in (xs_Degraded (st_xdr s') \<longleftrightarrow> (\<exists>k. gm_has (st_xdrCauses s') k))
        \<and> xs_DegradedReason (st_xdr s') = causes_reason (st_xdrCauses s')
        \<and> (\<forall>b r k. k \<noteq> xdrCauseEngine \<longrightarrow>
              gm_get (st_xdrCauses (SetXDRDegraded b r s')) k = gm_get (st_xdrCauses s') k)"
proof -
  have "xdr_synced (fold (run_routed en) ops s)"
    using assms by (induction ops arbitrary: s) (simp_all add: run_routed_synced)
  moreover have "m \<noteq> [] \<longleftrightarrow> (\<exists>k. gm_has m k)" for m :: "(string, string) gomap"
    by (cases m) (auto simp: gm_has_iff_fst)
  ultimately show ?thesis by (simp add: xdr_synced_def Let_def engine_keeps_other_causes)
qed

theorem degradation_owned_witness:
  "\<forall>cfg (en :: nat env). xs_Degraded (st_xdr (fold (run_routed en)
       [EngineDegraded True ''exec sensor lost'', CaseFailed ''disk'', CaseFailed ''disk'', EngineDegraded False []]
       (NewState 1 cfg)))"
proof (intro allI)
  fix cfg and en :: "nat env"
  let ?ops = "[EngineDegraded True ''exec sensor lost'', CaseFailed ''disk'', CaseFailed ''disk'', EngineDegraded False []]"
  have "gm_has (st_xdrCauses (fold (run_routed en) ?ops (NewState 1 cfg))) xdrCauseCaseHistory"
    by (simp add: SetXDRDegraded_def noteCaseHistoryFailure_def caseHistoryFailureThreshold_def Let_def causes_keep_failures
        mark_causes clear_causes NewState_def gm_has_def xdrCauseEngine_def xdrCauseCaseHistory_def)
  with degradation_owned [OF NewState_synced, of en ?ops 1 cfg]
  show "xs_Degraded (st_xdr (fold (run_routed en) ?ops (NewState 1 cfg)))" unfolding Let_def by blast
qed

text \<open>
  C40: The link is broken by a status scan. \<open>UpdateXDRScan\<close>, which the engine calls on every process and
  network tick with its own verdict, publishes its flag past the cause map: after a scan with a
  healthy engine the platform reports no degradation although the evidence ledger has failed, and
  further failures of the ledger do not bring the flag back, because the cause is already recorded
  with the same text.
\<close>
theorem scan_hides_evidence_failure:
  assumes "st_evidence s = Some l" and "env_append en r l = (Some (EvidenceUnavailable m), l')"
    and "env_append en r' l' = (Some (EvidenceUnavailable m'), l'')"
  shows "let s1 = snd (RecordEvidence en r s); s2 = UpdateXDRScan p c t False [] n s1; (err, s3) = RecordEvidence en r' s2
     in err = Some (EvidenceUnavailable m') \<and> gm_has (st_xdrCauses s3) xdrCauseEvidence \<and> \<not> xs_Degraded (st_xdr s3)"
proof -
  let ?s1 = "snd (RecordEvidence en r s)" and ?txt = "''mandatory evidence ledger unavailable''"
  have ev: "st_evidence (markXDRCause k q z) = st_evidence z" for k q and z :: "'a State"
    by (simp add: markXDRCause_def markXDRCauseLocked_def recomputeXDRDegradedLocked_def Let_def)
  have "st_evidence ?s1 = Some l'" "gm_get (st_xdrCauses ?s1) xdrCauseEvidence = Some ?txt"
    using assms(1,2) by (simp_all add: RecordEvidence_def Let_def ev mark_causes)
  then show ?thesis
    using assms(3)
    by (simp add: RecordEvidence_def UpdateXDRScan_def Let_def markXDRCause_def markXDRCauseLocked_def gm_has_def)
qed

theorem scan_hides_evidence_failure_witness:
  "\<forall>cfg. let en = \<lparr> env_now = 1, env_mono = 0, env_mint = (\<lambda>n. dec_nat n), env_sha256 = (\<lambda>_. []),
               env_append = (\<lambda>r (l :: nat). (Some (EvidenceUnavailable ''disk full''), l)),
               env_ledger_status = (\<lambda>l. st_evidenceStatus (NewState 1 cfg :: nat State)) \<rparr>;
       r = \<lparr> er_ID = ''a'', er_Time = 1, er_Severity = [], er_Kind = [], er_Source = [], er_Message = [], er_Target = [] \<rparr>;
       s = (NewState 1 cfg)\<lparr> st_evidence := Some 0 \<rparr>;
       s3 = snd (RecordEvidence en r (UpdateXDRScan 1 1 1 False [] 1 (snd (RecordEvidence en r s))))
     in gm_has (st_xdrCauses s3) xdrCauseEvidence \<and> \<not> xs_Degraded (st_xdr s3)"
proof
  fix cfg
  let ?en = "\<lparr> env_now = 1, env_mono = 0, env_mint = (\<lambda>n. dec_nat n), env_sha256 = (\<lambda>_. []),
               env_append = (\<lambda>r (l :: nat). (Some (EvidenceUnavailable ''disk full''), l)),
               env_ledger_status = (\<lambda>l. st_evidenceStatus (NewState 1 cfg :: nat State)) \<rparr>"
  let ?r = "\<lparr> er_ID = ''a'', er_Time = 1, er_Severity = [], er_Kind = [], er_Source = [], er_Message = [], er_Target = [] \<rparr>"
  show "let en = ?en; r = ?r; s = (NewState 1 cfg)\<lparr> st_evidence := Some 0 \<rparr>;
       s3 = snd (RecordEvidence en r (UpdateXDRScan 1 1 1 False [] 1 (snd (RecordEvidence en r s))))
     in gm_has (st_xdrCauses s3) xdrCauseEvidence \<and> \<not> xs_Degraded (st_xdr s3)"
    using scan_hides_evidence_failure [of "(NewState 1 cfg)\<lparr> st_evidence := Some 0 \<rparr>" 0 ?en ?r "''disk full''" 0 ?r "''disk full''" 0
        1 1 1 1] by (simp add: Let_def case_prod_beta')
qed

end
