(* ===== verification/Net_Facts.thy ===== *)
theory Net_Facts
  imports Net_Addr
begin

text \<open>
  Facts about addresses and networks: prefix networks are nested or disjoint, printing
  followed by parsing is the identity on addresses, and canonical block targets are fixed
  points of \<open>normalizeTarget\<close>.
\<close>

section \<open>Prefix masks\<close>

lemma bit_255_int: "bit (255 :: int) i \<longleftrightarrow> i < 8"
proof -
  have "bit (mask 8 :: int) i \<longleftrightarrow> i < 8" by (simp add: bit_mask_iff)
  then show ?thesis by (simp add: mask_eq_exp_minus_1)
qed

lemma bit_mask_byte: "bit (mask_byte n) i \<longleftrightarrow> i < 8 \<and> 8 \<le> i + n"
  by (auto simp: mask_byte_def bit_not_iff bit_drop_bit_eq bit_255_int add.commute)

lemma mask_byte_and: "mask_byte m AND mask_byte n = mask_byte (min m n)"
  by (rule bit_eqI) (auto simp: bit_simps bit_mask_byte)

lemma length_cidr_mask [simp]: "length (cidr_mask ones bits) = bits div 8"
  by (simp add: cidr_mask_def)

lemma nth_cidr_mask: "k < bits div 8 \<Longrightarrow> cidr_mask ones bits ! k = mask_byte (ones - 8 * k)"
  by (simp add: cidr_mask_def)

lemma cidr_mask_nested:
  assumes "a \<le> b" and "k < bits div 8"
  shows "cidr_mask b bits ! k AND cidr_mask a bits ! k = cidr_mask a bits ! k"
  using assms by (simp add: nth_cidr_mask mask_byte_and min_absorb2 diff_le_mono)

lemma drop_cidr_mask: "drop 12 (cidr_mask n 128) = cidr_mask (n - 96) 32"
  by (rule nth_equalityI) (simp_all add: nth_cidr_mask diff_diff_add)

text \<open>The shape every parsed network has: a masked network number under a prefix mask.\<close>

definition prefix_net :: "ipnet \<Rightarrow> ip \<Rightarrow> nat \<Rightarrow> bool" where
  "prefix_net n nn ones \<longleftrightarrow>
     number_and_mask n = Some (nn, cidr_mask ones (8 * length nn))
     \<and> ip_effective (net_ip n) = nn \<and> (length nn = 4 \<or> length nn = 16) \<and> ones \<le> 8 * length nn
     \<and> (\<forall>k < length nn. nn ! k AND cidr_mask ones (8 * length nn) ! k = nn ! k)"

lemma net_contains_prefix:
  assumes "prefix_net n nn ones"
  shows "net_contains n a \<longleftrightarrow> length (ip_effective a) = length nn \<and>
     (\<forall>k < length nn. nn ! k = ip_effective a ! k AND cidr_mask ones (8 * length nn) ! k)"
  using assms
  by (auto simp: prefix_net_def net_contains_def list_all2_conv_all_nth)

lemma nested_mask_absorb:
  fixes x y m1 m2 :: byte
  assumes "x = z AND m2" and "y = z AND m1" and "m2 AND m1 = m1"
  shows "y = x AND m1"
  using assms by (simp add: and.assoc)

text \<open>Two prefix networks that share an address: one contains the other's network number.\<close>

lemma prefix_net_overlap:
  assumes p1: "prefix_net n1 a1 l1" and p2: "prefix_net n2 a2 l2"
    and c1: "net_contains n1 x" and c2: "net_contains n2 x"
  shows "net_contains n1 (net_ip n2) \<or> net_contains n2 (net_ip n1)"
proof -
  let ?x = "ip_effective x"
  have e1: "ip_effective (net_ip n1) = a1" and e2: "ip_effective (net_ip n2) = a2"
    using p1 p2 by (simp_all add: prefix_net_def)
  from c1 c2 have len: "length a1 = length ?x" "length a2 = length ?x"
    and x1: "\<And>k. k < length ?x \<Longrightarrow> a1 ! k = ?x ! k AND cidr_mask l1 (8 * length ?x) ! k"
    and x2: "\<And>k. k < length ?x \<Longrightarrow> a2 ! k = ?x ! k AND cidr_mask l2 (8 * length ?x) ! k"
    by (auto simp: net_contains_prefix [OF p1] net_contains_prefix [OF p2])
  show ?thesis
  proof (cases "l1 \<le> l2")
    case True
    have "\<And>k. k < length ?x \<Longrightarrow> a1 ! k = a2 ! k AND cidr_mask l1 (8 * length ?x) ! k"
      by (rule nested_mask_absorb [OF x2 x1 cidr_mask_nested [OF True]]) simp_all
    then show ?thesis by (simp add: net_contains_prefix [OF p1] e2 len)
  next
    case False
    then have "l2 \<le> l1" by simp
    have "\<And>k. k < length ?x \<Longrightarrow> a2 ! k = a1 ! k AND cidr_mask l2 (8 * length ?x) ! k"
      by (rule nested_mask_absorb [OF x1 x2 cidr_mask_nested [OF \<open>l2 \<le> l1\<close>]]) simp_all
    then show ?thesis by (simp add: net_contains_prefix [OF p2] e1 len)
  qed
qed

section \<open>What the parsers return\<close>

lemma length_parse4: "parse4 v d acc s = Some q \<Longrightarrow> length acc \<le> 3 \<Longrightarrow> length q = 4"
  by (induction v d acc s rule: parse4.induct) (auto split: option.splits if_splits)

lemma length_parse4_start: "parse4 0 0 [] s = Some q \<Longrightarrow> length q = 4"
  by (erule length_parse4) simp

lemma length_parse6_Done:
  "parse6_step acc e s = Done6 acc' e' s' \<Longrightarrow> length acc < 16 \<Longrightarrow> even (length acc) \<Longrightarrow> length acc' \<le> 16"
  by (auto simp: parse6_step_def Let_def dest!: length_parse4_start elim!: evenE
      split: option.splits if_splits list.splits)

lemma length_parse6_loop:
  "parse6_loop acc e s = Some (acc', e', s') \<Longrightarrow> length acc \<le> 16 \<Longrightarrow> even (length acc) \<Longrightarrow>
     length acc' \<le> 16"
proof (induction acc e s rule: parse6_loop.induct)
  case (1 acc e s)
  show ?case
  proof (cases "16 \<le> length acc")
    case True
    with "1.prems" show ?thesis by (simp add: parse6_loop.simps [of acc e s])
  next
    case False
    then have room: "length acc + 2 \<le> 16" using \<open>even (length acc)\<close> by presburger
    show ?thesis
    proof (cases "parse6_step acc e s")
      case Fail6
      with "1.prems" False show ?thesis by (simp add: parse6_loop.simps [of acc e s])
    next
      case Done6
      with "1.prems" False show ?thesis
        by (auto simp: parse6_loop.simps [of acc e s] dest: length_parse6_Done)
    next
      case (More6 a2 e2 s2)
      from parse6_step_More [OF More6] have "length a2 = length acc + 2" .
      with "1.IH" [OF False More6] "1.prems" False More6 room show ?thesis
        by (simp add: parse6_loop.simps [of acc e s])
    qed
  qed
qed

lemma length_parse6_finish: "parse6_finish (acc, e, s) = Some b \<Longrightarrow> length acc \<le> 16 \<Longrightarrow> length b = 16"
  by (auto simp: parse6_finish_def split: option.splits if_splits)

lemma length_parse6_body: "parse6_body s = Some b \<Longrightarrow> length b = 16"
  by (auto simp: parse6_body_def bind_eq_Some_conv split: if_splits
      dest!: length_parse6_loop length_parse6_finish)

fun addr_wf :: "goaddr \<Rightarrow> bool" where
  "addr_wf (Addr4 b) = (length b = 4)"
| "addr_wf (Addr6 b z) = (length b = 16)"

lemma parse_addr_wf: "parse_addr s = Some a \<Longrightarrow> addr_wf a"
  by (auto simp: parse_addr_def parse6_def Let_def split: option.splits if_splits
      dest: length_parse4 length_parse6_body)

lemma length_parseIP: "parseIP s = Some a \<Longrightarrow> length a = 16"
  by (auto simp: parseIP_def v4InV6Prefix_def split: option.splits if_splits
      dest!: parse_addr_wf elim!: addr_wf.elims)


section \<open>Printing and parsing back\<close>

lemma find_append_none: "\<forall>x \<in> set xs. \<not> P x \<Longrightarrow> find P (xs @ ys) = find P ys"
  by (induction xs) auto

lemma dec_nat_not_sep: "c \<in> set (dec_nat n) \<Longrightarrow> c \<noteq> CHR ''.'' \<and> c \<noteq> CHR '':'' \<and> c \<noteq> CHR ''%'' \<and> c \<noteq> CHR ''/''"
  by (auto dest!: dec_nat_chars)

lemma char_digit_dot [simp]: "char_digit CHR ''.'' = None"
  by (simp add: char_digit_def)

lemma digit_step: "n div (c * b) * b + n div c mod b = n div (c :: nat)"
  by (simp add: div_mult2_eq)

lemma parse4_dec_nat:
  assumes "n < 256"
  shows "\<exists>d > 0. parse4 0 0 acc (dec_nat n @ rest) = parse4 n d acc rest"
proof -
  consider "n < 10" | "10 \<le> n" "n < 100" | "100 \<le> n" by linarith
  then show ?thesis
  proof cases
    case 1
    then show ?thesis
      by (intro exI [of _ 1]) (simp add: dec_nat_def dec_digits_byte)
  next
    case 2
    then have "n div 10 < 10" "n div 10 \<noteq> 0" by auto
    with 2 assms show ?thesis
      by (intro exI [of _ "Suc (Suc 0)"]) (simp add: dec_nat_def dec_digits_byte)
  next
    case 3
    with assms have d: "n div 100 < 10" "n div 100 \<noteq> 0" "n div 10 \<le> 255" by auto
    have "n div 100 * 10 + n div 10 mod 10 = n div 10" using digit_step [of n 10 10] by simp
    with d 3 assms show ?thesis
      by (intro exI [of _ "Suc (Suc (Suc 0))"]) (simp add: dec_nat_def dec_digits_byte)
  qed
qed

lemma unat_byte_less: "unat (b :: byte) < 256"
  using unsigned_less [of b, where ?'a = nat] by simp

lemma parse4_byte_dec_dot:
  "length acc < 3 \<Longrightarrow> rest \<noteq> [] \<Longrightarrow>
     parse4 0 0 acc (byte_dec b @ CHR ''.'' # rest) = parse4 0 0 (acc @ [b]) rest"
  using parse4_dec_nat [of "unat b" acc "CHR ''.'' # rest"] unat_byte_less [of b]
  by (auto simp: byte_dec_def)

lemma parse4_byte_dec_end: "length acc = 3 \<Longrightarrow> parse4 0 0 acc (byte_dec b) = Some (acc @ [b])"
  using parse4_dec_nat [of "unat b" acc "[]"] unat_byte_less [of b]
  by (auto simp: byte_dec_def)

lemma byte_dec_nonempty [simp]: "byte_dec b \<noteq> []"
  by (simp add: byte_dec_def)

lemma parse4_v4_string:
  "parse4 0 0 [] (str_join ''.'' (map byte_dec [a, b, c, d])) = Some [a, b, c, d]"
  by (simp add: parse4_byte_dec_dot parse4_byte_dec_end)

lemma parse_addr_v4_string:
  "parse_addr (str_join ''.'' (map byte_dec [a, b, c, d])) = Some (Addr4 [a, b, c, d])"
proof -
  let ?s = "str_join ''.'' (map byte_dec [a, b, c, d])"
  have "find (\<lambda>c. c = CHR ''.'' \<or> c = CHR '':'' \<or> c = CHR ''%'') ?s = Some (CHR ''.'')"
    by (simp add: find_append_none byte_dec_def dec_nat_not_sep)
  then show ?thesis using parse4_v4_string [of a b c d] by (simp add: parse_addr_def)
qed

subsection \<open>IPv6\<close>

lemma of_char_hex_char: "d < 16 \<Longrightarrow> of_char (hex_char d) = (if d < 10 then 48 + d else 87 + d :: nat)"
  using less_16_cases [of d] less_10_cases [of d] by (auto simp: hex_char_def)

lemma hex_value_hex_char [simp]: "d < 16 \<Longrightarrow> hex_value (hex_char d) = Some d"
  by (simp add: hex_value_def of_char_hex_char)

lemma hex_char_not_sep:
  "d < 16 \<Longrightarrow> hex_char d \<noteq> CHR ''.'' \<and> hex_char d \<noteq> CHR '':'' \<and> hex_char d \<noteq> CHR ''%'' \<and> hex_char d \<noteq> CHR ''/''"
  using less_16_cases [of d] less_10_cases [of d] by (auto simp: hex_char_def)

lemma hex16_nonempty [simp]: "hex16 g \<noteq> []"
  by (simp add: hex16_def)

lemma hex16_not_sep:
  "g < 65536 \<Longrightarrow> c \<in> set (hex16 g) \<Longrightarrow> c \<noteq> CHR ''.'' \<and> c \<noteq> CHR '':'' \<and> c \<noteq> CHR ''%'' \<and> c \<noteq> CHR ''/''"
  by (auto simp: hex16_def hex_char_not_sep split: if_splits)

lemma take_hex_stop: "rest = [] \<or> hex_value (hd rest) = None \<Longrightarrow> take_hex off acc rest = Some (off, acc, rest)"
  by (cases rest) auto

lemma take_hex_hex16:
  assumes "g < 65536" and "rest = [] \<or> hex_value (hd rest) = None"
  shows "\<exists>off > 0. take_hex 0 0 (hex16 g @ rest) = Some (off, g, rest)"
proof -
  consider "g < 16" | "16 \<le> g" "g < 256" | "256 \<le> g" "g < 4096" | "4096 \<le> g" by linarith
  then show ?thesis
  proof cases
    case 1
    with assms(2) show ?thesis by (simp add: hex16_def take_hex_stop)
  next
    case 2
    then have "g div 16 < 16" by auto
    with 2 assms(2) show ?thesis by (simp add: hex16_def take_hex_stop)
  next
    case 3
    then have d: "g div 256 < 16" by auto
    have "g div 256 * 16 + g div 16 mod 16 = g div 16" using digit_step [of g 16 16] by simp
    then have "16 * (16 * (g div 256) + g div 16 mod 16) + g mod 16 = g"
      by (metis mult.commute div_mult_mod_eq)
    with d 3 assms(2) show ?thesis by (simp add: hex16_def take_hex_stop)
  next
    case 4
    with assms(1) have d: "g div 4096 < 16" by auto
    have "g div 4096 * 16 + g div 256 mod 16 = g div 256" using digit_step [of g 256 16] by simp
    moreover have "g div 256 * 16 + g div 16 mod 16 = g div 16" using digit_step [of g 16 16] by simp
    ultimately have "16 * (16 * (16 * (g div 4096) + g div 256 mod 16) + g div 16 mod 16) + g mod 16 = g"
      by (metis mult.commute div_mult_mod_eq)
    with d 4 assms(2) show ?thesis by (simp add: hex16_def take_hex_stop)
  qed
qed

definition group_bytes :: "nat \<Rightarrow> byte list" where
  "group_bytes g = [of_nat (g div 256), of_nat (g mod 256)]"

lemma length_concat_group_bytes [simp]: "length (concat (map group_bytes gs)) = 2 * length gs"
  by (induction gs) (auto simp: group_bytes_def)

lemma group_bytes_unat: "group_bytes (256 * unat (a :: byte) + unat (b :: byte)) = [a, b]"
  using unat_byte_less [of b] by (simp add: group_bytes_def)

lemma groups16_bytes: "even (length a) \<Longrightarrow> concat (map group_bytes (groups16 a)) = a"
  by (induction a rule: groups16.induct) (auto simp: group_bytes_unat)

lemma groups16_less: "g \<in> set (groups16 a) \<Longrightarrow> g < 65536"
proof (induction a rule: groups16.induct)
  case (1 x y bs)
  then show ?case using unat_byte_less [of x] unat_byte_less [of y] by auto
qed auto

lemma length_groups16: "length (groups16 a) = length a div 2"
  by (induction a rule: groups16.induct) auto

lemma hex_value_colon [simp]: "hex_value CHR '':'' = None"
  by (simp add: hex_value_def)

text \<open>One group of the printed address is one step of the parser.\<close>

lemma parse6_step_last:
  "g < 65536 \<Longrightarrow> parse6_step acc e (hex16 g) = Done6 (acc @ group_bytes g) e []"
  using take_hex_hex16 [of g "[]"] by (auto simp: parse6_step_def group_bytes_def)

lemma parse6_step_colon:
  "g < 65536 \<Longrightarrow> r \<noteq> [] \<Longrightarrow> hd r \<noteq> CHR '':'' \<Longrightarrow>
     parse6_step acc e (hex16 g @ CHR '':'' # r) = More6 (acc @ group_bytes g) e r"
  using take_hex_hex16 [of g "CHR '':'' # r"] by (auto simp: parse6_step_def group_bytes_def)

lemma parse6_step_ellipsis:
  "g < 65536 \<Longrightarrow> parse6_step acc None (hex16 g @ ''::'' @ r) =
     (if r = [] then Done6 (acc @ group_bytes g) (Some (length acc + 2)) []
      else More6 (acc @ group_bytes g) (Some (length acc + 2)) r)"
  using take_hex_hex16 [of g "''::'' @ r"] by (auto simp: parse6_step_def group_bytes_def)

lemma hd_join_hex16: "gs \<noteq> [] \<Longrightarrow> \<forall>g \<in> set gs. g < 65536 \<Longrightarrow>
    str_join '':'' (map hex16 gs) \<noteq> [] \<and> hd (str_join '':'' (map hex16 gs) @ r) \<noteq> CHR '':''"
proof (cases gs)
  case (Cons g gs')
  moreover assume "\<forall>g \<in> set gs. g < 65536"
  ultimately have "hd (hex16 g) \<noteq> CHR '':''"
    using hex16_not_sep [of g "hd (hex16 g)"] by simp
  with Cons show ?thesis by (cases gs') auto
qed simp

lemma parse6_loop_groups:
  "gs \<noteq> [] \<Longrightarrow> \<forall>g \<in> set gs. g < 65536 \<Longrightarrow> length acc + 2 * length gs \<le> 16 \<Longrightarrow>
     parse6_loop acc e (str_join '':'' (map hex16 gs)) = Some (acc @ concat (map group_bytes gs), e, [])"
proof (induction gs arbitrary: acc)
  case (Cons g gs)
  show ?case
  proof (cases gs)
    case Nil
    with Cons.prems show ?thesis
      by (simp add: parse6_loop.simps [of acc] parse6_step_last)
  next
    case (Cons g' gs')
    with Cons.prems hd_join_hex16 [of gs "[]"]
    have "parse6_step acc e (str_join '':'' (map hex16 (g # gs))) =
        More6 (acc @ group_bytes g) e (str_join '':'' (map hex16 gs))"
      by (simp add: parse6_step_colon)
    moreover have "length (group_bytes g) = 2" by (simp add: group_bytes_def)
    ultimately show ?thesis
      using Cons Cons.prems Cons.IH [of "acc @ group_bytes g"]
      by (simp add: parse6_loop.simps [of acc])
  qed
qed simp

lemma parse6_loop_ellipsis:
  "gs \<noteq> [] \<Longrightarrow> \<forall>g \<in> set gs. g < 65536 \<Longrightarrow> length acc + 2 * length gs \<le> 16 \<Longrightarrow>
     parse6_loop acc None (str_join '':'' (map hex16 gs) @ ''::'' @ r) =
       (let acc' = acc @ concat (map group_bytes gs)
        in if r = [] then Some (acc', Some (length acc'), []) else parse6_loop acc' (Some (length acc')) r)"
proof (induction gs arbitrary: acc)
  case (Cons g gs)
  have two: "length (group_bytes g) = 2" by (simp add: group_bytes_def)
  show ?case
  proof (cases gs)
    case Nil
    with Cons.prems parse6_step_ellipsis [of g acc r] show ?thesis
      by (simp add: parse6_loop.simps [of acc] two)
  next
    case (Cons g' gs')
    have "parse6_step acc None (hex16 g @ CHR '':'' # (str_join '':'' (map hex16 gs) @ ''::'' @ r)) =
        More6 (acc @ group_bytes g) None (str_join '':'' (map hex16 gs) @ ''::'' @ r)"
      by (rule parse6_step_colon)
         (use Cons Cons.prems hd_join_hex16 [of gs "''::'' @ r"] in auto)
    with Cons Cons.prems Cons.IH [of "acc @ group_bytes g"] two show ?thesis
      by (simp add: parse6_loop.simps [of acc])
  qed
qed simp

text \<open>The run chosen for \<open>::\<close> is a run of zero groups inside the address.\<close>

definition zero_span :: "nat list \<Rightarrow> (nat \<times> nat) option \<Rightarrow> bool" where
  "zero_span gs r = (case r of None \<Rightarrow> True
     | Some (s, n) \<Rightarrow> s + n \<le> length gs \<and> 2 \<le> n \<and> take n (drop s gs) = replicate n 0)"

lemma take_zero_run: "take (zero_run gs) gs = replicate (zero_run gs) 0"
  unfolding zero_run_def takeWhile_eq_take [symmetric]
  by (rule replicate_eqI [symmetric, THEN sym]) (auto dest: set_takeWhileD)

lemma best_run_fold:
  "zero_span gs r \<Longrightarrow> \<forall>i \<in> set is. i < length gs \<Longrightarrow>
   zero_span gs (fold (\<lambda>i best. let l = zero_run (drop i gs)
      in if 2 \<le> l \<and> (case best of None \<Rightarrow> True | Some (s, n) \<Rightarrow> n < l) then Some (i, l) else best) is r)"
proof (induction "is" arbitrary: r)
  case (Cons i "is")
  have "zero_run (drop i gs) \<le> length gs - i"
    using length_takeWhile_le [of "\<lambda>g. g = 0" "drop i gs"] by (simp add: zero_run_def)
  with Cons show ?case by (auto simp: zero_span_def Let_def take_zero_run)
qed simp

lemma best_run_span: "zero_span gs (best_run gs)"
  unfolding best_run_def by (rule best_run_fold) (simp_all add: zero_span_def)

lemma join_hex16_chars:
  "\<forall>g \<in> set gs. g < 65536 \<Longrightarrow> c \<in> set (str_join '':'' (map hex16 gs)) \<Longrightarrow>
     c \<noteq> CHR ''.'' \<and> c \<noteq> CHR ''%'' \<and> c \<noteq> CHR ''/''"
proof (induction gs)
  case (Cons g gs)
  then show ?case by (cases gs) (auto dest: hex16_not_sep)
qed simp

lemma v6_string_chars:
  "\<forall>g \<in> set gs. g < 65536 \<Longrightarrow> c \<in> set (v6_string gs) \<Longrightarrow> c \<noteq> CHR ''.'' \<and> c \<noteq> CHR ''%'' \<and> c \<noteq> CHR ''/''"
  by (auto simp: v6_string_def dest: in_set_takeD in_set_dropD
      dest!: join_hex16_chars [rotated] split: option.splits)

lemma group_bytes_zero: "concat (replicate n (group_bytes 0)) = replicate (2 * n) 0"
  by (induction n) (simp_all add: group_bytes_def)

lemma v6_split:
  assumes "zero_span gs (Some (s, n))"
  shows "concat (map group_bytes gs) = concat (map group_bytes (take s gs)) @ replicate (2 * n) 0
            @ concat (map group_bytes (drop (s + n) gs))"
proof -
  have "gs = take s gs @ take n (drop s gs) @ drop n (drop s gs)" by (metis append_take_drop_id)
  also have "take n (drop s gs) = replicate n 0" using assms by (simp add: zero_span_def)
  finally have "gs = take s gs @ replicate n 0 @ drop (s + n) gs" by (simp add: add.commute)
  then have "concat (map group_bytes gs) = concat (map group_bytes (take s gs @ replicate n 0 @ drop (s + n) gs))"
    by simp
  then show ?thesis by (simp add: group_bytes_zero)
qed

lemma join_empty_iff: "str_join '':'' (map hex16 gs) = [] \<longleftrightarrow> gs = []"
  by (cases gs rule: remdups_adj.cases) auto

lemma not_prefix_ellipsis:
  "gs \<noteq> [] \<Longrightarrow> \<forall>g \<in> set gs. g < 65536 \<Longrightarrow> \<not> prefix ''::'' (str_join '':'' (map hex16 gs) @ r)"
  using hd_join_hex16 [of gs r] by (auto simp: prefix_def)

lemma parse6_body_v6_string:
  assumes len: "length gs = 8" and small: "\<forall>g \<in> set gs. g < 65536"
  shows "parse6_body (v6_string gs) = Some (concat (map group_bytes gs))"
proof (cases "best_run gs")
  case None
  then have "v6_string gs = str_join '':'' (map hex16 gs)" by (simp add: v6_string_def)
  moreover from len have "gs \<noteq> []" by auto
  ultimately show ?thesis using len small not_prefix_ellipsis [of gs "[]"]
    by (simp add: parse6_body_def parse6_loop_groups parse6_finish_def)
next
  case (Some r)
  obtain s n where r: "r = (s, n)" by force
  let ?l = "take s gs" and ?r = "drop (s + n) gs"
  from best_run_span [of gs] Some r have span: "zero_span gs (Some (s, n))" by simp
  then have sn: "s + n \<le> 8" "2 \<le> n" by (simp_all add: zero_span_def len)
  have small': "\<forall>g \<in> set ?l. g < 65536" "\<forall>g \<in> set ?r. g < 65536"
    using small by (auto dest: in_set_takeD in_set_dropD)
  have str: "v6_string gs = str_join '':'' (map hex16 ?l) @ ''::'' @ str_join '':'' (map hex16 ?r)"
    using Some r by (simp add: v6_string_def)
  note facts = str len sn small' v6_split [OF span] join_empty_iff parse6_body_def parse6_finish_def
  show ?thesis
  proof (cases "s = 0")
    case True
    then show ?thesis
      using parse6_loop_groups [of ?r "[]" "Some 0"] facts by (auto simp: prefix_def)
  next
    case False
    with len have "?l \<noteq> []" by auto
    from not_prefix_ellipsis [OF this small'(1), of "''::'' @ str_join '':'' (map hex16 ?r)"]
    have np: "\<not> prefix ''::'' (v6_string gs)" by (simp add: str)
    show ?thesis
    proof (cases "?r = []")
      case True
      with np facts \<open>?l \<noteq> []\<close> parse6_loop_ellipsis [of ?l "[]" "[]"] show ?thesis
        by (simp add: Let_def)
    next
      case False
      let ?acc = "concat (map group_bytes ?l)"
      have "parse6_loop [] None (v6_string gs) =
          parse6_loop ?acc (Some (2 * s)) (str_join '':'' (map hex16 ?r))"
        unfolding str using False \<open>?l \<noteq> []\<close> small' sn len
        by (subst parse6_loop_ellipsis) (simp_all add: Let_def join_empty_iff)
      also have "\<dots> = Some (?acc @ concat (map group_bytes ?r), Some (2 * s), [])"
        using False small' sn len by (intro parse6_loop_groups) simp_all
      finally have "parse6_body (v6_string gs) =
          parse6_finish (?acc @ concat (map group_bytes ?r), Some (2 * s), [])"
        using np by (simp add: parse6_body_def)
      moreover have "length ?acc = 2 * s" using sn len by simp
      moreover have "length (concat (map group_bytes ?r)) = 2 * (8 - (s + n))" by (simp add: len)
      moreover have "16 - (2 * s + 2 * (8 - (s + n))) = 2 * n" "2 * s + 2 * (8 - (s + n)) < 16"
        using sn by linarith+
      ultimately show ?thesis unfolding v6_split [OF span] by (simp add: parse6_finish_def)
    qed
  qed
qed

lemma join_hex16_colon: "2 \<le> length gs \<Longrightarrow> CHR '':'' \<in> set (str_join '':'' (map hex16 gs))"
  by (cases gs rule: remdups_adj.cases) simp_all

lemma v6_string_colon: "length gs = 8 \<Longrightarrow> CHR '':'' \<in> set (v6_string gs)"
proof (cases "best_run gs")
  case None
  assume "length gs = 8"
  then have "2 \<le> length gs" by simp
  from join_hex16_colon [OF this] show ?thesis unfolding v6_string_def None option.case .
next
  case (Some r)
  then show ?thesis unfolding v6_string_def Some by (cases r) simp
qed

lemma find_only:
  assumes "x \<in> set xs" and "P x" and only: "\<And>y. y \<in> set xs \<Longrightarrow> P y \<Longrightarrow> y = x"
  shows "find P xs = Some x"
proof (cases "find P xs")
  case None
  with assms(1,2) show ?thesis by (auto simp: find_None_iff)
next
  case (Some y)
  then have "y \<in> set xs" "P y" by (auto simp: find_Some_iff)
  from only [OF this] Some show ?thesis by simp
qed

lemma parse_addr_v6_string:
  assumes len: "length gs = 8" and small: "\<forall>g \<in> set gs. g < 65536"
  shows "parse_addr (v6_string gs) = Some (Addr6 (concat (map group_bytes gs)) [])"
proof -
  let ?s = "v6_string gs"
  have clean: "\<forall>c \<in> set ?s. c \<noteq> CHR ''.'' \<and> c \<noteq> CHR ''%'' \<and> c \<noteq> CHR ''/''"
    using v6_string_chars [OF small] by blast
  then have "find (\<lambda>c. c = CHR ''.'' \<or> c = CHR '':'' \<or> c = CHR ''%'') ?s = Some (CHR '':'')"
    by (intro find_only v6_string_colon len) auto
  moreover have tw: "takeWhile (\<lambda>c. c \<noteq> CHR ''%'') ?s = ?s" and dw: "dropWhile (\<lambda>c. c \<noteq> CHR ''%'') ?s = []"
    using clean by auto
  moreover have "parse6 ?s = Some (Addr6 (concat (map group_bytes gs)) [])"
    unfolding parse6_def tw dw by (simp add: parse6_body_v6_string [OF assms])
  ultimately show ?thesis by (simp add: parse_addr_def)
qed

definition to16 :: "ip \<Rightarrow> ip" where
  "to16 a = (if length a = 4 then v4InV6Prefix @ a else a)"

text \<open>Parsing the text of an address gives the address back, in its 16-byte form.\<close>

lemma parse_addr_ip_string:
  assumes "length a = 4 \<or> length a = 16"
  shows "parse_addr (ip_string a) =
     Some (case to4 a of Some q \<Rightarrow> Addr4 q | None \<Rightarrow> Addr6 a [])"
proof (cases "to4 a")
  case None
  with assms have len: "length a = 16" by (auto simp: to4_def split: if_splits)
  then have "a \<noteq> []" by auto
  with None len have "ip_string a = v6_string (groups16 a)" by (simp add: ip_string_def)
  with parse_addr_v6_string [of "groups16 a"] len None show ?thesis
    by (simp add: length_groups16 groups16_less groups16_bytes)
next
  case (Some q)
  with assms have "length q = 4" by (auto simp: to4_def split: if_splits)
  then obtain b1 b2 b3 b4 where q: "q = [b1, b2, b3, b4]"
    by (auto simp: length_Suc_conv numeral_eq_Suc)
  from assms have "a \<noteq> []" by auto
  with assms Some have "ip_string a = str_join ''.'' (map byte_dec q)" by (auto simp: ip_string_def)
  with parse_addr_v4_string [of b1 b2 b3 b4] Some q show ?thesis by simp
qed

lemma to4_as16: "to4 a = Some q \<Longrightarrow> length a = 4 \<or> length a = 16 \<Longrightarrow> v4InV6Prefix @ q = to16 a"
  by (auto simp: to4_def to16_def split: if_splits) (metis append_take_drop_id)

lemma parseIP_ip_string:
  assumes "length a = 4 \<or> length a = 16"
  shows "parseIP (ip_string a) = Some (to16 a)"
  using assms to4_as16 [of a] parse_addr_ip_string [OF assms]
  by (cases "to4 a") (auto simp: parseIP_def to4_def to16_def split: if_splits)

section \<open>Parsed networks and canonical targets\<close>

lemma length_as16: "addr_wf a \<Longrightarrow> length (as16 a) = 16"
  by (cases a) (auto simp: v4InV6Prefix_def)

lemma and_mask_idem: "length xs = length ms \<Longrightarrow> k < length xs \<Longrightarrow>
   map2 (AND) xs ms ! k AND ms ! k = map2 (AND) xs (ms :: byte list) ! k"
  by (simp add: and.assoc)

lemma prefix_net_v4:
  assumes "length b = 4" and "ones \<le> 32"
  shows "prefix_net \<lparr> net_ip = ip_mask (v4InV6Prefix @ b) (cidr_mask ones 32), net_mask = cidr_mask ones 32 \<rparr>
           (map2 (AND) b (cidr_mask ones 32)) ones"
  using assms
  by (auto simp: prefix_net_def number_and_mask_def ip_mask_def to4_def v4InV6Prefix_def
      ip_effective_def and_mask_idem)

lemma prefix_net_v6:
  assumes len: "length b = 16" and ones: "ones \<le> 128"
  shows "\<exists>nn l. prefix_net \<lparr> net_ip = ip_mask b (cidr_mask ones 128), net_mask = cidr_mask ones 128 \<rparr> nn l"
proof -
  let ?m = "cidr_mask ones 128" and ?a = "map2 (AND) b (cidr_mask ones 128)"
  have a: "ip_mask b ?m = ?a" and la: "length ?a = 16" using len by (simp_all add: ip_mask_def)
  show ?thesis
  proof (cases "to4 ?a")
    case None
    with a la ones len have "prefix_net \<lparr> net_ip = ip_mask b ?m, net_mask = ?m \<rparr> ?a ones"
      by (auto simp: prefix_net_def number_and_mask_def ip_effective_def and_mask_idem Let_def simp del: length_map)
    then show ?thesis by blast
  next
    case (Some q)
    then have q: "q = drop 12 ?a" using la by (simp add: to4_def split: if_splits)
    have "\<And>k. k < 4 \<Longrightarrow> drop 12 ?a ! k AND drop 12 ?m ! k = drop 12 ?a ! k"
      using len by (simp add: and.assoc)
    with a la ones q Some have "prefix_net \<lparr> net_ip = ip_mask b ?m, net_mask = ?m \<rparr> q (ones - 96)"
      by (auto simp: prefix_net_def number_and_mask_def ip_effective_def drop_cidr_mask)
    then show ?thesis by blast
  qed
qed

lemma parseCIDR_prefix_net:
  assumes "parseCIDR s = Some (a, n)"
  shows "\<exists>nn l. prefix_net n nn l"
proof -
  from assms obtain g ones where g: "parse_addr (takeWhile (\<lambda>c. c \<noteq> CHR ''/'') s) = Some g"
    and ones: "ones \<le> bit_len g"
    and n: "n = \<lparr> net_ip = ip_mask (as16 g) (cidr_mask ones (bit_len g)), net_mask = cidr_mask ones (bit_len g) \<rparr>"
    by (fastforce simp: parseCIDR_def Let_def not_less split: option.splits if_splits)
  from parse_addr_wf [OF g] ones n show ?thesis
    by (cases g) (use prefix_net_v4 prefix_net_v6 in auto)
qed

subsection \<open>Strings with a slash are never plain addresses\<close>

lemma parse4_chars: "parse4 v d acc s = Some q \<Longrightarrow> CHR ''/'' \<notin> set s"
  by (induction v d acc s rule: parse4.induct)
     (auto simp: char_digit_def split: option.splits if_splits)

lemma take_hex_rest: "take_hex off acc s = Some (off', v, rest) \<Longrightarrow> CHR ''/'' \<in> set s \<Longrightarrow> CHR ''/'' \<in> set rest"
  by (induction off acc s rule: take_hex.induct) (auto simp: hex_value_def split: option.splits if_splits)

lemma parse6_step_slash:
  "CHR ''/'' \<in> set s \<Longrightarrow>
     (case parse6_step acc e s of Fail6 \<Rightarrow> True | Done6 _ _ _ \<Rightarrow> False | More6 _ _ s' \<Rightarrow> CHR ''/'' \<in> set s')"
proof (cases "take_hex 0 0 s")
  case None
  then show ?thesis by (simp add: parse6_step_def)
next
  case (Some t)
  obtain off v rest where t: "t = (off, v, rest)" by (cases t) auto
  assume slash: "CHR ''/'' \<in> set s"
  with Some t have "CHR ''/'' \<in> set rest" by (auto dest: take_hex_rest)
  moreover have "parse4 0 0 [] s = None" using slash parse4_chars by (cases "parse4 0 0 [] s") auto
  ultimately show ?thesis
    using Some t by (cases rest; cases "tl rest") (auto simp: parse6_step_def Let_def)
qed

lemma parse6_loop_slash:
  "CHR ''/'' \<in> set s \<Longrightarrow> parse6_loop acc e s = Some (acc', e', s') \<Longrightarrow> CHR ''/'' \<in> set s'"
proof (induction acc e s rule: parse6_loop.induct)
  case (1 acc e s)
  then show ?case
    using parse6_step_slash [of s acc e]
    by (auto simp: parse6_loop.simps [of acc e s] split: if_splits step6.splits)
qed

lemma parse6_body_slash: "CHR ''/'' \<in> set s \<Longrightarrow> parse6_body s = None"
proof (rule ccontr)
  assume slash: "CHR ''/'' \<in> set s" and "parse6_body s \<noteq> None"
  then obtain e0 s0 acc e s' where "parse6_loop [] e0 s0 = Some (acc, e, s')" "s' = []" "CHR ''/'' \<in> set s0"
    by (auto simp: parse6_body_def parse6_finish_def prefix_def bind_eq_Some_conv split: if_splits)
  from parse6_loop_slash [OF this(3,1)] this(2) show False by simp
qed

lemma parseIP_slash: "CHR ''/'' \<in> set s \<Longrightarrow> parseIP s = None"
proof -
  assume slash: "CHR ''/'' \<in> set s"
  have zone: "CHR ''/'' \<in> set (dropWhile (\<lambda>c. c \<noteq> CHR ''%'') s) \<Longrightarrow> tl (dropWhile (\<lambda>c. c \<noteq> CHR ''%'') s) \<noteq> []"
    using hd_dropWhile [of "\<lambda>c. c \<noteq> CHR ''%''" s]
    by (cases "dropWhile (\<lambda>c. c \<noteq> CHR ''%'') s") auto
  have "set s = set (takeWhile (\<lambda>c. c \<noteq> CHR ''%'') s) \<union> set (dropWhile (\<lambda>c. c \<noteq> CHR ''%'') s)"
    by (metis set_append takeWhile_dropWhile_id)
  with slash consider "CHR ''/'' \<in> set (takeWhile (\<lambda>c. c \<noteq> CHR ''%'') s)"
    | "CHR ''/'' \<in> set (dropWhile (\<lambda>c. c \<noteq> CHR ''%'') s)" by blast
  then show ?thesis
  proof cases
    case 1
    with slash show ?thesis
      by (auto simp: parseIP_def parse_addr_def parse6_def Let_def parse6_body_slash
          dest: parse4_chars split: option.splits if_splits)
  next
    case 2
    with slash zone show ?thesis
      by (auto simp: parseIP_def parse_addr_def parse6_def Let_def
          dest: parse4_chars split: option.splits if_splits)
  qed
qed

subsection \<open>Decimal prefixes and mask sizes\<close>

lemma dec_value_digits:
  "\<forall>d \<in> set ds. d < 10 \<Longrightarrow> dec_value n (map digit_char ds) = Some (foldl (\<lambda>a d. 10 * a + d) n ds)"
  by (induction ds arbitrary: n) auto

lemma foldl_dec_digits: "foldl (\<lambda>a d. 10 * a + d) 0 (dec_digits n) = n"
proof (induction n rule: dec_digits.induct)
  case (1 n)
  then show ?case by (cases "n < 10") (simp_all add: dec_digits.simps [of n])
qed

lemma dec_value_dec_nat [simp]: "dec_value 0 (dec_nat n) = Some n"
  by (simp add: dec_nat_def dec_value_digits dec_digits_lt foldl_dec_digits)

lemma cidr_mask_Suc: "cidr_mask l (8 * Suc k) = mask_byte l # cidr_mask (l - 8) (8 * k)"
  by (simp add: cidr_mask_def upt_conv_Cons map_Suc_upt [symmetric] del: upt_Suc)

lemma mask_byte_inj: "m \<le> 8 \<Longrightarrow> n \<le> 8 \<Longrightarrow> mask_byte m = mask_byte n \<longleftrightarrow> m = n"
proof
  assume m: "m \<le> 8" and n: "n \<le> 8" and eq: "mask_byte m = mask_byte n"
  have iff: "\<And>i. i < 8 \<Longrightarrow> 8 \<le> i + m \<longleftrightarrow> 8 \<le> i + n"
    using eq bit_mask_byte by metis
  show "m = n"
  proof (rule ccontr)
    assume "m \<noteq> n"
    then show False using iff [of "8 - max m n"] m n by (auto simp: max_def split: if_splits)
  qed
qed simp

lemma mask_byte_0 [simp]: "mask_byte 0 = 0"
  by (rule bit_eqI) (simp add: bit_mask_byte)

lemma mask_byte_full: "mask_byte n = 255 \<longleftrightarrow> 8 \<le> n"
  using mask_byte_inj [of n 8] by (cases "8 \<le> n") (simp_all add: mask_byte_def)

lemma mask_ones_cidr_mask: "l \<le> 8 * k \<Longrightarrow> mask_ones (cidr_mask l (8 * k)) = Some l"
proof (induction k arbitrary: l)
  case 0
  then show ?case by (simp add: cidr_mask_def)
next
  case (Suc k)
  show ?case
  proof (cases "8 \<le> l")
    case True
    then have "l - 8 \<le> 8 * k" using Suc.prems by simp
    from Suc.IH [OF this] True show ?thesis by (simp add: cidr_mask_Suc mask_byte_full del: mult_Suc_right)
  next
    case False
    have "find (\<lambda>n. mask_byte n = mask_byte l) [0..<8] = Some l"
      using False by (intro find_only) (auto simp: mask_byte_inj)
    moreover have "list_all (\<lambda>x. x = 0) (cidr_mask (l - 8) (8 * k))"
      using False by (simp add: cidr_mask_def list_all_iff)
    ultimately show ?thesis
      using False by (simp add: cidr_mask_Suc mask_byte_full del: mult_Suc_right)
  qed
qed

subsection \<open>Canonical targets\<close>

definition net_text :: "ip \<Rightarrow> nat \<Rightarrow> string" where
  "net_text nn l = ip_string nn @ CHR ''/'' # dec_nat l"

definition canonical_net :: "ip \<Rightarrow> nat \<Rightarrow> bool" where
  "canonical_net nn l \<longleftrightarrow>
     (length nn = 4 \<or> length nn = 16 \<and> to4 nn = None) \<and> l \<le> 8 * length nn
     \<and> (\<forall>k < length nn. nn ! k AND cidr_mask l (8 * length nn) ! k = nn ! k)"

lemma ip_string_slash: "length a = 4 \<or> length a = 16 \<Longrightarrow> CHR ''/'' \<notin> set (ip_string a)"
  using parseIP_ip_string [of a] parseIP_slash [of "ip_string a"] by auto

lemma map2_and_fixed:
  "length ms = length nn \<Longrightarrow> \<forall>k < length nn. nn ! k AND ms ! k = (nn ! k :: byte) \<Longrightarrow> map2 (AND) nn ms = nn"
  by (rule nth_equalityI) auto

lemma ip_mask_to16:
  "canonical_net nn l \<Longrightarrow> ip_mask (to16 nn) (cidr_mask l (8 * length nn)) = nn"
  by (auto simp: canonical_net_def ip_mask_def to16_def v4InV6Prefix_def Let_def map2_and_fixed)

lemma canonical_prefix_net:
  "canonical_net nn l \<Longrightarrow> prefix_net \<lparr> net_ip = nn, net_mask = cidr_mask l (8 * length nn) \<rparr> nn l"
  by (auto simp: canonical_net_def prefix_net_def number_and_mask_def ip_effective_def to4_def)

lemma prefix_net_canonical: "prefix_net n nn l \<Longrightarrow> canonical_net nn l"
  by (auto simp: prefix_net_def canonical_net_def ip_effective_def to4_def split: if_splits option.splits)

lemma net_string_prefix: "prefix_net n nn l \<Longrightarrow> net_string n = net_text nn l"
  using mask_ones_cidr_mask [of l "length nn"]
  by (simp add: prefix_net_def net_string_def net_text_def)

lemma parseCIDR_net_text:
  assumes "canonical_net nn l"
  shows "parseCIDR (net_text nn l) = Some (to16 nn, \<lparr> net_ip = nn, net_mask = cidr_mask l (8 * length nn) \<rparr>)"
proof -
  from assms have len: "length nn = 4 \<or> length nn = 16" by (auto simp: canonical_net_def)
  define g where "g = (case to4 nn of Some q \<Rightarrow> Addr4 q | None \<Rightarrow> Addr6 nn [])"
  have pa: "parse_addr (ip_string nn) = Some g" unfolding g_def by (rule parse_addr_ip_string [OF len])
  have g: "as16 g = to16 nn" "bit_len g = 8 * length nn" "addr_zone g = []"
    using assms by (auto simp: g_def canonical_net_def to4_def to16_def split: option.splits if_splits)
  have tw: "takeWhile (\<lambda>c. c \<noteq> CHR ''/'') (net_text nn l) = ip_string nn"
    and dw: "dropWhile (\<lambda>c. c \<noteq> CHR ''/'') (net_text nn l) = CHR ''/'' # dec_nat l"
    using ip_string_slash [OF len] by (auto simp: net_text_def takeWhile_append dropWhile_append)
  from assms have "l \<le> 8 * length nn" by (simp add: canonical_net_def)
  then show ?thesis
    by (simp add: parseCIDR_def tw dw pa g Let_def ip_mask_to16 [OF assms] not_less)
qed

lemma v4_prefix_nonzero: "take 12 a = v4InV6Prefix \<Longrightarrow> \<not> list_all (\<lambda>b. b = 0) a"
proof
  assume "take 12 a = v4InV6Prefix" and "list_all (\<lambda>b. b = 0) a"
  moreover from this(1) have "255 \<in> set (take 12 a)" by (simp add: v4InV6Prefix_def)
  then have "255 \<in> set a" by (rule in_set_takeD)
  ultimately show False by (auto simp: list_all_iff)
qed

lemma is_unspecified_effective:
  "length a = 4 \<or> length a = 16 \<Longrightarrow> is_unspecified (ip_effective a) \<longleftrightarrow> is_unspecified a"
  using v4_prefix_nonzero [of a]
  by (auto simp: is_unspecified_def ip_effective_def to4_def split: option.splits if_splits)

lemma normalizeTarget_canonical:
  assumes "canonical_net nn l" and "\<not> is_unspecified nn"
  shows "normalizeTarget (net_text nn l) = Inr (net_text nn l)"
proof -
  have "parseIP (net_text nn l) = None" by (rule parseIP_slash) (simp add: net_text_def)
  with assms parseCIDR_net_text [OF assms(1)] net_string_prefix [OF canonical_prefix_net [OF assms(1)]]
  show ?thesis by (simp add: normalizeTarget_def)
qed

lemma normalizeTarget_net_text:
  assumes "normalizeTarget t = Inr t'"
  shows "\<exists>nn l. t' = net_text nn l \<and> canonical_net nn l \<and> \<not> is_unspecified nn"
proof (cases "parseIP t")
  case (Some a)
  then have len: "length a = 16" by (rule length_parseIP)
  have d: "dec_nat 32 = ''32''" "dec_nat 128 = ''128''"
    by (simp_all add: dec_nat_def dec_digits.simps digit_char_def)
  have full: "cidr_mask 32 32 ! k = 255" if "k < 4" for k :: nat
    using that by (simp add: nth_cidr_mask mask_byte_full)
  have full6: "cidr_mask 128 128 ! k = 255" if "k < 16" for k :: nat
    using that by (simp add: nth_cidr_mask mask_byte_full)
  have and255: "b AND 255 = b" for b :: byte
    using mask_byte_and [of 8 8] by (intro bit_eqI) (auto simp: bit_simps bit_255_int dest: bit_imp_le_length)
  show ?thesis
  proof (cases "to4 a")
    case None
    with Some assms len show ?thesis
      by (intro exI [of _ a] exI [of _ 128])
         (auto simp: normalizeTarget_def net_text_def canonical_net_def d full6 and255 split: if_splits)
  next
    case Some4: (Some q)
    then have q: "length q = 4" "ip_effective a = q" using len by (auto simp: to4_def ip_effective_def split: if_splits)
    then have "ip_string a = ip_string q" using Some4 len by (auto simp: ip_string_def to4_def)
    with Some4 Some assms q is_unspecified_effective [of a] len show ?thesis
      by (intro exI [of _ q] exI [of _ 32])
         (auto simp: normalizeTarget_def net_text_def canonical_net_def d full and255 split: if_splits)
  qed
next
  case None
  with assms obtain a n where c: "parseCIDR t = Some (a, n)" and un: "\<not> is_unspecified (net_ip n)"
    and t': "t' = net_string n"
    by (auto simp: normalizeTarget_def split: option.splits if_splits)
  from parseCIDR_prefix_net [OF c] obtain nn l where p: "prefix_net n nn l" by blast
  then have "ip_effective (net_ip n) = nn" "length nn = 4 \<or> length nn = 16" by (auto simp: prefix_net_def)
  moreover from this have "length (net_ip n) = 4 \<or> length (net_ip n) = 16"
    by (auto simp: ip_effective_def to4_def split: option.splits if_splits)
  ultimately have "\<not> is_unspecified nn" using un is_unspecified_effective by metis
  with p t' net_string_prefix prefix_net_canonical show ?thesis by blast
qed

lemma normalizeTarget_idem: "normalizeTarget t = Inr t' \<Longrightarrow> normalizeTarget t' = Inr t'"
  using normalizeTarget_net_text normalizeTarget_canonical by blast

text \<open>A concrete target, for examples.\<close>

lemma sample_target: "normalizeTarget ''10.0.0.7'' = Inr ''10.0.0.7/32''"
  by (simp add: normalizeTarget_def parseIP_def parse_addr_def char_digit_def v4InV6Prefix_def
      is_unspecified_def to4_def ip_string_def byte_dec_def dec_nat_def dec_digits.simps digit_char_def)

section \<open>Properties\<close>

text \<open>
  C32: A target that \<open>normalizeTarget\<close> accepts is brought into a canonical form that all later
  code agrees on: normalising the result again changes nothing, and the result parses as a
  network that is not unspecified and whose text is the result.
\<close>
theorem normalizeTarget_stable:
  assumes "normalizeTarget t = Inr t'"
  shows "normalizeTarget t' = Inr t' \<and>
    (\<exists>a n. parseCIDR t' = Some (a, n) \<and> \<not> is_unspecified (net_ip n) \<and> net_string n = t')"
proof -
  from normalizeTarget_net_text [OF assms] obtain nn l
    where t': "t' = net_text nn l" and c: "canonical_net nn l" and u: "\<not> is_unspecified nn" by blast
  from parseCIDR_net_text [OF c] net_string_prefix [OF canonical_prefix_net [OF c]] u t'
  show ?thesis using normalizeTarget_canonical [OF c u] by auto
qed

theorem normalizeTarget_stable_witness:
  "normalizeTarget ''10.0.0.7'' = Inr ''10.0.0.7/32'' \<and> normalizeTarget ''10.0.0.7/32'' = Inr ''10.0.0.7/32''"
  using normalizeTarget_stable [OF sample_target] sample_target by simp

end
