(* ===== verification/Block_State.thy ===== *)
theory Block_State
  imports State_Model Net_Facts
begin

text \<open>
  The network blocks of \<open>control/state.go\<close>: \<open>AddBlock\<close>, \<open>AddBlockAt\<close>, lookup by identifier and by
  target, removal, expiry against the wall or the monotonic clock, restore and import.
  Blocks are keyed by their canonical CIDR text.

  The invariant \<open>blocks_wf\<close> says that keys are distinct, every entry is stored under its own target,
  the target is canonical and every deadline belongs to a block; every operation preserves
  it. The lemmas give the functional behaviour of each operation on the map, and the expiry
  rule in terms of the two clocks.
\<close>

section \<open>Operations\<close>

datatype block_error = BlockTarget target_error | BlockReasonLength | BlockCapacityNotPositive | BlockCapacityReached

definition AddBlockAt :: "'l env \<Rightarrow> string \<Rightarrow> string \<Rightarrow> string \<Rightarrow> duration \<Rightarrow> bool \<Rightarrow> int \<Rightarrow> gostamp \<Rightarrow> 'l State
    \<Rightarrow> (block_error + BlockEntry) \<times> 'l State" where
  "AddBlockAt en target reason source ttl enforced maxEntries now s =
     (case normalizeTarget target of
        Inl e \<Rightarrow> (Inl (BlockTarget e), s)
      | Inr target \<Rightarrow>
          if length reason < 3 \<or> length reason > 240 then (Inl BlockReasonLength, s)
          else
            let now = (if time_is_zero (gs_wall now) then env_stamp en else now);
                deadline = stamp_add now ttl;
                now = stamp_utc now
            in if maxEntries \<le> 0 then (Inl BlockCapacityNotPositive, s)
               else case gm_get (st_blocks s) target of
                 Some old \<Rightarrow>
                   let old = old\<lparr> be_ExpiresAt := gs_wall (stamp_add now ttl), be_Reason := reason,
                                  be_Enforced := enforced \<rparr>
                   in (Inr old, s\<lparr> st_blocks := gm_put target old (st_blocks s),
                                   st_blockDeadlines := gm_put target deadline (st_blockDeadlines s) \<rparr>)
               | None \<Rightarrow>
                   if int (length (st_blocks s)) \<ge> maxEntries then (Inl BlockCapacityReached, s)
                   else
                     let (i, s) = randomID en s;
                         b = \<lparr> be_ID = i, be_Target = target, be_Reason = reason, be_Source = source,
                               be_CreatedAt = gs_wall now, be_ExpiresAt = gs_wall (stamp_add now ttl),
                               be_Enforced = enforced \<rparr>
                     in (Inr b, s\<lparr> st_blocks := gm_put target b (st_blocks s),
                                   st_blockDeadlines := gm_put target deadline (st_blockDeadlines s) \<rparr>))"

definition AddBlock :: "'l env \<Rightarrow> string \<Rightarrow> string \<Rightarrow> string \<Rightarrow> duration \<Rightarrow> bool \<Rightarrow> int \<Rightarrow> 'l State
    \<Rightarrow> (block_error + BlockEntry) \<times> 'l State" where
  "AddBlock en target reason source ttl enforced maxEntries s =
     AddBlockAt en target reason source ttl enforced maxEntries (stamp_utc (env_stamp en)) s"

definition wall_stamp :: "gotime \<Rightarrow> gostamp" where
  "wall_stamp t = \<lparr> gs_wall = t, gs_mono = None \<rparr>"

definition blockExpiryDeadline :: "string \<Rightarrow> BlockEntry \<Rightarrow> 'l State \<Rightarrow> gostamp" where
  "blockExpiryDeadline target entry s =
     (case gm_get (st_blockDeadlines s) target of
        Some deadline \<Rightarrow> if time_is_zero (gs_wall deadline) then wall_stamp (be_ExpiresAt entry) else deadline
      | None \<Rightarrow> wall_stamp (be_ExpiresAt entry))"

definition blockExpired :: "gostamp \<Rightarrow> gostamp \<Rightarrow> gostamp \<Rightarrow> bool" where
  "blockExpired deadline wallNow monoNow =
     (if gs_mono deadline \<noteq> None then \<not> stamp_after deadline monoNow else \<not> stamp_after deadline wallNow)"

definition BlockByID :: "string \<Rightarrow> 'l State \<Rightarrow> BlockEntry option" where
  "BlockByID rid s = map_option snd (find (\<lambda>(_, b). be_ID b = rid) (st_blocks s))"

definition BlockByTarget :: "string \<Rightarrow> 'l State \<Rightarrow> BlockEntry option" where
  "BlockByTarget target s =
     (case normalizeTarget target of Inl _ \<Rightarrow> None | Inr normalized \<Rightarrow> gm_get (st_blocks s) normalized)"

definition RemoveBlockByID :: "string \<Rightarrow> 'l State \<Rightarrow> BlockEntry option \<times> 'l State" where
  "RemoveBlockByID rid s =
     (case find (\<lambda>(_, b). be_ID b = rid) (st_blocks s) of
        None \<Rightarrow> (None, s)
      | Some (target, b) \<Rightarrow> (Some b, s\<lparr> st_blocks := gm_del target (st_blocks s),
                                        st_blockDeadlines := gm_del target (st_blockDeadlines s) \<rparr>))"

text \<open>
  \<open>Expired\<close> deletes from the map while ranging over it, which Go allows: every entry is visited
  once. \<open>now\<close> is the wall-clock time of the caller, \<open>env_stamp\<close> the reading of \<open>time.Now\<close>.
\<close>

definition Expired :: "'l env \<Rightarrow> gostamp \<Rightarrow> 'l State \<Rightarrow> BlockEntry list \<times> 'l State" where
  "Expired en now s =
     fold (\<lambda>(k, b) (out, s').
             if blockExpired (blockExpiryDeadline k b s') now (env_stamp en)
             then (out @ [b], s'\<lparr> st_blocks := gm_del k (st_blocks s'),
                                  st_blockDeadlines := gm_del k (st_blockDeadlines s') \<rparr>)
             else (out, s'))
       (st_blocks s) ([], s)"

definition SetBlockEnforced :: "string \<Rightarrow> bool \<Rightarrow> 'l State \<Rightarrow> bool \<times> 'l State" where
  "SetBlockEnforced target enforced s =
     (case gm_get (st_blocks s) target of
        None \<Rightarrow> (False, s)
      | Some block \<Rightarrow> (True, s\<lparr> st_blocks := gm_put target (block\<lparr> be_Enforced := enforced \<rparr>) (st_blocks s) \<rparr>))"

definition BlocksSnapshot :: "'l State \<Rightarrow> BlockEntry list" where
  "BlocksSnapshot s = sort_key be_Target (map snd (st_blocks s))"

definition RestoreBlock :: "BlockEntry \<Rightarrow> 'l State \<Rightarrow> 'l State" where
  "RestoreBlock b s = s\<lparr> st_blocks := gm_put (be_Target b) b (st_blocks s),
                        st_blockDeadlines := gm_del (be_Target b) (st_blockDeadlines s) \<rparr>"

definition import_block :: "'l env \<Rightarrow> gostamp \<Rightarrow> int \<Rightarrow> BlockEntry \<Rightarrow> int \<times> 'l State \<Rightarrow> int \<times> 'l State" where
  "import_block en now maxEntries b cs =
     (case cs of (cnt, s) \<Rightarrow>
        if cnt \<ge> maxEntries \<or> blockExpired (wall_stamp (be_ExpiresAt b)) now (env_stamp en) then (cnt, s)
        else case normalizeTarget (be_Target b) of
          Inl _ \<Rightarrow> (cnt, s)
        | Inr normalized \<Rightarrow>
            if be_ID b = [] then (cnt, s)
            else (cnt + 1, s\<lparr> st_blocks := gm_put normalized (b\<lparr> be_Target := normalized \<rparr>) (st_blocks s),
                                st_blockDeadlines := gm_del normalized (st_blockDeadlines s) \<rparr>))"

definition ImportBlocks :: "'l env \<Rightarrow> BlockEntry list \<Rightarrow> gostamp \<Rightarrow> int \<Rightarrow> 'l State \<Rightarrow> int \<times> 'l State" where
  "ImportBlocks en blocks now maxEntries s = fold (import_block en now maxEntries) blocks (0, s)"

section \<open>Invariant\<close>

definition blocks_wf :: "'l State \<Rightarrow> bool" where
  "blocks_wf s \<longleftrightarrow> gm_wf (st_blocks s) \<and> gm_wf (st_blockDeadlines s)
     \<and> (\<forall>k b. gm_get (st_blocks s) k = Some b \<longrightarrow> be_Target b = k \<and> normalizeTarget k = Inr k)
     \<and> (\<forall>k d. gm_get (st_blockDeadlines s) k = Some d \<longrightarrow>
          (\<exists>b. gm_get (st_blocks s) k = Some b \<and> gs_wall d = be_ExpiresAt b))"

lemma blocks_wfD:
  assumes "blocks_wf s"
  shows "gm_wf (st_blocks s)" and "gm_wf (st_blockDeadlines s)"
    and "gm_get (st_blocks s) k = Some b \<Longrightarrow> be_Target b = k"
    and "gm_get (st_blocks s) k = Some b \<Longrightarrow> normalizeTarget k = Inr k"
    and "gm_get (st_blockDeadlines s) k = Some d \<Longrightarrow> \<exists>b. gm_get (st_blocks s) k = Some b \<and> gs_wall d = be_ExpiresAt b"
  using assms by (auto simp: blocks_wf_def)

lemma NewState_blocks_wf: "blocks_wf (NewState now cfg)"
  by (simp add: blocks_wf_def NewState_def)

lemma blocks_wf_cong:
  "st_blocks s = st_blocks s' \<Longrightarrow> st_blockDeadlines s = st_blockDeadlines s' \<Longrightarrow> blocks_wf s = blocks_wf s'"
  by (simp add: blocks_wf_def)

lemma AddEvent_blocks_wf [simp]: "blocks_wf (AddEvent en e s) = blocks_wf s"
  by (rule blocks_wf_cong) simp_all

lemma RecordEvidence_blocks_wf [simp]: "blocks_wf (snd (RecordEvidence en r s)) = blocks_wf s"
  by (rule blocks_wf_cong) simp_all

lemma UpdateKineticTelemetry_blocks_wf [simp]: "blocks_wf (UpdateKineticTelemetry f s) = blocks_wf s"
  by (simp add: blocks_wf_def UpdateKineticTelemetry_def)

section \<open>AddBlockAt\<close>

definition effective_now :: "'l env \<Rightarrow> gostamp \<Rightarrow> gostamp" where
  "effective_now en now = (if time_is_zero (gs_wall now) then env_stamp en else now)"

lemma gs_wall_simps [simp]:
  "gs_wall (stamp_utc t) = gs_wall t" "gs_wall (stamp_add t d) = gs_wall t + d" "gs_mono (stamp_utc t) = None"
  by (simp_all add: stamp_utc_def stamp_add_def time_add_def)

text \<open>What a successful call returns and stores.\<close>

lemma AddBlockAt_Inr:
  assumes "AddBlockAt en target reason source ttl enforced maxEntries now s = (Inr b, s')"
  shows "\<exists>k. normalizeTarget target = Inr k
       \<and> st_blocks s' = gm_put k b (st_blocks s)
       \<and> st_blockDeadlines s' = gm_put k (stamp_add (effective_now en now) ttl) (st_blockDeadlines s)
       \<and> be_ExpiresAt b = gs_wall (effective_now en now) + ttl \<and> be_Reason b = reason \<and> be_Enforced b = enforced
       \<and> 3 \<le> length reason \<and> length reason \<le> 240 \<and> 0 < maxEntries
       \<and> (case gm_get (st_blocks s) k of
            Some old \<Rightarrow> be_ID b = be_ID old \<and> be_Target b = be_Target old \<and> be_Source b = be_Source old
              \<and> be_CreatedAt b = be_CreatedAt old \<and> st_minted s' = st_minted s
          | None \<Rightarrow> be_ID b = env_mint en (st_minted s) \<and> be_Target b = k \<and> be_Source b = source
              \<and> be_CreatedAt b = gs_wall (effective_now en now) \<and> int (length (st_blocks s)) < maxEntries
              \<and> st_minted s' = Suc (st_minted s))"
  using assms
  by (auto simp: AddBlockAt_def Let_def randomID_def effective_now_def split: sum.splits if_splits option.splits)

lemma AddBlockAt_Inl: "AddBlockAt en target reason source ttl enforced maxEntries now s = (Inl e, s') \<Longrightarrow> s' = s"
  by (auto simp: AddBlockAt_def Let_def randomID_def split: sum.splits if_splits option.splits)

lemma AddBlockAt_blocks_wf:
  assumes "blocks_wf s" and "AddBlockAt en target reason source ttl enforced maxEntries now s = (r, s')"
  shows "blocks_wf s'"
proof (cases r)
  case (Inl e)
  with assms AddBlockAt_Inl show ?thesis by blast
next
  case (Inr b)
  from AddBlockAt_Inr [OF assms(2) [unfolded Inr]] obtain k where k: "normalizeTarget target = Inr k"
    and bl: "st_blocks s' = gm_put k b (st_blocks s)"
    and dl: "st_blockDeadlines s' = gm_put k (stamp_add (effective_now en now) ttl) (st_blockDeadlines s)"
    and ex: "be_ExpiresAt b = gs_wall (effective_now en now) + ttl"
    and tgt: "case gm_get (st_blocks s) k of Some old \<Rightarrow> be_Target b = be_Target old | None \<Rightarrow> be_Target b = k"
    by (auto split: option.splits)
  have "be_Target b = k" using tgt blocks_wfD(3) [OF assms(1)] by (auto split: option.splits)
  moreover have "normalizeTarget k = Inr k" using normalizeTarget_idem [OF k] .
  ultimately show ?thesis using assms(1) bl dl ex by (auto simp: blocks_wf_def)
qed

lemma AddBlockAt_key:
  assumes "blocks_wf s" and "AddBlockAt en target reason source ttl enforced maxEntries now s = (Inr b, s')"
  shows "normalizeTarget target = Inr (be_Target b)"
  using AddBlockAt_Inr [OF assms(2)] blocks_wfD(3) [OF assms(1)] by (auto split: option.splits)

lemma AddBlockAt_frame:
  assumes "AddBlockAt en target reason source ttl enforced maxEntries now s = (r, s')"
  shows "st_enforcement s' = st_enforcement s" "st_releaseXDRMode s' = st_releaseXDRMode s" "st_release s' = st_release s"
    "st_policy s' = st_policy s" "st_sensors s' = st_sensors s" "st_kinetic s' = st_kinetic s"
    "st_coreConnected s' = st_coreConnected s" "st_allowlistReady s' = st_allowlistReady s"
    "st_events s' = st_events s" "st_eventCap s' = st_eventCap s" "st_evidence s' = st_evidence s"
    "st_xdr s' = st_xdr s" "st_l7 s' = st_l7 s" "st_started s' = st_started s"
  using assms
  by (auto simp: AddBlockAt_def Let_def randomID_def split: sum.splits if_splits option.splits)

section \<open>Lookup, removal and restore\<close>

lemma find_map_of: "gm_wf m \<Longrightarrow> find (\<lambda>(_, b). P b) m = Some (k, b) \<Longrightarrow> gm_get m k = Some b \<and> P b"
  by (auto simp: find_Some_iff gm_wf_get_iff) (metis nth_mem)

lemma find_exists: "gm_get m k = Some b \<Longrightarrow> P b \<Longrightarrow> \<exists>k' b'. find (\<lambda>(_, b). P b) m = Some (k', b')"
proof (cases "find (\<lambda>(_, b). P b) m")
  case None
  assume "gm_get m k = Some b" "P b"
  with None show ?thesis by (auto simp: find_None_iff dest: map_of_SomeD)
qed auto

lemma RestoreBlock_blocks_wf:
  "blocks_wf s \<Longrightarrow> normalizeTarget (be_Target b) = Inr (be_Target b) \<Longrightarrow> blocks_wf (RestoreBlock b s)"
  by (auto simp: blocks_wf_def RestoreBlock_def)

lemma RemoveBlockByID_blocks_wf: "blocks_wf s \<Longrightarrow> blocks_wf (snd (RemoveBlockByID rid s))"
  by (auto simp: blocks_wf_def RemoveBlockByID_def split: option.splits prod.splits)

lemma SetBlockEnforced_blocks_wf: "blocks_wf s \<Longrightarrow> blocks_wf (snd (SetBlockEnforced t e s))"
  by (auto simp: blocks_wf_def SetBlockEnforced_def split: option.splits) (metis option.inject)

text \<open>No two blocks carry the identifier.\<close>

definition unique_id :: "string \<Rightarrow> 'l State \<Rightarrow> bool" where
  "unique_id rid s \<longleftrightarrow> (\<forall>k k' b b'. gm_get (st_blocks s) k = Some b \<longrightarrow> gm_get (st_blocks s) k' = Some b' \<longrightarrow>
     be_ID b = rid \<longrightarrow> be_ID b' = rid \<longrightarrow> k = k')"

lemma get_RemoveBlockByID:
  assumes wf: "gm_wf (st_blocks s)" and uniq: "unique_id rid s"
  shows "gm_get (st_blocks (snd (RemoveBlockByID rid s))) k =
     (case gm_get (st_blocks s) k of Some b \<Rightarrow> if be_ID b = rid then None else Some b | None \<Rightarrow> None)"
proof (cases "find (\<lambda>(_, b). be_ID b = rid) (st_blocks s)")
  case None
  have "be_ID b \<noteq> rid" if "gm_get (st_blocks s) k = Some b" for b
    using find_exists [OF that, of "\<lambda>b. be_ID b = rid"] None by auto
  with None show ?thesis by (auto simp: RemoveBlockByID_def split: option.split)
next
  case (Some kb)
  obtain k0 b0 where kb: "kb = (k0, b0)" by force
  with find_map_of [OF wf Some [unfolded kb]] have "gm_get (st_blocks s) k0 = Some b0" "be_ID b0 = rid" by auto
  then show ?thesis
    using Some kb uniq by (auto simp: RemoveBlockByID_def unique_id_def split: option.split)
qed

text \<open>
  The contract of a store that can undo a change: putting back the previous value or dropping the new
  one by its identifier restores every lookup.
\<close>

locale undo_store =
  fixes get :: "'s \<Rightarrow> 'k \<Rightarrow> 'v option" and put_back :: "'v \<Rightarrow> 's \<Rightarrow> 's" and drop_new :: "'i \<Rightarrow> 's \<Rightarrow> 's"
    and key :: "'v \<Rightarrow> 'k" and ident :: "'v \<Rightarrow> 'i" and wf :: "'s \<Rightarrow> bool"
  assumes get_put_back: "get (put_back v s) k = (if k = key v then Some v else get s k)"
    and get_drop_new: "wf s \<Longrightarrow>
       (\<And>k k' v v'. get s k = Some v \<Longrightarrow> get s k' = Some v' \<Longrightarrow> ident v = i \<Longrightarrow> ident v' = i \<Longrightarrow> k = k') \<Longrightarrow>
       get (drop_new i s) k = (case get s k of Some v \<Rightarrow> if ident v = i then None else Some v | None \<Rightarrow> None)"
begin

lemma undo_update:
  assumes "\<And>k. get s' k = (if k = key v then Some v else get s k)" and "get s (key v) = Some old" and "key old = key v"
  shows "get (put_back old s') = get s"
  using assms by (intro ext) (simp add: get_put_back)

lemma undo_insert:
  assumes upd: "\<And>k. get s' k = (if k = key v then Some v else get s k)" and "wf s'"
    and absent: "get s (key v) = None" and fresh: "\<And>k w. get s k = Some w \<Longrightarrow> ident w \<noteq> ident v"
  shows "get (drop_new (ident v) s') = get s"
proof
  fix k
  have "k1 = k2" if "get s' k1 = Some w1" "get s' k2 = Some w2" "ident w1 = ident v" "ident w2 = ident v" for k1 k2 w1 w2
    using that upd fresh by (metis)
  from get_drop_new [OF \<open>wf s'\<close> this] show "get (drop_new (ident v) s') k = get s k"
    using upd absent fresh by (auto split: option.split)
qed

end

interpretation block_undo: undo_store "\<lambda>s. gm_get (st_blocks s)" RestoreBlock "\<lambda>i s. snd (RemoveBlockByID i s)"
  be_Target be_ID "\<lambda>s. gm_wf (st_blocks s)"
  by unfold_locales (auto simp: RestoreBlock_def get_RemoveBlockByID unique_id_def)

section \<open>Expiry\<close>

definition entry_expired :: "'l env \<Rightarrow> gostamp \<Rightarrow> 'l State \<Rightarrow> string \<Rightarrow> BlockEntry \<Rightarrow> bool" where
  "entry_expired en now s k b \<longleftrightarrow> blockExpired (blockExpiryDeadline k b s) now (env_stamp en)"

definition drop_keys :: "string set \<Rightarrow> 'l State \<Rightarrow> 'l State" where
  "drop_keys K s = s\<lparr> st_blocks := filter (\<lambda>(k, _). k \<notin> K) (st_blocks s),
                      st_blockDeadlines := filter (\<lambda>(k, _). k \<notin> K) (st_blockDeadlines s) \<rparr>"

lemma filter_filter_keys:
  "filter (\<lambda>(k', _). k' \<notin> K) (filter (\<lambda>(k', _). k \<noteq> k') m) = filter (\<lambda>(k', _). k' \<notin> insert k K) m"
  by (auto intro: filter_cong simp: filter_filter)

lemma drop_keys_del:
  "drop_keys K (s\<lparr> st_blocks := gm_del k (st_blocks s), st_blockDeadlines := gm_del k (st_blockDeadlines s) \<rparr>) =
     drop_keys (insert k K) s"
  unfolding drop_keys_def AList.delete_eq by (simp add: filter_filter_keys del: filter_filter insert_iff)

lemma drop_keys_empty: "drop_keys {} s = s"
  by (simp add: drop_keys_def)

lemma Expired_fold:
  assumes "distinct (map fst xs)"
    and "\<forall>(k, b) \<in> set xs. blockExpiryDeadline k b t = blockExpiryDeadline k b s"
  shows "fold (\<lambda>(k, b) (out, s').
             if blockExpired (blockExpiryDeadline k b s') now (env_stamp en)
             then (out @ [b], s'\<lparr> st_blocks := gm_del k (st_blocks s'),
                                  st_blockDeadlines := gm_del k (st_blockDeadlines s') \<rparr>)
             else (out, s')) xs (out, t) =
     (out @ map snd (filter (\<lambda>(k, b). entry_expired en now s k b) xs),
      drop_keys (fst ` set (filter (\<lambda>(k, b). entry_expired en now s k b) xs)) t)"
  using assms
proof (induction xs arbitrary: out t)
  case Nil
  then show ?case by (simp add: drop_keys_empty)
next
  case (Cons x xs)
  obtain k b where x: "x = (k, b)" by force
  let ?t = "t\<lparr> st_blocks := gm_del k (st_blocks t), st_blockDeadlines := gm_del k (st_blockDeadlines t) \<rparr>"
  have same: "\<forall>(k', b') \<in> set xs. blockExpiryDeadline k' b' t = blockExpiryDeadline k' b' s"
    and d: "distinct (map fst xs)" and hd: "blockExpiryDeadline k b t = blockExpiryDeadline k b s"
    using Cons.prems by (auto simp: x)
  have other: "blockExpiryDeadline k' b' ?t = blockExpiryDeadline k' b' t" if "(k', b') \<in> set xs" for k' b'
    using that Cons.prems(1) by (auto simp: x blockExpiryDeadline_def image_iff)
  have "\<forall>(k', b') \<in> set xs. blockExpiryDeadline k' b' ?t = blockExpiryDeadline k' b' s" using same other by auto
  note IHt = Cons.IH [OF d this] and IH = Cons.IH [OF d same]
  show ?case
    by (simp add: x hd IH IHt entry_expired_def drop_keys_del)
qed

lemma Expired_eq:
  "gm_wf (st_blocks s) \<Longrightarrow> Expired en now s =
     (map snd (filter (\<lambda>(k, b). entry_expired en now s k b) (st_blocks s)),
      drop_keys {k. \<exists>b. gm_get (st_blocks s) k = Some b \<and> entry_expired en now s k b} s)"
proof -
  assume wf: "gm_wf (st_blocks s)"
  have "fst ` set (filter (\<lambda>(k, b). entry_expired en now s k b) (st_blocks s)) =
      {k. \<exists>b. gm_get (st_blocks s) k = Some b \<and> entry_expired en now s k b}"
    using wf by (force simp: gm_wf_get_iff)
  with Expired_fold [of "st_blocks s" s s now en "[]"] wf show ?thesis by (simp add: Expired_def gm_wf_def)
qed

lemma gm_get_filter_keys: "gm_get (filter (\<lambda>(k, _). k \<notin> K) m) k = (if k \<in> K then None else gm_get m k)"
  by (induction m) auto

lemma get_drop_keys:
  "gm_get (st_blocks (drop_keys K s)) k = (if k \<in> K then None else gm_get (st_blocks s) k)"
  "gm_get (st_blockDeadlines (drop_keys K s)) k = (if k \<in> K then None else gm_get (st_blockDeadlines s) k)"
  by (simp_all add: drop_keys_def gm_get_filter_keys)

lemma Expired_get:
  "gm_wf (st_blocks s) \<Longrightarrow> gm_get (st_blocks (snd (Expired en now s))) k =
     (case gm_get (st_blocks s) k of Some b \<Rightarrow> if entry_expired en now s k b then None else Some b | None \<Rightarrow> None)"
  by (auto simp: Expired_eq get_drop_keys split: option.split)

lemma Expired_out:
  "gm_wf (st_blocks s) \<Longrightarrow> set (fst (Expired en now s)) = {b. \<exists>k. gm_get (st_blocks s) k = Some b \<and> entry_expired en now s k b}"
  by (force simp: Expired_eq gm_wf_get_iff)

lemma drop_keys_blocks_wf: "blocks_wf s \<Longrightarrow> blocks_wf (drop_keys K s)"
proof -
  assume wf: "blocks_wf s"
  have "gm_wf (st_blocks (drop_keys K s))" "gm_wf (st_blockDeadlines (drop_keys K s))"
    using blocks_wfD(1,2) [OF wf] by (simp_all add: drop_keys_def)
  with wf show ?thesis unfolding blocks_wf_def get_drop_keys by auto
qed

lemma Expired_blocks_wf: "blocks_wf s \<Longrightarrow> blocks_wf (snd (Expired en now s))"
  by (simp add: Expired_eq blocks_wfD(1) drop_keys_blocks_wf)

lemma Expired_frame:
  "gm_wf (st_blocks s) \<Longrightarrow> st_enforcement (snd (Expired en now s)) = st_enforcement s"
  "gm_wf (st_blocks s) \<Longrightarrow> st_kinetic (snd (Expired en now s)) = st_kinetic s"
  "gm_wf (st_blocks s) \<Longrightarrow> st_minted (snd (Expired en now s)) = st_minted s"
  by (simp_all add: Expired_eq drop_keys_def)

text \<open>Without a monotonic reading the published \<open>ExpiresAt\<close> decides.\<close>

lemma entry_expired_wall:
  assumes "blocks_wf s" and "gm_get (st_blocks s) k = Some b"
    and "case gm_get (st_blockDeadlines s) k of Some d \<Rightarrow> gs_mono d = None | None \<Rightarrow> True"
  shows "entry_expired en now s k b \<longleftrightarrow> be_ExpiresAt b \<le> gs_wall now"
  using assms blocks_wfD(5) [OF assms(1), of k]
  by (auto simp: entry_expired_def blockExpired_def blockExpiryDeadline_def wall_stamp_def stamp_after_def
      split: option.splits)

section \<open>Import\<close>

lemma import_block_wf: "blocks_wf s \<Longrightarrow> import_block en now m b (c, s) = (c', s') \<Longrightarrow> blocks_wf s'"
  by (auto simp: import_block_def blocks_wf_def split: if_splits sum.splits dest: normalizeTarget_idem)

lemma ImportBlocks_wf: "blocks_wf s \<Longrightarrow> blocks_wf (snd (ImportBlocks en bs now m s))"
proof -
  assume wf: "blocks_wf s"
  have "blocks_wf (snd (fold (import_block en now m) bs (c, s)))" for c
    using wf
  proof (induction bs arbitrary: c s)
    case (Cons b bs)
    then show ?case
      by (cases "import_block en now m b (c, s)") (auto dest: import_block_wf)
  qed simp
  then show ?thesis by (simp add: ImportBlocks_def)
qed

lemma import_block_cnt: "import_block en now m b (c, s) = (c', s') \<Longrightarrow> c \<le> max 0 m \<Longrightarrow> c \<le> c' \<and> c' \<le> max 0 m
    \<and> int (length (st_blocks s')) - int (length (st_blocks s)) \<le> c' - c"
  by (auto simp: import_block_def length_gm_put split: if_splits sum.splits)

lemma ImportBlocks_cnt:
  "fst (ImportBlocks en bs now m s) \<le> max 0 m
   \<and> int (length (st_blocks (snd (ImportBlocks en bs now m s)))) \<le> int (length (st_blocks s)) + max 0 m"
proof -
  have "c \<le> max 0 m \<Longrightarrow> (let r = fold (import_block en now m) bs (c, s) in
      c \<le> fst r \<and> fst r \<le> max 0 m \<and> int (length (st_blocks (snd r))) - int (length (st_blocks s)) \<le> fst r - c)" for c
  proof (induction bs arbitrary: c s)
    case (Cons b bs)
    obtain c' s' where r: "import_block en now m b (c, s) = (c', s')" by force
    from import_block_cnt [OF r Cons.prems] have "c \<le> c'" "c' \<le> max 0 m"
      "int (length (st_blocks s')) - int (length (st_blocks s)) \<le> c' - c" by auto
    with Cons.IH [of c' s'] r show ?case by (auto simp: Let_def)
  qed simp
  from this [of 0] show ?thesis by (auto simp: ImportBlocks_def Let_def)
qed

section \<open>Properties\<close>

datatype block_op =
    OpAdd string string string duration bool int gostamp
  | OpRemove string
  | OpExpire gostamp
  | OpEnforce string bool
  | OpRestore BlockEntry
  | OpImport "BlockEntry list" gostamp int

fun run_block :: "'l env \<times> block_op \<Rightarrow> 'l State \<Rightarrow> 'l State" where
  "run_block (en, OpAdd t r src ttl e m now) s = snd (AddBlockAt en t r src ttl e m now s)"
| "run_block (en, OpRemove rid) s = snd (RemoveBlockByID rid s)"
| "run_block (en, OpExpire now) s = snd (Expired en now s)"
| "run_block (en, OpEnforce t e) s = snd (SetBlockEnforced t e s)"
| "run_block (en, OpRestore b) s = RestoreBlock b s"
| "run_block (en, OpImport bs now m) s = snd (ImportBlocks en bs now m s)"

definition restores_canonical :: "block_op \<Rightarrow> bool" where
  "restores_canonical op = (case op of OpRestore b \<Rightarrow> normalizeTarget (be_Target b) = Inr (be_Target b) | _ \<Rightarrow> True)"

lemma run_block_wf:
  assumes "blocks_wf s" and "restores_canonical op"
  shows "blocks_wf (run_block (en, op) s)"
proof (cases op)
  case (OpAdd t r src ttl e m now)
  then show ?thesis
    using assms AddBlockAt_blocks_wf [of s en t r src ttl e m now] by (cases "AddBlockAt en t r src ttl e m now s") auto
qed (use assms in \<open>simp_all add: RemoveBlockByID_blocks_wf Expired_blocks_wf SetBlockEnforced_blocks_wf
       RestoreBlock_blocks_wf ImportBlocks_wf restores_canonical_def\<close>)

lemma blocks_run_wf:
  "blocks_wf s \<Longrightarrow> \<forall>(en, op) \<in> set ops. restores_canonical op \<Longrightarrow> blocks_wf (fold run_block ops s)"
  by (induction ops arbitrary: s) (auto simp: run_block_wf)

lemma BlocksSnapshot_get:
  assumes "blocks_wf s"
  shows "b \<in> set (BlocksSnapshot s) \<longleftrightarrow> gm_get (st_blocks s) (be_Target b) = Some b"
proof -
  have "b \<in> set (BlocksSnapshot s) \<longleftrightarrow> (\<exists>k. (k, b) \<in> set (st_blocks s))" by (force simp: BlocksSnapshot_def)
  also have "\<dots> \<longleftrightarrow> (\<exists>k. gm_get (st_blocks s) k = Some b)" using blocks_wfD(1) [OF assms] by (simp add: gm_wf_get_iff)
  finally show ?thesis using blocks_wfD(3) [OF assms] by blast
qed

lemma BlocksSnapshot_distinct:
  assumes "blocks_wf s"
  shows "distinct (map be_Target (BlocksSnapshot s))" and "sorted (map be_Target (BlocksSnapshot s))"
proof -
  have "map be_Target (map snd (st_blocks s)) = map fst (st_blocks s)"
    using assms by (auto simp: blocks_wf_def gm_wf_get_iff)
  moreover have "distinct (map fst (st_blocks s))" using assms by (simp add: blocks_wf_def gm_wf_def)
  moreover have "mset (map be_Target (BlocksSnapshot s)) = mset (map be_Target (map snd (st_blocks s)))"
    by (simp add: BlocksSnapshot_def image_mset.compositionality)
  ultimately show "distinct (map be_Target (BlocksSnapshot s))" by (metis mset_eq_imp_distinct_iff)
  show "sorted (map be_Target (BlocksSnapshot s))" by (simp add: BlocksSnapshot_def)
qed

text \<open>An environment for examples: a fixed clock, counted identifiers and a ledger that counts its records.\<close>

definition demo_env :: "gotime \<Rightarrow> int \<Rightarrow> nat env" where
  "demo_env now mt = \<lparr> env_now = now, env_mono = mt, env_mint = (\<lambda>n. ''id-'' @ dec_nat n),
     env_sha256 = (\<lambda>_. replicate 32 0), env_append = (\<lambda>r l. (None, Suc l)),
     env_ledger_status = (\<lambda>l. \<lparr> es_Enabled = True, es_Healthy = True, es_Full = False, es_Records = of_nat l,
        es_HeadHash = [], es_Error = [], es_VerifyScope = ''full'' \<rparr>) \<rparr>"

text \<open>
  C33: However blocks are added, removed, expired, enforced, restored and imported, the block list handed
  to the policy store is sorted by target, names every target once and in canonical form, and
  looking up a listed target gives the listed entry, provided every restored entry has a canonical target: \<open>RestoreBlock\<close> stores its argument as it is,
  and its callers pass entries that were in the list before.
\<close>
theorem block_list_canonical:
  assumes "\<forall>(en, op) \<in> set ops. restores_canonical op"
  shows "let s = fold run_block ops (NewState now cfg); bs = BlocksSnapshot s
     in sorted (map be_Target bs) \<and> distinct (map be_Target bs)
        \<and> (\<forall>b \<in> set bs. normalizeTarget (be_Target b) = Inr (be_Target b) \<and> BlockByTarget (be_Target b) s = Some b)"
proof -
  have wf: "blocks_wf (fold run_block ops (NewState now cfg))"
    by (rule blocks_run_wf [OF NewState_blocks_wf assms])
  have "normalizeTarget (be_Target b) = Inr (be_Target b)" if "b \<in> set (BlocksSnapshot (fold run_block ops (NewState now cfg)))" for b
    using that BlocksSnapshot_get [OF wf] blocks_wfD(4) [OF wf] by blast
  with BlocksSnapshot_distinct [OF wf] BlocksSnapshot_get [OF wf] show ?thesis
    by (simp add: Let_def BlockByTarget_def)
qed

theorem block_list_canonical_witness:
  "\<forall>cfg. distinct (map be_Target (BlocksSnapshot (fold run_block
      [(demo_env 5 0, OpAdd ''10.0.0.7'' ''scan'' ''manual'' minute True 10 (wall_stamp 5)),
       (demo_env 9 4, OpAdd ''10.0.0.7/32'' ''scan again'' ''manual'' minute True 10 (wall_stamp 9))] (NewState 1 cfg))))"
  using block_list_canonical [of
      "[(demo_env 5 0, OpAdd ''10.0.0.7'' ''scan'' ''manual'' minute True 10 (wall_stamp 5)),
       (demo_env 9 4, OpAdd ''10.0.0.7/32'' ''scan again'' ''manual'' minute True 10 (wall_stamp 9))]" 1]
  by (simp add: restores_canonical_def Let_def)

text \<open>
  \<open>AddBlockAt\<close> either refuses and changes nothing, or stores one entry. A stored entry is found
  under every spelling of its target, expires after the given time, keeps identifier, origin and
  creation time of an entry it renews, respects the capacity when it is new, and leaves every other
  target alone.
\<close>
theorem add_block_effect:
  assumes wf: "blocks_wf s" and call: "AddBlockAt en target reason source ttl enforced maxEntries now s = (r, s')"
  shows "case r of
     Inl e \<Rightarrow> s' = s
   | Inr b \<Rightarrow>
       (\<forall>u. normalizeTarget u = normalizeTarget target \<longrightarrow> BlockByTarget u s' = Some b)
       \<and> (\<forall>u. normalizeTarget u \<noteq> normalizeTarget target \<longrightarrow> BlockByTarget u s' = BlockByTarget u s)
       \<and> be_ExpiresAt b = gs_wall (effective_now en now) + ttl \<and> be_Enforced b = enforced \<and> be_Reason b = reason
       \<and> (case BlockByTarget target s of
            Some old \<Rightarrow> be_ID b = be_ID old \<and> be_Source b = be_Source old \<and> be_CreatedAt b = be_CreatedAt old
          | None \<Rightarrow> be_Source b = source \<and> int (length (st_blocks s')) \<le> maxEntries)"
proof (cases r)
  case (Inl e)
  with call AddBlockAt_Inl show ?thesis by auto
next
  case (Inr b)
  from AddBlockAt_Inr [OF call [unfolded Inr]] obtain k where k: "normalizeTarget target = Inr k"
    and bl: "st_blocks s' = gm_put k b (st_blocks s)"
    and facts: "be_ExpiresAt b = gs_wall (effective_now en now) + ttl" "be_Reason b = reason" "be_Enforced b = enforced"
    and old: "case gm_get (st_blocks s) k of
        Some old \<Rightarrow> be_ID b = be_ID old \<and> be_Source b = be_Source old \<and> be_CreatedAt b = be_CreatedAt old
      | None \<Rightarrow> be_Source b = source \<and> int (length (st_blocks s)) < maxEntries"
    by (auto split: option.splits)
  show ?thesis
    using Inr k bl facts old
    by (auto simp: BlockByTarget_def length_gm_put gm_has_def split: sum.splits option.splits)
qed

theorem add_block_effect_witness:
  "\<forall>cfg. \<exists>b s'. AddBlockAt (demo_env 5 0) ''10.0.0.7'' ''scan'' ''manual'' minute True 10 (wall_stamp 5) (NewState 1 cfg) = (Inr b, s')
     \<and> BlockByTarget ''10.0.0.7'' s' = Some b \<and> be_ExpiresAt b = 5 + minute"
proof
  fix cfg
  let ?call = "AddBlockAt (demo_env 5 0) ''10.0.0.7'' ''scan'' ''manual'' minute True 10 (wall_stamp 5) (NewState 1 cfg)"
  obtain r s' where call: "?call = (r, s')" by force
  moreover have "\<exists>b. fst ?call = Inr b"
    by (simp add: AddBlockAt_def sample_target Let_def NewState_def randomID_def)
  ultimately obtain b where b: "?call = (Inr b, s')" by auto
  from add_block_effect [OF NewState_blocks_wf this] show "\<exists>b s'. ?call = (Inr b, s')
     \<and> BlockByTarget ''10.0.0.7'' s' = Some b \<and> be_ExpiresAt b = 5 + minute"
    using b by (auto simp: effective_now_def wall_stamp_def time_is_zero_def)
qed

text \<open>
  \<open>Expired\<close> returns and removes exactly the blocks whose deadline has passed: for a deadline with a
  monotonic reading the monotonic clock decides, for every other block the published \<open>ExpiresAt\<close>
  against the given wall-clock time. All other blocks stay.
\<close>
theorem expired_exact:
  assumes wf: "blocks_wf s" and call: "Expired en now s = (out, s')"
  shows "let gone = (\<lambda>k b. case gm_get (st_blockDeadlines s) k of
            Some d \<Rightarrow> (case gs_mono d of
               Some m \<Rightarrow> if gs_wall d = 0 then be_ExpiresAt b \<le> gs_wall now else m \<le> env_mono en
             | None \<Rightarrow> be_ExpiresAt b \<le> gs_wall now)
          | None \<Rightarrow> be_ExpiresAt b \<le> gs_wall now)
     in set out = {b. gm_get (st_blocks s) (be_Target b) = Some b \<and> gone (be_Target b) b}
        \<and> (\<forall>k. gm_get (st_blocks s') k = (case gm_get (st_blocks s) k of
               Some b \<Rightarrow> if gone k b then None else Some b | None \<Rightarrow> None))"
proof -
  define gone where "gone = (\<lambda>k (b :: BlockEntry). case gm_get (st_blockDeadlines s) k of
            Some d \<Rightarrow> (case gs_mono d of
               Some m \<Rightarrow> if gs_wall d = 0 then be_ExpiresAt b \<le> gs_wall now else m \<le> env_mono en
             | None \<Rightarrow> be_ExpiresAt b \<le> gs_wall now)
          | None \<Rightarrow> be_ExpiresAt b \<le> gs_wall now)"
  have eq: "entry_expired en now s k b = gone k b" if "gm_get (st_blocks s) k = Some b" for k b
    using blocks_wfD(5) [OF wf, of k] that
    by (auto simp: entry_expired_def gone_def blockExpired_def blockExpiryDeadline_def wall_stamp_def stamp_after_def
        time_is_zero_def env_stamp_def split: option.splits)
  note g = blocks_wfD(1) [OF wf]
  have "set out = {b. \<exists>k. gm_get (st_blocks s) k = Some b \<and> entry_expired en now s k b}"
    using Expired_out [OF g, of en now] call by simp
  also have "\<dots> = {b. gm_get (st_blocks s) (be_Target b) = Some b \<and> gone (be_Target b) b}"
    using eq blocks_wfD(3) [OF wf] by (intro Collect_cong) metis
  finally have "set out = {b. gm_get (st_blocks s) (be_Target b) = Some b \<and> gone (be_Target b) b}" .
  moreover have "gm_get (st_blocks s') k = (case gm_get (st_blocks s) k of
      Some b \<Rightarrow> if gone k b then None else Some b | None \<Rightarrow> None)" for k
    using Expired_get [OF g, of en now k] call eq by (auto split: option.splits)
  ultimately show ?thesis unfolding Let_def gone_def [symmetric] by blast
qed

theorem expired_exact_witness:
  "\<forall>cfg. let b = \<lparr> be_ID = ''id-0'', be_Target = ''10.0.0.7/32'', be_Reason = ''scan'', be_Source = ''manual'',
              be_CreatedAt = 5, be_ExpiresAt = 65, be_Enforced = True \<rparr>;
       s = RestoreBlock b (NewState 1 cfg)
     in b \<in> set (fst (Expired (demo_env 70 0) (wall_stamp 70) s))"
proof
  fix cfg
  let ?b = "\<lparr> be_ID = ''id-0'', be_Target = ''10.0.0.7/32'', be_Reason = ''scan'', be_Source = ''manual'',
              be_CreatedAt = 5, be_ExpiresAt = 65, be_Enforced = True \<rparr>"
  have wf: "blocks_wf (RestoreBlock ?b (NewState 1 cfg))"
    using RestoreBlock_blocks_wf [OF NewState_blocks_wf, of ?b 1 cfg] normalizeTarget_idem [OF sample_target] by simp
  have "?b \<in> set (fst (Expired (demo_env 70 0) (wall_stamp 70) (RestoreBlock ?b (NewState 1 cfg))))"
    using expired_exact [OF wf, of "demo_env 70 0" "wall_stamp 70", OF surjective_pairing]
    by (simp add: RestoreBlock_def NewState_def wall_stamp_def Let_def)
  then show "let b = ?b; s = RestoreBlock b (NewState 1 cfg) in b \<in> set (fst (Expired (demo_env 70 0) (wall_stamp 70) s))"
    by (simp add: Let_def)
qed

text \<open>
  C34: A block that \<open>AddBlock\<close> creates is not protected against a forward step of the wall clock. Its
  deadline carries no monotonic reading, because the timestamp it is computed from went through
  \<open>UTC\<close>: once the wall clock shows a time past creation plus TTL the block expires, however little
  time has passed on the monotonic clock.
\<close>
theorem add_block_wall_step:
  assumes wf: "blocks_wf s" and call: "AddBlock en target reason source ttl enforced maxEntries s = (Inr b, s')"
    and running: "env_now en \<noteq> 0" and step: "env_now en + ttl \<le> gs_wall later"
  shows "b \<in> set (fst (Expired (en'\<lparr> env_mono := env_mono en \<rparr>) later s'))"
proof -
  let ?now = "stamp_utc (env_stamp en)" and ?en = "en'\<lparr> env_mono := env_mono en \<rparr>"
  have call': "AddBlockAt en target reason source ttl enforced maxEntries ?now s = (Inr b, s')"
    using call by (simp add: AddBlock_def)
  have now: "effective_now en ?now = ?now" using running by (simp add: effective_now_def time_is_zero_def env_stamp_def)
  from AddBlockAt_Inr [OF call'] obtain k where bl: "st_blocks s' = gm_put k b (st_blocks s)"
    and dl: "st_blockDeadlines s' = gm_put k (stamp_add (effective_now en ?now) ttl) (st_blockDeadlines s)"
    and ex: "be_ExpiresAt b = gs_wall (effective_now en ?now) + ttl"
    by blast
  note dl = dl [unfolded now]
  have get: "gm_get (st_blocks s') k = Some b" by (simp add: bl)
  have wall: "gs_wall ?now = env_now en" by (simp add: env_stamp_def)
  have wf': "blocks_wf s'" by (rule AddBlockAt_blocks_wf [OF wf call'])
  have "gs_mono (stamp_add ?now ttl) = None" by (simp add: stamp_add_def stamp_utc_def)
  with entry_expired_wall [OF wf' get, of ?en later] step ex have "entry_expired ?en later s' k b"
    by (simp add: dl now wall del: gs_wall_simps(1))
  then show ?thesis using Expired_out [OF blocks_wfD(1) [OF wf']] get by blast
qed

theorem add_block_wall_step_witness:
  "\<forall>cfg. \<exists>b s'. AddBlock (demo_env 5 0) ''10.0.0.7'' ''scan'' ''manual'' minute True 10 (NewState 1 cfg) = (Inr b, s')
     \<and> b \<in> set (fst (Expired (demo_env (5 + minute) 0) (wall_stamp (5 + minute)) s'))"
proof
  fix cfg
  let ?call = "AddBlock (demo_env 5 0) ''10.0.0.7'' ''scan'' ''manual'' minute True 10 (NewState 1 cfg)"
  have "\<exists>b. fst ?call = Inr b"
    by (simp add: AddBlock_def AddBlockAt_def sample_target Let_def NewState_def randomID_def)
  then obtain b where "?call = (Inr b, snd ?call)" by (metis prod.collapse)
  with add_block_wall_step [OF NewState_blocks_wf this, of "wall_stamp (5 + minute)" "demo_env (5 + minute) 0"]
  show "\<exists>b s'. ?call = (Inr b, s') \<and> b \<in> set (fst (Expired (demo_env (5 + minute) 0) (wall_stamp (5 + minute)) s'))"
    by (auto simp: demo_env_def wall_stamp_def)
qed

end
