(* ===== verification/Threat_Index.thy ===== *)
theory Threat_Index
  imports Kinetic_Types Net_Facts
begin

text \<open>
  \<open>ThreatIndex\<close> of \<open>control/feeds.go\<close>: the prefix index behind the threat feeds. Prefixes are grouped by
  their length; a lookup masks the address to every length in use, longest first, and probes a
  hash set. \<open>normalizeThreatPrefix\<close> turns an IPv4-mapped prefix into the IPv4 prefix it stands
  for, so that both spellings of an address meet the same indicators.

  The lemmas relate the byte masks to single address bits; the property says that a lookup succeeds
  exactly when some indexed prefix agrees with the address on all its bits.

  A hash set of addresses is a Go map to unit values; \<open>netip.ParsePrefix\<close> and \<open>netip.Addr\<close> follow
  the standard library.
\<close>

section \<open>Operations\<close>

text \<open>\<open>netip.ParsePrefix\<close>: no zone, no sign and no leading zero in the length.\<close>

definition parsePrefix :: "string \<Rightarrow> (goaddr \<times> nat) option" where
  "parsePrefix s =
     (let addr = takeWhile (\<lambda>c. c \<noteq> CHR ''/'') s; tail = dropWhile (\<lambda>c. c \<noteq> CHR ''/'') s
      in if tail = [] then None
         else case parse_addr addr of
           None \<Rightarrow> None
         | Some a \<Rightarrow>
             if addr_zone a \<noteq> [] then None
             else if tl tail = [] then None
             else if length (tl tail) > 1 \<and> hd (tl tail) = CHR ''0'' then None
             else case dec_value 0 (tl tail) of
               None \<Rightarrow> None
             | Some n \<Rightarrow> if n > bit_len a then None else Some (a, n))"

fun addr_bytes :: "goaddr \<Rightarrow> ip" where
  "addr_bytes (Addr4 b) = b"
| "addr_bytes (Addr6 b z) = b"

definition is4In6 :: "goaddr \<Rightarrow> bool" where
  "is4In6 a = (case a of Addr4 _ \<Rightarrow> False | Addr6 b _ \<Rightarrow> length b = 16 \<and> take 12 b = v4InV6Prefix)"

definition addr_unmap :: "goaddr \<Rightarrow> goaddr" where
  "addr_unmap a = (if is4In6 a then Addr4 (drop 12 (addr_bytes a)) else a)"

definition addr_masked :: "goaddr \<Rightarrow> nat \<Rightarrow> goaddr" where
  "addr_masked a bits =
     (case a of Addr4 b \<Rightarrow> Addr4 (map2 (AND) b (cidr_mask bits 32))
              | Addr6 b _ \<Rightarrow> Addr6 (map2 (AND) b (cidr_mask bits 128)) [])"

definition normalizeThreatPrefix :: "goaddr \<times> nat \<Rightarrow> (goaddr \<times> nat) option" where
  "normalizeThreatPrefix p =
     (case p of (addr, bits) \<Rightarrow>
        if is4In6 addr
        then (if bits < 96 then None
              else if bits - 96 > 32 then None
              else Some (addr_masked (addr_unmap addr) (bits - 96), bits - 96))
        else if bits > bit_len addr then None
        else Some (addr_masked addr bits, bits))"

record ThreatIndex =
  ti_v4 :: "(nat, (ip, unit) gomap) gomap"
  ti_v6 :: "(nat, (ip, unit) gomap) gomap"
  ti_v4Lengths :: "nat list"
  ti_v6Lengths :: "nat list"
  ti_count :: nat
  ti_generation :: "64 word"
  ti_fingerprint :: string

definition NewThreatIndex :: ThreatIndex where
  "NewThreatIndex = \<lparr> ti_v4 = [], ti_v6 = [], ti_v4Lengths = [], ti_v6Lengths = [], ti_count = 0,
     ti_generation = 0, ti_fingerprint = replicate 64 (CHR ''0'') \<rparr>"

definition clear_bit :: "nat \<Rightarrow> ip \<Rightarrow> ip" where
  "clear_bit i a = a[i div 8 := (a ! (i div 8)) AND NOT (push_bit (7 - i mod 8) 1)]"

definition maskIPv4 :: "ip \<Rightarrow> nat \<Rightarrow> ip" where
  "maskIPv4 a pl = fold clear_bit [pl..<32] a"

definition maskIPv6 :: "ip \<Rightarrow> nat \<Rightarrow> ip" where
  "maskIPv6 a pl = fold clear_bit [pl..<128] a"

definition computeFingerprint :: "(string \<Rightarrow> digest) \<Rightarrow> string list \<Rightarrow> string" where
  "computeFingerprint sha256 items =
     (if items = [] then replicate 64 (CHR ''0'')
      else hex_bytes (sha256 (concat (map (\<lambda>item. item @ [CHR 0x0A]) (sort items)))))"

definition put_prefix :: "nat \<Rightarrow> ip \<Rightarrow> (nat, (ip, unit) gomap) gomap \<Rightarrow> (nat, (ip, unit) gomap) gomap" where
  "put_prefix ones key t =
     (let old = (case gm_get t ones of None \<Rightarrow> [] | Some m \<Rightarrow> m) in gm_put ones (gm_put key () old) t)"

definition replace_step :: "string \<Rightarrow> (nat, (ip, unit) gomap) gomap \<times> (nat, (ip, unit) gomap) gomap
    \<Rightarrow> (nat, (ip, unit) gomap) gomap \<times> (nat, (ip, unit) gomap) gomap" where
  "replace_step raw t =
     (case t of (v4, v6) \<Rightarrow>
        case Option.bind (parsePrefix raw) normalizeThreatPrefix of
          None \<Rightarrow> (v4, v6)
        | Some (Addr4 b, ones) \<Rightarrow> (put_prefix ones b v4, v6)
        | Some (Addr6 b _, ones) \<Rightarrow> (v4, put_prefix ones b v6))"

definition table_count :: "(nat, (ip, unit) gomap) gomap \<Rightarrow> nat" where
  "table_count t = sum_list (map (\<lambda>(_, m). length m) t)"

definition index_Replace :: "(string \<Rightarrow> digest) \<Rightarrow> string list \<Rightarrow> ThreatIndex \<Rightarrow> ThreatIndex" where
  "index_Replace sha256 items t =
     (case fold replace_step items ([], []) of (v4, v6) \<Rightarrow>
        t\<lparr> ti_v4 := v4, ti_v6 := v6, ti_v4Lengths := rev (sort (map fst v4)), ti_v6Lengths := rev (sort (map fst v6)),
           ti_count := table_count v4 + table_count v6,
           ti_fingerprint := computeFingerprint sha256 items, ti_generation := ti_generation t + 1 \<rparr>)"

definition probe :: "(ip \<Rightarrow> nat \<Rightarrow> ip) \<Rightarrow> ip \<Rightarrow> (nat, (ip, unit) gomap) gomap \<Rightarrow> nat list \<Rightarrow> bool" where
  "probe msk address t lens =
     (\<exists>pl \<in> set lens. case gm_get t pl of None \<Rightarrow> False | Some m \<Rightarrow> gm_has m (msk address pl))"

definition ContainsString :: "ThreatIndex \<Rightarrow> string \<Rightarrow> bool" where
  "ContainsString t raw =
     (case (case parse_addr (trim_space raw) of Some a \<Rightarrow> Some (addr_bytes (addr_unmap a)) | None \<Rightarrow> parseIP raw) of
        None \<Rightarrow> False
      | Some a \<Rightarrow>
          (case to4 a of
             Some four \<Rightarrow> probe maskIPv4 four (ti_v4 t) (ti_v4Lengths t)
           | None \<Rightarrow> if length a = 16 then probe maskIPv6 a (ti_v6 t) (ti_v6Lengths t) else False))"

section \<open>Masks as address bits\<close>

text \<open>Bit \<open>i\<close> of an address, counted from the most significant bit of the first byte.\<close>

definition abit :: "ip \<Rightarrow> nat \<Rightarrow> bool" where
  "abit a i = bit (a ! (i div 8)) (7 - i mod 8)"

lemma abit_eqI:
  assumes "length a = length b" and "\<And>i. i < 8 * length a \<Longrightarrow> abit a i = abit b i"
  shows "a = b"
proof (rule nth_equalityI)
  fix k assume k: "k < length a"
  show "a ! k = b ! k"
  proof (rule bit_word_eqI)
    fix n assume n: "n < LENGTH(8)"
    define r where "r = 7 - n"
    with n have r: "r < 8" "7 - r = n" by simp_all
    then have "abit a (8 * k + r) = abit b (8 * k + r)" using assms(2) k by simp
    with r show "bit (a ! k) n = bit (b ! k) n" by (simp add: abit_def)
  qed
qed (rule assms)

lemma length_clear_bit [simp]: "length (clear_bit i a) = length a"
  by (simp add: clear_bit_def)

lemma abit_clear_bit:
  assumes "i < 8 * length a" and "j < 8 * length a"
  shows "abit (clear_bit j a) i = (i \<noteq> j \<and> abit a i)"
proof (cases "i div 8 = j div 8")
  case True
  have "7 - i mod 8 = 7 - j mod 8 \<longleftrightarrow> i mod 8 = j mod 8"
    using mod_less_divisor [of 8 i] mod_less_divisor [of 8 j] by linarith
  also have "\<dots> \<longleftrightarrow> i = j" using True by (metis div_mult_mod_eq)
  finally have "7 - i mod 8 = 7 - j mod 8 \<longleftrightarrow> i = j" .
  moreover have "i div 8 < length a" using assms(1) by auto
  ultimately show ?thesis using True
    by (auto simp: abit_def clear_bit_def bit_and_iff bit_not_iff bit_push_bit_iff bit_1_iff bit_exp_iff)
next
  case False
  then have "i \<noteq> j" by auto
  with False show ?thesis by (simp add: abit_def clear_bit_def)
qed

lemma abit_clear_bits:
  "i < 8 * length a \<Longrightarrow> \<forall>j \<in> set js. j < 8 * length a \<Longrightarrow> abit (fold clear_bit js a) i = (i \<notin> set js \<and> abit a i)"
  by (induction js arbitrary: a) (auto simp: abit_clear_bit)

lemma length_clear_bits [simp]: "length (fold clear_bit js a) = length a"
  by (induction js arbitrary: a) auto

lemma abit_cidr_mask:
  assumes "i < 8 * length b"
  shows "abit (map2 (AND) b (cidr_mask l (8 * length b))) i = (i < l \<and> abit b i)"
proof -
  have k: "i div 8 < length b" using assms by auto
  have "8 \<le> 7 - i mod 8 + (l - 8 * (i div 8)) \<longleftrightarrow> i < l"
    by presburger
  then show ?thesis using k by (auto simp: abit_def bit_and_iff nth_cidr_mask bit_mask_byte)
qed

text \<open>The network number agrees with the address on the first \<open>l\<close> bits.\<close>

definition covers :: "ip \<Rightarrow> nat \<Rightarrow> ip \<Rightarrow> bool" where
  "covers n l a \<longleftrightarrow> length n = length a \<and> (\<forall>i < l. abit n i = abit a i)"

lemma masked_eq_covers:
  assumes "length b = length a" and "l \<le> 8 * length a"
  shows "fold clear_bit [l..<8 * length a] a = map2 (AND) b (cidr_mask l (8 * length b)) \<longleftrightarrow> covers b l a"
proof
  assume eq: "fold clear_bit [l..<8 * length a] a = map2 (AND) b (cidr_mask l (8 * length b))"
  have "abit b i = abit a i" if "i < l" for i
    using arg_cong [OF eq, of "\<lambda>x. abit x i"] that assms abit_cidr_mask [of i b l] by (simp add: abit_clear_bits)
  then show "covers b l a" using assms by (simp add: covers_def)
next
  assume "covers b l a"
  then show "fold clear_bit [l..<8 * length a] a = map2 (AND) b (cidr_mask l (8 * length b))"
    using assms abit_cidr_mask [of _ b l] by (intro abit_eqI) (auto simp: abit_clear_bits covers_def)
qed


section \<open>What the index holds\<close>

definition in_table :: "(nat, (ip, unit) gomap) gomap \<Rightarrow> nat \<Rightarrow> ip \<Rightarrow> bool" where
  "in_table t l k = (case gm_get t l of None \<Rightarrow> False | Some m \<Rightarrow> gm_has m k)"

definition threat_prefix :: "string \<Rightarrow> (ip \<times> nat) option" where
  "threat_prefix raw = map_option (\<lambda>(a, l). (addr_bytes a, l)) (Option.bind (parsePrefix raw) normalizeThreatPrefix)"

lemma in_table_put: "in_table (put_prefix l k t) l' k' \<longleftrightarrow> l' = l \<and> k' = k \<or> in_table t l' k'"
  by (auto simp: in_table_def put_prefix_def gm_has_def split: option.splits)

text \<open>A stored network number has its own length's worth of bytes and no bit outside the prefix.\<close>

lemma threat_prefix_masked:
  assumes "threat_prefix raw = Some (k, l)"
  shows "length k = 4 \<or> length k = 16" and "l \<le> 8 * length k" and "map2 (AND) k (cidr_mask l (8 * length k)) = k"
proof -
  from assms obtain a n where p: "parsePrefix raw = Some (a, n)"
    and b: "map_option (\<lambda>(a, l). (addr_bytes a, l)) (normalizeThreatPrefix (a, n)) = Some (k, l)"
    by (auto simp: threat_prefix_def bind_eq_Some_conv)
  have "addr_wf a" using p by (auto simp: parsePrefix_def Let_def dest: parse_addr_wf split: option.splits if_splits)
  then have *: "\<exists>b. length b = 4 \<and> l \<le> 32 \<and> k = map2 (AND) b (cidr_mask l 32)
      \<or> length b = 16 \<and> l \<le> 128 \<and> k = map2 (AND) b (cidr_mask l 128)"
    using b
    by (cases a) (auto simp: normalizeThreatPrefix_def addr_masked_def is4In6_def addr_unmap_def not_less
        intro: exI [of _ "drop 12 (addr_bytes a)"] split: if_splits)
  then show "length k = 4 \<or> length k = 16" "l \<le> 8 * length k" by auto
  from * show "map2 (AND) k (cidr_mask l (8 * length k)) = k"
    by (intro nth_equalityI) (auto simp: and.assoc)
qed

lemma replace_fold:
  "in_table (fst (fold replace_step items (v4, v6))) l k \<longleftrightarrow>
     in_table v4 l k \<or> (\<exists>raw \<in> set items. Option.bind (parsePrefix raw) normalizeThreatPrefix = Some (Addr4 k, l))"
  "in_table (snd (fold replace_step items (v4, v6))) l k \<longleftrightarrow>
     in_table v6 l k \<or> (\<exists>raw \<in> set items. \<exists>z. Option.bind (parsePrefix raw) normalizeThreatPrefix = Some (Addr6 k z, l))"
proof (induction items arbitrary: v4 v6)
  case (Cons raw items)
  {
    case 1
    then show ?case using Cons.IH
      by (auto simp: replace_step_def in_table_put simp del: bind_eq_Some_conv split: option.splits goaddr.splits prod.splits)
  next
    case 2
    then show ?case using Cons.IH
      by (auto simp: replace_step_def in_table_put simp del: bind_eq_Some_conv split: option.splits goaddr.splits prod.splits)
  }
qed simp_all

lemma in_table_key: "in_table t l k \<Longrightarrow> l \<in> fst ` set t"
  by (auto simp: in_table_def dest!: map_of_SomeD split: option.splits intro: rev_image_eqI)

lemma probe_all: "probe msk a t (rev (sort (map fst t))) \<longleftrightarrow> (\<exists>l. in_table t l (msk a l))"
  using in_table_key [of t] unfolding probe_def in_table_def [symmetric] by auto

subsection \<open>Address texts\<close>

lemma str_join_graphic:
  "\<forall>c \<in> set sep. graphic c \<Longrightarrow> \<forall>x \<in> set xs. \<forall>c \<in> set x. graphic c \<Longrightarrow> c \<in> set (str_join sep xs) \<Longrightarrow> graphic c"
  by (induction sep xs rule: str_join.induct) auto

lemma hex16_graphic: "g < 65536 \<Longrightarrow> c \<in> set (hex16 g) \<Longrightarrow> graphic c"
  by (auto simp: hex16_def graphic_def of_char_hex_char split: if_splits)

lemma byte_dec_graphic: "c \<in> set (byte_dec b) \<Longrightarrow> graphic c"
  using dec_nat_chars [of c "unat b"] by (simp add: byte_dec_def graphic_def)

lemma join_hex16_graphic: "\<forall>g \<in> set gs. g < 65536 \<Longrightarrow> c \<in> set (str_join '':'' (map hex16 gs)) \<Longrightarrow> graphic c"
  using str_join_graphic [of "'':''" "map hex16 gs" c] hex16_graphic
  by (auto simp: graphic_def [of "CHR '':''"])

lemma v6_string_graphic: "\<forall>g \<in> set gs. g < 65536 \<Longrightarrow> c \<in> set (v6_string gs) \<Longrightarrow> graphic c"
  by (auto simp: v6_string_def graphic_def [of "CHR '':''"] split: option.splits
      dest!: join_hex16_graphic [rotated] dest: in_set_takeD in_set_dropD)

lemma ip_string_graphic:
  assumes "length a = 4 \<or> length a = 16" and "c \<in> set (ip_string a)"
  shows "graphic c"
proof -
  have "\<forall>x \<in> set (map byte_dec q). \<forall>c \<in> set x. graphic c" for q using byte_dec_graphic by auto
  then have "c \<in> set (str_join ''.'' (map byte_dec q)) \<Longrightarrow> graphic c" for q
    using str_join_graphic [of "''.''" "map byte_dec q" c] by (simp add: graphic_def [of "CHR ''.''"])
  moreover have "c \<in> set (v6_string (groups16 a)) \<Longrightarrow> graphic c"
    using v6_string_graphic groups16_less by blast
  moreover have "a \<noteq> []" using assms(1) by auto
  ultimately show ?thesis using assms by (auto simp: ip_string_def to4_def split: option.splits if_splits)
qed

lemma ip_string_lookup:
  assumes "length a = 4 \<or> length a = 16"
  shows "parse_addr (trim_space (ip_string a)) = Some (case to4 a of Some q \<Rightarrow> Addr4 q | None \<Rightarrow> Addr6 a [])"
proof -
  have ne: "ip_string a \<noteq> []"
    using parse_addr_ip_string [OF assms] by (auto simp: parse_addr_def)
  then have "trim_space (ip_string a) = ip_string a"
    using ip_string_graphic [OF assms] by (intro trim_space_graphic) (simp_all add: hd_in_set last_in_set)
  then show ?thesis using parse_addr_ip_string [OF assms] by simp
qed


lemma ContainsString_probe:
  assumes "length a = 4 \<or> length a = 16"
  shows "ContainsString t (ip_string a) =
     (case to4 a of Some q \<Rightarrow> probe maskIPv4 q (ti_v4 t) (ti_v4Lengths t)
                  | None \<Rightarrow> probe maskIPv6 a (ti_v6 t) (ti_v6Lengths t))"
proof (cases "to4 a")
  case None
  with assms have len: "length a = 16" and no: "take 12 a \<noteq> v4InV6Prefix" by (auto simp: to4_def)
  then have "addr_unmap (Addr6 a []) = Addr6 a []" by (simp add: addr_unmap_def is4In6_def)
  with None len show ?thesis by (simp add: ContainsString_def ip_string_lookup [OF assms])
next
  case (Some q)
  then have "length q = 4" by (auto simp: to4_def split: if_splits)
  then have "to4 q = Some q" by (simp add: to4_def)
  with Some show ?thesis
    by (simp add: ContainsString_def ip_string_lookup [OF assms] addr_unmap_def is4In6_def)
qed

lemma threat_prefix_cases:
  assumes "Option.bind (parsePrefix raw) normalizeThreatPrefix = Some (a, l)"
  shows "threat_prefix raw = Some (addr_bytes a, l)" and "case a of Addr4 k \<Rightarrow> length k = 4 | Addr6 k z \<Rightarrow> length k = 16"
proof -
  show "threat_prefix raw = Some (addr_bytes a, l)" using assms by (simp add: threat_prefix_def)
  from assms obtain g n where p: "parsePrefix raw = Some (g, n)" and nf: "normalizeThreatPrefix (g, n) = Some (a, l)"
    by (auto simp: bind_eq_Some_conv)
  have "addr_wf g" using p by (auto simp: parsePrefix_def Let_def dest: parse_addr_wf split: option.splits if_splits)
  with nf show "case a of Addr4 k \<Rightarrow> length k = 4 | Addr6 k z \<Rightarrow> length k = 16"
    by (cases g) (auto simp: normalizeThreatPrefix_def addr_masked_def is4In6_def addr_unmap_def split: if_splits)
qed

lemma stored_prefix:
  "Option.bind (parsePrefix raw) normalizeThreatPrefix = Some (Addr4 k, l) \<longleftrightarrow> threat_prefix raw = Some (k, l) \<and> length k = 4"
  "(\<exists>z. Option.bind (parsePrefix raw) normalizeThreatPrefix = Some (Addr6 k z, l)) \<longleftrightarrow>
     threat_prefix raw = Some (k, l) \<and> length k = 16"
proof -
  have *: "\<exists>a. Option.bind (parsePrefix raw) normalizeThreatPrefix = Some (a, l) \<and> addr_bytes a = k"
    if "threat_prefix raw = Some (k, l)"
    using that by (auto simp: threat_prefix_def)
  show "Option.bind (parsePrefix raw) normalizeThreatPrefix = Some (Addr4 k, l) \<longleftrightarrow> threat_prefix raw = Some (k, l) \<and> length k = 4"
    using threat_prefix_cases [of raw _ l] * by (fastforce split: goaddr.splits)
  show "(\<exists>z. Option.bind (parsePrefix raw) normalizeThreatPrefix = Some (Addr6 k z, l)) \<longleftrightarrow>
     threat_prefix raw = Some (k, l) \<and> length k = 16"
    using threat_prefix_cases [of raw _ l] * by (fastforce split: goaddr.splits)
qed

text \<open>One address family: some length finds its masked address exactly when some prefix covers it.\<close>

lemma family_lookup:
  assumes stored: "\<And>l k. in_table t l k \<longleftrightarrow> (\<exists>raw \<in> set items. threat_prefix raw = Some (k, l) \<and> length k = length a)"
  shows "(\<exists>l. in_table t l (fold clear_bit [l..<8 * length a] a)) \<longleftrightarrow>
     (\<exists>raw \<in> set items. \<exists>k l. threat_prefix raw = Some (k, l) \<and> covers k l a)"
proof -
  have "fold clear_bit [l..<8 * length a] a = k \<longleftrightarrow> covers k l a"
    if "threat_prefix raw = Some (k, l)" "length k = length a" for raw k l
    using masked_eq_covers [of k a l] threat_prefix_masked [OF that(1)] that(2) by simp
  moreover have "covers k l a \<Longrightarrow> length k = length a" for k l by (simp add: covers_def)
  ultimately show ?thesis unfolding stored by (metis length_clear_bits)
qed

section \<open>Properties\<close>

text \<open>
  C38: A lookup in the threat index finds an address exactly when one of the indexed items is a valid
  prefix that agrees with the address on every bit of its length. An IPv4-mapped item counts
  as the IPv4 prefix it stands for, and an IPv4-mapped address as the IPv4 address.
\<close>
theorem threat_lookup_exact:
  assumes "length a = 4 \<or> length a = 16"
  shows "ContainsString (index_Replace sha256 items t) (ip_string a) \<longleftrightarrow>
     (\<exists>raw \<in> set items. \<exists>k l. threat_prefix raw = Some (k, l) \<and> covers k l (ip_effective a))"
proof -
  define v where "v = fold replace_step items ([], [])"
  have empty: "\<not> in_table [] l k" for l k by (simp add: in_table_def)
  have v4: "in_table (fst v) l k \<longleftrightarrow> (\<exists>raw \<in> set items. threat_prefix raw = Some (k, l) \<and> length k = 4)" for l k
    unfolding v_def replace_fold by (simp add: empty stored_prefix)
  have v6: "in_table (snd v) l k \<longleftrightarrow> (\<exists>raw \<in> set items. threat_prefix raw = Some (k, l) \<and> length k = 16)" for l k
    unfolding v_def replace_fold by (simp add: empty stored_prefix)
  have tables: "ti_v4 (index_Replace sha256 items t) = fst v" "ti_v6 (index_Replace sha256 items t) = snd v"
    "ti_v4Lengths (index_Replace sha256 items t) = rev (sort (map fst (fst v)))"
    "ti_v6Lengths (index_Replace sha256 items t) = rev (sort (map fst (snd v)))"
    by (simp_all add: index_Replace_def v_def [symmetric] split: prod.split)
  show ?thesis
  proof (cases "to4 a")
    case None
    with assms have "length a = 16" by (auto simp: to4_def)
    with None v6 family_lookup [of "snd v" items a] show ?thesis
      by (simp add: ContainsString_probe [OF assms] tables probe_all maskIPv6_def ip_effective_def)
  next
    case (Some q)
    then have "length q = 4" by (auto simp: to4_def split: if_splits)
    with Some v4 family_lookup [of "fst v" items q] show ?thesis
      by (simp add: ContainsString_probe [OF assms] tables probe_all maskIPv4_def ip_effective_def)
  qed
qed

theorem threat_lookup_exact_witness:
  "ContainsString (index_Replace (\<lambda>_. []) [''10.0.0.0/8''] NewThreatIndex) (ip_string [10, 1, 2, 3])"
proof -
  have p: "threat_prefix ''10.0.0.0/8'' = Some ([10, 0, 0, 0], 8)"
    by (simp add: threat_prefix_def parsePrefix_def parse_addr_def char_digit_def normalizeThreatPrefix_def
        is4In6_def addr_masked_def cidr_mask_def mask_byte_def upt_rec)
  have "covers [10, 0, 0, 0] 8 [10, 1, 2, 3]" by (auto simp: covers_def abit_def)
  with p threat_lookup_exact [of "[10, 1, 2, 3]" "\<lambda>_. []" "[''10.0.0.0/8'']" NewThreatIndex] show ?thesis
    by (simp add: ip_effective_def to4_def)
qed

end
