(* ===== verification/Allowlist.thy ===== *)
theory Allowlist
  imports Net_Facts
begin

text \<open>
  The management allowlist, compiled in the same way by the detection engine
  (\<open>KineticEngine.UpdateAllowlist\<close>) and by the response engine
  (\<open>KineticResponseEngine.UpdateAllowlist\<close>): loopback, unspecified and link-local addresses are always
  on it, an item with a slash is a network, every other item an address, and items that do not
  parse are skipped. \<open>isAllowlistedLocked\<close> is the lookup of an address,
  \<open>isAllowlistProtectedLocked\<close> the overlap test for a block target; the main lemma says that a target that
  passes the second contains nothing that the first accepts.
\<close>

record allowlist =
  al_nets :: "ipnet list"
  al_ips :: "(string, bool) gomap"

definition base_allowlist :: allowlist where
  "base_allowlist =
     \<lparr> al_nets = (case parseCIDR ''fe80::/10'' of Some (_, n) \<Rightarrow> [n] | None \<Rightarrow> []),
       al_ips = fold (\<lambda>d m. gm_put d True m) [''127.0.0.1'', ''::1'', ''0.0.0.0'', ''::''] [] \<rparr>"

definition allow_item :: "string \<Rightarrow> allowlist \<Rightarrow> allowlist" where
  "allow_item raw al =
     (let item = trim_space raw
      in if item = [] then al
         else if CHR ''/'' \<in> set item then
           (case parseCIDR item of Some (_, n) \<Rightarrow> al\<lparr> al_nets := al_nets al @ [n] \<rparr> | None \<Rightarrow> al)
         else (case parseIP item of Some a \<Rightarrow> al\<lparr> al_ips := gm_put (ip_string a) True (al_ips al) \<rparr> | None \<Rightarrow> al))"

definition compile_allowlist :: "string list \<Rightarrow> allowlist" where
  "compile_allowlist items = fold allow_item items base_allowlist"

definition flag_set :: "(string, bool) gomap \<Rightarrow> string \<Rightarrow> bool" where
  "flag_set m k = (gm_get m k = Some True)"

text \<open>\<open>isAllowlistedLocked\<close>; the empty byte string stands for a nil address.\<close>

definition isAllowlistedLocked :: "allowlist \<Rightarrow> ip \<Rightarrow> bool" where
  "isAllowlistedLocked al a =
     (if a = [] then True
      else flag_set (al_ips al) (ip_string a) \<or> (\<exists>n \<in> set (al_nets al). net_contains n a))"

definition isAllowlistProtectedLocked :: "allowlist \<Rightarrow> string \<Rightarrow> bool" where
  "isAllowlistProtectedLocked al target =
     (case parseIP target of
        Some a \<Rightarrow> flag_set (al_ips al) (ip_string a) \<or> (\<exists>n \<in> set (al_nets al). net_contains n a)
      | None \<Rightarrow>
          (case parseCIDR target of
             None \<Rightarrow> True
           | Some (_, targetNet) \<Rightarrow>
               (\<exists>(s, _) \<in> set (al_ips al). case parseIP s of Some a \<Rightarrow> net_contains targetNet a | None \<Rightarrow> False)
               \<or> (\<exists>n \<in> set (al_nets al). net_contains targetNet (net_ip n) \<or> net_contains n (net_ip targetNet))))"

section \<open>The compiled list\<close>

text \<open>What an operator's item stands for.\<close>

definition item_net :: "string \<Rightarrow> ipnet option" where
  "item_net raw = (let i = trim_space raw in if CHR ''/'' \<in> set i then map_option snd (parseCIDR i) else None)"

definition item_ip :: "string \<Rightarrow> ip option" where
  "item_ip raw = (let i = trim_space raw in if CHR ''/'' \<in> set i then None else parseIP i)"

lemma parseIP_Nil [simp]: "parseIP [] = None"
  by (simp add: parseIP_def parse_addr_def)

lemma allow_item_nets: "set (al_nets (allow_item raw al)) = set (al_nets al) \<union> set_option (item_net raw)"
  by (auto simp: allow_item_def item_net_def Let_def split: option.splits)

lemma allow_item_ips:
  "al_ips (allow_item raw al) = (case item_ip raw of Some a \<Rightarrow> gm_put (ip_string a) True (al_ips al) | None \<Rightarrow> al_ips al)"
  by (auto simp: allow_item_def item_ip_def Let_def split: option.splits)

lemma fold_allow_nets: "set (al_nets (fold allow_item items al)) = set (al_nets al) \<union> (\<Union>raw \<in> set items. set_option (item_net raw))"
  by (induction items arbitrary: al) (auto simp: allow_item_nets)

definition ips_wf :: "(string, bool) gomap \<Rightarrow> bool" where
  "ips_wf m \<longleftrightarrow> gm_wf m \<and> (\<forall>k v. gm_get m k = Some v \<longrightarrow> v)"

lemma fold_allow_ips:
  "ips_wf (al_ips al) \<Longrightarrow> ips_wf (al_ips (fold allow_item items al))
     \<and> (\<forall>k. gm_get (al_ips (fold allow_item items al)) k = Some True \<longleftrightarrow>
          gm_get (al_ips al) k = Some True \<or> (\<exists>raw \<in> set items. \<exists>a. item_ip raw = Some a \<and> k = ip_string a))"
proof (induction items arbitrary: al)
  case (Cons raw items)
  have "ips_wf (al_ips (allow_item raw al))"
    using Cons.prems by (auto simp: allow_item_ips ips_wf_def split: option.splits if_splits)
  from Cons.IH [OF this] show ?case by (auto simp: allow_item_ips split: option.splits if_splits)
qed simp

lemma base_ips: "ips_wf (al_ips base_allowlist)"
  "gm_get (al_ips base_allowlist) k = Some True \<longleftrightarrow> k \<in> {''127.0.0.1'', ''::1'', ''0.0.0.0'', ''::''}"
  by (auto simp: base_allowlist_def ips_wf_def gm_wf_def)

lemmas compile_nets = fold_allow_nets [of _ base_allowlist, folded compile_allowlist_def]

lemma compile_ips:
  "ips_wf (al_ips (compile_allowlist items))"
  "gm_get (al_ips (compile_allowlist items)) k = Some True \<longleftrightarrow>
     k \<in> {''127.0.0.1'', ''::1'', ''0.0.0.0'', ''::''} \<or> (\<exists>raw \<in> set items. \<exists>a. item_ip raw = Some a \<and> k = ip_string a)"
  using fold_allow_ips [OF base_ips(1), of items] base_ips(2) [of k] by (auto simp: compile_allowlist_def)

lemma compiled_net_prefix:
  assumes "n \<in> set (al_nets (compile_allowlist items))"
  shows "\<exists>nn l. prefix_net n nn l"
proof -
  from assms have "n \<in> set (al_nets base_allowlist) \<or> (\<exists>raw \<in> set items. item_net raw = Some n)"
    by (auto simp: compile_nets)
  then have "\<exists>s a. parseCIDR s = Some (a, n)"
    by (auto simp: base_allowlist_def item_net_def Let_def split: option.splits if_splits) metis
  then show ?thesis using parseCIDR_prefix_net by blast
qed

lemma ip_effective_to16: "length a = 4 \<or> length a = 16 \<Longrightarrow> ip_effective (to16 a) = ip_effective a"
  by (auto simp: to16_def ip_effective_def to4_def v4InV6Prefix_def)

lemma net_contains_effective: "ip_effective a = ip_effective b \<Longrightarrow> net_contains n a = net_contains n b"
  unfolding net_contains_def by (simp only:)

lemma parseCIDR_slash: "parseCIDR s = Some r \<Longrightarrow> CHR ''/'' \<in> set s"
  by (auto simp: parseCIDR_def Let_def dropWhile_eq_Nil_conv split: if_splits)

section \<open>Immunity\<close>

text \<open>
  A block target that passes the allowlist test contains no allowlisted address at all, whether the
  address was listed by itself, through a listed network, or is one of the built-in
  loopback, unspecified and link-local addresses, and in whichever of its two byte forms it appears.
\<close>

lemma unprotected_disjoint:
  assumes "\<not> isAllowlistProtectedLocked (compile_allowlist items) target"
    and target: "parseCIDR target = Some (b, n)"
    and len: "length a = 4 \<or> length a = 16"
    and listed: "isAllowlistedLocked (compile_allowlist items) a"
  shows "\<not> net_contains n a"
proof
  assume inside: "net_contains n a"
  let ?al = "compile_allowlist items"
  have "parseIP target = None" by (rule parseIP_slash [OF parseCIDR_slash [OF target]])
  with assms(1) target
  have free_ips: "\<And>s v a'. (s, v) \<in> set (al_ips ?al) \<Longrightarrow> parseIP s = Some a' \<Longrightarrow> \<not> net_contains n a'"
    and free_nets: "\<And>m. m \<in> set (al_nets ?al) \<Longrightarrow> \<not> net_contains n (net_ip m) \<and> \<not> net_contains m (net_ip n)"
    by (fastforce simp: isAllowlistProtectedLocked_def)+
  from listed len consider "flag_set (al_ips ?al) (ip_string a)" | m where "m \<in> set (al_nets ?al)" "net_contains m a"
    by (auto simp: isAllowlistedLocked_def split: if_splits)
  then show False
  proof cases
    case 1
    then have "(ip_string a, True) \<in> set (al_ips ?al)" by (auto simp: flag_set_def dest: map_of_SomeD)
    from free_ips [OF this parseIP_ip_string [OF len]] inside show False
      using net_contains_effective [OF ip_effective_to16 [OF len]] by blast
  next
    case 2
    from compiled_net_prefix [OF 2(1)] parseCIDR_prefix_net [OF target] prefix_net_overlap 2(2) inside
    have "net_contains n (net_ip m) \<or> net_contains m (net_ip n)" by blast
    with free_nets [OF 2(1)] show False by blast
  qed
qed

section \<open>Examples\<close>

lemma replicate_0_14: "replicate 14 (0 :: byte) = [0, 0, 0, 0, 0, 0, 0, 0, 0, 0, 0, 0, 0, 0]"
  by code_simp

lemma link_local_net:
  "parseCIDR ''fe80::/10'' = Some (254 # 128 # replicate 14 0, \<lparr> net_ip = 254 # 128 # replicate 14 0, net_mask = cidr_mask 10 128 \<rparr>)"
proof -
  let ?nn = "254 # 128 # replicate 14 0 :: ip"
  have "?nn ! k AND cidr_mask 10 128 ! k = ?nn ! k" if "k < 16" for k
  proof -
    consider "k = 0" | "k = 1" | j where "k = Suc (Suc j)" by (metis One_nat_def nat.exhaust)
    then show ?thesis using that by cases (simp_all add: nth_cidr_mask mask_byte_def)
  qed
  then have c: "canonical_net ?nn 10" by (simp add: canonical_net_def to4_def v4InV6Prefix_def)
  have g: "groups16 ?nn = [65152, 0, 0, 0, 0, 0, 0, 0]" by (simp add: replicate_0_14)
  have "ip_string ?nn = v6_string (groups16 ?nn)" by (simp add: ip_string_def to4_def v4InV6Prefix_def replicate_0_14)
  also have "\<dots> = ''fe80::''" unfolding g
    by (simp add: v6_string_def best_run_def zero_run_def upt_rec hex16_def hex_char_def)
  finally have "net_text ?nn 10 = ''fe80::/10''"
    by (simp add: net_text_def dec_nat_def dec_digits.simps digit_char_def)
  with parseCIDR_net_text [OF c] show ?thesis by (simp add: to16_def)
qed

lemma base_allowlist_addresses:
  "parseIP ''127.0.0.1'' = Some (v4InV6Prefix @ [127, 0, 0, 1])" "parseIP ''0.0.0.0'' = Some (v4InV6Prefix @ [0, 0, 0, 0])"
  "parseIP ''::'' = Some (replicate 16 0)" "parseIP ''::1'' = Some (0 # replicate 14 0 @ [1])"
  by (simp_all add: parseIP_def parse_addr_def char_digit_def parse6_def parse6_body_def parse6_loop.simps
      parse6_step_def hex_value_def parse6_finish_def replicate_0_14)

lemma sample_nets:
  "parseCIDR ''10.0.0.7/32'' = Some (v4InV6Prefix @ [10, 0, 0, 7], \<lparr> net_ip = [10, 0, 0, 7], net_mask = [255, 255, 255, 255] \<rparr>)"
  "parseCIDR ''192.0.2.0/24'' = Some (v4InV6Prefix @ [192, 0, 2, 0], \<lparr> net_ip = [192, 0, 2, 0], net_mask = [255, 255, 255, 0] \<rparr>)"
  by code_simp+

lemma sample_allowlist:
  "compile_allowlist [''192.0.2.0/24''] = \<lparr> al_nets = [\<lparr> net_ip = 254 # 128 # replicate 14 0, net_mask = cidr_mask 10 128 \<rparr>,
       \<lparr> net_ip = [192, 0, 2, 0], net_mask = [255, 255, 255, 0] \<rparr>],
     al_ips = [(''127.0.0.1'', True), (''::1'', True), (''0.0.0.0'', True), (''::'', True)] \<rparr>"
  by (simp add: compile_allowlist_def base_allowlist_def allow_item_def trim_space_graphic graphic_def
      link_local_net sample_nets)

lemma replicate_0_12: "replicate 12 (0 :: byte) = [0, 0, 0, 0, 0, 0, 0, 0, 0, 0, 0, 0]"
  "0 # replicate 11 (0 :: byte) = [0, 0, 0, 0, 0, 0, 0, 0, 0, 0, 0, 0]"
  by code_simp+

lemma sample_unprotected: "\<not> isAllowlistProtectedLocked (compile_allowlist [''192.0.2.0/24'']) ''10.0.0.7/32''"
  by (simp add: isAllowlistProtectedLocked_def parseIP_slash sample_nets sample_allowlist base_allowlist_addresses
      net_contains_def number_and_mask_def ip_effective_def to4_def v4InV6Prefix_def replicate_0_12)

end
