(* ===== verification/Kinetic_Engine.thy ===== *)
theory Kinetic_Engine
  imports Kinetic_Rules Kinetic_Windows Block_State Threat_Index Allowlist
begin

text \<open>
  The detection engine of Kinetic Defense, \<open>control/kinetic_engine.go\<close>: construction, configuration,
  the ingest pipeline, the bounded tables with their evictions, the sweep and the telemetry it
  publishes.

  The engine is a record that extends the traffic history. The shared \<open>State\<close> the engine holds a
  pointer to is passed next to it, so an operation maps a pair of engine and state to a new pair.
  A bucket is updated through its pointer in the code; here \<open>IngestPacket\<close> takes it out of its table,
  threads it through the steps and puts it back. Each call reads the clock once (\<open>env_now\<close>).
  \<open>IngestPacket\<close> is split into the steps its comments name; the three aggregate tables (/24, /16
  and /64) have the same record and the same update, with different limits.

  Go \<open>int\<close> counters of a bucket are unbounded integers; durations computed from configured seconds
  wrap at 64 bits as in Go. An empty byte string stands for a nil address.
\<close>

section \<open>Data\<close>

record IngressPacket =
  pk_Family :: "8 word"
  pk_Protocol :: "8 word"
  pk_SrcIP :: ip
  pk_DstIP :: ip
  pk_SrcPort :: "16 word"
  pk_DstPort :: "16 word"
  pk_TCPFlags :: "8 word"
  pk_AttemptCount :: "32 word"
  pk_Packets :: "32 word"
  pk_SYNCount :: "32 word"
  pk_ACKCount :: "32 word"
  pk_Bytes :: "32 word"
  pk_Timestamp :: gotime
  pk_WindowEpoch :: "64 word"

text \<open>\<open>SubnetV4Bucket\<close>, \<open>WideV4Bucket\<close> and \<open>SubnetV6Bucket\<close> have the same fields.\<close>

record SubnetBucket =
  sb_Subnet :: string
  sb_AggregateHits :: int
  sb_ActiveIPs :: "(string, gotime) gomap"
  sb_WindowStart :: gotime
  sb_LastSeen :: gotime
  sb_LastStrikeAt :: gotime

record KineticEngine = kinetic_history +
  kn_cfg :: KineticConfig
  kn_rules :: KineticRuleRegistry
  kn_eventQueue :: BoundedEventQueue
  kn_ipBuckets :: "(string, IPTrackingBucket) gomap"
  kn_subnetV4Buckets :: "(string, SubnetBucket) gomap"
  kn_wideV4Buckets :: "(string, SubnetBucket) gomap"
  kn_subnetV6Buckets :: "(string, SubnetBucket) gomap"
  kn_allowlist :: allowlist
  kn_threatBlock :: "ThreatIndex option"
  kn_threatCorrelate :: "ThreatIndex option"
  kn_threatAnnotate :: "ThreatIndex option"
  kn_hitsTotal :: "64 word"
  kn_velocityBurstsTotal :: "64 word"
  kn_portscansTotal :: "64 word"
  kn_subnetStrikesTotal :: "64 word"
  kn_l7StrikesTotal :: "64 word"
  kn_trackingDropsTotal :: "64 word"
  kn_trackingEvictionsTotal :: "64 word"
  kn_aggregateEvictionsTotal :: "64 word"
  kn_maxSubnetBuckets :: int
  kn_maxWideBuckets :: int
  kn_bansEnforcedTotal :: "64 word"
  kn_bansExpiredTotal :: "64 word"
  kn_tokenBucketAvailable :: int
  kn_tokenBucketLastSec :: int

section \<open>Construction and configuration\<close>

definition boundedAggregateCapacity :: "int \<Rightarrow> int \<Rightarrow> int \<Rightarrow> int \<Rightarrow> int" where
  "boundedAggregateCapacity maxTracking divisor lo hi =
     (let divisor = (if divisor \<le> 0 then 1 else divisor);
          capacity = go_div maxTracking divisor;
          capacity = (if capacity < lo then lo else capacity)
      in if capacity > hi then hi else capacity)"

definition pos_or :: "int \<Rightarrow> int \<Rightarrow> int" where
  "pos_or d v = (if v \<le> 0 then d else v)"

definition kinetic_defaults :: "KineticConfig \<Rightarrow> KineticConfig" where
  "kinetic_defaults cfg = cfg\<lparr>
     kc_MaxTrackingIPs := pos_or 65536 (kc_MaxTrackingIPs cfg),
     kc_IPThreshold := pos_or 35 (kc_IPThreshold cfg),
     kc_VelocityLimit := pos_or 15 (kc_VelocityLimit cfg),
     kc_RangeThreshold := pos_or 45 (kc_RangeThreshold cfg),
     kc_IPv6SubThreshold := pos_or 55 (kc_IPv6SubThreshold cfg),
     kc_WideRangeThreshold := pos_or 77 (kc_WideRangeThreshold cfg),
     kc_PortscanThreshold := pos_or 5 (kc_PortscanThreshold cfg),
     kc_SYNThreshold := pos_or 25 (kc_SYNThreshold cfg),
     kc_SYNAckRatio := pos_or 4 (kc_SYNAckRatio cfg),
     kc_LowSlowMinSeconds := pos_or 60 (kc_LowSlowMinSeconds cfg),
     kc_SubnetMinSources := pos_or 2 (kc_SubnetMinSources cfg),
     kc_IPv6SubnetMinSources := pos_or 2 (kc_IPv6SubnetMinSources cfg),
     kc_WideMinSources := pos_or 4 (kc_WideMinSources cfg),
     kc_MaxStrikesPerSec := pos_or 100 (kc_MaxStrikesPerSec cfg),
     kc_BanTTLSeconds := pos_or 86400 (kc_BanTTLSeconds cfg) \<rparr>"

definition engine_UpdateAllowlist :: "string list \<Rightarrow> KineticEngine \<Rightarrow> KineticEngine" where
  "engine_UpdateAllowlist items e = e\<lparr> kn_allowlist := compile_allowlist items \<rparr>"

definition NewKineticEngine :: "'l env \<Rightarrow> KineticConfig \<Rightarrow> KineticRuleRegistry \<Rightarrow> string list \<Rightarrow> KineticEngine" where
  "NewKineticEngine en cfg rules items =
     (let cfg = kinetic_defaults cfg
      in engine_UpdateAllowlist items \<lparr>
           kh_secondHistory = replicate 60 (traffic_bucket 0), kh_minuteHistory = replicate 1441 (traffic_bucket 0),
           kh_startedAt = env_now en,
           kn_cfg = cfg, kn_rules = rules, kn_eventQueue = NewBoundedEventQueue 250,
           kn_ipBuckets = [], kn_subnetV4Buckets = [], kn_wideV4Buckets = [], kn_subnetV6Buckets = [],
           kn_allowlist = \<lparr> al_nets = [], al_ips = [] \<rparr>,
           kn_threatBlock = None, kn_threatCorrelate = None, kn_threatAnnotate = None,
           kn_hitsTotal = 0, kn_velocityBurstsTotal = 0, kn_portscansTotal = 0, kn_subnetStrikesTotal = 0,
           kn_l7StrikesTotal = 0, kn_trackingDropsTotal = 0, kn_trackingEvictionsTotal = 0,
           kn_aggregateEvictionsTotal = 0,
           kn_maxSubnetBuckets = boundedAggregateCapacity (kc_MaxTrackingIPs cfg) 4 256 16384,
           kn_maxWideBuckets = boundedAggregateCapacity (kc_MaxTrackingIPs cfg) 16 128 4096,
           kn_bansEnforcedTotal = 0, kn_bansExpiredTotal = 0,
           kn_tokenBucketAvailable = kc_MaxStrikesPerSec cfg, kn_tokenBucketLastSec = time_unix (env_now en) \<rparr>)"

definition SetThreatIntel :: "ThreatIndex option \<Rightarrow> ThreatIndex option \<Rightarrow> ThreatIndex option \<Rightarrow> KineticEngine \<Rightarrow> KineticEngine" where
  "SetThreatIntel blk correlate annotate e =
     e\<lparr> kn_threatBlock := blk, kn_threatCorrelate := correlate, kn_threatAnnotate := annotate \<rparr>"

definition IsAllowlisted :: "KineticEngine \<Rightarrow> ip \<Rightarrow> bool" where
  "IsAllowlisted e a = isAllowlistedLocked (kn_allowlist e) a"

definition classifyKineticService :: "KineticConfig \<Rightarrow> 16 word \<Rightarrow> string \<times> int" where
  "classifyKineticService cfg port =
     (if port \<in> set (kc_ServicePortsWeb cfg) then (''web'', 1)
      else if port \<in> set (kc_ServicePortsMail cfg) then (''mail'', 2)
      else if port \<in> set (kc_ServicePortsAdmin cfg) then
        (if port = 22 \<or> port = 2222 then (''ssh'', 5)
         else if port = 3306 \<or> port = 5432 \<or> port = 27017 \<or> port = 6379 then (''database'', 6)
         else (''admin_panel'', 5))
      else if port = 21 then (''ftp'', 4)
      else (''other'', 3))"

definition ClassifyService :: "KineticEngine \<Rightarrow> 16 word \<Rightarrow> string \<times> int" where
  "ClassifyService e port = classifyKineticService (kn_cfg e) port"

text \<open>\<open>SubnetKeys\<close>: the /24 and /16 text of an IPv4 address, the /64 text of an IPv6 address.\<close>

definition hex4 :: "byte \<Rightarrow> byte \<Rightarrow> string" where
  "hex4 a b = hex2 a @ hex2 b"

definition SubnetKeys :: "ip \<Rightarrow> bool \<times> string \<times> string" where
  "SubnetKeys a =
     (if a = [] then (False, [], [])
      else case to4 a of
        Some v4 \<Rightarrow>
          (False,
           byte_dec (v4 ! 0) @ ''.'' @ byte_dec (v4 ! 1) @ ''.'' @ byte_dec (v4 ! 2) @ ''.0/24'',
           byte_dec (v4 ! 0) @ ''.'' @ byte_dec (v4 ! 1) @ ''.0.0/16'')
      | None \<Rightarrow>
          if length a = 16 then
            (True, hex4 (a ! 0) (a ! 1) @ '':'' @ hex4 (a ! 2) (a ! 3) @ '':'' @ hex4 (a ! 4) (a ! 5) @ '':''
               @ hex4 (a ! 6) (a ! 7) @ ''::/64'', ''IPv6_WIDE'')
          else (False, [], []))"

section \<open>Bounded tables\<close>

text \<open>The key that \<open>evictOldest\<dots>Locked\<close> selects; the empty string when the table is empty.\<close>

definition oldest_step :: "('b \<Rightarrow> gotime) \<Rightarrow> string \<times> 'b \<Rightarrow> string \<times> gotime \<Rightarrow> string \<times> gotime" where
  "oldest_step seen kb acc = (case kb of (k, b) \<Rightarrow> case acc of (ok, ot) \<Rightarrow>
     if ok = [] \<or> seen b < ot then (k, seen b) else (ok, ot))"

definition oldest_key :: "('b \<Rightarrow> gotime) \<Rightarrow> (string, 'b) gomap \<Rightarrow> string" where
  "oldest_key seen m = fst (fold (oldest_step seen) m ([], 0))"

definition evictOldestSubnetV4Locked :: "KineticEngine \<Rightarrow> KineticEngine" where
  "evictOldestSubnetV4Locked e =
     (let k = oldest_key sb_LastSeen (kn_subnetV4Buckets e)
      in if k \<noteq> [] then e\<lparr> kn_subnetV4Buckets := gm_del k (kn_subnetV4Buckets e),
                             kn_aggregateEvictionsTotal := kn_aggregateEvictionsTotal e + 1 \<rparr> else e)"

definition evictOldestSubnetV6Locked :: "KineticEngine \<Rightarrow> KineticEngine" where
  "evictOldestSubnetV6Locked e =
     (let k = oldest_key sb_LastSeen (kn_subnetV6Buckets e)
      in if k \<noteq> [] then e\<lparr> kn_subnetV6Buckets := gm_del k (kn_subnetV6Buckets e),
                             kn_aggregateEvictionsTotal := kn_aggregateEvictionsTotal e + 1 \<rparr> else e)"

definition evictOldestWideV4Locked :: "KineticEngine \<Rightarrow> KineticEngine" where
  "evictOldestWideV4Locked e =
     (let k = oldest_key sb_LastSeen (kn_wideV4Buckets e)
      in if k \<noteq> [] then e\<lparr> kn_wideV4Buckets := gm_del k (kn_wideV4Buckets e),
                             kn_aggregateEvictionsTotal := kn_aggregateEvictionsTotal e + 1 \<rparr> else e)"

text \<open>The loop of \<open>evictStaleIPBucketLocked\<close>: the first bucket idle for over an hour, else the oldest.\<close>

fun stale_scan :: "gotime \<Rightarrow> (string, IPTrackingBucket) gomap \<Rightarrow> string \<times> gotime \<Rightarrow> string option" where
  "stale_scan now [] acc = (if fst acc \<noteq> [] then Some (fst acc) else None)"
| "stale_scan now ((k, b) # m) acc =
     (let acc = oldest_step ib_LastSeen (k, b) acc
      in if time_sub now (ib_LastSeen b) > hour then Some k else stale_scan now m acc)"

definition evictStaleIPBucketLocked :: "gotime \<Rightarrow> KineticEngine \<Rightarrow> KineticEngine" where
  "evictStaleIPBucketLocked now e =
     (case stale_scan now (kn_ipBuckets e) ([], 0) of
        None \<Rightarrow> e
      | Some k \<Rightarrow> e\<lparr> kn_ipBuckets := gm_del k (kn_ipBuckets e),
                      kn_trackingEvictionsTotal := kn_trackingEvictionsTotal e + 1 \<rparr>)"

text \<open>The loops of \<open>UpdateConfig\<close>; not returning is \<open>None\<close>.\<close>

partial_function (option) evict_while :: "('e \<Rightarrow> nat) \<Rightarrow> ('e \<Rightarrow> int) \<Rightarrow> ('e \<Rightarrow> 'e) \<Rightarrow> 'e \<Rightarrow> 'e option" where
  [code]: "evict_while sz mx ev e = (if int (sz e) > mx e then evict_while sz mx ev (ev e) else Some e)"

definition engine_UpdateConfig :: "'l env \<Rightarrow> KineticRuntimeSettings \<Rightarrow> KineticEngine \<Rightarrow> KineticEngine option" where
  "engine_UpdateConfig en runtime e =
     (let cfg = kineticConfigFromRuntime (kn_cfg e) runtime;
          e = e\<lparr> kn_cfg := cfg,
                 kn_maxSubnetBuckets := boundedAggregateCapacity (kc_MaxTrackingIPs cfg) 4 256 16384,
                 kn_maxWideBuckets := boundedAggregateCapacity (kc_MaxTrackingIPs cfg) 16 128 4096,
                 kn_tokenBucketAvailable := (if kn_tokenBucketAvailable e > kc_MaxStrikesPerSec cfg
                    then kc_MaxStrikesPerSec cfg else kn_tokenBucketAvailable e) \<rparr>
      in Option.bind (evict_while (\<lambda>e. length (kn_ipBuckets e)) (\<lambda>e. kc_MaxTrackingIPs (kn_cfg e))
                        (evictStaleIPBucketLocked (env_now en)) e) (\<lambda>e.
         Option.bind (evict_while (\<lambda>e. length (kn_subnetV4Buckets e)) kn_maxSubnetBuckets evictOldestSubnetV4Locked e) (\<lambda>e.
         Option.bind (evict_while (\<lambda>e. length (kn_subnetV6Buckets e)) kn_maxSubnetBuckets evictOldestSubnetV6Locked e) (\<lambda>e.
         evict_while (\<lambda>e. length (kn_wideV4Buckets e)) kn_maxWideBuckets evictOldestWideV4Locked e))))"

section \<open>Reading a packet\<close>

definition sampleCount :: "IngressPacket \<Rightarrow> int" where
  "sampleCount pkt = (let n = uint (pk_Packets pkt) in if n \<le> 0 then 1 else n)"

definition packet_now :: "'l env \<Rightarrow> IngressPacket \<Rightarrow> gotime" where
  "packet_now en pkt = (if time_is_zero (pk_Timestamp pkt) then env_now en else pk_Timestamp pkt)"

definition secEpoch :: "gotime \<Rightarrow> IngressPacket \<Rightarrow> int" where
  "secEpoch now pkt = (if pk_WindowEpoch pkt > 0 then wrap64 (uint (pk_WindowEpoch pkt)) else time_unix now)"

definition tcp_flag :: "8 word \<Rightarrow> IngressPacket \<Rightarrow> bool" where
  "tcp_flag m pkt = (pk_TCPFlags pkt AND m \<noteq> 0)"

definition synDelta :: "IngressPacket \<Rightarrow> int" where
  "synDelta pkt =
     (let n = uint (pk_SYNCount pkt)
      in if pk_Protocol pkt = 6 \<and> sampleCount pkt = 1 \<and> n = 0 \<and> tcp_flag 0x02 pkt \<and> \<not> tcp_flag 0x10 pkt then 1 else n)"

definition ackDelta :: "IngressPacket \<Rightarrow> int" where
  "ackDelta pkt =
     (let n = uint (pk_ACKCount pkt)
      in if pk_Protocol pkt = 6 \<and> sampleCount pkt = 1 \<and> n = 0 \<and> tcp_flag 0x10 pkt then 1 else n)"

definition activityCount :: "IngressPacket \<Rightarrow> int" where
  "activityCount pkt =
     (let n = (if pk_WindowEpoch pkt = 0
               then (if pk_Protocol pkt = 6 \<or> pk_Protocol pkt = 0 then synDelta pkt else sampleCount pkt)
               else uint (pk_AttemptCount pkt))
      in if n < 0 \<or> n > sampleCount pkt then 0 else n)"

section \<open>The source bucket\<close>

definition new_ip_bucket :: "gotime \<Rightarrow> int \<Rightarrow> IngressPacket \<Rightarrow> IPTrackingBucket" where
  "new_ip_bucket now sec pkt = empty_bucket\<lparr>
     ib_SrcIP := pk_SrcIP pkt, ib_IsV6 := fst (SubnetKeys (pk_SrcIP pkt)), ib_FirstSeen := now, ib_LastSeen := now,
     ib_CurrentSecEpoch := sec, ib_CurrentMinute := go_div sec 60 \<rparr>"

text \<open>Step 1: look the source up or create its bucket, evicting one when the table is full.\<close>

definition admit_source :: "gotime \<Rightarrow> int \<Rightarrow> IngressPacket \<Rightarrow> KineticEngine \<Rightarrow> IPTrackingBucket option \<times> KineticEngine" where
  "admit_source now sec pkt e =
     (let ipKey = ip_string (pk_SrcIP pkt)
      in case gm_get (kn_ipBuckets e) ipKey of
        Some b \<Rightarrow> (Some b, e)
      | None \<Rightarrow>
          let full = (\<lambda>e. int (length (kn_ipBuckets e)) \<ge> kc_MaxTrackingIPs (kn_cfg e));
              e = (if full e then evictStaleIPBucketLocked now e else e)
          in if full e then (None, e\<lparr> kn_trackingDropsTotal := kn_trackingDropsTotal e + 1 \<rparr>)
             else let b = new_ip_bucket now sec pkt
                  in (Some b, e\<lparr> kn_ipBuckets := gm_put ipKey b (kn_ipBuckets e) \<rparr>))"

definition record_activity :: "gotime \<Rightarrow> int \<Rightarrow> IngressPacket \<Rightarrow> IPTrackingBucket \<Rightarrow> IPTrackingBucket" where
  "record_activity now sec pkt b =
     (let b = (if ib_CurrentSecEpoch b \<noteq> sec then b\<lparr> ib_CurrentSecEpoch := sec, ib_Velocity1s := 0 \<rparr> else b);
          b = (if synDelta pkt > 0 then b\<lparr> ib_Velocity1s := ib_Velocity1s b + synDelta pkt \<rparr>
               else if pk_Protocol pkt \<noteq> 0 \<and> pk_Protocol pkt \<noteq> 6
               then b\<lparr> ib_Velocity1s := ib_Velocity1s b + sampleCount pkt \<rparr> else b);
          b = b\<lparr> ib_Hits := ib_Hits b + sampleCount pkt, ib_Attempts := ib_Attempts b + activityCount pkt,
                 ib_WindowHits := ib_WindowHits b + sampleCount pkt, ib_LastSeen := now \<rparr>;
          b = recordLongWindowsLocked sec (sampleCount pkt) (activityCount pkt) (synDelta pkt) (ackDelta pkt) b
      in b\<lparr> ib_SYNCount := ib_SYNCount b + synDelta pkt, ib_ACKCount := ib_ACKCount b + ackDelta pkt \<rparr>)"

definition port_attempts :: "IPTrackingBucket \<Rightarrow> 16 word \<Rightarrow> 16 word" where
  "port_attempts b port = (case gm_get (ib_PortAttempts b) port of Some n \<Rightarrow> n | None \<Rightarrow> 0)"

definition track_port :: "IngressPacket \<Rightarrow> IPTrackingBucket \<Rightarrow> IPTrackingBucket" where
  "track_port pkt b =
     (let port = pk_DstPort pkt
      in if activityCount pkt > 0 \<and> port > 0
            \<and> (gm_get (ib_PortsSeen b) port = Some True \<or> length (ib_PortsSeen b) < 64) then
           let b = b\<lparr> ib_PortsSeen := gm_put port True (ib_PortsSeen b) \<rparr>;
               current = port_attempts b port
           in if current < 65535 then
                let remaining = uint (65535 - current);
                    add = (if activityCount pkt > remaining then remaining else activityCount pkt)
                in if add > 0 then b\<lparr> ib_PortAttempts := gm_put port (current + of_int add) (ib_PortAttempts b) \<rparr> else b
              else b
         else b)"

definition track_flags :: "IngressPacket \<Rightarrow> IPTrackingBucket \<Rightarrow> IPTrackingBucket" where
  "track_flags pkt b =
     (if pk_Protocol pkt = 6
         \<and> (pk_TCPFlags pkt = 0 \<or> tcp_flag 0x02 pkt \<and> tcp_flag 0x04 pkt
            \<or> tcp_flag 0x01 pkt \<and> tcp_flag 0x08 pkt \<and> tcp_flag 0x20 pkt)
      then b\<lparr> ib_MalformedCount := ib_MalformedCount b + 1 \<rparr> else b)"

section \<open>The aggregate tables\<close>

definition new_subnet :: "string \<Rightarrow> gotime \<Rightarrow> SubnetBucket" where
  "new_subnet key now = \<lparr> sb_Subnet = key, sb_AggregateHits = 0, sb_ActiveIPs = [], sb_WindowStart = now,
     sb_LastSeen = 0, sb_LastStrikeAt = 0 \<rparr>"

definition touch_bucket :: "duration \<Rightarrow> nat \<Rightarrow> gotime \<Rightarrow> string \<Rightarrow> int \<Rightarrow> SubnetBucket \<Rightarrow> SubnetBucket" where
  "touch_bucket window cap now ipKey activity b =
     (let b = (if time_is_zero (sb_WindowStart b) \<or> time_sub now (sb_WindowStart b) \<ge> window
               then b\<lparr> sb_AggregateHits := 0, sb_ActiveIPs := [], sb_WindowStart := now \<rparr> else b);
          b = b\<lparr> sb_AggregateHits := sb_AggregateHits b + activity, sb_LastSeen := now \<rparr>
      in if length (sb_ActiveIPs b) < cap then b\<lparr> sb_ActiveIPs := gm_put ipKey now (sb_ActiveIPs b) \<rparr> else b)"

definition get_subnet :: "string \<Rightarrow> gotime \<Rightarrow> (string, SubnetBucket) gomap \<Rightarrow> SubnetBucket" where
  "get_subnet key now m = (case gm_get m key of Some b \<Rightarrow> b | None \<Rightarrow> new_subnet key now)"

definition touch_v4 :: "gotime \<Rightarrow> string \<Rightarrow> int \<Rightarrow> string \<Rightarrow> KineticEngine \<Rightarrow> KineticEngine" where
  "touch_v4 now ipKey activity key e =
     (let e = (if \<not> gm_has (kn_subnetV4Buckets e) key \<and> int (length (kn_subnetV4Buckets e)) \<ge> kn_maxSubnetBuckets e
               then evictOldestSubnetV4Locked e else e)
      in e\<lparr> kn_subnetV4Buckets := gm_put key (touch_bucket (5 * minute) 256 now ipKey activity
              (get_subnet key now (kn_subnetV4Buckets e))) (kn_subnetV4Buckets e) \<rparr>)"

definition touch_wide :: "gotime \<Rightarrow> string \<Rightarrow> int \<Rightarrow> string \<Rightarrow> KineticEngine \<Rightarrow> KineticEngine" where
  "touch_wide now ipKey activity key e =
     (let e = (if \<not> gm_has (kn_wideV4Buckets e) key \<and> int (length (kn_wideV4Buckets e)) \<ge> kn_maxWideBuckets e
               then evictOldestWideV4Locked e else e)
      in e\<lparr> kn_wideV4Buckets := gm_put key (touch_bucket (15 * minute) 1024 now ipKey activity
              (get_subnet key now (kn_wideV4Buckets e))) (kn_wideV4Buckets e) \<rparr>)"

definition touch_v6 :: "gotime \<Rightarrow> string \<Rightarrow> int \<Rightarrow> string \<Rightarrow> KineticEngine \<Rightarrow> KineticEngine" where
  "touch_v6 now ipKey activity key e =
     (let e = (if \<not> gm_has (kn_subnetV6Buckets e) key \<and> int (length (kn_subnetV6Buckets e)) \<ge> kn_maxSubnetBuckets e
               then evictOldestSubnetV6Locked e else e)
      in e\<lparr> kn_subnetV6Buckets := gm_put key (touch_bucket (5 * minute) 256 now ipKey activity
              (get_subnet key now (kn_subnetV6Buckets e))) (kn_subnetV6Buckets e) \<rparr>)"

text \<open>Step 2 of \<open>IngestPacket\<close>.\<close>

definition aggregate_packet :: "gotime \<Rightarrow> IngressPacket \<Rightarrow> KineticEngine \<Rightarrow> KineticEngine" where
  "aggregate_packet now pkt e =
     (case SubnetKeys (pk_SrcIP pkt) of (isV6, subKey, wideKey) \<Rightarrow>
        let ipKey = ip_string (pk_SrcIP pkt); activity = activityCount pkt
        in if \<not> isV6 \<and> subKey \<noteq> [] \<and> activity > 0 then
             let e = touch_v4 now ipKey activity subKey e
             in if wideKey \<noteq> [] then touch_wide now ipKey activity wideKey e else e
           else if isV6 \<and> subKey \<noteq> [] \<and> activity > 0 then touch_v6 now ipKey activity subKey e
           else e)"

section \<open>Events\<close>

definition index_has :: "ThreatIndex option \<Rightarrow> string \<Rightarrow> bool" where
  "index_has t s = (case t of None \<Rightarrow> False | Some i \<Rightarrow> ContainsString i s)"

definition generateEventID :: "'l env \<Rightarrow> 'l State \<Rightarrow> string \<times> 'l State" where
  "generateEventID en s = (case randomID en s of (i, s) \<Rightarrow> (''kin-'' @ i, s))"

definition resolveAction :: "KineticEngine \<Rightarrow> string \<Rightarrow> string" where
  "resolveAction e ruleID =
     (case rules_Get (kn_rules e) ruleID of
        None \<Rightarrow> ''track''
      | Some d \<Rightarrow>
          if kc_EnforcementMode (kn_cfg e) = ''block'' then
            (if kr_BlockEligible d then ''block'' else if kr_ContainEligible d then ''contain'' else ''warn'')
          else if kc_EnforcementMode (kn_cfg e) = ''contain'' then
            (if kr_ContainEligible d then ''contain'' else ''warn'')
          else ''track'')"

definition ruleReadyLocked :: "IPTrackingBucket \<Rightarrow> string \<Rightarrow> gotime \<Rightarrow> bool" where
  "ruleReadyLocked b ruleID now =
     (case gm_get (ib_RuleLastSeen b) ruleID of
        None \<Rightarrow> True
      | Some t \<Rightarrow> time_is_zero t \<or> time_sub now t \<ge> 15 * second)"

definition protocol_text :: "8 word \<Rightarrow> string" where
  "protocol_text p = (if p = 6 then ''tcp'' else if p = 17 then ''udp'' else if p = 1 then ''icmp''
     else if p = 58 then ''icmpv6'' else ''other'')"

definition event_score :: "KineticEngine \<Rightarrow> string \<Rightarrow> bool \<Rightarrow> bool \<Rightarrow> int \<Rightarrow> int" where
  "event_score e ruleID feedBlock feedCorrelate score =
     (let score = (case rules_Get (kn_rules e) ruleID of
                     Some d \<Rightarrow> if kr_DefaultScore d > 0 then kr_DefaultScore d else score | None \<Rightarrow> score)
      in if ruleID \<noteq> ''NET.INGRESS.THREAT_INTEL_MATCH'' \<and> (feedBlock \<or> feedCorrelate)
         then min 180 (score + (if feedBlock then 20 else 10)) else score)"

definition createEventLocked :: "'l env \<Rightarrow> string \<Rightarrow> IngressPacket \<Rightarrow> string \<Rightarrow> string \<Rightarrow> int
    \<Rightarrow> IPTrackingBucket \<times> KineticEngine \<times> 'l State \<Rightarrow> KineticEvent \<times> IPTrackingBucket \<times> KineticEngine \<times> 'l State" where
  "createEventLocked en ruleID pkt subnet decision score bes =
     (case bes of (b, e, s) \<Rightarrow>
        let now = packet_now en pkt;
            src = ip_string (pk_SrcIP pkt);
            feedBlock = index_has (kn_threatBlock e) src;
            feedCorrelate = index_has (kn_threatCorrelate e) src;
            score = event_score e ruleID feedBlock feedCorrelate score;
            b = b\<lparr> ib_LastStrikeRule := ruleID, ib_LastStrikeAt := now,
                   ib_RuleLastSeen := gm_put ruleID now (ib_RuleLastSeen b),
                   ib_Score := (if score > ib_Score b then score else ib_Score b) \<rparr>;
            (i, s) = generateEventID en s;
            evt = empty_event\<lparr>
              ke_ID := i, ke_Time := now,
              ke_Layer := (case rules_Get (kn_rules e) ruleID of Some d \<Rightarrow> kr_Layer d | None \<Rightarrow> LayerIngressNetwork),
              ke_Sensor := ''xdp_ingress'', ke_RuleID := ruleID,
              ke_Category := (case rules_Get (kn_rules e) ruleID of Some d \<Rightarrow> kr_Category d | None \<Rightarrow> ''ingress_threat''),
              ke_Severity := (case rules_Get (kn_rules e) ruleID of Some d \<Rightarrow> kr_Severity d | None \<Rightarrow> ''medium''),
              ke_Score := score, ke_Confidence := (if feedBlock \<or> feedCorrelate then 99 / 100 else 95 / 100),
              ke_SourceIP := src, ke_DestinationIP := ip_string (pk_DstIP pkt), ke_Port := pk_DstPort pkt,
              ke_Protocol := protocol_text (pk_Protocol pkt), ke_Subnet := subnet, ke_Hits := ib_Hits b,
              ke_RatePerSec := of_int (ib_Velocity1s b), ke_Action := resolveAction e ruleID, ke_Decision := decision,
              ke_Metadata := (if feedBlock \<or> feedCorrelate
                 then [(''threat_intel_match'', MetaBool True), (''feed_block_match'', MetaBool feedBlock),
                       (''feed_correlate_match'', MetaBool feedCorrelate)] else []) \<rparr>;
            evt = ComputeFingerprint (env_sha256 en) evt;
            e = e\<lparr> kn_eventQueue := queue_push evt (kn_eventQueue e) \<rparr>;
            s = AddEvent en \<lparr> ev_ID = ke_ID evt, ev_Time = ke_Time evt, ev_Severity = ke_Severity evt,
                  ev_Kind = ''kinetic_strike'', ev_Source = ke_Sensor evt,
                  ev_Message = ''['' @ ke_RuleID evt @ ''] '' @ ke_Decision evt @ '' (IP: '' @ ke_SourceIP evt
                     @ '', Port: '' @ dec_nat (unat (ke_Port evt)) @ '')'',
                  ev_Target = ke_SourceIP evt \<rparr> s
        in (evt, b, e, s))"

section \<open>The rule pipeline\<close>

record 'l ingest =
  ig_events :: "KineticEvent list"
  ig_bucket :: IPTrackingBucket
  ig_engine :: KineticEngine
  ig_state :: "'l State"

text \<open>\<open>createEventLocked\<close> followed by the append to \<open>generatedEvents\<close>.\<close>

definition strike :: "'l env \<Rightarrow> string \<Rightarrow> IngressPacket \<Rightarrow> string \<Rightarrow> int \<Rightarrow> 'l ingest \<Rightarrow> 'l ingest" where
  "strike en ruleID pkt decision score g =
     (case createEventLocked en ruleID pkt (fst (snd (SubnetKeys (pk_SrcIP pkt)))) decision score
             (ig_bucket g, ig_engine g, ig_state g) of
        (evt, b, e, s) \<Rightarrow> \<lparr> ig_events = ig_events g @ [evt], ig_bucket = b, ig_engine = e, ig_state = s \<rparr>)"

definition ready :: "string \<Rightarrow> gotime \<Rightarrow> 'l ingest \<Rightarrow> bool" where
  "ready ruleID now g = ruleReadyLocked (ig_bucket g) ruleID now"

text \<open>
  The metadata written after the call repeats the two entries the event already carries,
  so the copy in the event queue, which shares the map, agrees with the returned one.
\<close>

definition rule_threat_intel :: "'l env \<Rightarrow> IngressPacket \<Rightarrow> 'l ingest \<Rightarrow> 'l ingest" where
  "rule_threat_intel en pkt g =
     (let now = packet_now en pkt; ipKey = ip_string (pk_SrcIP pkt); e = ig_engine g;
          threatMatch = index_has (kn_threatCorrelate e) ipKey;
          feedBlockMatch = index_has (kn_threatBlock e) ipKey
      in if (threatMatch \<or> feedBlockMatch) \<and> ready ''NET.INGRESS.THREAT_INTEL_MATCH'' now g then
           strike en ''NET.INGRESS.THREAT_INTEL_MATCH'' pkt
             (if feedBlockMatch
              then ''Threat-intelligence BLOCK prefix matched ingress source; kernel feed policy owns enforcement''
              else ''Threat-intelligence correlate prefix matched ingress source'') 80 g
         else g)"

definition rule_malformed :: "'l env \<Rightarrow> IngressPacket \<Rightarrow> 'l ingest \<Rightarrow> 'l ingest" where
  "rule_malformed en pkt g =
     (if ib_MalformedCount (ig_bucket g) \<ge> 3 \<and> ready ''NET.INGRESS.MALFORMED_TCP'' (packet_now en pkt) g
      then strike en ''NET.INGRESS.MALFORMED_TCP'' pkt ''Illegal TCP flag combination (NULL, SYN-RST, or XMAS)'' 80 g
      else g)"

definition rule_velocity :: "'l env \<Rightarrow> IngressPacket \<Rightarrow> 'l ingest \<Rightarrow> 'l ingest" where
  "rule_velocity en pkt g =
     (if ib_Velocity1s (ig_bucket g) \<ge> kc_VelocityLimit (kn_cfg (ig_engine g))
         \<and> ready ''NET.INGRESS.IP_VELOCITY'' (packet_now en pkt) g
      then strike en ''NET.INGRESS.IP_VELOCITY'' pkt
             (''High velocity burst: '' @ dec_int (ib_Velocity1s (ig_bucket g)) @ '' hits/sec'') 85
             (g\<lparr> ig_engine := (ig_engine g)\<lparr> kn_velocityBurstsTotal := kn_velocityBurstsTotal (ig_engine g) + 1 \<rparr> \<rparr>)
      else g)"

definition rule_syn_flood :: "'l env \<Rightarrow> IngressPacket \<Rightarrow> 'l ingest \<Rightarrow> 'l ingest" where
  "rule_syn_flood en pkt g =
     (let b = ig_bucket g; cfg = kn_cfg (ig_engine g)
      in if ib_SYN1m b \<ge> kc_SYNThreshold cfg \<and> (ib_ACK1m b = 0 \<or> ib_SYN1m b \<ge> ib_ACK1m b * kc_SYNAckRatio cfg)
            \<and> ready ''NET.INGRESS.SYN_FLOOD'' (packet_now en pkt) g
         then strike en ''NET.INGRESS.SYN_FLOOD'' pkt
                (''SYN flood detected: '' @ dec_int (ib_SYN1m b) @ '' SYNs vs '' @ dec_int (ib_ACK1m b)
                 @ '' ACKs in current 1m window'') 90 g
         else g)"

definition count_scan :: "'l ingest \<Rightarrow> 'l ingest" where
  "count_scan g = g\<lparr> ig_engine := (ig_engine g)\<lparr> kn_portscansTotal := kn_portscansTotal (ig_engine g) + 1 \<rparr> \<rparr>"

definition rule_port_scan :: "'l env \<Rightarrow> IngressPacket \<Rightarrow> 'l ingest \<Rightarrow> 'l ingest" where
  "rule_port_scan en pkt g =
     (let now = packet_now en pkt; b = ig_bucket g; cfg = kn_cfg (ig_engine g);
          service = fst (classifyKineticService cfg (pk_DstPort pkt));
          ports = int (length (ib_PortsSeen b));
          idle = time_sub now (ib_FirstSeen b)
      in if ports \<ge> kc_PortscanThreshold cfg \<and> idle \<ge> wrap64 (kc_LowSlowMinSeconds cfg * second)
            \<and> ib_Velocity1s b < maxInt 2 (go_div (kc_VelocityLimit cfg) 2)
            \<and> ready ''NET.INGRESS.LOW_SLOW_SCAN'' now g
         then strike en ''NET.INGRESS.LOW_SLOW_SCAN'' pkt
                (''Low-and-slow scan: '' @ dec_int ports @ '' distinct ports across ''
                 @ duration_string (round_second idle) @ '' ('' @ dec_int (windowHitsLocked b (15 * minute)) @ '' hits/15m)'')
                92 (count_scan g)
         else if ports \<ge> kc_PortscanThreshold cfg \<and> ready ''NET.INGRESS.PORT_SCAN'' now g
         then strike en ''NET.INGRESS.PORT_SCAN'' pkt
                (''Portscan detected: '' @ dec_int ports @ '' distinct ports probed'') 95 (count_scan g)
         else if (service = ''database'' \<or> service = ''admin_panel'') \<and> port_attempts b (pk_DstPort pkt) \<ge> 3
                 \<and> ready ''NET.INGRESS.PORT_SCAN'' now g
         then strike en ''NET.INGRESS.PORT_SCAN'' pkt
                (''Connection probe to protected service port '' @ dec_nat (unat (pk_DstPort pkt))
                 @ '' ('' @ service @ '')'') 95 (count_scan g)
         else g)"

definition rule_ip_rate :: "'l env \<Rightarrow> IngressPacket \<Rightarrow> 'l ingest \<Rightarrow> 'l ingest" where
  "rule_ip_rate en pkt g =
     (let b = ig_bucket g
      in if ib_Attempts1m b \<ge> kc_IPThreshold (kn_cfg (ig_engine g)) \<and> ready ''NET.INGRESS.IP_RATE'' (packet_now en pkt) g
         then strike en ''NET.INGRESS.IP_RATE'' pkt
                (''Single IP connection/activity rate threshold reached: '' @ dec_int (ib_Attempts1m b)
                 @ '' attempts/1m ('' @ dec_int (ib_Attempts b) @ '' attempts lifetime)'') 75 g
         else g)"

text \<open>The event literal the three aggregate rules share, and its way into the queue.\<close>

definition aggregate_event :: "'l env \<Rightarrow> gotime \<Rightarrow> string \<Rightarrow> string \<Rightarrow> string \<Rightarrow> string \<Rightarrow> int \<Rightarrow> rat \<Rightarrow> SubnetBucket
    \<Rightarrow> (string, metavalue) gomap \<Rightarrow> string \<Rightarrow> string \<Rightarrow> 'l ingest \<Rightarrow> 'l ingest" where
  "aggregate_event en now ipKey key ruleID severity score confidence bucket meta action decision g =
     (case generateEventID en (ig_state g) of (i, s) \<Rightarrow>
        let evt = ComputeFingerprint (env_sha256 en) (empty_event\<lparr>
              ke_ID := i, ke_Time := now, ke_Layer := LayerIngressNetwork, ke_Sensor := ''radix_subnet_aggregator'',
              ke_RuleID := ruleID, ke_Category := ''botnet_aggregation'', ke_Severity := severity, ke_Score := score,
              ke_Confidence := confidence, ke_SourceIP := ipKey, ke_Subnet := key, ke_Hits := sb_AggregateHits bucket,
              ke_Metadata := meta, ke_Action := action, ke_Decision := decision \<rparr>)
        in g\<lparr> ig_events := ig_events g @ [evt],
              ig_engine := (ig_engine g)\<lparr> kn_eventQueue := queue_push evt (kn_eventQueue (ig_engine g)) \<rparr>,
              ig_state := s \<rparr>)"

definition sources_text :: "string \<Rightarrow> SubnetBucket \<Rightarrow> string" where
  "sources_text intro b = intro @ dec_int (sb_AggregateHits b) @ '' hits across '' @ dec_nat (length (sb_ActiveIPs b)) @ '' IPs''"

definition rule_subnet_v4 :: "'l env \<Rightarrow> IngressPacket \<Rightarrow> 'l ingest \<Rightarrow> 'l ingest" where
  "rule_subnet_v4 en pkt g =
     (case SubnetKeys (pk_SrcIP pkt) of (isV6, subKey, _) \<Rightarrow>
        let now = packet_now en pkt; e = ig_engine g; cfg = kn_cfg e
        in if \<not> isV6 \<and> subKey \<noteq> [] then
             case gm_get (kn_subnetV4Buckets e) subKey of
               None \<Rightarrow> g
             | Some b \<Rightarrow>
                 if sb_AggregateHits b \<ge> kc_RangeThreshold cfg \<and> int (length (sb_ActiveIPs b)) \<ge> kc_SubnetMinSources cfg
                    \<and> time_sub now (sb_LastStrikeAt b) \<ge> 30 * second
                 then aggregate_event en now (ip_string (pk_SrcIP pkt)) subKey ''NET.INGRESS.SUBNET_V4'' ''high'' 100 (95 / 100) b
                        [(''active_sources'', MetaInt (int (length (sb_ActiveIPs b))))]
                        (resolveAction e ''NET.INGRESS.SUBNET_V4'') (sources_text ''Coordinated IPv4 /24 flood: '' b)
                        (g\<lparr> ig_engine := e\<lparr> kn_subnetV4Buckets := gm_put subKey (b\<lparr> sb_LastStrikeAt := now \<rparr>) (kn_subnetV4Buckets e),
                                            kn_subnetStrikesTotal := kn_subnetStrikesTotal e + 1 \<rparr> \<rparr>)
                 else g
           else g)"

definition rule_subnet_v6 :: "'l env \<Rightarrow> IngressPacket \<Rightarrow> 'l ingest \<Rightarrow> 'l ingest" where
  "rule_subnet_v6 en pkt g =
     (case SubnetKeys (pk_SrcIP pkt) of (isV6, subKey, _) \<Rightarrow>
        let now = packet_now en pkt; e = ig_engine g; cfg = kn_cfg e
        in if isV6 \<and> subKey \<noteq> [] then
             case gm_get (kn_subnetV6Buckets e) subKey of
               None \<Rightarrow> g
             | Some b \<Rightarrow>
                 if sb_AggregateHits b \<ge> kc_IPv6SubThreshold cfg \<and> int (length (sb_ActiveIPs b)) \<ge> kc_IPv6SubnetMinSources cfg
                    \<and> time_sub now (sb_LastStrikeAt b) \<ge> 30 * second
                 then aggregate_event en now (ip_string (pk_SrcIP pkt)) subKey ''NET.INGRESS.SUBNET_V6'' ''high'' 100 (95 / 100) b
                        [(''active_sources'', MetaInt (int (length (sb_ActiveIPs b))))]
                        (resolveAction e ''NET.INGRESS.SUBNET_V6'') (sources_text ''Coordinated IPv6 /64 flood: '' b)
                        (g\<lparr> ig_engine := e\<lparr> kn_subnetV6Buckets := gm_put subKey (b\<lparr> sb_LastStrikeAt := now \<rparr>) (kn_subnetV6Buckets e),
                                            kn_subnetStrikesTotal := kn_subnetStrikesTotal e + 1 \<rparr> \<rparr>)
                 else g
           else g)"

definition rule_wide_v4 :: "'l env \<Rightarrow> IngressPacket \<Rightarrow> 'l ingest \<Rightarrow> 'l ingest" where
  "rule_wide_v4 en pkt g =
     (case SubnetKeys (pk_SrcIP pkt) of (isV6, _, wideKey) \<Rightarrow>
        let now = packet_now en pkt; e = ig_engine g; cfg = kn_cfg e
        in if \<not> isV6 \<and> wideKey \<noteq> [] then
             case gm_get (kn_wideV4Buckets e) wideKey of
               None \<Rightarrow> g
             | Some b \<Rightarrow>
                 if sb_AggregateHits b \<ge> kc_WideRangeThreshold cfg \<and> int (length (sb_ActiveIPs b)) \<ge> kc_WideMinSources cfg
                    \<and> time_sub now (sb_LastStrikeAt b) \<ge> 60 * second
                 then aggregate_event en now (ip_string (pk_SrcIP pkt)) wideKey ''NET.INGRESS.WIDE_V4'' ''critical'' 120 (90 / 100) b
                        [] ''warn'' (sources_text ''Mass campaign IPv4 /16 sector surge: '' b)
                        (g\<lparr> ig_engine := e\<lparr> kn_wideV4Buckets := gm_put wideKey (b\<lparr> sb_LastStrikeAt := now \<rparr>) (kn_wideV4Buckets e) \<rparr> \<rparr>)
                 else g
           else g)"

text \<open>Step 3 of \<open>IngestPacket\<close>.\<close>

definition evaluate_rules :: "'l env \<Rightarrow> IngressPacket \<Rightarrow> 'l ingest \<Rightarrow> 'l ingest" where
  "evaluate_rules en pkt g =
     rule_wide_v4 en pkt (rule_subnet_v6 en pkt (rule_subnet_v4 en pkt (rule_ip_rate en pkt
       (rule_port_scan en pkt (rule_syn_flood en pkt (rule_velocity en pkt (rule_malformed en pkt
         (rule_threat_intel en pkt g))))))))"

section \<open>Telemetry\<close>

definition engine_counters :: "KineticEngine \<Rightarrow> KineticTelemetry \<Rightarrow> KineticTelemetry" where
  "engine_counters e t = t\<lparr>
     kt_HitsTotal := kn_hitsTotal e, kt_VelocityBurstsTotal := kn_velocityBurstsTotal e,
     kt_PortscansTotal := kn_portscansTotal e, kt_SubnetStrikesTotal := kn_subnetStrikesTotal e,
     kt_L7StrikesTotal := kn_l7StrikesTotal e, kt_TrackingDropsTotal := kn_trackingDropsTotal e,
     kt_TrackingEvictionsTotal := kn_trackingEvictionsTotal e,
     kt_AggregateEvictionsTotal := kn_aggregateEvictionsTotal e,
     kt_ActiveTrackingIPs := int (length (kn_ipBuckets e)), kt_ActiveSubnetsV4 := int (length (kn_subnetV4Buckets e)),
     kt_ActiveSubnetsV6 := int (length (kn_subnetV6Buckets e)), kt_ActiveWideV4 := int (length (kn_wideV4Buckets e)),
     kt_TrackingCapacity := kc_MaxTrackingIPs (kn_cfg e) \<rparr>"

definition syncTelemetryStateLocked :: "KineticEngine \<Rightarrow> 'l State \<Rightarrow> 'l State" where
  "syncTelemetryStateLocked e s = UpdateKineticTelemetry (engine_counters e) s"

section \<open>Ingest and sweep\<close>

definition IngestPacket :: "'l env \<Rightarrow> IngressPacket \<Rightarrow> KineticEngine \<times> 'l State \<Rightarrow> KineticEvent list \<times> KineticEngine \<times> 'l State" where
  "IngestPacket en pkt es =
     (case es of (e, s) \<Rightarrow>
        if \<not> kc_Enabled (kn_cfg e) \<or> pk_SrcIP pkt = [] \<or> isAllowlistedLocked (kn_allowlist e) (pk_SrcIP pkt) then ([], e, s)
        else
          let e = e\<lparr> kn_hitsTotal := kn_hitsTotal e + of_int (sampleCount pkt) \<rparr>;
              now = packet_now en pkt; sec = secEpoch now pkt; ipKey = ip_string (pk_SrcIP pkt)
          in case admit_source now sec pkt e of
            (None, e) \<Rightarrow> ([], e, s)
          | (Some b, e) \<Rightarrow>
              let e = recordTrafficHistoryLocked sec (sampleCount pkt) (activityCount pkt) (synDelta pkt) (ackDelta pkt) e;
                  b = track_flags pkt (track_port pkt (record_activity now sec pkt b));
                  e = aggregate_packet now pkt e;
                  g = evaluate_rules en pkt \<lparr> ig_events = [], ig_bucket = b, ig_engine = e, ig_state = s \<rparr>;
                  e = (ig_engine g)\<lparr> kn_ipBuckets := gm_put ipKey (ig_bucket g) (kn_ipBuckets (ig_engine g)) \<rparr>
              in (ig_events g, e, syncTelemetryStateLocked e (ig_state g)))"

definition idle_longer :: "('b \<Rightarrow> gotime) \<Rightarrow> duration \<Rightarrow> gotime \<Rightarrow> string \<times> 'b \<Rightarrow> bool" where
  "idle_longer seen d now kb = (time_sub now (seen (snd kb)) > d)"

definition Sweep :: "gotime \<Rightarrow> KineticEngine \<times> 'l State \<Rightarrow> KineticEngine \<times> 'l State" where
  "Sweep now es =
     (case es of (e, s) \<Rightarrow>
        let gone = filter (idle_longer ib_LastSeen hour now) (kn_ipBuckets e);
            keep = (\<lambda>m. filter (\<lambda>kb. \<not> idle_longer sb_LastSeen (300 * second) now kb) m);
            sec = time_unix now;
            e = e\<lparr> kn_ipBuckets := filter (\<lambda>kb. \<not> idle_longer ib_LastSeen hour now kb) (kn_ipBuckets e),
                   kn_trackingEvictionsTotal := kn_trackingEvictionsTotal e + of_nat (length gone),
                   kn_subnetV4Buckets := keep (kn_subnetV4Buckets e),
                   kn_subnetV6Buckets := keep (kn_subnetV6Buckets e),
                   kn_wideV4Buckets := keep (kn_wideV4Buckets e) \<rparr>;
            e = (if sec \<noteq> kn_tokenBucketLastSec e
                 then e\<lparr> kn_tokenBucketLastSec := sec, kn_tokenBucketAvailable := kc_MaxStrikesPerSec (kn_cfg e) \<rparr> else e)
        in (e, syncTelemetryStateLocked e s))"

definition RecentEvents :: "KineticEngine \<Rightarrow> KineticEvent list \<times> 64 word" where
  "RecentEvents e = queue_snapshot (kn_eventQueue e)"

section \<open>Eviction\<close>

lemma oldest_fold:
  assumes "fold (oldest_step seen) m (ok, ot) = (k, t)" and "[] \<notin> fst ` set m"
  shows "(m = [] \<or> k \<noteq> []) \<and> ((k, t) = (ok, ot) \<or> (\<exists>b. (k, b) \<in> set m \<and> t = seen b))
     \<and> (ok \<noteq> [] \<longrightarrow> t \<le> ot) \<and> (\<forall>(k', b') \<in> set m. t \<le> seen b')"
  using assms
proof (induction m arbitrary: ok ot)
  case (Cons kb m)
  obtain k0 b0 where kb: "kb = (k0, b0)" by force
  with Cons.prems(2) have k0: "k0 \<noteq> []" and m: "[] \<notin> fst ` set m" by auto
  obtain ok' ot' where s: "oldest_step seen kb (ok, ot) = (ok', ot')" by force
  then have step: "(ok', ot') = (if ok = [] \<or> seen b0 < ot then (k0, seen b0) else (ok, ot))"
    by (simp add: kb oldest_step_def)
  have ok': "ok' \<noteq> []" using step k0 by (auto split: if_splits)
  have "fold (oldest_step seen) m (ok', ot') = (k, t)" using Cons.prems(1) s by simp
  from Cons.IH [OF this m] ok' have ih: "m = [] \<or> k \<noteq> []" "(k, t) = (ok', ot') \<or> (\<exists>b. (k, b) \<in> set m \<and> t = seen b)"
    "t \<le> ot'" "\<forall>(k', b') \<in> set m. t \<le> seen b'" by auto
  moreover have "k \<noteq> []" using ih(1,2) ok' by auto
  moreover have "t \<le> seen b0" "ok \<noteq> [] \<longrightarrow> t \<le> ot" using ih(3) step by (auto split: if_splits)
  ultimately show ?case using step kb by (auto split: if_splits)
qed simp

lemma oldest_key:
  assumes "gm_wf m" and "m \<noteq> []" and "[] \<notin> fst ` set m"
  shows "\<exists>b. oldest_key seen m \<noteq> [] \<and> gm_get m (oldest_key seen m) = Some b
     \<and> (\<forall>k' b'. gm_get m k' = Some b' \<longrightarrow> seen b \<le> seen b')"
proof -
  obtain k t where f: "fold (oldest_step seen) m ([], 0) = (k, t)" by force
  from oldest_fold [OF this assms(3)] assms(2) obtain b where "k \<noteq> []" "(k, b) \<in> set m" "t = seen b"
    "\<forall>(k', b') \<in> set m. t \<le> seen b'" by auto
  with f show ?thesis by (auto simp: oldest_key_def gm_wf_get_iff [OF assms(1)])
qed

lemma stale_scan_some:
  assumes "[] \<notin> fst ` set m"
  shows "stale_scan now m (ok, ot) = None \<longleftrightarrow> m = [] \<and> ok = []"
    and "stale_scan now m (ok, ot) = Some k \<Longrightarrow> k \<in> fst ` set m \<or> k = ok \<and> ok \<noteq> []"
  using assms
  by (induction m arbitrary: ok ot) (auto simp: oldest_step_def Let_def split: if_splits)

text \<open>
  A table that shrinks by one entry with every eviction. The loop that evicts until a bound
  holds then ends, for every bound that is not negative.
\<close>

locale evictable =
  fixes sz :: "'e \<Rightarrow> nat" and mx :: "'e \<Rightarrow> int" and ev :: "'e \<Rightarrow> 'e" and ok :: "'e \<Rightarrow> bool"
  assumes sz_ev: "ok e \<Longrightarrow> 0 < sz e \<Longrightarrow> Suc (sz (ev e)) = sz e"
    and mx_ev: "mx (ev e) = mx e"
    and ok_ev: "ok e \<Longrightarrow> ok (ev e)"
begin

lemma evict_while_returns:
  assumes "ok e" and "0 \<le> mx e" and "Q e" and keep: "\<And>e. Q e \<Longrightarrow> Q (ev e)"
  shows "\<exists>e'. evict_while sz mx ev e = Some e' \<and> int (sz e') \<le> mx e' \<and> mx e' = mx e \<and> ok e' \<and> Q e'"
  using assms(1-3)
proof (induction "sz e" arbitrary: e)
  case 0
  then show ?case by (subst evict_while.simps) simp
next
  case (Suc n)
  show ?case
  proof (cases "int (sz e) > mx e")
    case True
    have "n = sz (ev e)" using sz_ev [OF Suc.prems(1)] Suc.hyps(2) by simp
    from Suc.hyps(1) [OF this ok_ev [OF Suc.prems(1)]] Suc.prems keep True show ?thesis
      by (subst evict_while.simps) (simp add: mx_ev)
  next
    case False
    then show ?thesis using Suc.prems by (subst evict_while.simps) simp
  qed
qed

end

definition table_ok :: "(string, 'b) gomap \<Rightarrow> bool" where
  "table_ok m \<longleftrightarrow> gm_wf m \<and> [] \<notin> fst ` set m"

lemma table_ok_del [simp]: "table_ok m \<Longrightarrow> table_ok (gm_del k m)"
  by (auto simp: table_ok_def AList.delete_eq)

lemma fst_set_put: "fst ` set (gm_put k v m) = insert k (fst ` set m)"
  by (simp add: dom_map_of_conv_image_fst [symmetric] update_conv')

lemma table_ok_put [simp]: "table_ok m \<Longrightarrow> k \<noteq> [] \<Longrightarrow> table_ok (gm_put k v m)"
  by (simp add: table_ok_def fst_set_put)

lemma table_ok_filter [simp]: "table_ok m \<Longrightarrow> table_ok (filter P m)"
  by (auto simp: table_ok_def)

lemma table_ok_Nil [simp]: "table_ok []"
  by (simp add: table_ok_def)

text \<open>
  The contract of an aggregate table: eviction removes the bucket that was touched longest ago,
  touching a key makes room first when the key is new and the table full.
\<close>

locale aggregate_table =
  fixes tbl :: "'e \<Rightarrow> (string, SubnetBucket) gomap" and mx :: "'e \<Rightarrow> int" and ev :: "'e \<Rightarrow> 'e"
    and touch :: "gotime \<Rightarrow> string \<Rightarrow> int \<Rightarrow> string \<Rightarrow> 'e \<Rightarrow> 'e" and window :: duration and srcs :: nat
  assumes tbl_ev: "tbl (ev e) = (if oldest_key sb_LastSeen (tbl e) \<noteq> [] then gm_del (oldest_key sb_LastSeen (tbl e)) (tbl e) else tbl e)"
    and cap_ev: "mx (ev e) = mx e"
    and cap_touch: "mx (touch now ip act key e) = mx e"
    and tbl_touch: "tbl (touch now ip act key e) =
       (let m = tbl (if \<not> gm_has (tbl e) key \<and> int (length (tbl e)) \<ge> mx e then ev e else e)
        in gm_put key (touch_bucket window srcs now ip act (get_subnet key now m)) m)"
begin

lemma evict_oldest:
  assumes "table_ok (tbl e)" and "tbl e \<noteq> []"
  shows "\<exists>k b. gm_get (tbl e) k = Some b \<and> tbl (ev e) = gm_del k (tbl e)
     \<and> (\<forall>k' b'. gm_get (tbl e) k' = Some b' \<longrightarrow> sb_LastSeen b \<le> sb_LastSeen b')"
  using oldest_key [of "tbl e" sb_LastSeen] assms tbl_ev [of e] by (auto simp: table_ok_def)

lemma touch_full:
  assumes "table_ok (tbl e)" and "tbl e \<noteq> []" and "\<not> gm_has (tbl e) key" and "mx e \<le> int (length (tbl e))"
  shows "\<exists>k b. gm_get (tbl e) k = Some b \<and> (\<forall>k' b'. gm_get (tbl e) k' = Some b' \<longrightarrow> sb_LastSeen b \<le> sb_LastSeen b')
     \<and> tbl (touch now ip act key e) = gm_put key (touch_bucket window srcs now ip act (new_subnet key now)) (gm_del k (tbl e))"
proof -
  from evict_oldest [OF assms(1,2)] obtain k b where "gm_get (tbl e) k = Some b" "tbl (ev e) = gm_del k (tbl e)"
    "\<forall>k' b'. gm_get (tbl e) k' = Some b' \<longrightarrow> sb_LastSeen b \<le> sb_LastSeen b'" by blast
  moreover from this assms(3,4)
  have "tbl (touch now ip act key e) = gm_put key (touch_bucket window srcs now ip act (new_subnet key now)) (gm_del k (tbl e))"
    by (auto simp: tbl_touch get_subnet_def gm_has_def)
  ultimately show ?thesis by blast
qed

lemma length_evict:
  assumes "table_ok (tbl e)" and "0 < length (tbl e)"
  shows "Suc (length (tbl (ev e))) = length (tbl e)"
proof -
  from evict_oldest [OF assms(1)] assms(2) obtain k b where "gm_get (tbl e) k = Some b" "tbl (ev e) = gm_del k (tbl e)"
    by auto
  with assms(1) length_gm_del [of "tbl e" k] show ?thesis by (simp add: table_ok_def gm_has_def)
qed

lemma table_ok_evict: "table_ok (tbl e) \<Longrightarrow> table_ok (tbl (ev e))"
  by (simp add: tbl_ev)

definition bounded :: "'e \<Rightarrow> bool" where
  "bounded e \<longleftrightarrow> table_ok (tbl e) \<and> int (length (tbl e)) \<le> mx e
     \<and> (\<forall>k b. gm_get (tbl e) k = Some b \<longrightarrow> length (sb_ActiveIPs b) \<le> srcs)"

lemma bounded_touch:
  assumes "bounded e" and "key \<noteq> []" and "0 < mx e" and "0 < srcs"
  shows "bounded (touch now ip act key e)"
proof -
  define e' where "e' = (if \<not> gm_has (tbl e) key \<and> int (length (tbl e)) \<ge> mx e then ev e else e)"
  have ok: "table_ok (tbl e)" using assms(1) by (simp add: bounded_def)
  have e': "table_ok (tbl e')" "gm_has (tbl e) key \<Longrightarrow> tbl e' = tbl e"
    "\<forall>k b. gm_get (tbl e') k = Some b \<longrightarrow> length (sb_ActiveIPs b) \<le> srcs"
    using assms(1) ok by (auto simp: e'_def bounded_def tbl_ev)
  have room: "int (length (tbl e')) < mx e" if "\<not> gm_has (tbl e) key"
  proof (cases "int (length (tbl e)) \<ge> mx e")
    case True
    with assms(3) have "0 < length (tbl e)" by linarith
    from length_evict [OF ok this] True that assms(1) show ?thesis by (simp add: e'_def bounded_def)
  qed (simp add: e'_def)
  have t: "tbl (touch now ip act key e) = gm_put key (touch_bucket window srcs now ip act (get_subnet key now (tbl e'))) (tbl e')"
    by (simp add: tbl_touch e'_def Let_def)
  have "length (sb_ActiveIPs (get_subnet key now (tbl e'))) \<le> srcs"
    using e'(3) by (auto simp: get_subnet_def new_subnet_def split: option.split)
  then have "length (sb_ActiveIPs (touch_bucket window srcs now ip act (get_subnet key now (tbl e')))) \<le> srcs"
    using assms(4) by (auto simp: touch_bucket_def Let_def length_gm_put)
  moreover have "int (length (tbl (touch now ip act key e))) \<le> mx e"
    using e'(2) room assms(1) by (cases "gm_has (tbl e) key") (auto simp: t length_gm_put bounded_def)
  ultimately show ?thesis using e'(1,3) assms(2) by (auto simp: bounded_def t cap_touch)
qed

end

sublocale aggregate_table \<subseteq> evictable "\<lambda>e. length (tbl e)" mx ev "\<lambda>e. table_ok (tbl e)"
  by unfold_locales (auto simp: length_evict cap_ev table_ok_evict)

interpretation v4_table: aggregate_table kn_subnetV4Buckets kn_maxSubnetBuckets evictOldestSubnetV4Locked touch_v4 "5 * minute" 256
  by unfold_locales (auto simp: evictOldestSubnetV4Locked_def touch_v4_def Let_def)

interpretation wide_table: aggregate_table kn_wideV4Buckets kn_maxWideBuckets evictOldestWideV4Locked touch_wide "15 * minute" 1024
  by unfold_locales (auto simp: evictOldestWideV4Locked_def touch_wide_def Let_def)

interpretation v6_table: aggregate_table kn_subnetV6Buckets kn_maxSubnetBuckets evictOldestSubnetV6Locked touch_v6 "5 * minute" 256
  by unfold_locales (auto simp: evictOldestSubnetV6Locked_def touch_v6_def Let_def)

interpretation ip_table: evictable "\<lambda>e. length (kn_ipBuckets e)" "\<lambda>e. kc_MaxTrackingIPs (kn_cfg e)"
  "evictStaleIPBucketLocked now" "\<lambda>e. table_ok (kn_ipBuckets e)" for now
proof unfold_locales
  fix e :: KineticEngine assume ok: "table_ok (kn_ipBuckets e)" and "0 < length (kn_ipBuckets e)"
  with stale_scan_some [of "kn_ipBuckets e" now "[]" 0] obtain k where
    k: "stale_scan now (kn_ipBuckets e) ([], 0) = Some k" "k \<in> fst ` set (kn_ipBuckets e)"
    by (cases "stale_scan now (kn_ipBuckets e) ([], 0)") (auto simp: table_ok_def)
  with ok length_gm_del [of "kn_ipBuckets e" k]
  show "Suc (length (kn_ipBuckets (evictStaleIPBucketLocked now e))) = length (kn_ipBuckets e)"
    by (simp add: evictStaleIPBucketLocked_def table_ok_def gm_has_iff_fst)
qed (auto simp: evictStaleIPBucketLocked_def split: option.split)

section \<open>The invariant\<close>

definition bucket_ok :: "IPTrackingBucket \<Rightarrow> bool" where
  "bucket_ok b \<longleftrightarrow> rings_wf b \<and> gm_wf (ib_PortsSeen b) \<and> length (ib_PortsSeen b) \<le> 64
     \<and> gm_wf (ib_PortAttempts b) \<and> fst ` set (ib_PortAttempts b) \<subseteq> fst ` set (ib_PortsSeen b)"

definition sources_ok :: "KineticEngine \<Rightarrow> bool" where
  "sources_ok e \<longleftrightarrow> table_ok (kn_ipBuckets e) \<and> int (length (kn_ipBuckets e)) \<le> kc_MaxTrackingIPs (kn_cfg e)
     \<and> (\<forall>k b. gm_get (kn_ipBuckets e) k = Some b \<longrightarrow> bucket_ok b)"

definition capacities_ok :: "KineticEngine \<Rightarrow> bool" where
  "capacities_ok e \<longleftrightarrow> 256 \<le> kn_maxSubnetBuckets e \<and> kn_maxSubnetBuckets e \<le> 16384
     \<and> 128 \<le> kn_maxWideBuckets e \<and> kn_maxWideBuckets e \<le> 4096
     \<and> kn_maxSubnetBuckets e = boundedAggregateCapacity (kc_MaxTrackingIPs (kn_cfg e)) 4 256 16384
     \<and> kn_maxWideBuckets e = boundedAggregateCapacity (kc_MaxTrackingIPs (kn_cfg e)) 16 128 4096"

definition engine_ok :: "KineticEngine \<Rightarrow> bool" where
  "engine_ok e \<longleftrightarrow> history_wf e \<and> evq.good (kn_eventQueue e) \<and> q_capacity (kn_eventQueue e) = 250
     \<and> sources_ok e \<and> v4_table.bounded e \<and> wide_table.bounded e \<and> v6_table.bounded e \<and> capacities_ok e"

lemma ip_string_nonempty [simp]: "ip_string a \<noteq> []"
proof (cases "length a = 4 \<or> length a = 16")
  case True
  then show ?thesis using parse_addr_ip_string [OF True] by (auto simp: parse_addr_def)
qed (auto simp: ip_string_def)

lemma capacity_range: "0 \<le> lo \<Longrightarrow> lo \<le> hi \<Longrightarrow> lo \<le> boundedAggregateCapacity n d lo hi \<and> boundedAggregateCapacity n d lo hi \<le> hi"
  by (simp add: boundedAggregateCapacity_def Let_def)

lemma rings_wf_simps [simp]:
  "rings_wf (b\<lparr> ib_SYNCount := x0 \<rparr>) = rings_wf b"
  "rings_wf (b\<lparr> ib_ACKCount := x1 \<rparr>) = rings_wf b"
  "rings_wf (b\<lparr> ib_CurrentSecEpoch := x2 \<rparr>) = rings_wf b"
  "rings_wf (b\<lparr> ib_Velocity1s := x3 \<rparr>) = rings_wf b"
  "rings_wf (b\<lparr> ib_Hits := x4 \<rparr>) = rings_wf b"
  "rings_wf (b\<lparr> ib_Attempts := x5 \<rparr>) = rings_wf b"
  "rings_wf (b\<lparr> ib_WindowHits := x6 \<rparr>) = rings_wf b"
  "rings_wf (b\<lparr> ib_LastSeen := x7 \<rparr>) = rings_wf b"
  "rings_wf (b\<lparr> ib_PortsSeen := x8 \<rparr>) = rings_wf b"
  "rings_wf (b\<lparr> ib_PortAttempts := x9 \<rparr>) = rings_wf b"
  "rings_wf (b\<lparr> ib_MalformedCount := x10 \<rparr>) = rings_wf b"
  "rings_wf (b\<lparr> ib_LastStrikeRule := x11 \<rparr>) = rings_wf b"
  "rings_wf (b\<lparr> ib_LastStrikeAt := x12 \<rparr>) = rings_wf b"
  "rings_wf (b\<lparr> ib_RuleLastSeen := x13 \<rparr>) = rings_wf b"
  "rings_wf (b\<lparr> ib_Score := x14 \<rparr>) = rings_wf b"
  by (simp_all add: rings_wf_def)

lemma rings_wf_update: "rings_wf (recordLongWindowsLocked w h a s k b) = rings_wf b"
  by (auto simp: rings_wf_def recordLongWindowsLocked_def record_hour_def record_five_def record_minute_def Let_def)

lemma ports_update [simp]:
  "ib_PortsSeen (recordLongWindowsLocked w h a s k b) = ib_PortsSeen b"
  "ib_PortAttempts (recordLongWindowsLocked w h a s k b) = ib_PortAttempts b"
  by (auto simp: recordLongWindowsLocked_def record_hour_def record_five_def record_minute_def Let_def)

lemma bucket_ok_record: "bucket_ok b \<Longrightarrow> bucket_ok (record_activity now sec pkt b)"
  by (auto simp: bucket_ok_def record_activity_def Let_def rings_wf_update)

lemma bucket_ok_new: "bucket_ok (new_ip_bucket now sec pkt)"
  by (simp add: bucket_ok_def new_ip_bucket_def empty_bucket_def rings_wf_def)

lemma bucket_ok_flags: "bucket_ok b \<Longrightarrow> bucket_ok (track_flags pkt b)"
  by (auto simp: bucket_ok_def track_flags_def rings_wf_def)

lemma bucket_ok_port:
  assumes "bucket_ok b"
  shows "bucket_ok (track_port pkt b)"
proof -
  let ?p = "pk_DstPort pkt"
  have "length (gm_put ?p True (ib_PortsSeen b)) \<le> 64"
    if "gm_get (ib_PortsSeen b) ?p = Some True \<or> length (ib_PortsSeen b) < 64"
    using that assms by (auto simp: length_gm_put gm_has_def bucket_ok_def)
  then show ?thesis
    using assms by (auto simp: bucket_ok_def track_port_def Let_def fst_set_put)
qed

section \<open>Steps keep the invariant\<close>

lemma record_history_ok: "history_wf e \<Longrightarrow> history_wf (recordTrafficHistoryLocked s h a y k e)"
  by (simp add: history_wf_def recordTrafficHistoryLocked_def record_slot_def Let_def)

lemma record_history_frame:
  "engine_ok e \<Longrightarrow> engine_ok (recordTrafficHistoryLocked s h a y k (e :: KineticEngine))"
  using record_history_ok [of e s h a y k]
  by (auto simp: engine_ok_def sources_ok_def capacities_ok_def v4_table.bounded_def wide_table.bounded_def
      v6_table.bounded_def recordTrafficHistoryLocked_def)

lemma boundedAgg_pos: "capacities_ok e \<Longrightarrow> 0 < kn_maxSubnetBuckets e \<and> 0 < kn_maxWideBuckets e"
  by (simp add: capacities_ok_def)

lemmas engine_ok_unfold = engine_ok_def sources_ok_def capacities_ok_def v4_table.bounded_def wide_table.bounded_def
  v6_table.bounded_def history_wf_def

lemma touch_v4_frame:
  "kh_secondHistory (touch_v4 now ip act key e) = kh_secondHistory e" "kh_minuteHistory (touch_v4 now ip act key e) = kh_minuteHistory e"
  "kn_eventQueue (touch_v4 now ip act key e) = kn_eventQueue e" "kn_ipBuckets (touch_v4 now ip act key e) = kn_ipBuckets e"
  "kn_cfg (touch_v4 now ip act key e) = kn_cfg e" "kn_wideV4Buckets (touch_v4 now ip act key e) = kn_wideV4Buckets e"
  "kn_subnetV6Buckets (touch_v4 now ip act key e) = kn_subnetV6Buckets e" "kn_maxWideBuckets (touch_v4 now ip act key e) = kn_maxWideBuckets e"
  "kn_maxSubnetBuckets (touch_v4 now ip act key e) = kn_maxSubnetBuckets e"
  by (simp_all add: touch_v4_def evictOldestSubnetV4Locked_def Let_def)

lemma touch_v6_frame:
  "kh_secondHistory (touch_v6 now ip act key e) = kh_secondHistory e" "kh_minuteHistory (touch_v6 now ip act key e) = kh_minuteHistory e"
  "kn_eventQueue (touch_v6 now ip act key e) = kn_eventQueue e" "kn_ipBuckets (touch_v6 now ip act key e) = kn_ipBuckets e"
  "kn_cfg (touch_v6 now ip act key e) = kn_cfg e" "kn_wideV4Buckets (touch_v6 now ip act key e) = kn_wideV4Buckets e"
  "kn_subnetV4Buckets (touch_v6 now ip act key e) = kn_subnetV4Buckets e" "kn_maxWideBuckets (touch_v6 now ip act key e) = kn_maxWideBuckets e"
  "kn_maxSubnetBuckets (touch_v6 now ip act key e) = kn_maxSubnetBuckets e"
  by (simp_all add: touch_v6_def evictOldestSubnetV6Locked_def Let_def)

lemma touch_wide_frame:
  "kh_secondHistory (touch_wide now ip act key e) = kh_secondHistory e" "kh_minuteHistory (touch_wide now ip act key e) = kh_minuteHistory e"
  "kn_eventQueue (touch_wide now ip act key e) = kn_eventQueue e" "kn_ipBuckets (touch_wide now ip act key e) = kn_ipBuckets e"
  "kn_cfg (touch_wide now ip act key e) = kn_cfg e" "kn_subnetV4Buckets (touch_wide now ip act key e) = kn_subnetV4Buckets e"
  "kn_subnetV6Buckets (touch_wide now ip act key e) = kn_subnetV6Buckets e" "kn_maxWideBuckets (touch_wide now ip act key e) = kn_maxWideBuckets e"
  "kn_maxSubnetBuckets (touch_wide now ip act key e) = kn_maxSubnetBuckets e"
  by (simp_all add: touch_wide_def evictOldestWideV4Locked_def Let_def)

lemma touch_ok:
  assumes "engine_ok e" and "key \<noteq> []"
  shows "engine_ok (touch_v4 now ip act key e)" "engine_ok (touch_v6 now ip act key e)" "engine_ok (touch_wide now ip act key e)"
proof -
  have pos: "0 < kn_maxSubnetBuckets e" "0 < kn_maxWideBuckets e" using assms by (simp_all add: engine_ok_unfold)
  have b: "v4_table.bounded e" "v6_table.bounded e" "wide_table.bounded e" using assms by (simp_all add: engine_ok_def)
  show "engine_ok (touch_v4 now ip act key e)"
    using v4_table.bounded_touch [OF b(1) assms(2) pos(1)] assms(1) by (simp add: engine_ok_unfold touch_v4_frame)
  show "engine_ok (touch_v6 now ip act key e)"
    using v6_table.bounded_touch [OF b(2) assms(2) pos(1)] assms(1) by (simp add: engine_ok_unfold touch_v6_frame)
  show "engine_ok (touch_wide now ip act key e)"
    using wide_table.bounded_touch [OF b(3) assms(2) pos(2)] assms(1) by (simp add: engine_ok_unfold touch_wide_frame)
qed

lemma aggregate_ok: "engine_ok e \<Longrightarrow> engine_ok (aggregate_packet now pkt e)"
  by (auto simp: aggregate_packet_def Let_def touch_ok split: prod.split)

section \<open>Induction over the rule pipeline\<close>

text \<open>
  Every rule leaves the ingest record alone, strikes the source while its cool-down is over, or raises an
  event for an aggregate bucket that is in its table. A predicate that these steps keep holds
  after the pipeline.
\<close>

lemma unchanged_counters:
  "g\<lparr> ig_engine := (ig_engine g)\<lparr> kn_velocityBurstsTotal := kn_velocityBurstsTotal (ig_engine g),
      kn_portscansTotal := kn_portscansTotal (ig_engine g) \<rparr> \<rparr> = g"
  by simp

lemma pipeline_induct:
  fixes P :: "'l ingest \<Rightarrow> bool"
  assumes base: "P g"
    and S: "\<And>g rid dec sc v p. P g \<Longrightarrow> ready rid (packet_now en pkt) g \<Longrightarrow>
       P (strike en rid pkt dec sc (g\<lparr> ig_engine := (ig_engine g)\<lparr> kn_velocityBurstsTotal := v, kn_portscansTotal := p \<rparr> \<rparr>))"
    and A4: "\<And>g key b sev sc conf meta dec n. P g \<Longrightarrow> key \<noteq> [] \<Longrightarrow> gm_get (kn_subnetV4Buckets (ig_engine g)) key = Some b \<Longrightarrow>
       P (aggregate_event en (packet_now en pkt) (ip_string (pk_SrcIP pkt)) key ''NET.INGRESS.SUBNET_V4'' sev sc conf b meta
            (resolveAction (ig_engine g) ''NET.INGRESS.SUBNET_V4'') dec
            (g\<lparr> ig_engine := (ig_engine g)\<lparr>
                kn_subnetV4Buckets := gm_put key (b\<lparr> sb_LastStrikeAt := packet_now en pkt \<rparr>) (kn_subnetV4Buckets (ig_engine g)),
                kn_subnetStrikesTotal := n \<rparr> \<rparr>))"
    and A6: "\<And>g key b sev sc conf meta dec n. P g \<Longrightarrow> key \<noteq> [] \<Longrightarrow> gm_get (kn_subnetV6Buckets (ig_engine g)) key = Some b \<Longrightarrow>
       P (aggregate_event en (packet_now en pkt) (ip_string (pk_SrcIP pkt)) key ''NET.INGRESS.SUBNET_V6'' sev sc conf b meta
            (resolveAction (ig_engine g) ''NET.INGRESS.SUBNET_V6'') dec
            (g\<lparr> ig_engine := (ig_engine g)\<lparr>
                kn_subnetV6Buckets := gm_put key (b\<lparr> sb_LastStrikeAt := packet_now en pkt \<rparr>) (kn_subnetV6Buckets (ig_engine g)),
                kn_subnetStrikesTotal := n \<rparr> \<rparr>))"
    and AW: "\<And>g key b sev sc conf meta dec. P g \<Longrightarrow> key \<noteq> [] \<Longrightarrow> gm_get (kn_wideV4Buckets (ig_engine g)) key = Some b \<Longrightarrow>
       P (aggregate_event en (packet_now en pkt) (ip_string (pk_SrcIP pkt)) key ''NET.INGRESS.WIDE_V4'' sev sc conf b meta
            ''warn'' dec
            (g\<lparr> ig_engine := (ig_engine g)\<lparr>
                kn_wideV4Buckets := gm_put key (b\<lparr> sb_LastStrikeAt := packet_now en pkt \<rparr>) (kn_wideV4Buckets (ig_engine g)) \<rparr> \<rparr>))"
  shows "P (evaluate_rules en pkt g)"
proof -
  have S0: "P (strike en rid pkt dec sc g)" if "P g" "ready rid (packet_now en pkt) g" for g rid dec sc
    using S [OF that, where dec = dec and sc = sc and v = "kn_velocityBurstsTotal (ig_engine g)" and p = "kn_portscansTotal (ig_engine g)"]
    by (simp only: unchanged_counters)
  have SV: "P (strike en rid pkt dec sc (g\<lparr> ig_engine := (ig_engine g)\<lparr> kn_velocityBurstsTotal := v \<rparr> \<rparr>))"
    if "P g" "ready rid (packet_now en pkt) g" for g rid dec sc v
    using S [OF that, where dec = dec and sc = sc and v = v and p = "kn_portscansTotal (ig_engine g)"] by simp
  have SP: "P (strike en rid pkt dec sc (count_scan g))"
    if "P g" "ready rid (packet_now en pkt) g" for g rid dec sc
    using S [OF that, where dec = dec and sc = sc and v = "kn_velocityBurstsTotal (ig_engine g)"
        and p = "kn_portscansTotal (ig_engine g) + 1"]
    by (simp add: count_scan_def)
  have r1: "P (rule_threat_intel en pkt g)" if "P g" for g using that S0 by (simp add: rule_threat_intel_def Let_def)
  have r2: "P (rule_malformed en pkt g)" if "P g" for g using that S0 by (simp add: rule_malformed_def)
  have r3: "P (rule_velocity en pkt g)" if "P g" for g using that SV by (simp add: rule_velocity_def)
  have r4: "P (rule_syn_flood en pkt g)" if "P g" for g using that S0 by (simp add: rule_syn_flood_def Let_def)
  have r5: "P (rule_port_scan en pkt g)" if "P g" for g using that SP by (simp add: rule_port_scan_def Let_def)
  have r6: "P (rule_ip_rate en pkt g)" if "P g" for g using that S0 by (simp add: rule_ip_rate_def Let_def)
  have r7: "P (rule_subnet_v4 en pkt g)" if "P g" for g
    using that A4 by (auto simp: rule_subnet_v4_def Let_def split: prod.split option.split)
  have r8: "P (rule_subnet_v6 en pkt g)" if "P g" for g
    using that A6 by (auto simp: rule_subnet_v6_def Let_def split: prod.split option.split)
  have r9: "P (rule_wide_v4 en pkt g)" if "P g" for g
    using that AW by (auto simp: rule_wide_v4_def Let_def split: prod.split option.split)
  show ?thesis unfolding evaluate_rules_def by (intro r1 r2 r3 r4 r5 r6 r7 r8 r9 base)
qed

subsection \<open>What one step does\<close>

definition strike_event :: "'l env \<Rightarrow> string \<Rightarrow> IngressPacket \<Rightarrow> string \<Rightarrow> int \<Rightarrow> 'l ingest \<Rightarrow> KineticEvent" where
  "strike_event en rid pkt dec sc g =
     fst (createEventLocked en rid pkt (fst (snd (SubnetKeys (pk_SrcIP pkt)))) dec sc (ig_bucket g, ig_engine g, ig_state g))"

lemma strike_event_fields:
  "ke_RuleID (strike_event en rid pkt dec sc g) = rid" "ke_Sensor (strike_event en rid pkt dec sc g) = ''xdp_ingress''"
  "ke_Action (strike_event en rid pkt dec sc g) = resolveAction (ig_engine g) rid"
  "ke_Time (strike_event en rid pkt dec sc g) = packet_now en pkt"
  by (simp_all add: strike_event_def createEventLocked_def generateEventID_def randomID_def ComputeFingerprint_def Let_def
      split: prod.split)

lemma strike_fields:
  "ig_events (strike en rid pkt dec sc g) = ig_events g @ [strike_event en rid pkt dec sc g]"
  "ig_engine (strike en rid pkt dec sc g) =
     (ig_engine g)\<lparr> kn_eventQueue := queue_push (strike_event en rid pkt dec sc g) (kn_eventQueue (ig_engine g)) \<rparr>"
  "ib_RuleLastSeen (ig_bucket (strike en rid pkt dec sc g)) = gm_put rid (packet_now en pkt) (ib_RuleLastSeen (ig_bucket g))"
  "enforcement_view (ig_state (strike en rid pkt dec sc g)) = enforcement_view (ig_state g)"
  "bucket_ok (ig_bucket (strike en rid pkt dec sc g)) = bucket_ok (ig_bucket g)"
proof -
  show "ig_events (strike en rid pkt dec sc g) = ig_events g @ [strike_event en rid pkt dec sc g]"
    "ig_engine (strike en rid pkt dec sc g) =
     (ig_engine g)\<lparr> kn_eventQueue := queue_push (strike_event en rid pkt dec sc g) (kn_eventQueue (ig_engine g)) \<rparr>"
    "ib_RuleLastSeen (ig_bucket (strike en rid pkt dec sc g)) = gm_put rid (packet_now en pkt) (ib_RuleLastSeen (ig_bucket g))"
    "bucket_ok (ig_bucket (strike en rid pkt dec sc g)) = bucket_ok (ig_bucket g)"
    by (simp_all add: strike_event_def strike_def createEventLocked_def generateEventID_def randomID_def Let_def bucket_ok_def)
  show "enforcement_view (ig_state (strike en rid pkt dec sc g)) = enforcement_view (ig_state g)"
    by (simp add: strike_def createEventLocked_def generateEventID_def randomID_def Let_def view_AddEvent)
       (simp add: enforcement_view_def)
qed

definition agg_event :: "'l env \<Rightarrow> gotime \<Rightarrow> string \<Rightarrow> string \<Rightarrow> string \<Rightarrow> string \<Rightarrow> int \<Rightarrow> rat \<Rightarrow> SubnetBucket
    \<Rightarrow> (string, metavalue) gomap \<Rightarrow> string \<Rightarrow> string \<Rightarrow> 'l ingest \<Rightarrow> KineticEvent" where
  "agg_event en now ip key rid sev sc conf b meta act dec g =
     last (ig_events (aggregate_event en now ip key rid sev sc conf b meta act dec g))"

lemma aggregate_event_fields:
  "ig_events (aggregate_event en now ip key rid sev sc conf b meta act dec g) =
     ig_events g @ [agg_event en now ip key rid sev sc conf b meta act dec g]"
  "ig_bucket (aggregate_event en now ip key rid sev sc conf b meta act dec g) = ig_bucket g"
  "ig_engine (aggregate_event en now ip key rid sev sc conf b meta act dec g) =
     (ig_engine g)\<lparr> kn_eventQueue := queue_push (agg_event en now ip key rid sev sc conf b meta act dec g)
        (kn_eventQueue (ig_engine g)) \<rparr>"
  "enforcement_view (ig_state (aggregate_event en now ip key rid sev sc conf b meta act dec g)) = enforcement_view (ig_state g)"
  "ke_RuleID (agg_event en now ip key rid sev sc conf b meta act dec g) = rid"
  "ke_Action (agg_event en now ip key rid sev sc conf b meta act dec g) = act"
  "ke_Sensor (agg_event en now ip key rid sev sc conf b meta act dec g) = ''radix_subnet_aggregator''"
  by (simp_all add: agg_event_def aggregate_event_def generateEventID_def randomID_def ComputeFingerprint_def Let_def
      enforcement_view_def split: prod.split)

lemmas step_fields = strike_fields strike_event_fields aggregate_event_fields

section \<open>The pipeline keeps the invariant\<close>

lemma engine_ok_push:
  assumes "engine_ok e" and "q = kn_eventQueue e" shows "engine_ok (e\<lparr> kn_eventQueue := queue_push evt q \<rparr>)"
proof -
  have "q_capacity (queue_push evt (kn_eventQueue e)) = q_capacity (kn_eventQueue e)" by (simp add: queue_push_def Let_def)
  with assms evq.good_push [of "kn_eventQueue e" evt] show ?thesis by (simp add: engine_ok_unfold)
qed

lemma engine_ok_counters:
  "engine_ok (e\<lparr> kn_velocityBurstsTotal := v, kn_portscansTotal := p \<rparr>) = engine_ok e"
  "engine_ok (e\<lparr> kn_hitsTotal := h \<rparr>) = engine_ok e"
  "engine_ok (e\<lparr> kn_trackingDropsTotal := h \<rparr>) = engine_ok e"
  by (simp_all add: engine_ok_unfold)

lemma table_put_existing:
  assumes "table_ok m" and "gm_get m k = Some b"
  shows "table_ok (gm_put k b' m)" and "length (gm_put k b' m) = length m"
proof -
  have "k \<in> fst ` set m" using assms(2) by (metis gm_has_def gm_has_iff_fst option.distinct(1))
  then have "k \<noteq> []" using assms(1) unfolding table_ok_def by blast
  with assms(1) show "table_ok (gm_put k b' m)" by simp
  show "length (gm_put k b' m) = length m" using assms(2) by (simp add: length_gm_put gm_has_def)
qed

lemma engine_ok_strike_at:
  assumes "engine_ok e"
  shows "gm_get (kn_subnetV4Buckets e) k = Some b \<Longrightarrow>
       engine_ok (e\<lparr> kn_subnetV4Buckets := gm_put k (b\<lparr> sb_LastStrikeAt := t \<rparr>) (kn_subnetV4Buckets e), kn_subnetStrikesTotal := n \<rparr>)"
    and "gm_get (kn_subnetV6Buckets e) k = Some b \<Longrightarrow>
       engine_ok (e\<lparr> kn_subnetV6Buckets := gm_put k (b\<lparr> sb_LastStrikeAt := t \<rparr>) (kn_subnetV6Buckets e), kn_subnetStrikesTotal := n \<rparr>)"
    and "gm_get (kn_wideV4Buckets e) k = Some b \<Longrightarrow>
       engine_ok (e\<lparr> kn_wideV4Buckets := gm_put k (b\<lparr> sb_LastStrikeAt := t \<rparr>) (kn_wideV4Buckets e) \<rparr>)"
  using assms by (auto simp: engine_ok_unfold table_put_existing)

lemma evaluate_rules_ok:
  assumes "engine_ok (ig_engine g)" and "bucket_ok (ig_bucket g)"
  shows "engine_ok (ig_engine (evaluate_rules en pkt g)) \<and> bucket_ok (ig_bucket (evaluate_rules en pkt g))"
proof (rule pipeline_induct [where P = "\<lambda>g. engine_ok (ig_engine g) \<and> bucket_ok (ig_bucket g)"])
qed (use assms in \<open>auto simp: step_fields engine_ok_counters intro!: engine_ok_push engine_ok_strike_at\<close>)

lemma evaluate_rules_frame:
  "kn_ipBuckets (ig_engine (evaluate_rules en pkt g)) = kn_ipBuckets (ig_engine g)
   \<and> kn_cfg (ig_engine (evaluate_rules en pkt g)) = kn_cfg (ig_engine g)
   \<and> kn_rules (ig_engine (evaluate_rules en pkt g)) = kn_rules (ig_engine g)
   \<and> kn_allowlist (ig_engine (evaluate_rules en pkt g)) = kn_allowlist (ig_engine g)
   \<and> kh_secondHistory (ig_engine (evaluate_rules en pkt g)) = kh_secondHistory (ig_engine g)
   \<and> kh_minuteHistory (ig_engine (evaluate_rules en pkt g)) = kh_minuteHistory (ig_engine g)
   \<and> kh_startedAt (ig_engine (evaluate_rules en pkt g)) = kh_startedAt (ig_engine g)
   \<and> enforcement_view (ig_state (evaluate_rules en pkt g)) = enforcement_view (ig_state g)"
proof (rule pipeline_induct [where P = "\<lambda>h. kn_ipBuckets (ig_engine h) = kn_ipBuckets (ig_engine g)
   \<and> kn_cfg (ig_engine h) = kn_cfg (ig_engine g) \<and> kn_rules (ig_engine h) = kn_rules (ig_engine g)
   \<and> kn_allowlist (ig_engine h) = kn_allowlist (ig_engine g)
   \<and> kh_secondHistory (ig_engine h) = kh_secondHistory (ig_engine g)
   \<and> kh_minuteHistory (ig_engine h) = kh_minuteHistory (ig_engine g)
   \<and> kh_startedAt (ig_engine h) = kh_startedAt (ig_engine g)
   \<and> enforcement_view (ig_state h) = enforcement_view (ig_state g)"])
qed (simp_all add: step_fields)

lemmas rules_frame [simp] =
  evaluate_rules_frame [THEN conjunct1]
  evaluate_rules_frame [THEN conjunct2, THEN conjunct1]
  evaluate_rules_frame [THEN conjunct2, THEN conjunct2, THEN conjunct1]
  evaluate_rules_frame [THEN conjunct2, THEN conjunct2, THEN conjunct2, THEN conjunct1]
  evaluate_rules_frame [THEN conjunct2, THEN conjunct2, THEN conjunct2, THEN conjunct2, THEN conjunct1]
  evaluate_rules_frame [THEN conjunct2, THEN conjunct2, THEN conjunct2, THEN conjunct2, THEN conjunct2, THEN conjunct1]
  evaluate_rules_frame [THEN conjunct2, THEN conjunct2, THEN conjunct2, THEN conjunct2, THEN conjunct2, THEN conjunct2, THEN conjunct1]
  evaluate_rules_frame [THEN conjunct2, THEN conjunct2, THEN conjunct2, THEN conjunct2, THEN conjunct2, THEN conjunct2, THEN conjunct2]

lemma touch_meta:
  "kn_rules (touch_v4 now ip act key e) = kn_rules e" "kn_allowlist (touch_v4 now ip act key e) = kn_allowlist e"
  "kh_startedAt (touch_v4 now ip act key e) = kh_startedAt e"
  "kn_rules (touch_v6 now ip act key e) = kn_rules e" "kn_allowlist (touch_v6 now ip act key e) = kn_allowlist e"
  "kh_startedAt (touch_v6 now ip act key e) = kh_startedAt e"
  "kn_rules (touch_wide now ip act key e) = kn_rules e" "kn_allowlist (touch_wide now ip act key e) = kn_allowlist e"
  "kh_startedAt (touch_wide now ip act key e) = kh_startedAt e"
  by (simp_all add: touch_v4_def touch_v6_def touch_wide_def evictOldestSubnetV4Locked_def
      evictOldestSubnetV6Locked_def evictOldestWideV4Locked_def Let_def)

lemma aggregate_frame [simp]:
  "kn_ipBuckets (aggregate_packet now pkt e) = kn_ipBuckets e" "kn_cfg (aggregate_packet now pkt e) = kn_cfg e"
  "kn_rules (aggregate_packet now pkt e) = kn_rules e" "kn_allowlist (aggregate_packet now pkt e) = kn_allowlist e"
  "kh_secondHistory (aggregate_packet now pkt e) = kh_secondHistory e"
  "kh_minuteHistory (aggregate_packet now pkt e) = kh_minuteHistory e"
  "kh_startedAt (aggregate_packet now pkt e) = kh_startedAt e"
  by (simp_all add: aggregate_packet_def Let_def touch_v4_frame touch_v6_frame touch_wide_frame touch_meta split: prod.split)

lemma history_frame [simp]:
  fixes e :: KineticEngine
  shows "kn_ipBuckets (recordTrafficHistoryLocked s h a y k e) = kn_ipBuckets e"
    "kn_cfg (recordTrafficHistoryLocked s h a y k e) = kn_cfg e"
    "kn_rules (recordTrafficHistoryLocked s h a y k e) = kn_rules e"
    "kn_allowlist (recordTrafficHistoryLocked s h a y k e) = kn_allowlist e"
    "kh_startedAt (recordTrafficHistoryLocked s h a y k e) = kh_startedAt e"
  by (simp_all add: recordTrafficHistoryLocked_def)

lemma evict_stale_frame [simp]:
  "kn_cfg (evictStaleIPBucketLocked now e) = kn_cfg e" "kn_rules (evictStaleIPBucketLocked now e) = kn_rules e"
  "kn_allowlist (evictStaleIPBucketLocked now e) = kn_allowlist e"
  "kh_secondHistory (evictStaleIPBucketLocked now e) = kh_secondHistory e"
  "kh_minuteHistory (evictStaleIPBucketLocked now e) = kh_minuteHistory e"
  "kh_startedAt (evictStaleIPBucketLocked now e) = kh_startedAt e"
  by (simp_all add: evictStaleIPBucketLocked_def split: option.split)

lemma evict_stale_ok:
  assumes "engine_ok e" shows "engine_ok (evictStaleIPBucketLocked now e)"
proof (cases "stale_scan now (kn_ipBuckets e) ([], 0)")
  case (Some k)
  have "int (length (gm_del k (kn_ipBuckets e))) \<le> int (length (kn_ipBuckets e))" using length_gm_del_le by simp
  with assms Some show ?thesis by (auto simp: evictStaleIPBucketLocked_def engine_ok_unfold)
qed (use assms in \<open>simp add: evictStaleIPBucketLocked_def\<close>)

text \<open>A known source keeps its bucket, a new one gets a fresh bucket unless no capacity is configured at all.\<close>

lemma admit_source_cases:
  assumes ok: "engine_ok e" and a: "admit_source now sec pkt e = (r, e')"
  defines "k \<equiv> ip_string (pk_SrcIP pkt)"
  shows "engine_ok e'" and "kn_cfg e' = kn_cfg e" "kn_rules e' = kn_rules e" "kn_allowlist e' = kn_allowlist e"
    and "kh_secondHistory e' = kh_secondHistory e" "kh_minuteHistory e' = kh_minuteHistory e" "kh_startedAt e' = kh_startedAt e"
    and "r = None \<longleftrightarrow> gm_get (kn_ipBuckets e) k = None \<and> kc_MaxTrackingIPs (kn_cfg e) \<le> 0"
    and "\<And>b. r = Some b \<Longrightarrow> gm_get (kn_ipBuckets e') k = Some b \<and> bucket_ok b"
    and "\<And>b. gm_get (kn_ipBuckets e) k = Some b \<Longrightarrow> r = Some b \<and> e' = e"
    and "\<And>b. gm_get (kn_ipBuckets e) k = None \<Longrightarrow> r = Some b \<Longrightarrow> b = new_ip_bucket now sec pkt"
proof -
  define e1 where "e1 = (if int (length (kn_ipBuckets e)) \<ge> kc_MaxTrackingIPs (kn_cfg e) then evictStaleIPBucketLocked now e else e)"
  let ?full = "int (length (kn_ipBuckets e1)) \<ge> kc_MaxTrackingIPs (kn_cfg e1)"
  have known: "r = Some b \<and> e' = e" if "gm_get (kn_ipBuckets e) k = Some b" for b
    using a that by (simp add: admit_source_def k_def)
  have new: "(r, e') = (if ?full then (None, e1\<lparr> kn_trackingDropsTotal := kn_trackingDropsTotal e1 + 1 \<rparr>)
      else (Some (new_ip_bucket now sec pkt), e1\<lparr> kn_ipBuckets := gm_put k (new_ip_bucket now sec pkt) (kn_ipBuckets e1) \<rparr>))"
    if "gm_get (kn_ipBuckets e) k = None"
    using a that by (simp add: admit_source_def k_def e1_def Let_def split: if_splits)
  have ok1: "engine_ok e1" using ok by (simp add: e1_def evict_stale_ok)
  have e1: "kn_cfg e1 = kn_cfg e" "kn_rules e1 = kn_rules e" "kn_allowlist e1 = kn_allowlist e"
    "kh_secondHistory e1 = kh_secondHistory e" "kh_minuteHistory e1 = kh_minuteHistory e" "kh_startedAt e1 = kh_startedAt e"
    by (simp_all add: e1_def)
  have ins: "engine_ok (e1\<lparr> kn_ipBuckets := gm_put k (new_ip_bucket now sec pkt) (kn_ipBuckets e1) \<rparr>)" if "\<not> ?full"
    using ok1 that bucket_ok_new by (auto simp: engine_ok_unfold length_gm_put k_def)
  have full: "?full \<longleftrightarrow> kc_MaxTrackingIPs (kn_cfg e) \<le> 0"
  proof
    assume f: ?full
    show "kc_MaxTrackingIPs (kn_cfg e) \<le> 0"
    proof (rule ccontr)
      assume pos: "\<not> kc_MaxTrackingIPs (kn_cfg e) \<le> 0"
      with f e1(1) have ge: "int (length (kn_ipBuckets e)) \<ge> kc_MaxTrackingIPs (kn_cfg e)"
        by (auto simp: e1_def split: if_splits)
      moreover from this pos have "0 < length (kn_ipBuckets e)" by linarith
      with ok ip_table.sz_ev [of e now] have "Suc (length (kn_ipBuckets e1)) = length (kn_ipBuckets e)"
        using ge by (simp add: e1_def engine_ok_unfold)
      ultimately show False using f e1(1) ok by (simp add: engine_ok_unfold)
    qed
  qed (use e1(1) in simp)
  show "engine_ok e'" and "kn_cfg e' = kn_cfg e" "kn_rules e' = kn_rules e" "kn_allowlist e' = kn_allowlist e"
    and "kh_secondHistory e' = kh_secondHistory e" "kh_minuteHistory e' = kh_minuteHistory e" "kh_startedAt e' = kh_startedAt e"
    and "r = None \<longleftrightarrow> gm_get (kn_ipBuckets e) k = None \<and> kc_MaxTrackingIPs (kn_cfg e) \<le> 0"
    using known new ok ok1 ins e1 full
    by (cases "gm_get (kn_ipBuckets e) k"; auto simp: engine_ok_counters split: if_splits)+
  show "\<And>b. r = Some b \<Longrightarrow> gm_get (kn_ipBuckets e') k = Some b \<and> bucket_ok b"
    using known new ok bucket_ok_new
    by (cases "gm_get (kn_ipBuckets e) k") (auto simp: engine_ok_unfold split: if_splits)
  show "\<And>b. gm_get (kn_ipBuckets e) k = Some b \<Longrightarrow> r = Some b \<and> e' = e" by (rule known)
  show "\<And>b. gm_get (kn_ipBuckets e) k = None \<Longrightarrow> r = Some b \<Longrightarrow> b = new_ip_bucket now sec pkt"
    using new by (auto split: if_splits)
qed

section \<open>Ingesting a packet\<close>

definition observed :: "KineticEngine \<Rightarrow> IngressPacket \<Rightarrow> bool" where
  "observed e pkt \<longleftrightarrow> kc_Enabled (kn_cfg e) \<and> pk_SrcIP pkt \<noteq> [] \<and> \<not> isAllowlistedLocked (kn_allowlist e) (pk_SrcIP pkt)"

lemma IngestPacket_ignored: "\<not> observed e pkt \<Longrightarrow> IngestPacket en pkt (e, s) = ([], e, s)"
  by (auto simp: IngestPacket_def observed_def)

definition counted :: "IngressPacket \<Rightarrow> KineticEngine \<Rightarrow> KineticEngine" where
  "counted pkt e = e\<lparr> kn_hitsTotal := kn_hitsTotal e + of_int (sampleCount pkt) \<rparr>"

text \<open>The ingest record the rules start from, and the one they leave.\<close>

definition before_rules :: "'l env \<Rightarrow> IngressPacket \<Rightarrow> IPTrackingBucket \<Rightarrow> KineticEngine \<Rightarrow> 'l State \<Rightarrow> 'l ingest" where
  "before_rules en pkt b e s =
     (let now = packet_now en pkt; sec = secEpoch now pkt
      in \<lparr> ig_events = [], ig_bucket = track_flags pkt (track_port pkt (record_activity now sec pkt b)),
           ig_engine = aggregate_packet now pkt
             (recordTrafficHistoryLocked sec (sampleCount pkt) (activityCount pkt) (synDelta pkt) (ackDelta pkt) e),
           ig_state = s \<rparr>)"

definition stored :: "IngressPacket \<Rightarrow> 'l ingest \<Rightarrow> KineticEngine" where
  "stored pkt g = (ig_engine g)\<lparr> kn_ipBuckets := gm_put (ip_string (pk_SrcIP pkt)) (ig_bucket g) (kn_ipBuckets (ig_engine g)) \<rparr>"

lemma IngestPacket_admitted:
  assumes "observed e pkt" and "admit_source (packet_now en pkt) (secEpoch (packet_now en pkt) pkt) pkt (counted pkt e) = (Some b, e1)"
  shows "IngestPacket en pkt (e, s) =
     (let g = evaluate_rules en pkt (before_rules en pkt b e1 s)
      in (ig_events g, stored pkt g, syncTelemetryStateLocked (stored pkt g) (ig_state g)))"
  using assms by (simp add: IngestPacket_def observed_def counted_def before_rules_def stored_def Let_def)

lemma IngestPacket_refused:
  assumes "observed e pkt" and "admit_source (packet_now en pkt) (secEpoch (packet_now en pkt) pkt) pkt (counted pkt e) = (None, e1)"
  shows "IngestPacket en pkt (e, s) = ([], e1, s)"
  using assms by (simp add: IngestPacket_def observed_def counted_def Let_def)

lemma counted_ok [simp]: "engine_ok (counted pkt e) = engine_ok e"
  by (simp add: counted_def engine_ok_counters)

lemma counted_frame [simp]:
  "kn_ipBuckets (counted pkt e) = kn_ipBuckets e" "kn_cfg (counted pkt e) = kn_cfg e" "kn_rules (counted pkt e) = kn_rules e"
  "kn_allowlist (counted pkt e) = kn_allowlist e" "kh_secondHistory (counted pkt e) = kh_secondHistory e"
  "kh_minuteHistory (counted pkt e) = kh_minuteHistory e" "kh_startedAt (counted pkt e) = kh_startedAt e"
  by (simp_all add: counted_def)

lemma before_rules_ok:
  assumes "engine_ok e" and "bucket_ok b"
  shows "engine_ok (ig_engine (before_rules en pkt b e s)) \<and> bucket_ok (ig_bucket (before_rules en pkt b e s))"
  using assms by (simp add: before_rules_def Let_def aggregate_ok record_history_frame bucket_ok_record bucket_ok_port bucket_ok_flags)

lemma before_rules_frame [simp]:
  "kn_ipBuckets (ig_engine (before_rules en pkt b e s)) = kn_ipBuckets e" "kn_cfg (ig_engine (before_rules en pkt b e s)) = kn_cfg e"
  "kn_rules (ig_engine (before_rules en pkt b e s)) = kn_rules e" "kn_allowlist (ig_engine (before_rules en pkt b e s)) = kn_allowlist e"
  "kh_startedAt (ig_engine (before_rules en pkt b e s)) = kh_startedAt e"
  "ig_state (before_rules en pkt b e s) = s" "ig_events (before_rules en pkt b e s) = []"
  by (simp_all add: before_rules_def Let_def)

lemma stored_ok:
  assumes "engine_ok (ig_engine g)" and "bucket_ok (ig_bucket g)" and "gm_get (kn_ipBuckets (ig_engine g)) (ip_string (pk_SrcIP pkt)) = Some b"
  shows "engine_ok (stored pkt g)"
proof -
  have "table_ok (kn_ipBuckets (ig_engine g))" using assms(1) by (simp add: engine_ok_unfold)
  from table_put_existing [OF this assms(3)] assms(1,2) show ?thesis by (auto simp: stored_def engine_ok_unfold)
qed

lemma IngestPacket_ok:
  assumes ok: "engine_ok e" and call: "IngestPacket en pkt (e, s) = (evs, e', s')"
  shows "engine_ok e' \<and> kn_cfg e' = kn_cfg e \<and> kn_rules e' = kn_rules e \<and> kn_allowlist e' = kn_allowlist e"
proof (cases "observed e pkt")
  case False
  with call ok show ?thesis by (simp add: IngestPacket_ignored)
next
  case True
  let ?now = "packet_now en pkt"
  obtain r e1 where a: "admit_source ?now (secEpoch ?now pkt) pkt (counted pkt e) = (r, e1)" by force
  have ok': "engine_ok (counted pkt e)" using ok by simp
  note adm = admit_source_cases [OF ok' a]
  show ?thesis
  proof (cases r)
    case None
    with adm call IngestPacket_refused [OF True a [unfolded None]] show ?thesis by simp
  next
    case (Some b)
    let ?g = "evaluate_rules en pkt (before_rules en pkt b e1 s)"
    from adm(9) [OF Some] have b: "gm_get (kn_ipBuckets e1) (ip_string (pk_SrcIP pkt)) = Some b" "bucket_ok b" by auto
    have "engine_ok (ig_engine ?g)" "bucket_ok (ig_bucket ?g)"
      using evaluate_rules_ok before_rules_ok [OF adm(1) b(2)] by blast+
    from stored_ok [OF this, of pkt b] b have "engine_ok (stored pkt ?g)" by simp
    moreover have "e' = stored pkt ?g" using IngestPacket_admitted [OF True a [unfolded Some]] call by (simp add: Let_def)
    ultimately show ?thesis using adm(2-4) by (simp add: stored_def)
  qed
qed

section \<open>Sweep and reconfiguration\<close>

lemma gm_get_filter: "gm_wf m \<Longrightarrow> gm_get (filter P m) k = Some b \<Longrightarrow> gm_get m k = Some b"
  by (simp add: gm_wf_get_iff)

text \<open>The invariant without the bounds a configuration may lower.\<close>

definition shape_ok :: "KineticEngine \<Rightarrow> bool" where
  "shape_ok e \<longleftrightarrow> history_wf e \<and> evq.good (kn_eventQueue e) \<and> q_capacity (kn_eventQueue e) = 250 \<and> capacities_ok e
     \<and> table_ok (kn_ipBuckets e) \<and> table_ok (kn_subnetV4Buckets e) \<and> table_ok (kn_subnetV6Buckets e) \<and> table_ok (kn_wideV4Buckets e)
     \<and> (\<forall>k b. gm_get (kn_ipBuckets e) k = Some b \<longrightarrow> bucket_ok b)
     \<and> (\<forall>k b. gm_get (kn_subnetV4Buckets e) k = Some b \<longrightarrow> length (sb_ActiveIPs b) \<le> 256)
     \<and> (\<forall>k b. gm_get (kn_subnetV6Buckets e) k = Some b \<longrightarrow> length (sb_ActiveIPs b) \<le> 256)
     \<and> (\<forall>k b. gm_get (kn_wideV4Buckets e) k = Some b \<longrightarrow> length (sb_ActiveIPs b) \<le> 1024)"

lemma engine_ok_shape:
  "engine_ok e \<longleftrightarrow> shape_ok e \<and> int (length (kn_ipBuckets e)) \<le> kc_MaxTrackingIPs (kn_cfg e)
     \<and> int (length (kn_subnetV4Buckets e)) \<le> kn_maxSubnetBuckets e \<and> int (length (kn_subnetV6Buckets e)) \<le> kn_maxSubnetBuckets e
     \<and> int (length (kn_wideV4Buckets e)) \<le> kn_maxWideBuckets e"
  by (auto simp: engine_ok_unfold shape_ok_def)

lemma shape_evict:
  assumes "shape_ok e"
  shows "shape_ok (evictStaleIPBucketLocked now e)" "shape_ok (evictOldestSubnetV4Locked e)"
    "shape_ok (evictOldestSubnetV6Locked e)" "shape_ok (evictOldestWideV4Locked e)"
  using assms
  by (auto simp: shape_ok_def history_wf_def capacities_ok_def evictStaleIPBucketLocked_def evictOldestSubnetV4Locked_def
      evictOldestSubnetV6Locked_def evictOldestWideV4Locked_def Let_def split: option.splits)

lemma evict_agg_frame [simp]:
  "kn_ipBuckets (evictOldestSubnetV4Locked e) = kn_ipBuckets e" "kn_cfg (evictOldestSubnetV4Locked e) = kn_cfg e"
  "kn_ipBuckets (evictOldestSubnetV6Locked e) = kn_ipBuckets e" "kn_cfg (evictOldestSubnetV6Locked e) = kn_cfg e"
  "kn_ipBuckets (evictOldestWideV4Locked e) = kn_ipBuckets e" "kn_cfg (evictOldestWideV4Locked e) = kn_cfg e"
  "kn_subnetV4Buckets (evictOldestSubnetV6Locked e) = kn_subnetV4Buckets e" "kn_maxSubnetBuckets (evictOldestSubnetV6Locked e) = kn_maxSubnetBuckets e"
  "kn_subnetV4Buckets (evictOldestWideV4Locked e) = kn_subnetV4Buckets e" "kn_maxSubnetBuckets (evictOldestWideV4Locked e) = kn_maxSubnetBuckets e"
  "kn_subnetV6Buckets (evictOldestWideV4Locked e) = kn_subnetV6Buckets e"
  "kn_rules (evictOldestSubnetV4Locked e) = kn_rules e" "kn_rules (evictOldestSubnetV6Locked e) = kn_rules e"
  "kn_rules (evictOldestWideV4Locked e) = kn_rules e"
  by (simp_all add: evictOldestSubnetV4Locked_def evictOldestSubnetV6Locked_def evictOldestWideV4Locked_def Let_def)

lemma gm_all_filter:
  "gm_wf m \<Longrightarrow> \<forall>k b. gm_get m k = Some b \<longrightarrow> Q b \<Longrightarrow> \<forall>k b. gm_get (filter P m) k = Some b \<longrightarrow> Q b"
  by (auto simp: gm_wf_get_iff)

lemma Sweep_fields:
  assumes "Sweep now (e, s) = (e', s')"
  shows "kn_ipBuckets e' = filter (\<lambda>kb. \<not> idle_longer ib_LastSeen hour now kb) (kn_ipBuckets e)"
    "kn_subnetV4Buckets e' = filter (\<lambda>kb. \<not> idle_longer sb_LastSeen (300 * second) now kb) (kn_subnetV4Buckets e)"
    "kn_subnetV6Buckets e' = filter (\<lambda>kb. \<not> idle_longer sb_LastSeen (300 * second) now kb) (kn_subnetV6Buckets e)"
    "kn_wideV4Buckets e' = filter (\<lambda>kb. \<not> idle_longer sb_LastSeen (300 * second) now kb) (kn_wideV4Buckets e)"
    "kn_cfg e' = kn_cfg e" "kn_rules e' = kn_rules e" "kn_allowlist e' = kn_allowlist e" "kn_eventQueue e' = kn_eventQueue e"
    "kn_maxSubnetBuckets e' = kn_maxSubnetBuckets e" "kn_maxWideBuckets e' = kn_maxWideBuckets e"
    "kh_secondHistory e' = kh_secondHistory e" "kh_minuteHistory e' = kh_minuteHistory e"
    "s' = syncTelemetryStateLocked e' s"
  using assms by (auto simp: Sweep_def Let_def split: if_splits)

lemma length_filter_bound: "int (length m) \<le> n \<Longrightarrow> int (length (filter P m)) \<le> n"
  using length_filter_le [of P m] by linarith

lemma Sweep_ok:
  assumes "engine_ok e" and "Sweep now (e, s) = (e', s')"
  shows "engine_ok e'"
proof -
  note f = Sweep_fields [OF assms(2)]
  have sh: "shape_ok e" using assms(1) by (simp add: engine_ok_shape)
  then have wf: "gm_wf (kn_ipBuckets e)" "gm_wf (kn_subnetV4Buckets e)" "gm_wf (kn_subnetV6Buckets e)" "gm_wf (kn_wideV4Buckets e)"
    by (simp_all add: shape_ok_def table_ok_def)
  from sh have "shape_ok e'"
    unfolding shape_ok_def history_wf_def capacities_ok_def f
    by (elim conjE, intro conjI) (assumption | rule table_ok_filter | rule gm_all_filter [OF wf(1)] gm_all_filter [OF wf(2)]
        gm_all_filter [OF wf(3)] gm_all_filter [OF wf(4)])+
  then show ?thesis using assms(1) by (simp add: engine_ok_shape f length_filter_bound)
qed

lemma shape_tables:
  assumes "shape_ok e"
  shows "table_ok (kn_ipBuckets e)" "table_ok (kn_subnetV4Buckets e)" "table_ok (kn_subnetV6Buckets e)" "table_ok (kn_wideV4Buckets e)"
    "0 \<le> kn_maxSubnetBuckets e" "0 \<le> kn_maxWideBuckets e"
  using assms by (simp_all add: shape_ok_def capacities_ok_def)

text \<open>The four loops of \<open>UpdateConfig\<close>, each with what it leaves alone.\<close>

lemma evict_ip_stage:
  assumes s: "shape_ok e" and b: "0 \<le> kc_MaxTrackingIPs (kn_cfg e)"
  shows "\<exists>e'. evict_while (\<lambda>e. length (kn_ipBuckets e)) (\<lambda>e. kc_MaxTrackingIPs (kn_cfg e)) (evictStaleIPBucketLocked now) e = Some e'
     \<and> int (length (kn_ipBuckets e')) \<le> kc_MaxTrackingIPs (kn_cfg e') \<and> shape_ok e' \<and> kn_cfg e' = kn_cfg e"
  using ip_table.evict_while_returns [OF shape_tables(1) [OF s] b, where Q = "\<lambda>x. shape_ok x \<and> kn_cfg x = kn_cfg e" and now = now]
    s shape_evict(1) by auto

lemma evict_v4_stage:
  assumes s: "shape_ok e"
  shows "\<exists>e'. evict_while (\<lambda>e. length (kn_subnetV4Buckets e)) kn_maxSubnetBuckets evictOldestSubnetV4Locked e = Some e'
     \<and> int (length (kn_subnetV4Buckets e')) \<le> kn_maxSubnetBuckets e' \<and> shape_ok e' \<and> kn_cfg e' = kn_cfg e \<and> kn_ipBuckets e' = kn_ipBuckets e"
proof -
  let ?Q = "\<lambda>x. shape_ok x \<and> kn_cfg x = kn_cfg e \<and> kn_ipBuckets x = kn_ipBuckets e"
  have "\<And>x. ?Q x \<Longrightarrow> ?Q (evictOldestSubnetV4Locked x)" using shape_evict(2) by simp
  from v4_table.evict_while_returns [OF shape_tables(2,5) [OF s], where Q = ?Q, OF _ this] s show ?thesis by auto
qed

lemma evict_v6_stage:
  assumes s: "shape_ok e"
  shows "\<exists>e'. evict_while (\<lambda>e. length (kn_subnetV6Buckets e)) kn_maxSubnetBuckets evictOldestSubnetV6Locked e = Some e'
     \<and> int (length (kn_subnetV6Buckets e')) \<le> kn_maxSubnetBuckets e' \<and> shape_ok e' \<and> kn_cfg e' = kn_cfg e
     \<and> kn_ipBuckets e' = kn_ipBuckets e \<and> kn_subnetV4Buckets e' = kn_subnetV4Buckets e \<and> kn_maxSubnetBuckets e' = kn_maxSubnetBuckets e"
proof -
  let ?Q = "\<lambda>x. shape_ok x \<and> kn_cfg x = kn_cfg e \<and> kn_ipBuckets x = kn_ipBuckets e \<and> kn_subnetV4Buckets x = kn_subnetV4Buckets e"
  have "\<And>x. ?Q x \<Longrightarrow> ?Q (evictOldestSubnetV6Locked x)" using shape_evict(3) by simp
  from v6_table.evict_while_returns [OF shape_tables(3,5) [OF s], where Q = ?Q, OF _ this] s show ?thesis by auto
qed

lemma evict_wide_stage:
  assumes s: "shape_ok e"
  shows "\<exists>e'. evict_while (\<lambda>e. length (kn_wideV4Buckets e)) kn_maxWideBuckets evictOldestWideV4Locked e = Some e'
     \<and> int (length (kn_wideV4Buckets e')) \<le> kn_maxWideBuckets e' \<and> shape_ok e' \<and> kn_cfg e' = kn_cfg e
     \<and> kn_ipBuckets e' = kn_ipBuckets e \<and> kn_subnetV4Buckets e' = kn_subnetV4Buckets e
     \<and> kn_subnetV6Buckets e' = kn_subnetV6Buckets e \<and> kn_maxSubnetBuckets e' = kn_maxSubnetBuckets e"
proof -
  let ?Q = "\<lambda>x. shape_ok x \<and> kn_cfg x = kn_cfg e \<and> kn_ipBuckets x = kn_ipBuckets e \<and> kn_subnetV4Buckets x = kn_subnetV4Buckets e
     \<and> kn_subnetV6Buckets x = kn_subnetV6Buckets e \<and> kn_maxSubnetBuckets x = kn_maxSubnetBuckets e"
  have "\<And>x. ?Q x \<Longrightarrow> ?Q (evictOldestWideV4Locked x)" using shape_evict(4) by simp
  from wide_table.evict_while_returns [OF shape_tables(4,6) [OF s], where Q = ?Q, OF _ this] s show ?thesis by auto
qed

lemma UpdateConfig_returns:
  assumes ok: "engine_ok e" and bound: "0 \<le> ks_MaxTrackingIPs runtime"
  shows "\<exists>e'. engine_UpdateConfig en runtime e = Some e' \<and> engine_ok e' \<and> kn_cfg e' = kineticConfigFromRuntime (kn_cfg e) runtime"
proof -
  define cfg where "cfg = kineticConfigFromRuntime (kn_cfg e) runtime"
  define e0 where "e0 = e\<lparr> kn_cfg := cfg,
     kn_maxSubnetBuckets := boundedAggregateCapacity (kc_MaxTrackingIPs cfg) 4 256 16384,
     kn_maxWideBuckets := boundedAggregateCapacity (kc_MaxTrackingIPs cfg) 16 128 4096,
     kn_tokenBucketAvailable := (if kn_tokenBucketAvailable e > kc_MaxStrikesPerSec cfg
        then kc_MaxStrikesPerSec cfg else kn_tokenBucketAvailable e) \<rparr>"
  have s0: "shape_ok e0" "kn_cfg e0 = cfg" "0 \<le> kc_MaxTrackingIPs (kn_cfg e0)"
    using ok bound capacity_range [of 256 16384] capacity_range [of 128 4096]
    by (auto simp: engine_ok_shape shape_ok_def history_wf_def capacities_ok_def e0_def cfg_def kineticConfigFromRuntime_def)
  from evict_ip_stage [OF s0(1,3), of "env_now en"] obtain e1 where
    1: "evict_while (\<lambda>e. length (kn_ipBuckets e)) (\<lambda>e. kc_MaxTrackingIPs (kn_cfg e)) (evictStaleIPBucketLocked (env_now en)) e0 = Some e1"
      "int (length (kn_ipBuckets e1)) \<le> kc_MaxTrackingIPs (kn_cfg e1)" "shape_ok e1" "kn_cfg e1 = cfg" using s0 by auto
  from evict_v4_stage [OF 1(3)] obtain e2 where
    2: "evict_while (\<lambda>e. length (kn_subnetV4Buckets e)) kn_maxSubnetBuckets evictOldestSubnetV4Locked e1 = Some e2"
      "int (length (kn_subnetV4Buckets e2)) \<le> kn_maxSubnetBuckets e2" "shape_ok e2" "kn_cfg e2 = kn_cfg e1" "kn_ipBuckets e2 = kn_ipBuckets e1" by blast
  from evict_v6_stage [OF 2(3)] obtain e3 where
    3: "evict_while (\<lambda>e. length (kn_subnetV6Buckets e)) kn_maxSubnetBuckets evictOldestSubnetV6Locked e2 = Some e3"
      "int (length (kn_subnetV6Buckets e3)) \<le> kn_maxSubnetBuckets e3" "shape_ok e3" "kn_cfg e3 = kn_cfg e2" "kn_ipBuckets e3 = kn_ipBuckets e2"
      "kn_subnetV4Buckets e3 = kn_subnetV4Buckets e2" "kn_maxSubnetBuckets e3 = kn_maxSubnetBuckets e2" by blast
  from evict_wide_stage [OF 3(3)] obtain e4 where
    4: "evict_while (\<lambda>e. length (kn_wideV4Buckets e)) kn_maxWideBuckets evictOldestWideV4Locked e3 = Some e4"
      "int (length (kn_wideV4Buckets e4)) \<le> kn_maxWideBuckets e4" "shape_ok e4" "kn_cfg e4 = kn_cfg e3" "kn_ipBuckets e4 = kn_ipBuckets e3"
      "kn_subnetV4Buckets e4 = kn_subnetV4Buckets e3" "kn_subnetV6Buckets e4 = kn_subnetV6Buckets e3"
      "kn_maxSubnetBuckets e4 = kn_maxSubnetBuckets e3" by blast
  have "engine_UpdateConfig en runtime e = Some e4"
    using 1(1) 2(1) 3(1) 4(1) by (simp add: engine_UpdateConfig_def Let_def cfg_def [symmetric] e0_def [symmetric])
  moreover have "engine_ok e4" unfolding engine_ok_shape using 1 2 3 4 by simp
  ultimately show ?thesis using 1(4) 2(4) 3(4) 4(4) by (auto simp: cfg_def)
qed

lemma NewKineticEngine_ok: "engine_ok (NewKineticEngine en cfg rules items)"
proof -
  have "evq.good (NewBoundedEventQueue 250)" by (rule new_queue_good)
  moreover have "0 \<le> pos_or 65536 n" for n by (simp add: pos_or_def)
  moreover have "0 \<le> boundedAggregateCapacity n d 256 16384" "0 \<le> boundedAggregateCapacity n d 128 4096" for n d
    using capacity_range [of 256 16384 n d] capacity_range [of 128 4096 n d] by linarith+
  ultimately show ?thesis
    using capacity_range [of 256 16384] capacity_range [of 128 4096]
    by (auto simp: engine_ok_unfold NewKineticEngine_def engine_UpdateAllowlist_def NewBoundedEventQueue_def kinetic_defaults_def Let_def)
qed

section \<open>Strikes and cool-downs\<close>

text \<open>What an ingest step records about its strikes, relative to the bucket it started from.\<close>

definition strikes_recorded :: "gotime \<Rightarrow> IPTrackingBucket \<Rightarrow> 'l ingest \<Rightarrow> bool" where
  "strikes_recorded now b0 g \<longleftrightarrow>
     (\<forall>rid. gm_get (ib_RuleLastSeen (ig_bucket g)) rid \<noteq> gm_get (ib_RuleLastSeen b0) rid \<longrightarrow> ruleReadyLocked b0 rid now)
     \<and> (\<forall>evt \<in> set (ig_events g). ke_Sensor evt = ''xdp_ingress'' \<longrightarrow>
          gm_get (ib_RuleLastSeen (ig_bucket g)) (ke_RuleID evt) = Some now \<and> ruleReadyLocked b0 (ke_RuleID evt) now)"

lemma strikes_strike:
  assumes J: "strikes_recorded (packet_now en pkt) b0 g" and r: "ready rid (packet_now en pkt) g"
  shows "strikes_recorded (packet_now en pkt) b0 (strike en rid pkt dec sc (g\<lparr> ig_engine := e' \<rparr>))"
proof -
  have "ruleReadyLocked b0 rid (packet_now en pkt)"
    using J r by (cases "gm_get (ib_RuleLastSeen (ig_bucket g)) rid = gm_get (ib_RuleLastSeen b0) rid")
      (auto simp: strikes_recorded_def ready_def ruleReadyLocked_def)
  then show ?thesis using J by (auto simp: strikes_recorded_def step_fields)
qed

lemma strikes_aggregate:
  "strikes_recorded now b0 g \<Longrightarrow>
   strikes_recorded now b0 (aggregate_event en t ip key rid sev sc conf b meta act dec (g\<lparr> ig_engine := e' \<rparr>))"
  by (auto simp: strikes_recorded_def step_fields)

lemma strikes_pipeline:
  assumes "ig_events g = []"
  shows "strikes_recorded (packet_now en pkt) (ig_bucket g) (evaluate_rules en pkt g)"
proof (rule pipeline_induct [where P = "strikes_recorded (packet_now en pkt) (ig_bucket g)"])
  show "strikes_recorded (packet_now en pkt) (ig_bucket g) g" using assms by (simp add: strikes_recorded_def)
qed (simp_all add: strikes_strike strikes_aggregate)

lemma long_windows_last_seen [simp]: "ib_RuleLastSeen (recordLongWindowsLocked w h a y k b) = ib_RuleLastSeen b"
  by (simp add: recordLongWindowsLocked_def record_hour_def record_five_def record_minute_def Let_def)

lemma record_activity_last_seen [simp]: "ib_RuleLastSeen (record_activity now sec pkt b) = ib_RuleLastSeen b"
  by (simp add: record_activity_def Let_def)

lemma track_last_seen [simp]:
  "ib_RuleLastSeen (track_port pkt b) = ib_RuleLastSeen b" "ib_RuleLastSeen (track_flags pkt b) = ib_RuleLastSeen b"
  by (simp_all add: track_port_def track_flags_def Let_def)

lemma before_rules_last_seen [simp]: "ib_RuleLastSeen (ig_bucket (before_rules en pkt b e s)) = ib_RuleLastSeen b"
  by (simp add: before_rules_def Let_def)

text \<open>The action an event proposes.\<close>

definition action_ok :: "KineticConfig \<Rightarrow> KineticRuleRegistry \<Rightarrow> KineticEvent \<Rightarrow> bool" where
  "action_ok cfg rules evt \<longleftrightarrow>
     (ke_Action evt = ''block'' \<longrightarrow> kc_EnforcementMode cfg = ''block''
        \<and> (\<exists>d. rules_Get rules (ke_RuleID evt) = Some d \<and> kr_BlockEligible d))
     \<and> (ke_Action evt = ''contain'' \<longrightarrow> kc_EnforcementMode cfg \<in> {''block'', ''contain''}
        \<and> (\<exists>d. rules_Get rules (ke_RuleID evt) = Some d \<and> kr_ContainEligible d))
     \<and> ke_Action evt \<in> {''track'', ''warn'', ''contain'', ''block''}"

lemma resolveAction_ok:
  "ke_Action evt = resolveAction e (ke_RuleID evt) \<Longrightarrow> action_ok (kn_cfg e) (kn_rules e) evt"
  by (auto simp: action_ok_def resolveAction_def split: option.splits if_splits)

lemma actions_pipeline:
  assumes "ig_events g = []"
  shows "\<forall>evt \<in> set (ig_events (evaluate_rules en pkt g)). action_ok (kn_cfg (ig_engine g)) (kn_rules (ig_engine g)) evt"
proof -
  let ?P = "\<lambda>h. kn_cfg (ig_engine h) = kn_cfg (ig_engine g) \<and> kn_rules (ig_engine h) = kn_rules (ig_engine g)
     \<and> (\<forall>evt \<in> set (ig_events h). action_ok (kn_cfg (ig_engine g)) (kn_rules (ig_engine g)) evt)"
  have res: "resolveAction (e\<lparr> kn_velocityBurstsTotal := v, kn_portscansTotal := p \<rparr>) rid = resolveAction e rid" for e v p rid
    by (simp add: resolveAction_def split: option.split)
  have resolve: "action_ok (kn_cfg (ig_engine g)) (kn_rules (ig_engine g)) evt"
    if "ke_Action evt = resolveAction e (ke_RuleID evt)" "kn_cfg e = kn_cfg (ig_engine g)" "kn_rules e = kn_rules (ig_engine g)" for evt e
    using resolveAction_ok [OF that(1)] that(2,3) by simp
  have "?P (evaluate_rules en pkt g)"
  proof (rule pipeline_induct [where P = ?P])
    show "?P g" using assms by simp
  qed (auto simp: step_fields res intro: resolve, auto simp: step_fields action_ok_def)
  then show ?thesis by simp
qed

end
