(* ===== verification/Kinetic_Detection.thy ===== *)
theory Kinetic_Detection
  imports Kinetic_Engine
begin

text \<open>
  What the detection engine promises: its memory stays within the configured bounds whatever it
  is fed and its configuration loops end; evictions take the entry seen longest ago; allowlisted
  sources leave no trace; a rule strikes a source at most once per cool-down; events propose
  only actions their rule is eligible for and no ingest changes the blocks; and which packets
  the operator's traffic windows cannot see.
\<close>

section \<open>Sequences of operations\<close>

datatype engine_op =
    OpPacket IngressPacket
  | OpSweep gotime
  | OpConfig KineticRuntimeSettings
  | OpAllow "string list"
  | OpThreat "ThreatIndex option" "ThreatIndex option" "ThreatIndex option"

fun run_engine :: "'l env \<times> engine_op \<Rightarrow> KineticEngine \<times> 'l State \<Rightarrow> (KineticEngine \<times> 'l State) option" where
  "run_engine (en, OpPacket pkt) es = Some (snd (IngestPacket en pkt es))"
| "run_engine (en, OpSweep now) es = Some (Sweep now es)"
| "run_engine (en, OpConfig runtime) es = map_option (\<lambda>e. (e, snd es)) (engine_UpdateConfig en runtime (fst es))"
| "run_engine (en, OpAllow items) es = Some (engine_UpdateAllowlist items (fst es), snd es)"
| "run_engine (en, OpThreat b c a) es = Some (SetThreatIntel b c a (fst es), snd es)"

definition run_ops :: "('l env \<times> engine_op) list \<Rightarrow> KineticEngine \<times> 'l State \<Rightarrow> (KineticEngine \<times> 'l State) option" where
  "run_ops ops es = fold (\<lambda>op st. Option.bind st (run_engine op)) ops (Some es)"

definition config_bound_ok :: "engine_op \<Rightarrow> bool" where
  "config_bound_ok op = (case op of OpConfig runtime \<Rightarrow> 0 \<le> ks_MaxTrackingIPs runtime | _ \<Rightarrow> True)"

lemma run_engine_ok:
  assumes "engine_ok e" and "config_bound_ok op"
  shows "\<exists>e' s'. run_engine (en, op) (e, s) = Some (e', s') \<and> engine_ok e'"
proof (cases op)
  case (OpPacket pkt)
  obtain evs e' s' where "IngestPacket en pkt (e, s) = (evs, e', s')" by (metis prod_cases3)
  with IngestPacket_ok [OF assms(1) this] OpPacket show ?thesis by simp
next
  case (OpSweep now)
  obtain e' s' where "Sweep now (e, s) = (e', s')" by force
  with Sweep_ok [OF assms(1) this] OpSweep show ?thesis by simp
next
  case (OpConfig runtime)
  with UpdateConfig_returns [OF assms(1), of runtime en] assms(2) show ?thesis by (auto simp: config_bound_ok_def)
qed (use assms(1) in \<open>auto simp: engine_ok_unfold engine_UpdateAllowlist_def SetThreatIntel_def\<close>)

lemma run_ops_ok:
  "engine_ok e \<Longrightarrow> \<forall>(en, op) \<in> set ops. config_bound_ok op \<Longrightarrow> \<exists>e' s'. run_ops ops (e, s) = Some (e', s') \<and> engine_ok e'"
proof (induction ops arbitrary: e s)
  case (Cons op ops)
  obtain en o1 where op: "op = (en, o1)" by force
  with run_engine_ok [OF Cons.prems(1), of o1 en s] Cons.prems(2) obtain e1 s1 where
    1: "run_engine op (e, s) = Some (e1, s1)" "engine_ok e1" by auto
  with Cons.IH [OF 1(2), of s1] Cons.prems(2) show ?case by (simp add: run_ops_def)
qed (simp add: run_ops_def)

text \<open>
  C36: Whatever packets, sweeps, allowlist, feed and configuration changes reach it, the engine keeps running
  and stays within its memory bounds: at most the configured number of sources, for the /24, /64 and /16 buckets the capacities the
  configuration in force gives them (a quarter and a sixteenth of the sources, within 256 to 16384 and 128 to 4096), also right after the configuration was lowered, 250 queued events, 64 ports for a source, and 256 or 1024
  addresses in an aggregate bucket. In particular the eviction loops of \<open>UpdateConfig\<close> end, provided no configuration asks for a negative number of sources (the validation of the
  settings admits 100 to 500000).
\<close>
theorem engine_stays_bounded:
  assumes "\<forall>(en, op) \<in> set ops. config_bound_ok op"
  shows "\<exists>e s'. run_ops ops (NewKineticEngine en cfg rules items, s) = Some (e, s')
     \<and> int (length (kn_ipBuckets e)) \<le> kc_MaxTrackingIPs (kn_cfg e)
     \<and> int (length (kn_subnetV4Buckets e)) \<le> boundedAggregateCapacity (kc_MaxTrackingIPs (kn_cfg e)) 4 256 16384
     \<and> int (length (kn_subnetV6Buckets e)) \<le> boundedAggregateCapacity (kc_MaxTrackingIPs (kn_cfg e)) 4 256 16384
     \<and> int (length (kn_wideV4Buckets e)) \<le> boundedAggregateCapacity (kc_MaxTrackingIPs (kn_cfg e)) 16 128 4096
     \<and> length (kn_subnetV4Buckets e) \<le> 16384 \<and> length (kn_subnetV6Buckets e) \<le> 16384 \<and> length (kn_wideV4Buckets e) \<le> 4096
     \<and> length (q_events (kn_eventQueue e)) \<le> 250
     \<and> (\<forall>k b. gm_get (kn_ipBuckets e) k = Some b \<longrightarrow> length (ib_PortsSeen b) \<le> 64)
     \<and> (\<forall>k b. gm_get (kn_subnetV4Buckets e) k = Some b \<longrightarrow> length (sb_ActiveIPs b) \<le> 256)
     \<and> (\<forall>k b. gm_get (kn_wideV4Buckets e) k = Some b \<longrightarrow> length (sb_ActiveIPs b) \<le> 1024)"
proof -
  from run_ops_ok [OF NewKineticEngine_ok assms] obtain e s' where
    r: "run_ops ops (NewKineticEngine en cfg rules items, s) = Some (e, s')" and ok: "engine_ok e" by blast
  have "length (q_events (kn_eventQueue e)) \<le> 250" using ok by (auto simp: engine_ok_def evq.good_def)
  moreover have "length (kn_subnetV4Buckets e) \<le> 16384" "length (kn_subnetV6Buckets e) \<le> 16384" "length (kn_wideV4Buckets e) \<le> 4096"
    using ok by (simp_all add: engine_ok_unfold)
  ultimately show ?thesis using r ok by (auto simp: engine_ok_unfold bucket_ok_def)
qed

lemma evict_while_keeps:
  assumes "evict_while sz mx ev e = Some e'" and "Q e" and "\<And>e. Q e \<Longrightarrow> Q (ev e)"
  shows "Q e' \<and> int (sz e') \<le> mx e'"
proof -
  let ?P = "\<lambda>sz mx ev e e'. Q e \<longrightarrow> (\<forall>x. Q x \<longrightarrow> Q (ev x)) \<longrightarrow> Q e' \<and> int (sz e') \<le> mx e'"
  have "?P sz mx ev e e'" using _ assms(1) by (rule evict_while.raw_induct) (auto split: if_split_asm)
  then show ?thesis using assms(2,3) by blast
qed

text \<open>A negative bound is never reached: the loop evicts from an empty table for ever.\<close>

lemma negative_bound_spins:
  assumes "ks_MaxTrackingIPs runtime < 0"
  shows "engine_UpdateConfig en runtime e = None"
proof -
  let ?loop = "evict_while (\<lambda>e. length (kn_ipBuckets e)) (\<lambda>e. kc_MaxTrackingIPs (kn_cfg e)) (evictStaleIPBucketLocked (env_now en))"
  have frame: "kn_cfg (evictStaleIPBucketLocked now x) = kn_cfg x" for now x by (simp add: evictStaleIPBucketLocked_def split: option.split)
  have none: "?loop x = None" if "kc_MaxTrackingIPs (kn_cfg x) < 0" for x
  proof (cases "?loop x")
    case (Some y)
    from evict_while_keeps [OF Some, of "\<lambda>x. kc_MaxTrackingIPs (kn_cfg x) < 0"] that show ?thesis by (auto simp: frame)
  qed
  show ?thesis unfolding engine_UpdateConfig_def Let_def using assms by (subst none) (simp_all add: kineticConfigFromRuntime_def)
qed

definition sample_settings :: KineticRuntimeSettings where
  "sample_settings = \<lparr> ks_Enabled = True, ks_EnforcementMode = ''block'', ks_IPThreshold = 35, ks_VelocityLimit = 15,
     ks_RangeThreshold = 45, ks_IPv6SubThreshold = 55, ks_WideRangeThreshold = 77, ks_PortscanThreshold = 5, ks_SYNThreshold = 25,
     ks_SYNAckRatio = 4, ks_LowSlowMinSeconds = 60, ks_SubnetMinSources = 2, ks_IPv6SubnetMinSources = 2, ks_WideMinSources = 4,
     ks_AutoContainSingleIP = True, ks_AutoContainIPv4Subnet = True, ks_AutoContainIPv6Subnet = True, ks_MaxTrackingIPs = 1000,
     ks_BanTTLSeconds = 3600, ks_MaxStrikesPerSec = 100, ks_ServicePortsWeb = [80, 443], ks_ServicePortsMail = [25],
     ks_ServicePortsAdmin = [22] \<rparr>"

theorem engine_stays_bounded_witness:
  "\<forall>cfg c. \<exists>e s'. run_ops [(demo_env 5 0, OpConfig sample_settings), (demo_env 6 0, OpSweep 6)]
       (NewKineticEngine (demo_env 1 0) cfg NewKineticRuleRegistry [], NewState 1 c) = Some (e, s')
     \<and> int (length (kn_subnetV4Buckets e)) \<le> boundedAggregateCapacity (kc_MaxTrackingIPs (kn_cfg e)) 4 256 16384"
proof (intro allI)
  fix cfg c
  let ?ops = "[(demo_env 5 0, OpConfig sample_settings), (demo_env 6 0, OpSweep 6)]"
  have "\<forall>(en, op) \<in> set ?ops. config_bound_ok op" by (simp add: config_bound_ok_def sample_settings_def)
  from engine_stays_bounded [OF this, of "demo_env 1 0" cfg NewKineticRuleRegistry "[]" "NewState 1 c"]
  show "\<exists>e s'. run_ops ?ops (NewKineticEngine (demo_env 1 0) cfg NewKineticRuleRegistry [], NewState 1 c) = Some (e, s')
     \<and> int (length (kn_subnetV4Buckets e)) \<le> boundedAggregateCapacity (kc_MaxTrackingIPs (kn_cfg e)) 4 256 16384" by blast
qed

text \<open>
  A packet from a new /24 network that finds the /24 table full takes the place of the network seen longest ago:
  that one entry goes, the new network starts with this packet's activity, and every other entry stays.
\<close>
theorem full_table_evicts_oldest:
  assumes "table_ok (kn_subnetV4Buckets e)" and "kn_subnetV4Buckets e \<noteq> []" and "\<not> gm_has (kn_subnetV4Buckets e) key"
    and "kn_maxSubnetBuckets e \<le> int (length (kn_subnetV4Buckets e))"
  shows "\<exists>k b. gm_get (kn_subnetV4Buckets e) k = Some b
     \<and> (\<forall>k' b'. gm_get (kn_subnetV4Buckets e) k' = Some b' \<longrightarrow> sb_LastSeen b \<le> sb_LastSeen b')
     \<and> kn_subnetV4Buckets (touch_v4 now ip act key e) =
         gm_put key (touch_bucket (5 * minute) 256 now ip act (new_subnet key now)) (gm_del k (kn_subnetV4Buckets e))"
  by (rule v4_table.touch_full [OF assms])

theorem full_table_evicts_oldest_witness:
  "\<forall>cfg. let e = (NewKineticEngine (demo_env 1 0) cfg NewKineticRuleRegistry [])\<lparr>
       kn_maxSubnetBuckets := 1, kn_subnetV4Buckets := [(''10.0.0.0/24'', new_subnet ''10.0.0.0/24'' 3)] \<rparr>
     in gm_get (kn_subnetV4Buckets (touch_v4 9 ''10.9.0.1'' 2 ''10.9.0.0/24'' e)) ''10.0.0.0/24'' = None"
proof
  fix cfg
  let ?e = "(NewKineticEngine (demo_env 1 0) cfg NewKineticRuleRegistry [])\<lparr>
       kn_maxSubnetBuckets := 1, kn_subnetV4Buckets := [(''10.0.0.0/24'', new_subnet ''10.0.0.0/24'' 3)] \<rparr>"
  from full_table_evicts_oldest [of ?e "''10.9.0.0/24''" 9 "''10.9.0.1''" 2]
  show "let e = ?e in gm_get (kn_subnetV4Buckets (touch_v4 9 ''10.9.0.1'' 2 ''10.9.0.0/24'' e)) ''10.0.0.0/24'' = None"
    by (auto simp: table_ok_def gm_wf_def gm_has_def split: if_splits)
qed

text \<open>
  A source that an operator listed, by address or by a network around it, leaves no trace: its packets raise no
  event and change neither the engine nor the shared state.
\<close>
theorem listed_source_untracked:
  assumes "raw \<in> set items" and "length (pk_SrcIP pkt) = 4 \<or> length (pk_SrcIP pkt) = 16"
    and "(\<exists>n. item_net raw = Some n \<and> net_contains n (pk_SrcIP pkt)) \<or> (\<exists>a. item_ip raw = Some a \<and> ip_effective a = ip_effective (pk_SrcIP pkt))"
  shows "IngestPacket en pkt (engine_UpdateAllowlist items e, s) = ([], engine_UpdateAllowlist items e, s)"
proof -
  have str: "ip_string a = ip_string b" if "ip_effective a = ip_effective b" "length a = 4 \<or> length a = 16" "length b = 4 \<or> length b = 16" for a b
    using that by (auto simp: ip_string_def ip_effective_def to4_def split: if_splits)
  have "isAllowlistedLocked (compile_allowlist items) (pk_SrcIP pkt)"
    using assms(3)
  proof
    assume "\<exists>n. item_net raw = Some n \<and> net_contains n (pk_SrcIP pkt)"
    with assms(1) show ?thesis by (auto simp: isAllowlistedLocked_def compile_nets)
  next
    assume "\<exists>a. item_ip raw = Some a \<and> ip_effective a = ip_effective (pk_SrcIP pkt)"
    then obtain a where a: "item_ip raw = Some a" "ip_effective a = ip_effective (pk_SrcIP pkt)" by blast
    then have "length a = 16" by (auto simp: item_ip_def Let_def dest: length_parseIP split: if_splits)
    with str [OF a(2)] assms(2) have "ip_string (pk_SrcIP pkt) = ip_string a" by simp
    with a(1) assms(1) have "flag_set (al_ips (compile_allowlist items)) (ip_string (pk_SrcIP pkt))"
      unfolding flag_set_def compile_ips by blast
    then show ?thesis by (simp add: isAllowlistedLocked_def)
  qed
  then show ?thesis by (intro IngestPacket_ignored) (simp add: observed_def engine_UpdateAllowlist_def)
qed

definition sample_packet :: "ip \<Rightarrow> gotime \<Rightarrow> IngressPacket" where
  "sample_packet a t = \<lparr> pk_Family = 4, pk_Protocol = 6, pk_SrcIP = a, pk_DstIP = [10, 0, 0, 1], pk_SrcPort = 40000,
     pk_DstPort = 443, pk_TCPFlags = 2, pk_AttemptCount = 40, pk_Packets = 40, pk_SYNCount = 40, pk_ACKCount = 0, pk_Bytes = 2400,
     pk_Timestamp = t, pk_WindowEpoch = 100 \<rparr>"

theorem listed_source_untracked_witness:
  "\<forall>cfg c. let e = engine_UpdateAllowlist [''192.0.2.0/24''] (NewKineticEngine (demo_env 1 0) cfg NewKineticRuleRegistry [])
     in IngestPacket (demo_env 5 0) (sample_packet [192, 0, 2, 1] 5) (e, NewState 1 c) = ([], e, NewState 1 c)"
proof (intro allI)
  fix cfg c
  have "item_net ''192.0.2.0/24'' = Some \<lparr> net_ip = [192, 0, 2, 0], net_mask = [255, 255, 255, 0] \<rparr>"
    by (simp add: item_net_def trim_space_graphic graphic_def sample_nets)
  moreover have "net_contains \<lparr> net_ip = [192, 0, 2, 0], net_mask = [255, 255, 255, 0] \<rparr> [192, 0, 2, 1]"
    by (simp add: net_contains_def number_and_mask_def ip_effective_def to4_def)
  ultimately show "let e = engine_UpdateAllowlist [''192.0.2.0/24''] (NewKineticEngine (demo_env 1 0) cfg NewKineticRuleRegistry [])
     in IngestPacket (demo_env 5 0) (sample_packet [192, 0, 2, 1] 5) (e, NewState 1 c) = ([], e, NewState 1 c)"
    using listed_source_untracked [of "''192.0.2.0/24''" "[''192.0.2.0/24'']" "sample_packet [192, 0, 2, 1] 5" "demo_env 5 0"
        "NewKineticEngine (demo_env 1 0) cfg NewKineticRuleRegistry []" "NewState 1 c"]
    by (simp add: sample_packet_def)
qed

section \<open>Strikes\<close>

lemma ruleReady_cong: "ib_RuleLastSeen b = ib_RuleLastSeen b' \<Longrightarrow> ruleReadyLocked b rid now = ruleReadyLocked b' rid now"
  by (simp add: ruleReadyLocked_def)

text \<open>Everything a packet that is not ignored leaves behind.\<close>

lemma ingest_result:
  assumes ok: "engine_ok e" and call: "IngestPacket en pkt (e, s) = (evs, e', s')" and ev: "evt \<in> set evs"
  obtains b e1 where "observed e pkt"
    "admit_source (packet_now en pkt) (secEpoch (packet_now en pkt) pkt) pkt (counted pkt e) = (Some b, e1)"
    "evs = ig_events (evaluate_rules en pkt (before_rules en pkt b e1 s))"
    "e' = stored pkt (evaluate_rules en pkt (before_rules en pkt b e1 s))"
    "kn_cfg e1 = kn_cfg e" "kn_rules e1 = kn_rules e"
    "\<And>b0. gm_get (kn_ipBuckets e) (ip_string (pk_SrcIP pkt)) = Some b0 \<Longrightarrow> b = b0"
proof -
  let ?now = "packet_now en pkt"
  have obs: "observed e pkt" using call ev by (cases "observed e pkt") (auto simp: IngestPacket_ignored)
  obtain r e1 where a: "admit_source ?now (secEpoch ?now pkt) pkt (counted pkt e) = (r, e1)" by force
  have "engine_ok (counted pkt e)" using ok by simp
  note adm = admit_source_cases [OF this a]
  obtain b where r: "r = Some b" using IngestPacket_refused [OF obs, of en e1 s] a call ev by (cases r) auto
  have "evs = ig_events (evaluate_rules en pkt (before_rules en pkt b e1 s))"
    "e' = stored pkt (evaluate_rules en pkt (before_rules en pkt b e1 s))"
    using IngestPacket_admitted [OF obs a [unfolded r], of s] call by (simp_all add: Let_def)
  with that obs a r adm show thesis by auto
qed

lemma ingest_strike:
  assumes ok: "engine_ok e" and call: "IngestPacket en pkt (e, s) = (evs, e', s')"
    and ev: "evt \<in> set evs" and sensor: "ke_Sensor evt = ''xdp_ingress''"
  defines "k \<equiv> ip_string (pk_SrcIP pkt)"
  shows "\<exists>b. gm_get (kn_ipBuckets e') k = Some b \<and> gm_get (ib_RuleLastSeen b) (ke_RuleID evt) = Some (packet_now en pkt)"
    and "gm_get (kn_ipBuckets e) k = Some b0 \<Longrightarrow> ruleReadyLocked b0 (ke_RuleID evt) (packet_now en pkt)"
proof -
  from ingest_result [OF ok call ev] obtain b e1 where
    evs: "evs = ig_events (evaluate_rules en pkt (before_rules en pkt b e1 s))"
    and e': "e' = stored pkt (evaluate_rules en pkt (before_rules en pkt b e1 s))"
    and b: "\<And>b0. gm_get (kn_ipBuckets e) k = Some b0 \<Longrightarrow> b = b0" unfolding k_def by metis
  have "strikes_recorded (packet_now en pkt) (ig_bucket (before_rules en pkt b e1 s)) (evaluate_rules en pkt (before_rules en pkt b e1 s))"
    by (rule strikes_pipeline) simp
  with ev evs sensor have st: "gm_get (ib_RuleLastSeen (ig_bucket (evaluate_rules en pkt (before_rules en pkt b e1 s)))) (ke_RuleID evt)
      = Some (packet_now en pkt)" "ruleReadyLocked (ig_bucket (before_rules en pkt b e1 s)) (ke_RuleID evt) (packet_now en pkt)"
    by (auto simp: strikes_recorded_def)
  show "\<exists>b. gm_get (kn_ipBuckets e') k = Some b \<and> gm_get (ib_RuleLastSeen b) (ke_RuleID evt) = Some (packet_now en pkt)"
    using st(1) by (simp add: e' stored_def k_def)
  show "gm_get (kn_ipBuckets e) k = Some b0 \<Longrightarrow> ruleReadyLocked b0 (ke_RuleID evt) (packet_now en pkt)"
    using st(2) b ruleReady_cong [of "ig_bucket (before_rules en pkt b e1 s)" b] by simp
qed

text \<open>
  Two packets of one source less than fifteen seconds apart never raise the same per-source rule twice.
\<close>
theorem rule_cooldown:
  assumes ok: "engine_ok e" and c1: "IngestPacket en1 p1 (e, s) = (evs1, e1, s1)"
    and c2: "IngestPacket en2 p2 (e1, s2) = (evs2, e2, s3)"
    and src: "ip_string (pk_SrcIP p2) = ip_string (pk_SrcIP p1)"
    and running: "packet_now en1 p1 \<noteq> 0"
    and close: "packet_now en2 p2 - packet_now en1 p1 < 15 * second"
  shows "\<forall>x \<in> set evs1. \<forall>y \<in> set evs2. ke_Sensor x = ''xdp_ingress'' \<longrightarrow> ke_Sensor y = ''xdp_ingress'' \<longrightarrow> ke_RuleID x \<noteq> ke_RuleID y"
proof (intro ballI impI notI)
  fix x y assume x: "x \<in> set evs1" "ke_Sensor x = ''xdp_ingress''" and y: "y \<in> set evs2" "ke_Sensor y = ''xdp_ingress''"
    and eq: "ke_RuleID x = ke_RuleID y"
  have ok1: "engine_ok e1" using IngestPacket_ok [OF ok c1] by simp
  from ingest_strike(1) [OF ok c1 x] obtain b where b: "gm_get (kn_ipBuckets e1) (ip_string (pk_SrcIP p1)) = Some b"
    "gm_get (ib_RuleLastSeen b) (ke_RuleID x) = Some (packet_now en1 p1)" by blast
  from ingest_strike(2) [OF ok1 c2 y, of b] b src eq
  have "time_sub (packet_now en2 p2) (packet_now en1 p1) \<ge> 15 * second"
    using running by (simp add: ruleReadyLocked_def time_is_zero_def)
  then show False using close by (simp add: time_sub_ge_iff max_duration_def min_duration_def)
qed

theorem rule_cooldown_witness:
  "\<forall>cfg c. let e = NewKineticEngine (demo_env 1 0) cfg NewKineticRuleRegistry []; (evs1, e1, s1) = IngestPacket (demo_env 5 0) (sample_packet [10, 1, 2, 3] 5) (e, NewState 1 c);
       (evs2, e2, s2) = IngestPacket (demo_env 6 0) (sample_packet [10, 1, 2, 3] 6) (e1, s1)
     in \<forall>x \<in> set evs1. \<forall>y \<in> set evs2. ke_Sensor x = ''xdp_ingress'' \<longrightarrow> ke_Sensor y = ''xdp_ingress'' \<longrightarrow> ke_RuleID x \<noteq> ke_RuleID y"
proof (intro allI)
  fix cfg c
  let ?e = "NewKineticEngine (demo_env 1 0) cfg NewKineticRuleRegistry []"
  let ?p = "sample_packet [10, 1, 2, 3]"
  obtain evs1 e1 s1 where 1: "IngestPacket (demo_env 5 0) (?p 5) (?e, NewState 1 c) = (evs1, e1, s1)" by (metis prod_cases3)
  obtain evs2 e2 s2 where 2: "IngestPacket (demo_env 6 0) (?p 6) (e1, s1) = (evs2, e2, s2)" by (metis prod_cases3)
  from rule_cooldown [OF NewKineticEngine_ok 1 2] show "let e = ?e; (evs1, e1, s1) = IngestPacket (demo_env 5 0) (?p 5) (e, NewState 1 c);
       (evs2, e2, s2) = IngestPacket (demo_env 6 0) (?p 6) (e1, s1)
     in \<forall>x \<in> set evs1. \<forall>y \<in> set evs2. ke_Sensor x = ''xdp_ingress'' \<longrightarrow> ke_Sensor y = ''xdp_ingress'' \<longrightarrow> ke_RuleID x \<noteq> ke_RuleID y"
    using 1 2 by (simp add: packet_now_def sample_packet_def time_is_zero_def)
qed

section \<open>Proposals\<close>

lemma ingest_state:
  assumes "IngestPacket en pkt (e, s) = (evs, e', s')"
  shows "st_blocks s' = st_blocks s" "st_blockDeadlines s' = st_blockDeadlines s" "st_enforcement s' = st_enforcement s"
    "st_release s' = st_release s" "st_policy s' = st_policy s" "st_sensors s' = st_sensors s" "st_allowlistReady s' = st_allowlistReady s"
proof -
  have "\<exists>t. enforcement_view t = enforcement_view s \<and> (s' = t \<or> s' = syncTelemetryStateLocked e' t)"
  proof (cases "observed e pkt")
    case True
    obtain r e1 where a: "admit_source (packet_now en pkt) (secEpoch (packet_now en pkt) pkt) pkt (counted pkt e) = (r, e1)" by force
    show ?thesis
    proof (cases r)
      case (Some b)
      have "enforcement_view (ig_state (evaluate_rules en pkt (before_rules en pkt b e1 s))) = enforcement_view s" by simp
      moreover have "s' = syncTelemetryStateLocked e' (ig_state (evaluate_rules en pkt (before_rules en pkt b e1 s)))"
        using IngestPacket_admitted [OF True a [unfolded Some], of s] assms by (simp add: Let_def)
      ultimately show ?thesis by blast
    qed (use IngestPacket_refused [OF True, of en e1 s] a assms in auto)
  qed (use assms in \<open>auto simp: IngestPacket_ignored\<close>)
  then obtain t where t: "enforcement_view t = enforcement_view s" and s': "s' = t \<or> s' = syncTelemetryStateLocked e' t" by blast
  note f = enforcement_viewD [OF t]
  show "st_blocks s' = st_blocks s" "st_blockDeadlines s' = st_blockDeadlines s" "st_enforcement s' = st_enforcement s"
    "st_release s' = st_release s" "st_policy s' = st_policy s" "st_sensors s' = st_sensors s" "st_allowlistReady s' = st_allowlistReady s"
    using s' f by (auto simp: syncTelemetryStateLocked_def UpdateKineticTelemetry_def)
qed

text \<open>
  C35: Detection proposes, it never enforces. An event proposes to block only in block mode and for a rule that is
  eligible for blocking, to contain only in contain or block mode for an eligible rule, and otherwise only
  to track or warn; and ingesting a packet changes no block, no enforcement mode and no release, policy or sensor state.
\<close>
theorem detection_only_proposes:
  assumes ok: "engine_ok e" and call: "IngestPacket en pkt (e, s) = (evs, e', s')"
  shows "(\<forall>evt \<in> set evs.
       (ke_Action evt = ''block'' \<longrightarrow> kc_EnforcementMode (kn_cfg e) = ''block''
          \<and> (\<exists>d. rules_Get (kn_rules e) (ke_RuleID evt) = Some d \<and> kr_BlockEligible d))
     \<and> (ke_Action evt = ''contain'' \<longrightarrow> kc_EnforcementMode (kn_cfg e) \<in> {''block'', ''contain''}
          \<and> (\<exists>d. rules_Get (kn_rules e) (ke_RuleID evt) = Some d \<and> kr_ContainEligible d))
     \<and> ke_Action evt \<in> {''track'', ''warn'', ''contain'', ''block''})
    \<and> st_blocks s' = st_blocks s \<and> st_blockDeadlines s' = st_blockDeadlines s \<and> st_enforcement s' = st_enforcement s \<and> st_release s' = st_release s
    \<and> st_policy s' = st_policy s \<and> st_sensors s' = st_sensors s \<and> st_allowlistReady s' = st_allowlistReady s"
proof (intro conjI)
  show "\<forall>evt \<in> set evs.
       (ke_Action evt = ''block'' \<longrightarrow> kc_EnforcementMode (kn_cfg e) = ''block''
          \<and> (\<exists>d. rules_Get (kn_rules e) (ke_RuleID evt) = Some d \<and> kr_BlockEligible d))
     \<and> (ke_Action evt = ''contain'' \<longrightarrow> kc_EnforcementMode (kn_cfg e) \<in> {''block'', ''contain''}
          \<and> (\<exists>d. rules_Get (kn_rules e) (ke_RuleID evt) = Some d \<and> kr_ContainEligible d))
     \<and> ke_Action evt \<in> {''track'', ''warn'', ''contain'', ''block''}"
  proof
    fix evt assume ev: "evt \<in> set evs"
    from ingest_result [OF ok call ev] obtain b e1 where
      "evs = ig_events (evaluate_rules en pkt (before_rules en pkt b e1 s))" "kn_cfg e1 = kn_cfg e" "kn_rules e1 = kn_rules e" by metis
    with actions_pipeline [of "before_rules en pkt b e1 s" en pkt] ev have "action_ok (kn_cfg e) (kn_rules e) evt" by simp
    then show "(ke_Action evt = ''block'' \<longrightarrow> kc_EnforcementMode (kn_cfg e) = ''block''
          \<and> (\<exists>d. rules_Get (kn_rules e) (ke_RuleID evt) = Some d \<and> kr_BlockEligible d))
     \<and> (ke_Action evt = ''contain'' \<longrightarrow> kc_EnforcementMode (kn_cfg e) \<in> {''block'', ''contain''}
          \<and> (\<exists>d. rules_Get (kn_rules e) (ke_RuleID evt) = Some d \<and> kr_ContainEligible d))
     \<and> ke_Action evt \<in> {''track'', ''warn'', ''contain'', ''block''}" by (simp add: action_ok_def)
  qed
qed (use ingest_state [OF call] in simp_all)

theorem detection_only_proposes_witness:
  "\<forall>cfg c. st_blocks (snd (snd (IngestPacket (demo_env 5 0) (sample_packet [10, 1, 2, 3] 5)
     (NewKineticEngine (demo_env 1 0) cfg NewKineticRuleRegistry [], NewState 1 c)))) = []"
proof (intro allI)
  fix cfg c
  obtain evs e s where 1: "IngestPacket (demo_env 5 0) (sample_packet [10, 1, 2, 3] 5)
     (NewKineticEngine (demo_env 1 0) cfg NewKineticRuleRegistry [], NewState 1 c) = (evs, e, s)" by (metis prod_cases3)
  with detection_only_proposes [OF NewKineticEngine_ok 1]
  show "st_blocks (snd (snd (IngestPacket (demo_env 5 0) (sample_packet [10, 1, 2, 3] 5)
     (NewKineticEngine (demo_env 1 0) cfg NewKineticRuleRegistry [], NewState 1 c)))) = []"
    by (simp add: NewState_def)
qed

section \<open>Kernel epochs and operator windows\<close>

lemma add_traffic_none: "\<forall>b \<in> set ring. \<not> sel b \<Longrightarrow> add_traffic sel ring out = out"
  unfolding add_traffic_def by (induction ring arbitrary: out) auto

lemma record_slot_epochs:
  "b \<in> set (record_slot epoch h a y k ring) \<Longrightarrow> tb_Epoch b = epoch \<or> b \<in> set ring"
  using set_update_subset_insert [of ring "positiveRingIndex epoch (int (length ring))"]
  by (fastforce simp: record_slot_def Let_def traffic_bucket_def split: if_splits)

lemma record_slot_present:
  assumes "ring \<noteq> []"
  shows "\<exists>b \<in> set (record_slot epoch h a y k ring). tb_Epoch b = epoch"
proof -
  let ?i = "positiveRingIndex epoch (int (length ring))" and ?r = "record_slot epoch h a y k ring"
  have "?i < length ring" using positiveRingIndex_less [of "length ring" epoch] assms by simp
  then have "?i < length ?r" "tb_Epoch (?r ! ?i) = epoch" by (simp_all add: record_slot_def Let_def traffic_bucket_def)
  then show ?thesis using nth_mem by blast
qed

lemma TrafficWindow_empty:
  assumes "\<forall>b \<in> set (kh_secondHistory e). tb_Epoch b < time_unix now - 86400"
    and "\<forall>b \<in> set (kh_minuteHistory e). tb_Epoch b * 60 + 59 < time_unix now - 86400 \<or> tb_Epoch b \<le> 0"
    and "now \<noteq> 0" and "ws_Duration spec \<le> 24 * hour" and "0 \<le> ws_Duration spec"
  shows "tw_Hits (TrafficWindow clock spec now e) = 0"
proof -
  have "go_div (ws_Duration spec) second \<le> 86400"
    using assms(4,5) by (simp add: go_div_nonneg)
  then have short: "\<not> (tb_Epoch b \<ge> time_unix now - go_div (ws_Duration spec) second + 1 \<and> tb_Epoch b \<le> time_unix now)"
    if "b \<in> set (kh_secondHistory e)" for b using assms(1) that by fastforce
  have "time_unix now - 86400 \<le> time_unix (time_add now (- ws_Duration spec))"
    using time_unix_mono [of "now - 86400 * second" "now - ws_Duration spec"] assms(4)
    by (simp add: time_unix_def time_add_def)
  then have long: "\<not> (tb_Epoch b > 0 \<and> tb_Epoch b * 60 + 59 \<ge> time_unix (time_add now (- ws_Duration spec)) \<and> tb_Epoch b * 60 \<le> time_unix now)"
    if "b \<in> set (kh_minuteHistory e)" for b using assms(2) that by fastforce
  show ?thesis using assms(3) short long
    by (simp add: TrafficWindow_def Let_def time_is_zero_def add_traffic_none)
qed

lemma ingest_histories:
  assumes ok: "engine_ok e" and call: "IngestPacket en pkt (e, s) = (evs, e', s')"
  defines "h \<equiv> recordTrafficHistoryLocked (secEpoch (packet_now en pkt) pkt) (sampleCount pkt) (activityCount pkt) (synDelta pkt) (ackDelta pkt) e"
  shows "(kh_secondHistory e' = kh_secondHistory e \<and> kh_minuteHistory e' = kh_minuteHistory e \<and> \<not> (observed e pkt \<and> 0 < kc_MaxTrackingIPs (kn_cfg e)))
     \<or> (kh_secondHistory e' = kh_secondHistory h \<and> kh_minuteHistory e' = kh_minuteHistory h)"
proof (cases "observed e pkt")
  case False
  then show ?thesis using call by (simp add: IngestPacket_ignored)
next
  case obs: True
  obtain r e1 where a: "admit_source (packet_now en pkt) (secEpoch (packet_now en pkt) pkt) pkt (counted pkt e) = (r, e1)" by force
  have "engine_ok (counted pkt e)" using ok by simp
  note adm = admit_source_cases [OF this a]
  have e1: "kh_secondHistory e1 = kh_secondHistory e" "kh_minuteHistory e1 = kh_minuteHistory e" using adm(5,6) by simp_all
  show ?thesis
  proof (cases r)
    case None
    then have "kc_MaxTrackingIPs (kn_cfg e) \<le> 0" using adm(8) by simp
    then show ?thesis using IngestPacket_refused [OF obs a [unfolded None], of s] call e1 by simp
  next
    case (Some b)
    have "e' = stored pkt (evaluate_rules en pkt (before_rules en pkt b e1 s))"
      using IngestPacket_admitted [OF obs a [unfolded Some], of s] call by (simp add: Let_def)
    then show ?thesis using e1 by (simp add: stored_def before_rules_def h_def recordTrafficHistoryLocked_def Let_def)
  qed
qed

text \<open>Every recorded epoch is at most the time since boot.\<close>

definition boot_history :: "int \<Rightarrow> KineticEngine \<Rightarrow> bool" where
  "boot_history uptime e \<longleftrightarrow> (\<forall>b \<in> set (kh_secondHistory e). tb_Epoch b \<le> uptime) \<and> (\<forall>b \<in> set (kh_minuteHistory e). tb_Epoch b \<le> uptime div 60)"

definition kernel_epoch :: "int \<Rightarrow> engine_op \<Rightarrow> bool" where
  "kernel_epoch uptime op \<longleftrightarrow> (case op of OpPacket pkt \<Rightarrow> 0 < pk_WindowEpoch pkt \<and> uint (pk_WindowEpoch pkt) \<le> uptime | _ \<Rightarrow> True)"

lemma kernel_secEpoch: "kernel_epoch uptime (OpPacket pkt) \<Longrightarrow> uptime < 2 ^ 62 \<Longrightarrow> secEpoch now pkt = uint (pk_WindowEpoch pkt) \<and> 0 < uint (pk_WindowEpoch pkt)"
  by (auto simp: kernel_epoch_def secEpoch_def word_less_def intro!: wrap64_id simp: in_int64_def)

lemma ingest_boot_history:
  assumes "engine_ok e" "boot_history uptime e" "kernel_epoch uptime (OpPacket pkt)" "uptime < 2 ^ 62" "IngestPacket en pkt (e, s) = (evs, e', s')"
  shows "boot_history uptime e'"
    "observed e pkt \<Longrightarrow> 0 < kc_MaxTrackingIPs (kn_cfg e) \<Longrightarrow> \<exists>b \<in> set (kh_secondHistory e'). tb_Epoch b = uint (pk_WindowEpoch pkt)"
proof -
  let ?w = "uint (pk_WindowEpoch pkt)"
  have w: "secEpoch (packet_now en pkt) pkt = ?w" "0 < ?w" "?w \<le> uptime" using kernel_secEpoch [OF assms(3,4)] assms(3) by (simp_all add: kernel_epoch_def)
  have hits: "0 < sampleCount pkt" using uint_ge_0 [of "pk_Packets pkt"] by (auto simp: sampleCount_def Let_def order_le_less simp del: uint_ge_0)
  note h = ingest_histories [OF assms(1,5), unfolded w(1)]
  have rec: "kh_secondHistory (recordTrafficHistoryLocked ?w (sampleCount pkt) x y z e) = record_slot ?w (sampleCount pkt) x y z (kh_secondHistory e)"
    "kh_minuteHistory (recordTrafficHistoryLocked ?w (sampleCount pkt) x y z e) = record_slot (?w div 60) (sampleCount pkt) x y z (kh_minuteHistory e)" for x y z
    using w(2) hits by (simp_all add: recordTrafficHistoryLocked_def go_div_nonneg)
  have "?w div 60 \<le> uptime div 60" using w(3) by (rule zdiv_mono1) simp
  then show "boot_history uptime e'" using h assms(2) w(3) unfolding boot_history_def rec by (auto dest!: record_slot_epochs)
  have "kh_secondHistory e \<noteq> []" using assms(1) by (auto simp: engine_ok_unfold)
  from record_slot_present [OF this]
  show "\<exists>b \<in> set (kh_secondHistory e'). tb_Epoch b = ?w" if "observed e pkt" "0 < kc_MaxTrackingIPs (kn_cfg e)" using h that unfolding rec by auto
qed

lemma UpdateConfig_histories:
  assumes "engine_UpdateConfig en runtime e = Some e'"
  shows "kh_secondHistory e' = kh_secondHistory e \<and> kh_minuteHistory e' = kh_minuteHistory e"
proof -
  let ?Q = "\<lambda>x. kh_secondHistory x = kh_secondHistory e \<and> kh_minuteHistory x = kh_minuteHistory e"
  have ev: "?Q x \<Longrightarrow> ?Q (evictStaleIPBucketLocked now x)" "?Q x \<Longrightarrow> ?Q (evictOldestSubnetV4Locked x)"
    "?Q x \<Longrightarrow> ?Q (evictOldestSubnetV6Locked x)" "?Q x \<Longrightarrow> ?Q (evictOldestWideV4Locked x)" for x now
    by (simp_all add: evictStaleIPBucketLocked_def evictOldestSubnetV4Locked_def evictOldestSubnetV6Locked_def evictOldestWideV4Locked_def Let_def split: option.split)
  note keeps = evict_while_keeps [where Q = ?Q, THEN conjunct1]
  define e0 where "e0 = (let cfg = kineticConfigFromRuntime (kn_cfg e) runtime
     in e\<lparr> kn_cfg := cfg, kn_maxSubnetBuckets := boundedAggregateCapacity (kc_MaxTrackingIPs cfg) 4 256 16384,
          kn_maxWideBuckets := boundedAggregateCapacity (kc_MaxTrackingIPs cfg) 16 128 4096,
          kn_tokenBucketAvailable := (if kn_tokenBucketAvailable e > kc_MaxStrikesPerSec cfg then kc_MaxStrikesPerSec cfg else kn_tokenBucketAvailable e) \<rparr>)"
  have e0: "?Q e0" by (simp add: e0_def Let_def)
  from assms obtain e1 e2 e3 where
        1: "evict_while (\<lambda>e. length (kn_ipBuckets e)) (\<lambda>e. kc_MaxTrackingIPs (kn_cfg e)) (evictStaleIPBucketLocked (env_now en)) e0 = Some e1"
    and 2: "evict_while (\<lambda>e. length (kn_subnetV4Buckets e)) kn_maxSubnetBuckets evictOldestSubnetV4Locked e1 = Some e2"
    and 3: "evict_while (\<lambda>e. length (kn_subnetV6Buckets e)) kn_maxSubnetBuckets evictOldestSubnetV6Locked e2 = Some e3"
    and 4: "evict_while (\<lambda>e. length (kn_wideV4Buckets e)) kn_maxWideBuckets evictOldestWideV4Locked e3 = Some e'"
    unfolding engine_UpdateConfig_def Let_def bind_eq_Some_conv e0_def by blast
  show ?thesis by (rule keeps [OF 4 keeps [OF 3 keeps [OF 2 keeps [OF 1 e0 ev(1)] ev(2)] ev(3)] ev(4)])
qed

lemma run_boot_history:
  "engine_ok e \<Longrightarrow> boot_history uptime e \<Longrightarrow> uptime < 2 ^ 62 \<Longrightarrow> \<forall>(en, op) \<in> set ops. kernel_epoch uptime op \<and> config_bound_ok op
     \<Longrightarrow> run_ops ops (e, s) = Some (e', s') \<Longrightarrow> engine_ok e' \<and> boot_history uptime e'"
proof (induction ops arbitrary: e s)
  case (Cons op ops)
  obtain en o1 where op: "op = (en, o1)" by force
  have o1: "kernel_epoch uptime o1" "config_bound_ok o1" using Cons.prems(4) op by auto
  obtain e1 s1 where 1: "run_engine (en, o1) (e, s) = Some (e1, s1)" "engine_ok e1" using run_engine_ok [OF Cons.prems(1) o1(2), of en s] by blast
  have "boot_history uptime e1"
  proof (cases o1)
    case (OpPacket pkt)
    obtain evs e2 s2 where c: "IngestPacket en pkt (e, s) = (evs, e2, s2)" by (metis prod_cases3)
    then show ?thesis using ingest_boot_history(1) [OF Cons.prems(1,2) o1(1) [unfolded OpPacket] Cons.prems(3) c] 1(1) OpPacket by simp
  next
    case (OpConfig runtime)
    then show ?thesis using 1(1) UpdateConfig_histories [of en runtime e e1] Cons.prems(2) by (auto simp: boot_history_def)
  qed (use 1(1) Cons.prems(2) in \<open>auto simp: boot_history_def Sweep_def engine_UpdateAllowlist_def SetThreatIntel_def Let_def split: if_split_asm\<close>)
  moreover have "run_ops ops (e1, s1) = Some (e', s')" using Cons.prems(5) 1(1) op by (simp add: run_ops_def)
  ultimately show ?case using Cons.IH [OF 1(2)] Cons.prems(3,4) by simp
qed (simp add: run_ops_def)

lemma boot_history_invisible:
  assumes "boot_history uptime e" "0 \<le> uptime" "uptime + 86460 < time_unix now" "0 \<le> ws_Duration spec" "ws_Duration spec \<le> 24 * hour"
  shows "tw_Hits (TrafficWindow clock spec now e) = 0"
proof (rule TrafficWindow_empty [OF _ _ _ assms(5,4)])
  show "\<forall>b \<in> set (kh_secondHistory e). tb_Epoch b < time_unix now - 86400" using assms(1,3) unfolding boot_history_def by fastforce
  have "uptime div 60 * 60 \<le> uptime" using assms(2) by linarith
  then have "x * 60 + 59 < time_unix now - 86400" if "x \<le> uptime div 60" for x using that assms(3) by linarith
  then show "\<forall>b \<in> set (kh_minuteHistory e). tb_Epoch b * 60 + 59 < time_unix now - 86400 \<or> tb_Epoch b \<le> 0" using assms(1) unfolding boot_history_def by blast
  show "now \<noteq> 0" using assms(2,3) by (auto simp: time_unix_def)
qed

text \<open>
  C37: Packets that carry a kernel window epoch, which counts seconds since boot, are recorded in the
  history but invisible in every operator window: those are selected by Unix time. After any sequence of operations on a new engine in which every
  packet carries such an epoch, the traffic windows of up to a day report no hits at all, as long as the machine has been up for less time than has passed since 1970, less a day.
  A further packet from an observed source opens its slot in the history and still shows in no window. No configuration asks for a negative number of sources.
\<close>
theorem kernel_epoch_invisible:
  assumes run: "run_ops ops (NewKineticEngine en0 cfg rules items, s) = Some (e, s')"
    and epochs: "\<forall>(en, op) \<in> set ops. kernel_epoch uptime op \<and> config_bound_ok op"
    and uptime: "0 \<le> uptime" "uptime < 2 ^ 62" "uptime + 86460 < time_unix now"
    and spec: "0 \<le> ws_Duration spec" "ws_Duration spec \<le> 24 * hour"
  shows "tw_Hits (TrafficWindow clock spec now e) = 0
     \<and> (\<forall>en pkt evs e' s''. kernel_epoch uptime (OpPacket pkt) \<and> IngestPacket en pkt (e, s') = (evs, e', s'') \<longrightarrow>
          tw_Hits (TrafficWindow clock spec now e') = 0
          \<and> (observed e pkt \<and> 0 < kc_MaxTrackingIPs (kn_cfg e) \<longrightarrow> (\<exists>b \<in> set (kh_secondHistory e'). tb_Epoch b = uint (pk_WindowEpoch pkt))))"
proof -
  let ?e = "NewKineticEngine en0 cfg rules items"
  have "kh_secondHistory ?e = replicate 60 (traffic_bucket 0)" "kh_minuteHistory ?e = replicate 1441 (traffic_bucket 0)"
    by (simp_all add: NewKineticEngine_def engine_UpdateAllowlist_def Let_def)
  then have "boot_history uptime ?e" using uptime(1) by (simp add: boot_history_def traffic_bucket_def pos_imp_zdiv_nonneg_iff)
  from run_boot_history [OF NewKineticEngine_ok this uptime(2) epochs run] have ok: "engine_ok e" "boot_history uptime e" by simp_all
  note invisible = boot_history_invisible [OF _ uptime(1,3) spec, of _ clock]
  show ?thesis using invisible [OF ok(2)] invisible [OF ingest_boot_history(1) [OF ok _ uptime(2)]] ingest_boot_history(2) [OF ok _ uptime(2)] by blast
qed

theorem kernel_epoch_invisible_witness:
  "\<forall>cfg c clock.
     tw_Hits (TrafficWindow clock \<lparr> ws_Name = ''24h'', ws_Duration = 24 * hour \<rparr> (63902000000 * second)
       (fst (snd (IngestPacket (demo_env 5 0) (sample_packet [10, 1, 2, 3] (63902000000 * second))
          (NewKineticEngine (demo_env 1 0) (cfg\<lparr> kc_Enabled := True \<rparr>) NewKineticRuleRegistry [''192.0.2.0/24''], NewState 1 c))))) = 0"
proof (intro allI)
  fix cfg c clock
  let ?e = "NewKineticEngine (demo_env 1 0) (cfg\<lparr> kc_Enabled := True \<rparr>) NewKineticRuleRegistry [''192.0.2.0/24'']"
  let ?p = "sample_packet [10, 1, 2, 3] (63902000000 * second)" and ?spec = "\<lparr> ws_Name = ''24h'', ws_Duration = 24 * hour \<rparr>"
  obtain evs e s where 1: "IngestPacket (demo_env 5 0) ?p (?e, NewState 1 c) = (evs, e, s)" by (metis prod_cases3)
  let ?ops = "[(demo_env 5 0, OpPacket ?p)]"
  have run: "run_ops ?ops (?e, NewState 1 c) = Some (e, s)" using 1 by (simp add: run_ops_def)
  have ops: "\<forall>(en, op) \<in> set ?ops. kernel_epoch 1000000 op \<and> config_bound_ok op" by (simp add: kernel_epoch_def config_bound_ok_def sample_packet_def)
  have "tw_Hits (TrafficWindow clock ?spec (63902000000 * second) e) = 0"
    using kernel_epoch_invisible [OF run ops, of "63902000000 * second" ?spec clock] by (simp add: time_unix_def)
  then show "tw_Hits (TrafficWindow clock ?spec (63902000000 * second) (fst (snd (IngestPacket (demo_env 5 0) ?p (?e, NewState 1 c))))) = 0" using 1 by simp
qed

end
