(* ===== verification/State_Status.thy ===== *)
theory State_Status
  imports State_Model
begin

text \<open>
  What \<open>control/state.go\<close> derives when it is read: the L7 verdict and the platform coverage
  (\<open>derivedCoverageLocked\<close> with \<open>EvaluateL7Coverage\<close> of \<open>control/l7_tls.go\<close> and \<open>deriveL7SensorCoverage\<close>
  of \<open>control/l7_server.go\<close>), the protection claim (\<open>deriveProtectionStatus\<close>), the telemetry accessor
  and the snapshot.

  \<open>Snapshot\<close> carries the fields of the modelled components. The kinetic part of the published
  runtime settings is an argument; the sections of file integrity, cases, cells and Titan, which
  their own components fill in, and the rule counts are left out. The uptime in seconds is the
  elapsed duration divided by one second, without the rounding of a float.
\<close>

section \<open>L7 coverage\<close>

definition l7SelfTestEvidenceWindow :: duration where
  "l7SelfTestEvidenceWindow = 15 * minute"

definition InlinePathVerifiedBySelfTest :: "L7Status \<Rightarrow> gotime \<Rightarrow> bool" where
  "InlinePathVerifiedBySelfTest status now =
     (case l7_SelfTestAt status of
        None \<Rightarrow> False
      | Some t \<Rightarrow> l7_SelfTestOutcome status = ''PASS''
          \<and> (let age = time_sub now t in if age < 0 then False else age \<le> l7SelfTestEvidenceWindow))"

definition EvaluateL7Coverage :: "'l env \<Rightarrow> L7Status \<Rightarrow> int \<Rightarrow> string" where
  "EvaluateL7Coverage en status uptimeSeconds =
     (if \<not> l7_Enabled status then ''DISABLED''
      else if \<not> l7_Healthy status then ''OFFLINE''
      else if l7_InlineEnabled status \<and> \<not> l7_InlineHealthy status
              \<and> \<not> InlinePathVerifiedBySelfTest status (env_now en) then ''INLINE_DEGRADED''
      else
        let httpTraffic = l7_RequestsTotal status + l7_InlineRequestsTotal status;
            traffic = httpTraffic + l7_TLSHandshakesTotal status
        in if \<not> l7_InlineEnabled status \<and> httpTraffic = 0 \<and> l7_TLSHandshakesTotal status = 0 then ''READY_NOT_ATTACHED''
           else if l7_TLSEnabled status \<and> l7_CoverageRequired status \<and> uptimeSeconds > 300 \<and> httpTraffic > 0
                   \<and> l7_TLSHandshakesTotal status = 0 then ''TLS_NOT_IN_PATH''
           else if traffic = 0 \<and> uptimeSeconds > 300 then ''NO_TRAFFIC_WARNING''
           else if traffic > 0 then ''TRAFFIC_ACTIVE''
           else ''HEALTHY_AWAITING_TRAFFIC'')"

definition describeL7Coverage :: "string \<Rightarrow> string" where
  "describeL7Coverage coverage =
     (if coverage = ''OFFLINE'' then ''L7 service is not healthy''
      else if coverage = ''INLINE_DEGRADED'' then ''inline L7 listener is degraded''
      else if coverage = ''NO_TRAFFIC_WARNING'' then
        ''L7 service is alive but no HTTP or TLS inspection traffic has traversed it for more than five minutes''
      else if coverage = ''TLS_NOT_IN_PATH'' then
        ''HTTP inspection traffic is active, but TLS inspection is enabled and no ClientHello telemetry has reached the TLS sensor''
      else if coverage = ''READY_NOT_ATTACHED'' then
        ''L7 engine is healthy; no inline listener or producer is attached, so the engine is available but not in the traffic path''
      else if coverage = ''HEALTHY_AWAITING_TRAFFIC'' then ''L7 service is healthy and awaiting its first verified inspection''
      else if coverage = ''TRAFFIC_ACTIVE'' then ''verified application-layer inspection traffic is active''
      else ''L7 subsystem disabled'')"

definition inlineDegradedReason :: "L7Status \<Rightarrow> string" where
  "inlineDegradedReason status =
     (let detail = trim_space (l7_InlineLastError status)
      in if detail \<noteq> [] then l7_CoverageReason status @ '': '' @ detail else l7_CoverageReason status)"

text \<open>The verdict, the reason and the self-test text of \<open>deriveL7SensorCoverage\<close>.\<close>

definition l7_verdict :: "L7Status \<Rightarrow> bool \<Rightarrow> SensorCoverageStatus \<times> string \<times> string" where
  "l7_verdict status healthy =
     (if \<not> l7_Enabled status then (CoverageDisabled, ''L7 disabled by configuration'', ''disabled'')
      else if \<not> healthy then (CoverageOffline, ''L7 service is offline'', ''failed'')
      else if l7_Coverage status = ''INLINE_DEGRADED'' then (CoverageDegraded, inlineDegradedReason status, ''failed'')
      else if l7_Coverage status = ''READY_NOT_ATTACHED'' \<and> \<not> l7_CoverageRequired status then
        (CoverageNotApplicable, ''L7 engine is healthy; no traffic path is attached and coverage is not required'', ''ready-not-attached'')
      else if l7_Coverage status = ''HEALTHY_AWAITING_TRAFFIC'' \<or> l7_Coverage status = ''NO_TRAFFIC_WARNING''
           \<or> l7_Coverage status = ''TLS_NOT_IN_PATH'' \<or> l7_Coverage status = ''READY_NOT_ATTACHED'' then
        (CoverageDegraded, l7_CoverageReason status, ''awaiting-traffic'')
      else (CoverageOnline, ''verified L7 inspection traffic active'', ''pass''))"

definition deriveL7SensorCoverage :: "L7Status \<Rightarrow> bool \<Rightarrow> SensorCoverage" where
  "deriveL7SensorCoverage status healthy =
     (case l7_verdict status healthy of (coverageStatus, coverageReason, selfTest) \<Rightarrow>
        \<lparr> sc_Name = ''l7_application'', sc_Layer = LayerApplicationL7, sc_Status = coverageStatus,
          sc_Required = l7_CoverageRequired status,
          sc_LastOK = (if coverageStatus = CoverageOnline
             then (case l7_LastInspection status of Some t \<Rightarrow> Some t | None \<Rightarrow> l7_LastRequestAt status) else None),
          sc_LastError = (if coverageStatus = CoverageOffline \<or> coverageStatus = CoverageDegraded then coverageReason else []),
          sc_SelfTest = selfTest, sc_CoverageReason = coverageReason \<rparr>)"

definition uptime_seconds :: "'l env \<Rightarrow> 'l State \<Rightarrow> int" where
  "uptime_seconds en s = go_div (time_sub (env_now en) (st_started s)) second"

definition derivedCoverageLocked :: "'l env \<Rightarrow> 'l State \<Rightarrow> L7Status \<times> SystemCoverage" where
  "derivedCoverageLocked en s =
     (let l7 = st_l7 s;
          l7 = l7\<lparr> l7_Coverage := EvaluateL7Coverage en l7 (uptime_seconds en s) \<rparr>;
          l7 = l7\<lparr> l7_TrafficPathVerified := (l7_Coverage l7 = ''TRAFFIC_ACTIVE''),
                   l7_CoverageReason := describeL7Coverage (l7_Coverage l7) \<rparr>;
          l7 = (if l7_Miswired l7 \<and> l7_Coverage l7 \<noteq> ''OFFLINE'' then l7\<lparr> l7_CoverageReason := l7_WebSurfaceNote l7 \<rparr> else l7)
      in (l7, EvaluateCoverage (gm_put ''l7_application'' (deriveL7SensorCoverage l7 (l7_Healthy l7)) (st_sensors s))))"

definition state_KineticTelemetry :: "'l env \<Rightarrow> 'l State \<Rightarrow> KineticTelemetry" where
  "state_KineticTelemetry en s = (st_kinetic s)\<lparr> kt_Coverage := snd (derivedCoverageLocked en s) \<rparr>"

section \<open>The snapshot and the protection claim\<close>

record ProtectionDomain =
  pd_Name :: string
  pd_Active :: bool
  pd_Mode :: string
  pd_Detail :: string

record ProtectionStatus =
  pt_Effective :: bool
  pt_Level :: string
  pt_Summary :: string
  pt_Domains :: "ProtectionDomain list"
  pt_Gaps :: "string list"

record Snapshot =
  sn_Enforcement :: string
  sn_StartedAt :: gotime
  sn_UptimeSeconds :: int
  sn_CoreConnected :: bool
  sn_CoreMode :: string
  sn_AllowlistReady :: bool
  sn_FeedVectors :: int
  sn_FeedStatus :: string
  sn_FeedGeneration :: "64 word"
  sn_FeedFingerprint :: string
  sn_Blocks :: "BlockEntry list"
  sn_Events :: "Event list"
  sn_XDR :: XDRStatus
  sn_L7 :: L7Status
  sn_Incidents :: "XDRIncident list"
  sn_Policy :: PolicyStatus
  sn_Release :: ReleaseStatus
  sn_KineticEnabled :: bool
  sn_KineticMode :: string
  sn_Evidence :: EvidenceStatus
  sn_Kinetic :: KineticTelemetry
  sn_Coverage :: SystemCoverage
  sn_Stream :: StreamDiagnostics

definition state_Snapshot :: "'l env \<Rightarrow> KineticRuntimeSettings \<Rightarrow> 'l State \<Rightarrow> Snapshot" where
  "state_Snapshot en settings s =
     (let xdr = (if st_releaseXDRMode s \<noteq> [] \<and> xs_Enabled (st_xdr s) then (st_xdr s)\<lparr> xs_Mode := st_releaseXDRMode s \<rparr> else st_xdr s);
          (l7, coverage) = derivedCoverageLocked en s
      in \<lparr> sn_Enforcement = st_enforcement s, sn_StartedAt = st_started s, sn_UptimeSeconds = uptime_seconds en s,
           sn_CoreConnected = st_coreConnected s, sn_CoreMode = st_coreMode s, sn_AllowlistReady = st_allowlistReady s,
           sn_FeedVectors = st_feedVectors s, sn_FeedStatus = st_feedStatus s, sn_FeedGeneration = st_feedGeneration s,
           sn_FeedFingerprint = st_feedFingerprint s,
           sn_Blocks = sort_key be_ExpiresAt (map snd (st_blocks s)), sn_Events = rev (st_events s),
           sn_XDR = xdr, sn_L7 = l7, sn_Incidents = rev (st_incidents s), sn_Policy = st_policy s, sn_Release = st_release s,
           sn_KineticEnabled = ks_Enabled settings, sn_KineticMode = ks_EnforcementMode settings,
           sn_Evidence = st_evidenceStatus s,
           sn_Kinetic = (st_kinetic s)\<lparr> kt_Coverage := coverage \<rparr>, sn_Coverage = coverage,
           sn_Stream = (st_streamDiagnostics s)\<lparr> sd_ActiveClients := int (length (st_subscribers s)) \<rparr> \<rparr>)"

text \<open>The XDR branch of the gap list.\<close>

definition xdr_gaps :: "XDRStatus \<Rightarrow> string \<Rightarrow> string list" where
  "xdr_gaps xdr xdrMode =
     (if \<not> xs_Enabled xdr then [''xdr_disabled'']
      else if xs_Degraded xdr then [''xdr_degraded'']
      else if xdrMode \<noteq> ''enforce'' then
        (if xdrMode = ''observe'' then [''xdr_observe''] else if xdrMode = ''contain'' then [''xdr_contain''] else [''xdr_disabled''])
      else [])"

definition deriveProtectionStatus :: "Snapshot \<Rightarrow> string \<Rightarrow> ProtectionStatus" where
  "deriveProtectionStatus snap releaseXDRMode =
     (let phase = map to_lower_char (trim_space (rs_Phase (sn_Release snap)));
          emergency = rs_EmergencyStop (sn_Release snap);
          kernelActive = (sn_Enforcement snap = ''enforce'' \<and> rs_KernelPolicyState (sn_Release snap) = ''verified-enforce'');
          xdrMode = (if trim_space releaseXDRMode = [] then trim_space (xs_Mode (sn_XDR snap)) else trim_space releaseXDRMode);
          xdrActive = (xs_Enabled (sn_XDR snap) \<and> xdrMode = ''enforce'' \<and> \<not> xs_Degraded (sn_XDR snap));
          coreActive = sn_CoreConnected snap;
          kineticMode = trim_space (sn_KineticMode snap);
          kineticActive = (sn_KineticEnabled snap \<and> kineticMode = ''block'');
          l7Active = (l7_Enabled (sn_L7 snap) \<and> l7_Mode (sn_L7 snap) = ''block'');
          evidenceActive = (es_Enabled (sn_Evidence snap) \<and> es_Healthy (sn_Evidence snap));
          domains =
            [\<lparr> pd_Name = ''kernel'', pd_Active = kernelActive, pd_Mode = sn_Enforcement snap, pd_Detail = rs_KernelPolicyState (sn_Release snap) \<rparr>,
             \<lparr> pd_Name = ''xdr'', pd_Active = xdrActive, pd_Mode = xdrMode, pd_Detail = [] \<rparr>,
             \<lparr> pd_Name = ''core'', pd_Active = coreActive, pd_Mode = sn_CoreMode snap, pd_Detail = [] \<rparr>,
             \<lparr> pd_Name = ''kinetic'', pd_Active = kineticActive, pd_Mode = kineticMode, pd_Detail = sy_Summary (sn_Coverage snap) \<rparr>,
             \<lparr> pd_Name = ''l7'', pd_Active = l7Active, pd_Mode = l7_Mode (sn_L7 snap), pd_Detail = l7_CoverageReason (sn_L7 snap) \<rparr>,
             \<lparr> pd_Name = ''evidence'', pd_Active = evidenceActive, pd_Mode = es_VerifyScope (sn_Evidence snap), pd_Detail = [] \<rparr>];
          gaps = (if kernelActive then [] else [''kernel_not_enforcing'']) @ xdr_gaps (sn_XDR snap) xdrMode
               @ (if coreActive then [] else [''core_disconnected''])
               @ (if \<not> sn_KineticEnabled snap \<or> kineticMode \<noteq> ''block'' then [''kinetic_not_block''] else [])
               @ (if l7Active then [] else [''l7_not_block'']) @ (if evidenceActive then [] else [''evidence_unhealthy''])
               @ (if emergency then [''emergency_stop''] else []) @ (if phase \<noteq> ''enforce'' then [''release_not_enforce''] else []);
          effective = (phase = ''enforce'' \<and> \<not> emergency \<and> kernelActive \<and> xdrActive \<and> coreActive \<and> kineticActive
            \<and> l7Active \<and> evidenceActive)
      in \<lparr> pt_Effective = effective,
           pt_Level = (if emergency then ''emergency'' else if effective then ''full'' else if phase = ''observe'' then ''observe''
             else if phase = ''canary'' then ''canary'' else if phase = ''degraded'' then ''degraded'' else ''restricted''),
           pt_Summary = (if effective then ''every protection layer enforces'' else str_join '','' gaps),
           pt_Domains = domains, pt_Gaps = gaps \<rparr>)"

definition snapshot_protection :: "'l env \<Rightarrow> KineticRuntimeSettings \<Rightarrow> 'l State \<Rightarrow> ProtectionStatus" where
  "snapshot_protection en settings s = deriveProtectionStatus (state_Snapshot en settings s) (st_releaseXDRMode s)"

section \<open>What the derivations promise\<close>

lemma EvaluateCoverage_sensors: "gm_wf m \<Longrightarrow> gm_get (sy_Sensors (EvaluateCoverage m)) k = gm_get m k"
  by (simp add: EvaluateCoverage_def coverage_fold coverage_init_def Let_def fold_put_get split: option.split)

lemma derived_l7_fields:
  assumes "derivedCoverageLocked en s = (l7, cov)"
  shows "cov = EvaluateCoverage (gm_put ''l7_application'' (deriveL7SensorCoverage l7 (l7_Healthy l7)) (st_sensors s))"
    and "l7_Coverage l7 = EvaluateL7Coverage en (st_l7 s) (uptime_seconds en s)"
    and "l7_Enabled l7 = l7_Enabled (st_l7 s)" and "l7_Healthy l7 = l7_Healthy (st_l7 s)"
    and "l7_CoverageRequired l7 = l7_CoverageRequired (st_l7 s)"
  using assms by (auto simp: derivedCoverageLocked_def Let_def split: if_splits)

lemma snapshot_fields [simp]:
  "sn_Release (state_Snapshot en k s) = st_release s" "sn_AllowlistReady (state_Snapshot en k s) = st_allowlistReady s"
  "sn_Policy (state_Snapshot en k s) = st_policy s" "sn_CoreConnected (state_Snapshot en k s) = st_coreConnected s"
  "sn_Coverage (state_Snapshot en k s) = snd (derivedCoverageLocked en s)"
  "sn_L7 (state_Snapshot en k s) = fst (derivedCoverageLocked en s)"
  "kt_Coverage (sn_Kinetic (state_Snapshot en k s)) = snd (derivedCoverageLocked en s)"
  "sn_Enforcement (state_Snapshot en k s) = st_enforcement s"
  by (simp_all add: state_Snapshot_def Let_def split: prod.split)

lemma derived_sensor:
  assumes "gm_wf (st_sensors s)"
  shows "gm_get (sy_Sensors (snd (derivedCoverageLocked en s))) name =
     (if name = ''l7_application'' then Some (deriveL7SensorCoverage (fst (derivedCoverageLocked en s)) (l7_Healthy (st_l7 s)))
      else gm_get (st_sensors s) name)"
proof -
  obtain l7 cov where d: "derivedCoverageLocked en s = (l7, cov)" by force
  from derived_l7_fields [OF d] assms show ?thesis by (simp add: d EvaluateCoverage_sensors)
qed

lemma EvaluateL7Coverage_range:
  "l7_Enabled st \<Longrightarrow> l7_Healthy st \<Longrightarrow> EvaluateL7Coverage en st up \<in>
     {''INLINE_DEGRADED'', ''READY_NOT_ATTACHED'', ''TLS_NOT_IN_PATH'', ''NO_TRAFFIC_WARNING'', ''TRAFFIC_ACTIVE'', ''HEALTHY_AWAITING_TRAFFIC''}"
  by (simp add: EvaluateL7Coverage_def Let_def)

lemma l7_online_cases:
  assumes "sc_Status (deriveL7SensorCoverage l7 h) = CoverageOnline"
  shows "l7_Enabled l7" "h" "l7_Coverage l7 \<notin> {''INLINE_DEGRADED'', ''HEALTHY_AWAITING_TRAFFIC'', ''NO_TRAFFIC_WARNING'', ''TLS_NOT_IN_PATH'', ''READY_NOT_ATTACHED''}"
proof -
  have v: "fst (l7_verdict l7 h) = CoverageOnline"
    using assms by (simp add: deriveL7SensorCoverage_def split: prod.splits)
  show "l7_Enabled l7" using v by (cases "l7_Enabled l7") (simp_all add: l7_verdict_def)
  then show "h" using v by (cases h) (simp_all add: l7_verdict_def)
  with \<open>l7_Enabled l7\<close> show "l7_Coverage l7 \<notin> {''INLINE_DEGRADED'', ''HEALTHY_AWAITING_TRAFFIC'', ''NO_TRAFFIC_WARNING'', ''TLS_NOT_IN_PATH'', ''READY_NOT_ATTACHED''}"
    using v by (auto simp: l7_verdict_def split: if_split_asm)
qed

lemma l7_online_traffic:
  assumes "derivedCoverageLocked en s = (l7, cov)" and "sc_Status (deriveL7SensorCoverage l7 (l7_Healthy l7)) = CoverageOnline"
  shows "l7_Coverage l7 = ''TRAFFIC_ACTIVE''"
  using l7_online_cases [OF assms(2)] derived_l7_fields [OF assms(1)] EvaluateL7Coverage_range [of "st_l7 s" en "uptime_seconds en s"]
  by auto

lemma traffic_active:
  "EvaluateL7Coverage en st up = ''TRAFFIC_ACTIVE'' \<Longrightarrow> l7_RequestsTotal st + l7_InlineRequestsTotal st + l7_TLSHandshakesTotal st > 0"
  by (simp add: EvaluateL7Coverage_def Let_def split: if_split_asm)

text \<open>
  Every reader of the state sees one verdict. The snapshot, its kinetic section and the telemetry accessor carry the
  same coverage, whatever copy was stored; its L7 entry is derived from the L7 status of the same snapshot and is online only
  when inspected traffic was counted; every other sensor is the published one; and the coverage is nominal exactly when
  no required sensor, the derived L7 entry included, is offline, disabled or degraded.
\<close>
theorem coverage_views_agree:
  assumes "gm_wf (st_sensors s)"
  shows "let snap = state_Snapshot en settings s; cov = sn_Coverage snap;
             l7 = deriveL7SensorCoverage (sn_L7 snap) (l7_Healthy (sn_L7 snap))
     in kt_Coverage (sn_Kinetic snap) = cov \<and> kt_Coverage (state_KineticTelemetry en s) = cov
      \<and> gm_get (sy_Sensors cov) ''l7_application'' = Some l7
      \<and> (sc_Status l7 = CoverageOnline \<longrightarrow> l7_TrafficPathVerified (sn_L7 snap)
           \<and> l7_RequestsTotal (st_l7 s) + l7_InlineRequestsTotal (st_l7 s) + l7_TLSHandshakesTotal (st_l7 s) > 0)
      \<and> (\<forall>name. name \<noteq> ''l7_application'' \<longrightarrow> gm_get (sy_Sensors cov) name = gm_get (st_sensors s) name)
      \<and> (sy_Nominal cov \<longleftrightarrow> (\<forall>name c. gm_get (sy_Sensors cov) name = Some c \<longrightarrow> sc_Required c
           \<longrightarrow> sc_Status c \<noteq> CoverageOffline \<and> sc_Status c \<noteq> CoverageDisabled \<and> sc_Status c \<noteq> CoverageDegraded))"
proof -
  obtain l7 cov where d: "derivedCoverageLocked en s = (l7, cov)" by force
  note f = derived_l7_fields [OF d]
  define m where "m = gm_put ''l7_application'' (deriveL7SensorCoverage l7 (l7_Healthy l7)) (st_sensors s)"
  have m: "gm_wf m" "cov = EvaluateCoverage m" using assms f(1) by (simp_all add: m_def)
  have nominal: "sy_Nominal cov \<longleftrightarrow> (\<forall>name c. gm_get (sy_Sensors cov) name = Some c \<longrightarrow> sc_Required c
      \<longrightarrow> sc_Status c \<noteq> CoverageOffline \<and> sc_Status c \<noteq> CoverageDisabled \<and> sc_Status c \<noteq> CoverageDegraded)"
    unfolding m(2) EvaluateCoverage_nominal EvaluateCoverage_sensors [OF m(1)]
    using m(1) by (fastforce simp: gm_wf_get_iff sensor_offline_def sensor_degraded_def split: SensorCoverageStatus.splits)
  have online: "l7_TrafficPathVerified l7 \<and> l7_RequestsTotal (st_l7 s) + l7_InlineRequestsTotal (st_l7 s) + l7_TLSHandshakesTotal (st_l7 s) > 0"
    if "sc_Status (deriveL7SensorCoverage l7 (l7_Healthy l7)) = CoverageOnline"
  proof
    from l7_online_traffic [OF d that] have t: "l7_Coverage l7 = ''TRAFFIC_ACTIVE''" .
    then show "l7_TrafficPathVerified l7" using d by (auto simp: derivedCoverageLocked_def Let_def split: if_splits)
    show "l7_RequestsTotal (st_l7 s) + l7_InlineRequestsTotal (st_l7 s) + l7_TLSHandshakesTotal (st_l7 s) > 0"
      using t [unfolded f(2)] by (rule traffic_active)
  qed
  show ?thesis
    using derived_sensor [OF assms, of en] nominal online f(4) by (simp add: d Let_def state_KineticTelemetry_def)
qed

theorem coverage_views_agree_witness:
  "\<forall>(en :: unit env) settings c. kt_Coverage (state_KineticTelemetry en (NewState 1 c)) = sn_Coverage (state_Snapshot en settings (NewState 1 c))"
proof (intro allI)
  fix en :: "unit env" and settings c
  have "gm_wf (st_sensors (NewState 1 c :: unit State))"
    by (simp add: NewState_def DefaultKineticTelemetry_def EvaluateCoverage_def coverage_step_eq coverage_init_def Let_def gm_wf_def)
  from coverage_views_agree [OF this, of en settings]
  show "kt_Coverage (state_KineticTelemetry en (NewState 1 c)) = sn_Coverage (state_Snapshot en settings (NewState 1 c))"
    by (simp add: Let_def)
qed

text \<open>
  The protection claim is honest. Protection is effective exactly when the list of gaps is empty, the level is \<open>full\<close>
  in exactly that case, every domain is then active and the release is in enforce without an emergency stop; and an inactive
  domain always leaves a gap.
\<close>
theorem protection_claim_exact:
  "let p = deriveProtectionStatus snap mode
   in (pt_Effective p \<longleftrightarrow> pt_Gaps p = []) \<and> (pt_Level p = ''full'' \<longleftrightarrow> pt_Effective p)
    \<and> (pt_Effective p \<longleftrightarrow> (\<forall>d \<in> set (pt_Domains p). pd_Active d) \<and> \<not> rs_EmergencyStop (sn_Release snap)
         \<and> map to_lower_char (trim_space (rs_Phase (sn_Release snap))) = ''enforce'')
    \<and> (pt_Effective p \<longrightarrow> sn_Enforcement snap = ''enforce'' \<and> xs_Enabled (sn_XDR snap) \<and> \<not> xs_Degraded (sn_XDR snap)
         \<and> sn_CoreConnected snap \<and> es_Healthy (sn_Evidence snap))"
proof -
  define p where "p = deriveProtectionStatus snap mode"
  have 1: "pt_Effective p \<longleftrightarrow> pt_Gaps p = []"
    unfolding p_def by (auto simp: deriveProtectionStatus_def Let_def xdr_gaps_def)
  have 2: "pt_Level p = ''full'' \<longleftrightarrow> pt_Effective p"
    unfolding p_def by (simp add: deriveProtectionStatus_def Let_def)
  have 3: "pt_Effective p \<longleftrightarrow> (\<forall>d \<in> set (pt_Domains p). pd_Active d) \<and> \<not> rs_EmergencyStop (sn_Release snap)
         \<and> map to_lower_char (trim_space (rs_Phase (sn_Release snap))) = ''enforce''"
    unfolding p_def by (auto simp: deriveProtectionStatus_def Let_def)
  have 4: "pt_Effective p \<longrightarrow> sn_Enforcement snap = ''enforce'' \<and> xs_Enabled (sn_XDR snap) \<and> \<not> xs_Degraded (sn_XDR snap)
         \<and> sn_CoreConnected snap \<and> es_Healthy (sn_Evidence snap)"
    unfolding p_def by (simp add: deriveProtectionStatus_def Let_def)
  show ?thesis using 1 2 3 4 by (simp add: p_def Let_def)
qed

definition full_snapshot :: "Snapshot \<Rightarrow> Snapshot" where
  "full_snapshot snap = snap\<lparr> sn_Enforcement := ''enforce'', sn_CoreConnected := True,
     sn_Release := (sn_Release snap)\<lparr> rs_Phase := ''enforce'', rs_EmergencyStop := False, rs_KernelPolicyState := ''verified-enforce'' \<rparr>,
     sn_XDR := (sn_XDR snap)\<lparr> xs_Enabled := True, xs_Degraded := False \<rparr>, sn_KineticEnabled := True, sn_KineticMode := ''block'',
     sn_L7 := (sn_L7 snap)\<lparr> l7_Enabled := True, l7_Mode := ''block'' \<rparr>,
     sn_Evidence := (sn_Evidence snap)\<lparr> es_Enabled := True, es_Healthy := True \<rparr> \<rparr>"

theorem protection_claim_exact_witness:
  "\<forall>snap. let p = deriveProtectionStatus (full_snapshot snap) ''enforce'' in pt_Level p = ''full'' \<and> pt_Gaps p = []"
proof
  fix snap
  have "pt_Effective (deriveProtectionStatus (full_snapshot snap) ''enforce'')"
    by (simp add: deriveProtectionStatus_def full_snapshot_def Let_def trim_space_graphic graphic_def to_lower_char_def)
  then show "let p = deriveProtectionStatus (full_snapshot snap) ''enforce'' in pt_Level p = ''full'' \<and> pt_Gaps p = []"
    using protection_claim_exact [of "full_snapshot snap" "''enforce''"] by (simp add: Let_def)
qed

end
