(* ===== verification/Kinetic_Response.thy ===== *)
theory Kinetic_Response
  imports State_Status Block_State Allowlist
begin

text \<open>
  The response engine, \<open>control/kinetic_response.go\<close>: the gates a containment decision has to pass, the
  change of the block list and of the kernel map, and the commit and rollback that follow the
  attempt to persist the signed policy.

  The kernel core is reached through the interface \<open>networkBlockCore\<close>; its two calls are parameters
  that act on a kernel state of any type and may fail with an error text, and \<open>None\<close> is a nil
  core. The result of \<open>os.Stat\<close> on the emergency-stop file is a parameter too. An operation maps
  the engine, the shared state and the kernel state to new ones; \<open>world\<close> is that triple. The
  engine always has a state. \<open>runtime\<close> is the kinetic part of the published settings, which only the
  snapshot copies. Confidence values are exact rationals; durations wrap at 64 bits. The texts inside an
  error are shortened; the kind of error is the constructor.
\<close>

section \<open>Data\<close>

datatype stat_result = StatExists | StatNotExist | StatError string

record 'k core =
  core_Add :: "string \<Rightarrow> 'k \<Rightarrow> string option \<times> 'k"
  core_Delete :: "string \<Rightarrow> 'k \<Rightarrow> string option \<times> 'k"

datatype response_error =
    ErrEmergencyStopActive "string option"
  | ErrTarget target_error
  | ErrAllowlistProtected
  | ErrBroadSectorProtected
  | ErrAutoContainDisabled
  | ErrSubnetEvidenceLow
  | ErrResponseNotReady string
  | ErrRateLimitThrottled
  | ErrBlockRejected block_error
  | ErrKernelSync string
  | ErrKernelSyncDivergent string string
  | ErrKernelStateDivergent string
  | ErrRollbackUnavailable

record NetworkDecision =
  nd_Target :: string
  nd_RuleIDs :: "string list"
  nd_Score :: int
  nd_Confidence :: rat
  nd_ContributorCount :: int
  nd_SuggestedAction :: string
  nd_BaseTTL :: duration
  nd_Reason :: string
  nd_EvidenceRoot :: string
  nd_Timestamp :: gostamp

record TargetReputation =
  tr_StrikeCount :: int
  tr_LastStrikeAt :: gostamp

record pendingNetworkChange =
  pn_previous :: "BlockEntry option"
  pn_kernelAdded :: bool
  pn_proposedStrike :: TargetReputation

record 'k KineticResponseEngine =
  re_cfg :: Config
  re_core :: "'k core option"
  re_allowlist :: allowlist
  re_reputation :: "(string, TargetReputation) gomap"
  re_pending :: "(string, pendingNetworkChange) gomap"
  re_tokensAvailable :: int
  re_tokenLastSec :: int
  re_bansEnforcedTotal :: "64 word"
  re_bansExpiredTotal :: "64 word"
  re_throttledTotal :: "64 word"

type_synonym ('k, 'l) world = "'k KineticResponseEngine \<times> 'l State \<times> 'k"

definition response_UpdateAllowlist :: "string list \<Rightarrow> 'k KineticResponseEngine \<Rightarrow> 'k KineticResponseEngine" where
  "response_UpdateAllowlist items r = r\<lparr> re_allowlist := compile_allowlist items \<rparr>"

definition NewKineticResponseEngine :: "'l env \<Rightarrow> Config \<Rightarrow> 'k core option \<Rightarrow> 'k KineticResponseEngine" where
  "NewKineticResponseEngine en cfg core =
     response_UpdateAllowlist (df_Allowlist (cf_Defense cfg))
       \<lparr> re_cfg = cfg, re_core = core, re_allowlist = \<lparr> al_nets = [], al_ips = [] \<rparr>, re_reputation = [], re_pending = [],
         re_tokensAvailable = kc_MaxStrikesPerSec (cf_Kinetic cfg), re_tokenLastSec = time_unix (env_now en),
         re_bansEnforcedTotal = 0, re_bansExpiredTotal = 0, re_throttledTotal = 0 \<rparr>"

definition IsAllowlistProtected :: "'k KineticResponseEngine \<Rightarrow> string \<Rightarrow> bool" where
  "IsAllowlistProtected r target = isAllowlistProtectedLocked (re_allowlist r) target"

text \<open>\<open>Time.Sub\<close> for times that may carry a monotonic reading.\<close>

definition stamp_sub :: "gostamp \<Rightarrow> gostamp \<Rightarrow> duration" where
  "stamp_sub t u = (case (gs_mono t, gs_mono u) of
     (Some a, Some b) \<Rightarrow> time_sub a b | _ \<Rightarrow> time_sub (gs_wall t) (gs_wall u))"

section \<open>Target classes\<close>

definition cidr_size :: "string \<Rightarrow> (nat \<times> nat) option" where
  "cidr_size target = map_option (\<lambda>(_, n). mask_size (net_mask n)) (parseCIDR target)"

definition isBroadSectorCIDR :: "string \<Rightarrow> bool" where
  "isBroadSectorCIDR target =
     (if CHR ''/'' \<notin> set target then False
      else case cidr_size target of
        None \<Rightarrow> False
      | Some (ones, bits) \<Rightarrow> (bits = 32 \<and> ones \<le> 16) \<or> (bits = 128 \<and> ones \<le> 48))"

definition isSubnetCIDR :: "string \<Rightarrow> bool" where
  "isSubnetCIDR target =
     (if CHR ''/'' \<notin> set target then False
      else case cidr_size target of
        None \<Rightarrow> False
      | Some (ones, bits) \<Rightarrow> (bits = 32 \<and> ones = 24) \<or> (bits = 128 \<and> ones = 64))"

definition isIPv4Subnet24 :: "string \<Rightarrow> bool" where
  "isIPv4Subnet24 target = (cidr_size target = Some (24, 32))"

definition isIPv6Subnet64 :: "string \<Rightarrow> bool" where
  "isIPv6Subnet64 target = (cidr_size target = Some (64, 128))"

definition autoContainAllowedLocked :: "'k KineticResponseEngine \<Rightarrow> string \<Rightarrow> bool" where
  "autoContainAllowedLocked r target =
     (let kin = cf_Kinetic (re_cfg r)
      in if isIPv4Subnet24 target then kc_AutoContainIPv4Subnet kin
         else if isIPv6Subnet64 target then kc_AutoContainIPv6Subnet kin
         else case cidr_size target of
           None \<Rightarrow> False
         | Some (ones, bits) \<Rightarrow>
             if (bits = 32 \<and> ones = 32) \<or> (bits = 128 \<and> ones = 128) then kc_AutoContainSingleIP kin else False)"

section \<open>The gates\<close>

definition emergency_gate :: "(string \<Rightarrow> stat_result) \<Rightarrow> Config \<Rightarrow> response_error option" where
  "emergency_gate stat cfg =
     (let path = trim_space (cf_EmergencyStopFile cfg)
      in if path = [] then None
         else case stat path of
           StatExists \<Rightarrow> Some (ErrEmergencyStopActive None)
         | StatNotExist \<Rightarrow> None
         | StatError e \<Rightarrow> Some (ErrEmergencyStopActive (Some e)))"

definition minimum_sources :: "'k KineticResponseEngine \<Rightarrow> string \<Rightarrow> int" where
  "minimum_sources r target =
     (let kin = cf_Kinetic (re_cfg r);
          m = (if isIPv4Subnet24 target then kc_SubnetMinSources kin
               else if isIPv6Subnet64 target then kc_IPv6SubnetMinSources kin else 2)
      in if m < 2 then 2 else m)"

definition validateActiveResponseLocked :: "'l env \<Rightarrow> KineticRuntimeSettings \<Rightarrow> NetworkDecision
    \<Rightarrow> 'k KineticResponseEngine \<Rightarrow> 'l State \<Rightarrow> response_error option" where
  "validateActiveResponseLocked en runtime decision r s =
     (let action = nd_SuggestedAction decision; mode = kc_EnforcementMode (cf_Kinetic (re_cfg r))
      in if action \<noteq> ''contain'' \<and> action \<noteq> ''block'' then Some (ErrResponseNotReady (''unsupported active action '' @ action))
         else if mode = ''observe'' then Some (ErrResponseNotReady ''kinetic enforcement mode is observe'')
         else if action = ''block'' \<and> mode \<noteq> ''block'' then
           Some (ErrResponseNotReady (''rule requested block while kinetic mode is '' @ mode))
         else if fst (Modes s) \<noteq> ''enforce'' then
           Some (ErrResponseNotReady (''global network enforcement is '' @ fst (Modes s)))
         else
           let snap = state_Snapshot en runtime s; release = sn_Release snap
           in if rs_Phase release \<noteq> ''enforce'' \<or> \<not> rs_Ready release \<or> rs_EmergencyStop release then
                Some (ErrResponseNotReady (''release phase='' @ rs_Phase release))
              else if \<not> (case gm_get (sy_Sensors (sn_Coverage snap)) ''xdp_ingress'' of
                            None \<Rightarrow> False | Some cov \<Rightarrow> sc_Status cov = CoverageOnline \<and> sc_Required cov) then
                Some (ErrResponseNotReady ''required ingress sensor is not verified online'')
              else if \<not> sn_AllowlistReady snap then
                Some (ErrResponseNotReady ''kernel management allowlist is not synchronized'')
              else if cf_PolicyRequireSigned (re_cfg r) \<and> \<not> ps_Verified (sn_Policy snap) then
                Some (ErrResponseNotReady ''signed policy is not verified'')
              else if action = ''block'' \<and> (\<not> sn_CoreConnected snap \<or> re_core r = None) then
                Some (ErrResponseNotReady ''authenticated kernel core is unavailable'')
              else None)"

text \<open>Gates 0 to 4: the error of the first gate that refuses, or the canonical target.\<close>

definition decision_gates :: "'l env \<Rightarrow> (string \<Rightarrow> stat_result) \<Rightarrow> KineticRuntimeSettings \<Rightarrow> NetworkDecision
    \<Rightarrow> 'k KineticResponseEngine \<Rightarrow> 'l State \<Rightarrow> response_error + string" where
  "decision_gates en stat runtime decision r s =
     (case emergency_gate stat (re_cfg r) of
        Some e \<Rightarrow> Inl e
      | None \<Rightarrow>
        case normalizeTarget (nd_Target decision) of
          Inl e \<Rightarrow> Inl (ErrTarget e)
        | Inr target \<Rightarrow>
            if isAllowlistProtectedLocked (re_allowlist r) target then Inl ErrAllowlistProtected
            else if isBroadSectorCIDR target then Inl ErrBroadSectorProtected
            else if \<not> autoContainAllowedLocked r target then Inl ErrAutoContainDisabled
            else if isSubnetCIDR target \<and> (nd_Score decision < 90 \<or> nd_Confidence decision < 90 / 100
                      \<or> nd_ContributorCount decision < minimum_sources r target) then Inl ErrSubnetEvidenceLow
            else case validateActiveResponseLocked en runtime (decision\<lparr> nd_Target := target \<rparr>) r s of
              Some e \<Rightarrow> Inl e
            | None \<Rightarrow> Inr target)"

text \<open>Gate 5: the token bucket.\<close>

definition refill_tokens :: "int \<Rightarrow> 'k KineticResponseEngine \<Rightarrow> 'k KineticResponseEngine" where
  "refill_tokens sec r =
     (if sec \<noteq> re_tokenLastSec r
      then r\<lparr> re_tokenLastSec := sec, re_tokensAvailable := kc_MaxStrikesPerSec (cf_Kinetic (re_cfg r)) \<rparr> else r)"

text \<open>Gate 6: reputation and time to live.\<close>

definition proposed_reputation :: "gostamp \<Rightarrow> string \<Rightarrow> 'k KineticResponseEngine \<Rightarrow> TargetReputation" where
  "proposed_reputation now target r =
     \<lparr> tr_StrikeCount =
         (case gm_get (re_reputation r) target of
            Some rep \<Rightarrow> if stamp_sub now (tr_LastStrikeAt rep) \<le> 48 * hour then tr_StrikeCount rep + 1 else 1
          | None \<Rightarrow> 1),
       tr_LastStrikeAt = now \<rparr>"

definition adaptive_ttl :: "Config \<Rightarrow> duration \<Rightarrow> int \<Rightarrow> duration" where
  "adaptive_ttl cfg base strikes =
     (let ttl = (if base \<le> 0 then wrap64 (kc_BanTTLSeconds (cf_Kinetic cfg) * second) else base);
          ttl = (if strikes > 1 then wrap64 (ttl * wrap64 (2 ^ nat (strikes - 1))) else ttl);
          maxTTL = wrap64 (df_MaxTTLSeconds (cf_Defense cfg) * second)
      in if maxTTL > 0 \<and> ttl > maxTTL then maxTTL else ttl)"

section \<open>Executing a decision\<close>

text \<open>The entry kept when the target was already blocked.\<close>

definition merge_previous :: "BlockEntry \<Rightarrow> BlockEntry \<Rightarrow> BlockEntry" where
  "merge_previous previous entry = entry\<lparr>
     be_ExpiresAt := (if be_ExpiresAt previous > be_ExpiresAt entry then be_ExpiresAt previous else be_ExpiresAt entry),
     be_Enforced := (be_Enforced previous \<or> be_Enforced entry),
     be_CreatedAt := be_CreatedAt previous,
     be_Source := be_Source previous,
     be_Reason := (if be_Source previous \<noteq> ''kinetic'' then be_Reason previous else be_Reason entry) \<rparr>"

text \<open>Undoing the change of the block list.\<close>

definition undo_block :: "BlockEntry option \<Rightarrow> BlockEntry \<Rightarrow> 'l State \<Rightarrow> 'l State" where
  "undo_block previous entry s =
     (case previous of Some p \<Rightarrow> RestoreBlock p s | None \<Rightarrow> snd (RemoveBlockByID (be_ID entry) s))"

text \<open>The kernel call of \<open>ExecuteDecision\<close> and its compensation.\<close>

definition kernel_apply :: "BlockEntry option \<Rightarrow> BlockEntry \<Rightarrow> ('k, 'l) world \<Rightarrow> response_error option \<times> ('k, 'l) world" where
  "kernel_apply previous entry w =
     (case w of (r, s, k) \<Rightarrow>
        case re_core r of
          None \<Rightarrow> (Some (ErrResponseNotReady ''kernel core is nil''), r, undo_block previous entry s, k)
        | Some core \<Rightarrow>
            case core_Add core (be_Target entry) k of
              (None, k) \<Rightarrow> (None, r, s, k)
            | (Some err, k) \<Rightarrow>
                case core_Delete core (be_Target entry) k of
                  (None, k) \<Rightarrow> (Some (ErrKernelSync err), r, undo_block previous entry s, k)
                | (Some del, k) \<Rightarrow> (Some (ErrKernelSyncDivergent err del), r, undo_block previous entry s, k))"

text \<open>The pending record of an applied change.\<close>

definition keep_pending :: "BlockEntry \<Rightarrow> pendingNetworkChange \<Rightarrow> response_error option \<times> ('k, 'l) world
    \<Rightarrow> (response_error + BlockEntry) \<times> ('k, 'l) world" where
  "keep_pending entry change ew =
     (case ew of
        (Some e, w) \<Rightarrow> (Inl e, w)
      | (None, r, s, k) \<Rightarrow> (Inr entry, r\<lparr> re_pending := gm_put (be_ID entry) change (re_pending r) \<rparr>, s, k))"

text \<open>The part after the gates: block list, kernel and pending record.\<close>

definition apply_decision :: "'l env \<Rightarrow> gostamp \<Rightarrow> string \<Rightarrow> NetworkDecision \<Rightarrow> ('k, 'l) world
    \<Rightarrow> (response_error + BlockEntry) \<times> ('k, 'l) world" where
  "apply_decision en now target decision w =
     (case w of (r, s, k) \<Rightarrow>
        let rep = proposed_reputation now target r;
            ttl = adaptive_ttl (re_cfg r) (nd_BaseTTL decision) (tr_StrikeCount rep);
            enforceInKernel = (kc_EnforcementMode (cf_Kinetic (re_cfg r)) = ''block'' \<and> nd_SuggestedAction decision = ''block'');
            previous = BlockByTarget target s;
            maxBlocks = (if df_MaxBlockEntries (cf_Defense (re_cfg r)) \<le> 0 then 250000 else df_MaxBlockEntries (cf_Defense (re_cfg r)))
        in case AddBlockAt en target (nd_Reason decision) ''kinetic'' ttl enforceInKernel maxBlocks now s of
          (Inl e, s) \<Rightarrow> (Inl (ErrBlockRejected e), r, s, k)
        | (Inr entry, s) \<Rightarrow>
            let (entry, s) = (case previous of
                   Some p \<Rightarrow> let entry = merge_previous p entry in (entry, RestoreBlock entry s)
                 | None \<Rightarrow> (entry, s));
                kernelAdded = (enforceInKernel \<and> (case previous of Some p \<Rightarrow> \<not> be_Enforced p | None \<Rightarrow> True))
            in keep_pending entry \<lparr> pn_previous = previous, pn_kernelAdded = kernelAdded, pn_proposedStrike = rep \<rparr>
                 (if kernelAdded then kernel_apply previous entry (r, s, k) else (None, r, s, k)))"

definition decision_now :: "'l env \<Rightarrow> NetworkDecision \<Rightarrow> gostamp" where
  "decision_now en decision =
     (if time_is_zero (gs_wall (nd_Timestamp decision)) then stamp_utc (env_stamp en) else nd_Timestamp decision)"

definition ExecuteDecision :: "'l env \<Rightarrow> (string \<Rightarrow> stat_result) \<Rightarrow> KineticRuntimeSettings \<Rightarrow> NetworkDecision \<Rightarrow> ('k, 'l) world
    \<Rightarrow> (response_error + BlockEntry) \<times> ('k, 'l) world" where
  "ExecuteDecision en stat runtime decision w =
     (case w of (r, s, k) \<Rightarrow>
        case decision_gates en stat runtime decision r s of
          Inl e \<Rightarrow> (Inl e, w)
        | Inr target \<Rightarrow>
            let now = decision_now en decision; r = refill_tokens (time_unix (gs_wall now)) r
            in if re_tokensAvailable r \<le> 0
               then (Inl ErrRateLimitThrottled, r\<lparr> re_throttledTotal := re_throttledTotal r + 1 \<rparr>, s, k)
               else apply_decision en now target decision (r\<lparr> re_tokensAvailable := re_tokensAvailable r - 1 \<rparr>, s, k))"

section \<open>Commit, rollback and counters\<close>

definition response_evidence :: "string \<Rightarrow> gotime \<Rightarrow> string \<Rightarrow> string \<Rightarrow> string \<Rightarrow> string \<Rightarrow> EvidenceRecord" where
  "response_evidence i t severity kind message target =
     \<lparr> er_ID = i, er_Time = t, er_Severity = severity, er_Kind = kind, er_Source = ''kinetic_response_engine'',
       er_Message = message, er_Target = target \<rparr>"

definition CommitApplied :: "'l env \<Rightarrow> NetworkDecision \<Rightarrow> BlockEntry \<Rightarrow> ('k, 'l) world \<Rightarrow> ledger_error option \<times> ('k, 'l) world" where
  "CommitApplied en decision entry w =
     (case w of (r, s, k) \<Rightarrow>
        let r = (case gm_get (re_pending r) (be_ID entry) of
                   Some change \<Rightarrow> r\<lparr> re_reputation := gm_put (be_Target entry) (pn_proposedStrike change) (re_reputation r),
                                    re_pending := gm_del (be_ID entry) (re_pending r) \<rparr>
                 | None \<Rightarrow> r);
            now = gs_wall (decision_now en decision);
            ttl = time_sub (be_ExpiresAt entry) (be_CreatedAt entry);
            ttl = (if ttl < 0 then 0 else ttl);
            (err, s) = RecordEvidence en (response_evidence (be_ID entry) now ''high'' ''kinetic_containment''
              (''Contained target '' @ be_Target entry @ '' for '' @ duration_string ttl @ '' ('' @ nd_Reason decision
               @ '', Score: '' @ dec_int (nd_Score decision) @ '')'') (be_Target entry)) s
        in (err, r\<lparr> re_bansEnforcedTotal := re_bansEnforcedTotal r + 1 \<rparr>,
            UpdateKineticTelemetry (\<lambda>t. t\<lparr> kt_BansEnforcedTotal := kt_BansEnforcedTotal t + 1,
              kt_ResponseAppliedTotal := kt_ResponseAppliedTotal t + 1, kt_LastStrikeAt := Some now \<rparr>) s, k))"

definition RollbackApplied :: "BlockEntry \<Rightarrow> ('k, 'l) world \<Rightarrow> response_error option \<times> ('k, 'l) world" where
  "RollbackApplied entry w =
     (case w of (r, s, k) \<Rightarrow>
        case gm_get (re_pending r) (be_ID entry) of
          None \<Rightarrow> (Some ErrRollbackUnavailable, w)
        | Some change \<Rightarrow>
            let r = r\<lparr> re_pending := gm_del (be_ID entry) (re_pending r) \<rparr>;
                (kernelErr, k) = (if \<not> pn_kernelAdded change then (None, k)
                   else case re_core r of None \<Rightarrow> (Some ''kernel rollback core is unavailable'', k)
                        | Some core \<Rightarrow> core_Delete core (be_Target entry) k)
            in (map_option (\<lambda>e. ErrKernelStateDivergent (''rollback delete '' @ be_Target entry @ '': '' @ e)) kernelErr,
                r, undo_block (pn_previous change) entry s, k))"

definition RecordApplyRollback :: "'l env \<Rightarrow> NetworkDecision \<Rightarrow> BlockEntry \<Rightarrow> string \<Rightarrow> string option \<Rightarrow> 'l State \<Rightarrow> 'l State" where
  "RecordApplyRollback en decision entry cause rollbackErr s =
     (let now = gs_wall (decision_now en decision);
          (severity, message) = (case rollbackErr of
             None \<Rightarrow> (''high'', ''Containment for '' @ be_Target entry @ '' rolled back because policy persistence failed: '' @ cause)
           | Some e \<Rightarrow> (''critical'', ''Containment rollback for '' @ be_Target entry
               @ '' failed after policy persistence error: persist='' @ cause @ '' rollback='' @ e));
          s = UpdateKineticTelemetry (\<lambda>t.
                let t = t\<lparr> kt_ResponseRollbackTotal := kt_ResponseRollbackTotal t + 1 \<rparr>
                in if rollbackErr \<noteq> None then t\<lparr> kt_ResponseFailedTotal := kt_ResponseFailedTotal t + 1 \<rparr> else t) s;
          (i, s) = randomID en s
      in snd (RecordEvidence en (response_evidence i now severity ''kinetic_apply_rollback'' message (be_Target entry)) s))"

definition RecordSuppressed :: "'l State \<Rightarrow> 'l State" where
  "RecordSuppressed s = UpdateKineticTelemetry (\<lambda>t. t\<lparr> kt_ResponseSuppressedTotal := kt_ResponseSuppressedTotal t + 1 \<rparr>) s"

definition RecordFailure :: "'l State \<Rightarrow> 'l State" where
  "RecordFailure s = UpdateKineticTelemetry (\<lambda>t. t\<lparr> kt_ResponseFailedTotal := kt_ResponseFailedTotal t + 1 \<rparr>) s"

definition response_UpdateConfig :: "KineticRuntimeSettings \<Rightarrow> NetworkRuntimeSettings \<Rightarrow> 'k KineticResponseEngine \<Rightarrow> 'k KineticResponseEngine" where
  "response_UpdateConfig kin network r =
     (let cfg = (re_cfg r)\<lparr> cf_Kinetic := kineticConfigFromRuntime (cf_Kinetic (re_cfg r)) kin,
            cf_Defense := (cf_Defense (re_cfg r))\<lparr> df_DefaultTTLSeconds := nr_DefaultTTLSeconds network,
              df_MaxTTLSeconds := nr_MaxTTLSeconds network, df_MaxBlockEntries := nr_MaxBlockEntries network,
              df_StrictASNDrop := nr_StrictASNDrop network \<rparr> \<rparr>
      in r\<lparr> re_cfg := cfg,
            re_tokensAvailable := (if re_tokensAvailable r > kc_MaxStrikesPerSec (cf_Kinetic cfg)
              then kc_MaxStrikesPerSec (cf_Kinetic cfg) else re_tokensAvailable r) \<rparr>)"

section \<open>The effect of a decision\<close>

definition fresh_id :: "'l env \<Rightarrow> 'l State \<Rightarrow> bool" where
  "fresh_id en s \<longleftrightarrow> (\<forall>k b. gm_get (st_blocks s) k = Some b \<longrightarrow> be_ID b \<noteq> env_mint en (st_minted s))"

text \<open>What the change of the block list leaves behind before the kernel is asked.\<close>

definition changed_list :: "'l env \<Rightarrow> gostamp \<Rightarrow> string \<Rightarrow> BlockEntry \<Rightarrow> 'l State \<Rightarrow> 'l State \<Rightarrow> bool" where
  "changed_list en now target b s s' \<longleftrightarrow> be_Target b = target \<and> blocks_wf s'
     \<and> (\<forall>k. gm_get (st_blocks s') k = (if k = target then Some b else gm_get (st_blocks s) k))
     \<and> be_ID b = (case gm_get (st_blocks s) target of Some p \<Rightarrow> be_ID p | None \<Rightarrow> env_mint en (st_minted s))
     \<and> (\<forall>dl. gm_get (st_blockDeadlines s') target = Some dl \<longrightarrow> gs_mono (effective_now en now) = None \<longrightarrow> gs_mono dl = None)"

lemma add_changed_list:
  assumes wf: "blocks_wf s" and t: "normalizeTarget target = Inr target"
    and add: "AddBlockAt en target reason src ttl enf mx now s = (Inr b, s1)"
  shows "changed_list en now target b s s1"
  using AddBlockAt_Inr [OF add] AddBlockAt_key [OF wf add] AddBlockAt_blocks_wf [OF wf add] t
  by (auto simp: changed_list_def stamp_add_def split: option.splits)

lemma merge_fields [simp]:
  "be_ID (merge_previous p b) = be_ID b" "be_Target (merge_previous p b) = be_Target b"
  "be_CreatedAt (merge_previous p b) = be_CreatedAt p" "be_Source (merge_previous p b) = be_Source p"
  "be_Enforced (merge_previous p b) \<longleftrightarrow> be_Enforced p \<or> be_Enforced b"
  "be_ExpiresAt (merge_previous p b) = max (be_ExpiresAt p) (be_ExpiresAt b)"
  by (simp_all add: merge_previous_def)

lemma merge_changed_list:
  assumes "changed_list en now target b s s1" and "normalizeTarget target = Inr target"
  shows "changed_list en now target (merge_previous p b) s (RestoreBlock (merge_previous p b) s1)"
  using assms RestoreBlock_blocks_wf [of s1 "merge_previous p b"]
  by (auto simp: changed_list_def RestoreBlock_def)

lemma undo_changed_list:
  assumes ch: "changed_list en now target b s s'" and wf: "blocks_wf s" and fresh: "fresh_id en s"
  shows "gm_get (st_blocks (undo_block (gm_get (st_blocks s) target) b s')) = gm_get (st_blocks s)"
proof (cases "gm_get (st_blocks s) target")
  case None
  with ch fresh have "gm_get (st_blocks (snd (RemoveBlockByID (be_ID b) s'))) = gm_get (st_blocks s)"
    by (intro block_undo.undo_insert) (auto simp: changed_list_def fresh_id_def blocks_wf_def)
  with None show ?thesis by (simp add: undo_block_def)
next
  case (Some p)
  with ch have "gm_get (st_blocks (RestoreBlock p s')) = gm_get (st_blocks s)"
    using blocks_wfD(3) [OF wf Some] by (intro block_undo.undo_update [of s' b]) (auto simp: changed_list_def)
  with Some show ?thesis by (simp add: undo_block_def)
qed

lemma undo_block_wf: "blocks_wf s' \<Longrightarrow> blocks_wf s \<Longrightarrow> blocks_wf (undo_block (gm_get (st_blocks s) target) b s')"
  by (auto simp: undo_block_def RemoveBlockByID_blocks_wf dest: blocks_wfD(3,4) intro!: RestoreBlock_blocks_wf split: option.split)

definition kernel_wanted :: "NetworkDecision \<Rightarrow> 'k KineticResponseEngine \<Rightarrow> BlockEntry option \<Rightarrow> bool" where
  "kernel_wanted d r previous \<longleftrightarrow> kc_EnforcementMode (cf_Kinetic (re_cfg r)) = ''block'' \<and> nd_SuggestedAction d = ''block''
     \<and> (case previous of Some p \<Rightarrow> \<not> be_Enforced p | None \<Rightarrow> True)"

definition block_ttl :: "gostamp \<Rightarrow> string \<Rightarrow> NetworkDecision \<Rightarrow> 'k KineticResponseEngine \<Rightarrow> duration" where
  "block_ttl now target d r = adaptive_ttl (re_cfg r) (nd_BaseTTL d) (tr_StrikeCount (proposed_reputation now target r))"

text \<open>The entry a decision leaves, in terms of the entry that was there.\<close>

definition decided_entry :: "'l env \<Rightarrow> gostamp \<Rightarrow> string \<Rightarrow> NetworkDecision \<Rightarrow> 'k KineticResponseEngine \<Rightarrow> BlockEntry option \<Rightarrow> BlockEntry \<Rightarrow> bool" where
  "decided_entry en now target d r previous b \<longleftrightarrow>
     (let expires = gs_wall (effective_now en now) + block_ttl now target d r;
          enforce = (kc_EnforcementMode (cf_Kinetic (re_cfg r)) = ''block'' \<and> nd_SuggestedAction d = ''block'')
      in case previous of
           None \<Rightarrow> be_ExpiresAt b = expires \<and> be_Enforced b = enforce \<and> be_Source b = ''kinetic'' \<and> be_Reason b = nd_Reason d
             \<and> be_CreatedAt b = gs_wall (effective_now en now)
         | Some p \<Rightarrow> be_ExpiresAt b = max (be_ExpiresAt p) expires \<and> (be_Enforced b \<longleftrightarrow> be_Enforced p \<or> enforce)
             \<and> be_Source b = be_Source p \<and> be_CreatedAt b = be_CreatedAt p \<and> be_ID b = be_ID p
             \<and> (be_Source p \<noteq> ''kinetic'' \<longrightarrow> be_Reason b = be_Reason p))"

lemma apply_decision_cases:
  assumes wf: "blocks_wf s" and t: "normalizeTarget target = Inr target"
    and call: "apply_decision en now target d (r, s, k) = (res, r', s', k')"
  obtains (rejected) e where "res = Inl (ErrBlockRejected e)" "r' = r" "s' = s" "k' = k"
  | (applied) b s1 where "changed_list en now target b s s1" "decided_entry en now target d r (gm_get (st_blocks s) target) b"
      "(if kernel_wanted d r (gm_get (st_blocks s) target) then kernel_apply (gm_get (st_blocks s) target) b (r, s1, k) else (None, r, s1, k))
        = (None, r, s', k')" "res = Inr b"
      "r' = r\<lparr> re_pending := gm_put (be_ID b) \<lparr> pn_previous = gm_get (st_blocks s) target,
           pn_kernelAdded = kernel_wanted d r (gm_get (st_blocks s) target), pn_proposedStrike = proposed_reputation now target r \<rparr> (re_pending r) \<rparr>"
  | (undone) b s1 e where "changed_list en now target b s s1" "kernel_wanted d r (gm_get (st_blocks s) target)"
      "kernel_apply (gm_get (st_blocks s) target) b (r, s1, k) = (Some e, r', s', k')" "res = Inl e"
proof -
  let ?p = "gm_get (st_blocks s) target"
  have prev: "BlockByTarget target s = ?p" using t by (simp add: BlockByTarget_def)
  let ?enf = "kc_EnforcementMode (cf_Kinetic (re_cfg r)) = ''block'' \<and> nd_SuggestedAction d = ''block''"
  let ?mx = "if df_MaxBlockEntries (cf_Defense (re_cfg r)) \<le> 0 then 250000 else df_MaxBlockEntries (cf_Defense (re_cfg r))"
  obtain a s0 where add: "AddBlockAt en target (nd_Reason d) ''kinetic'' (block_ttl now target d r) ?enf ?mx now s = (a, s0)" by (rule prod.exhaust)
  show thesis
  proof (cases a)
    case (Inl e)
    with call add AddBlockAt_Inl [OF add [unfolded Inl]] show thesis
      by (intro rejected [of e]) (auto simp: apply_decision_def Let_def block_ttl_def)
  next
    case (Inr b0)
    define b where "b = (case ?p of Some p \<Rightarrow> merge_previous p b0 | None \<Rightarrow> b0)"
    define s1 where "s1 = (case ?p of Some p \<Rightarrow> RestoreBlock b s0 | None \<Rightarrow> s0)"
    note ch0 = add_changed_list [OF wf t add [unfolded Inr]]
    have ch: "changed_list en now target b s s1"
      using ch0 merge_changed_list [OF ch0 t] by (simp add: b_def s1_def split: option.split)
    have dec: "decided_entry en now target d r ?p b"
      using AddBlockAt_Inr [OF add [unfolded Inr]] t
      by (auto simp: decided_entry_def b_def Let_def max_def merge_previous_def split: option.splits)
    let ?ka = "kernel_wanted d r ?p"
    obtain e w where ke: "(if ?ka then kernel_apply ?p b (r, s1, k) else (None, r, s1, k)) = (e, w)" by (rule prod.exhaust)
    define change where "change = \<lparr> pn_previous = ?p, pn_kernelAdded = ?ka, pn_proposedStrike = proposed_reputation now target r \<rparr>"
    have "apply_decision en now target d (r, s, k) =
       keep_pending b change (if ?ka then kernel_apply ?p b (r, s1, k) else (None, r, s1, k))"
      unfolding apply_decision_def Let_def prod.case prev add [unfolded block_ttl_def Inr] sum.case
      by (cases ?p) (simp_all add: b_def s1_def change_def kernel_wanted_def)
    then have call': "(res, r', s', k') = keep_pending b change (e, w)" using call unfolding ke by simp
    show thesis
    proof (cases e)
      case None
      obtain r1 s2 k2 where w: "w = (r1, s2, k2)" by (cases w) auto
      have "r1 = r" using ke None w by (auto simp: kernel_apply_def split: if_splits option.splits prod.splits)
      then show thesis using call' None w ke ch dec by (intro applied [of b s1]) (auto simp: change_def keep_pending_def)
    next
      case (Some e1)
      then have ?ka using ke by (auto split: if_splits)
      then show thesis using call' Some ke ch by (intro undone [of b s1 e1]) (auto simp: keep_pending_def)
    qed
  qed
qed

section \<open>Passing the gates\<close>

definition refilled :: "'l env \<Rightarrow> NetworkDecision \<Rightarrow> 'k KineticResponseEngine \<Rightarrow> 'k KineticResponseEngine" where
  "refilled en d r = refill_tokens (time_unix (gs_wall (decision_now en d))) r"

definition charged :: "'l env \<Rightarrow> NetworkDecision \<Rightarrow> 'k KineticResponseEngine \<Rightarrow> 'k KineticResponseEngine" where
  "charged en d r = (refilled en d r)\<lparr> re_tokensAvailable := re_tokensAvailable (refilled en d r) - 1 \<rparr>"

lemma Execute_cases:
  assumes "ExecuteDecision en stat runtime d (r, s, k) = (res, r', s', k')"
  obtains (gate) e where "decision_gates en stat runtime d r s = Inl e" "res = Inl e" "r' = r" "s' = s" "k' = k"
  | (throttled) target where "decision_gates en stat runtime d r s = Inr target"
      "res = Inl ErrRateLimitThrottled" "s' = s" "k' = k"
      "r' = (refilled en d r)\<lparr> re_throttledTotal := re_throttledTotal (refilled en d r) + 1 \<rparr>"
      "re_tokensAvailable (refilled en d r) \<le> 0"
  | (tried) target where "decision_gates en stat runtime d r s = Inr target" "0 < re_tokensAvailable (refilled en d r)"
      "apply_decision en (decision_now en d) target d (charged en d r, s, k) = (res, r', s', k')"
  using assms by (cases "decision_gates en stat runtime d r s")
    (auto simp: ExecuteDecision_def Let_def not_le refilled_def charged_def split: if_split_asm)

lemma charged_frame [simp]:
  "re_cfg (charged en d r) = re_cfg r" "re_core (charged en d r) = re_core r" "re_allowlist (charged en d r) = re_allowlist r"
  "re_reputation (charged en d r) = re_reputation r" "re_pending (charged en d r) = re_pending r"
  "re_pending (refilled en d r) = re_pending r" "re_reputation (refilled en d r) = re_reputation r"
  by (simp_all add: refill_tokens_def refilled_def charged_def)

lemma gates_passed:
  assumes "decision_gates en stat runtime d r s = Inr target"
  shows "emergency_gate stat (re_cfg r) = None" "normalizeTarget (nd_Target d) = Inr target"
    "\<not> isAllowlistProtectedLocked (re_allowlist r) target" "\<not> isBroadSectorCIDR target" "autoContainAllowedLocked r target"
    "isSubnetCIDR target \<Longrightarrow> 90 \<le> nd_Score d \<and> 90 / 100 \<le> nd_Confidence d \<and> minimum_sources r target \<le> nd_ContributorCount d"
    "validateActiveResponseLocked en runtime (d\<lparr> nd_Target := target \<rparr>) r s = None"
  using assms by (auto simp: decision_gates_def not_less split: option.splits sum.splits if_splits)

lemma gate_target: "decision_gates en stat runtime d r s = Inr target \<Longrightarrow> normalizeTarget target = Inr target"
  using gates_passed(2) normalizeTarget_idem by blast

lemma Execute_Inr:
  assumes wf: "blocks_wf s" and call: "ExecuteDecision en stat runtime d (r, s, k) = (Inr b, r', s', k')"
  obtains s1 where "decision_gates en stat runtime d r s = Inr (be_Target b)" "0 < re_tokensAvailable (refilled en d r)"
    "changed_list en (decision_now en d) (be_Target b) b s s1"
    "decided_entry en (decision_now en d) (be_Target b) d (charged en d r) (gm_get (st_blocks s) (be_Target b)) b"
    "(if kernel_wanted d (charged en d r) (gm_get (st_blocks s) (be_Target b))
      then kernel_apply (gm_get (st_blocks s) (be_Target b)) b (charged en d r, s1, k)
      else (None, charged en d r, s1, k)) = (None, charged en d r, s', k')"
    "r' = (charged en d r)\<lparr> re_pending := gm_put (be_ID b) \<lparr> pn_previous = gm_get (st_blocks s) (be_Target b),
         pn_kernelAdded = kernel_wanted d (charged en d r) (gm_get (st_blocks s) (be_Target b)),
         pn_proposedStrike = proposed_reputation (decision_now en d) (be_Target b) (charged en d r) \<rparr> (re_pending r) \<rparr>"
proof (cases rule: Execute_cases [OF call])
  case (3 target)
  from gate_target [OF 3(1)] have t: "normalizeTarget target = Inr target" .
  show thesis
  proof (cases rule: apply_decision_cases [OF wf t 3(3)])
    case (2 b' s1)
    then have b: "b' = b" "be_Target b = target" by (auto simp: changed_list_def)
    note 2 = 2 [unfolded b]
    show thesis using 3(1,2) 2 unfolding b(2) [symmetric] by (intro that [of s1]) simp_all
  qed simp_all
qed simp_all

lemma kernel_apply_None:
  assumes "kernel_apply p b (r, s1, k) = (None, r', s', k')"
  shows "r' = r" "s' = s1" "\<exists>core. re_core r = Some core \<and> core_Add core (be_Target b) k = (None, k')"
  using assms by (auto simp: kernel_apply_def split: option.splits prod.splits)

lemma cidr_size_allowed:
  "autoContainAllowedLocked r target \<Longrightarrow> cidr_size target \<in> {Some (24, 32), Some (64, 128), Some (32, 32), Some (128, 128)}"
  by (auto simp: autoContainAllowedLocked_def isIPv4Subnet24_def isIPv6Subnet64_def Let_def split: if_splits option.splits)

text \<open>
  C1: The response engine never blocks an allowlisted address. Whatever the decision, the target it blocks is canonical, is a
  single address, an IPv4 /24 or an IPv6 /64, and contains no address that the compiled allowlist accepts: none
  that the operator listed, by itself or in a network, and none of the built-in ones.
\<close>
theorem response_spares_allowlist:
  assumes "blocks_wf s" and "re_allowlist r = compile_allowlist items"
    and "ExecuteDecision en stat runtime d (r, s, k) = (Inr b, r', s', k')"
  shows "normalizeTarget (nd_Target d) = Inr (be_Target b) \<and> BlockByTarget (nd_Target d) s' = Some b
     \<and> (\<exists>ip n. parseCIDR (be_Target b) = Some (ip, n)
          \<and> mask_size (net_mask n) \<in> {(24, 32), (64, 128), (32, 32), (128, 128)}
          \<and> (\<forall>a. (length a = 4 \<or> length a = 16) \<and> isAllowlistedLocked (compile_allowlist items) a \<longrightarrow> \<not> net_contains n a))"
proof -
  obtain s1 where g: "decision_gates en stat runtime d r s = Inr (be_Target b)" and ch: "changed_list en (decision_now en d) (be_Target b) b s s1"
    and ka: "(if kernel_wanted d (charged en d r) (gm_get (st_blocks s) (be_Target b))
      then kernel_apply (gm_get (st_blocks s) (be_Target b)) b (charged en d r, s1, k)
      else (None, charged en d r, s1, k)) = (None, charged en d r, s', k')"
    by (rule Execute_Inr [OF assms(1,3)])
  note p = gates_passed [OF g]
  have "s' = s1" using ka by (auto split: if_split_asm dest: kernel_apply_None(2))
  with ch p(2) have "BlockByTarget (nd_Target d) s' = Some b" by (simp add: BlockByTarget_def changed_list_def)
  moreover from cidr_size_allowed [OF p(5)] obtain ip n where n: "parseCIDR (be_Target b) = Some (ip, n)"
    "mask_size (net_mask n) \<in> {(24, 32), (64, 128), (32, 32), (128, 128)}"
    by (cases "parseCIDR (be_Target b)") (auto simp: cidr_size_def)
  moreover have "\<not> net_contains n a" if "length a = 4 \<or> length a = 16" "isAllowlistedLocked (compile_allowlist items) a" for a
    using unprotected_disjoint [OF _ n(1) that] p(3) assms(2) by simp
  ultimately show ?thesis using p(2) by blast
qed

section \<open>An example world\<close>

text \<open>A node in enforce whose kernel map is a set of targets.\<close>

definition set_core :: "string set core" where
  "set_core = \<lparr> core_Add = (\<lambda>t ks. (None, insert t ks)), core_Delete = (\<lambda>t ks. (None, ks - {t})) \<rparr>"

definition ready_config :: "Config \<Rightarrow> Config" where
  "ready_config c = c\<lparr>
     cf_Kinetic := (cf_Kinetic c)\<lparr> kc_EnforcementMode := ''block'', kc_AutoContainSingleIP := True, kc_MaxStrikesPerSec := 10,
       kc_BanTTLSeconds := 86400 \<rparr>,
     cf_Defense := (cf_Defense c)\<lparr> df_Allowlist := [''192.0.2.0/24''], df_MaxTTLSeconds := 2592000, df_MaxBlockEntries := 100 \<rparr>,
     cf_PolicyRequireSigned := True, cf_EmergencyStopFile := [] \<rparr>"

definition ready_engine :: "Config \<Rightarrow> (string, TargetReputation) gomap \<Rightarrow> string set KineticResponseEngine" where
  "ready_engine c reps = (NewKineticResponseEngine (demo_env 5 0) (ready_config c) (Some set_core))\<lparr> re_reputation := reps \<rparr>"

definition ready_state :: "Config \<Rightarrow> (string, BlockEntry) gomap \<Rightarrow> nat State" where
  "ready_state c bs = (let s = NewState 1 c in s\<lparr> st_blocks := bs,
     st_enforcement := ''enforce'', st_allowlistReady := True, st_coreConnected := True,
     st_release := (st_release s)\<lparr> rs_Phase := ''enforce'', rs_Ready := True, rs_EmergencyStop := False \<rparr>,
     st_policy := (st_policy s)\<lparr> ps_Verified := True \<rparr>,
     st_sensors := [(''xdp_ingress'', \<lparr> sc_Name = ''xdp_ingress'', sc_Layer = LayerIngressNetwork, sc_Status = CoverageOnline,
       sc_Required = True, sc_LastOK = Some 1, sc_LastError = [], sc_SelfTest = ''pass'', sc_CoverageReason = [] \<rparr>)] \<rparr>)"

definition sample_decision :: "gotime \<Rightarrow> NetworkDecision" where
  "sample_decision t = \<lparr> nd_Target = ''10.0.0.7'', nd_RuleIDs = [''NET.INGRESS.IP_VELOCITY''], nd_Score = 85, nd_Confidence = 95 / 100,
     nd_ContributorCount = 1, nd_SuggestedAction = ''block'', nd_BaseTTL = 86400 * second, nd_Reason = ''velocity burst'',
     nd_EvidenceRoot = [], nd_Timestamp = wall_stamp t \<rparr>"

definition sample_entry :: "gotime \<Rightarrow> BlockEntry" where
  "sample_entry t = \<lparr> be_ID = ''id-0'', be_Target = ''10.0.0.7/32'', be_Reason = ''velocity burst'', be_Source = ''kinetic'',
     be_CreatedAt = t, be_ExpiresAt = t + 86400 * second, be_Enforced = True \<rparr>"

lemma sample_cidr: "cidr_size ''10.0.0.7/32'' = Some (32, 32)"
  using sample_nets(1) by (simp add: cidr_size_def mask_size_def)

lemma ready_blocks: "st_blocks (ready_state c bs) = bs" "st_blockDeadlines (ready_state c bs) = []" "st_minted (ready_state c bs) = 0"
  by (simp_all add: ready_state_def NewState_def Let_def)

lemma ready_wf: "blocks_wf (ready_state c [])"
  by (simp add: blocks_wf_def ready_blocks)

lemma ready_sensors: "gm_wf (st_sensors (ready_state c bs))"
  by (simp add: ready_state_def Let_def gm_wf_def)

lemma ready_allowlist: "re_allowlist (ready_engine c reps) = compile_allowlist [''192.0.2.0/24'']"
  by (simp add: ready_engine_def NewKineticResponseEngine_def response_UpdateAllowlist_def ready_config_def)

lemma ready_fields [simp]:
  "re_cfg (ready_engine c reps) = ready_config c" "re_core (ready_engine c reps) = Some set_core" "re_pending (ready_engine c reps) = []"
  "re_reputation (ready_engine c reps) = reps" "re_tokensAvailable (ready_engine c reps) = 10"
  by (simp_all add: ready_engine_def NewKineticResponseEngine_def response_UpdateAllowlist_def ready_config_def)

lemma ready_validate: "validateActiveResponseLocked (demo_env 5 0) runtime (d\<lparr> nd_SuggestedAction := ''block'' \<rparr>) (ready_engine c reps) (ready_state c bs) = None"
proof -
  have "gm_get (sy_Sensors (snd (derivedCoverageLocked (demo_env 5 0) (ready_state c bs)))) ''xdp_ingress'' = gm_get (st_sensors (ready_state c bs)) ''xdp_ingress''"
    using derived_sensor [OF ready_sensors, of "demo_env 5 0" c bs "''xdp_ingress''"] by simp
  then show ?thesis
    by (simp add: validateActiveResponseLocked_def Let_def Modes_def) (simp add: ready_state_def ready_config_def Let_def)
qed

lemma sample_gates: "decision_gates (demo_env 5 0) stat runtime (sample_decision t) (ready_engine c reps) (ready_state c bs) = Inr ''10.0.0.7/32''"
proof -
  have "emergency_gate stat (ready_config c) = None" by (simp add: emergency_gate_def ready_config_def trim_space_def Let_def trim_left_id)
  moreover have "\<not> isBroadSectorCIDR ''10.0.0.7/32''" "\<not> isSubnetCIDR ''10.0.0.7/32''" "autoContainAllowedLocked (ready_engine c reps) ''10.0.0.7/32''"
    by (simp_all add: isBroadSectorCIDR_def isSubnetCIDR_def autoContainAllowedLocked_def isIPv4Subnet24_def isIPv6Subnet64_def sample_cidr ready_config_def)
  moreover have "normalizeTarget (nd_Target (sample_decision t)) = Inr ''10.0.0.7/32''" by (simp add: sample_decision_def sample_target)
  ultimately show ?thesis
    using sample_unprotected ready_validate [of runtime "(sample_decision t)\<lparr> nd_Target := ''10.0.0.7/32'' \<rparr>" c reps bs]
    by (simp add: decision_gates_def ready_allowlist) (simp add: sample_decision_def)
qed

lemma sample_executes:
  assumes "t \<noteq> 0"
  shows "\<exists>b r' s'. ExecuteDecision (demo_env 5 0) stat runtime (sample_decision t) (ready_engine c reps, ready_state c [], {}) =
     (Inr b, r', s', {''10.0.0.7/32''}) \<and> (reps = [] \<longrightarrow> b = sample_entry t)"
proof -
  define r where "r = charged (demo_env 5 0) (sample_decision t) (ready_engine c reps)"
  have now: "decision_now (demo_env 5 0) (sample_decision t) = wall_stamp t"
    using assms by (simp add: decision_now_def sample_decision_def wall_stamp_def time_is_zero_def)
  have tok: "0 < re_tokensAvailable (refilled (demo_env 5 0) (sample_decision t) (ready_engine c reps))"
    by (simp add: refilled_def refill_tokens_def ready_config_def)
  define ttl where "ttl = adaptive_ttl (re_cfg r) (86400 * second) (tr_StrikeCount (proposed_reputation (wall_stamp t) ''10.0.0.7/32'' r))"
  have first: "reps = [] \<Longrightarrow> ttl = 86400 * second"
    by (simp add: adaptive_ttl_def r_def ready_config_def wrap64_def ttl_def proposed_reputation_def)
  obtain s1 where add: "AddBlockAt (demo_env 5 0) ''10.0.0.7/32'' ''velocity burst'' ''kinetic'' ttl True 100 (wall_stamp t) (ready_state c []) =
     (Inr ((sample_entry t)\<lparr> be_ExpiresAt := t + ttl \<rparr>), s1)"
    using assms normalizeTarget_idem [OF sample_target]
    by (simp add: AddBlockAt_def ready_blocks Let_def randomID_def demo_env_def wall_stamp_def time_is_zero_def sample_entry_def stamp_add_def
        stamp_utc_def time_add_def dec_nat_def dec_digits.simps digit_char_def)
  have prev: "BlockByTarget ''10.0.0.7/32'' (ready_state c []) = None"
    using normalizeTarget_idem [OF sample_target] by (simp add: BlockByTarget_def ready_blocks)
  have "\<exists>r' s'. apply_decision (demo_env 5 0) (wall_stamp t) ''10.0.0.7/32'' (sample_decision t) (r, ready_state c [], {}) =
     (Inr ((sample_entry t)\<lparr> be_ExpiresAt := t + ttl \<rparr>), r', s', {''10.0.0.7/32''})"
    using add prev
    by (simp add: ttl_def apply_decision_def keep_pending_def kernel_apply_def set_core_def sample_entry_def sample_decision_def r_def Let_def ready_config_def)
  with sample_gates tok now first show ?thesis
    by (simp add: ExecuteDecision_def Let_def refilled_def charged_def r_def) (auto simp: sample_entry_def)
qed

lemma sample_renews:
  assumes "t \<noteq> 0" and "be_Target p = ''10.0.0.7/32''" and "be_Enforced p"
  shows "\<exists>b r' s'. ExecuteDecision (demo_env 5 0) stat runtime (sample_decision t) (ready_engine c reps, ready_state c [(''10.0.0.7/32'', p)], ks) =
     (Inr b, r', s', ks)"
proof -
  let ?s = "ready_state c [(''10.0.0.7/32'', p)]"
  define r where "r = charged (demo_env 5 0) (sample_decision t) (ready_engine c reps)"
  have now: "decision_now (demo_env 5 0) (sample_decision t) = wall_stamp t"
    using assms by (simp add: decision_now_def sample_decision_def wall_stamp_def time_is_zero_def)
  have tok: "0 < re_tokensAvailable (refilled (demo_env 5 0) (sample_decision t) (ready_engine c reps))"
    by (simp add: refilled_def refill_tokens_def ready_config_def)
  have prev: "BlockByTarget ''10.0.0.7/32'' ?s = Some p"
    using normalizeTarget_idem [OF sample_target] by (simp add: BlockByTarget_def ready_blocks)
  have "\<exists>b s1. AddBlockAt (demo_env 5 0) ''10.0.0.7/32'' ''velocity burst'' ''kinetic'' ttl True 100 (wall_stamp t) ?s = (Inr b, s1)" for ttl
    using normalizeTarget_idem [OF sample_target] by (simp add: AddBlockAt_def ready_blocks Let_def)
  then obtain b s1 where "AddBlockAt (demo_env 5 0) ''10.0.0.7/32'' ''velocity burst'' ''kinetic''
      (adaptive_ttl (re_cfg r) (86400 * second) (tr_StrikeCount (proposed_reputation (wall_stamp t) ''10.0.0.7/32'' r)))
      True 100 (wall_stamp t) ?s = (Inr b, s1)" by blast
  then have "\<exists>b r' s'. apply_decision (demo_env 5 0) (wall_stamp t) ''10.0.0.7/32'' (sample_decision t) (r, ?s, ks) = (Inr b, r', s', ks)"
    using prev assms(3) by (simp add: apply_decision_def keep_pending_def sample_decision_def r_def Let_def ready_config_def)
  with sample_gates tok now show ?thesis
    by (simp add: ExecuteDecision_def Let_def refilled_def charged_def r_def)
qed

theorem response_spares_allowlist_witness:
  "\<forall>c stat runtime. \<exists>r' s'. ExecuteDecision (demo_env 5 0) stat runtime (sample_decision 7) (ready_engine c [], ready_state c [], {}) =
       (Inr (sample_entry 7), r', s', {''10.0.0.7/32''})
     \<and> BlockByTarget ''10.0.0.7'' s' = Some (sample_entry 7)"
proof (intro allI)
  fix c stat runtime
  obtain r' s' where x: "ExecuteDecision (demo_env 5 0) stat runtime (sample_decision 7) (ready_engine c [], ready_state c [], {}) =
       (Inr (sample_entry 7), r', s', {''10.0.0.7/32''})" using sample_executes [of 7 stat runtime c "[]"] by auto
  from response_spares_allowlist [OF ready_wf ready_allowlist x]
  show "\<exists>r' s'. ExecuteDecision (demo_env 5 0) stat runtime (sample_decision 7) (ready_engine c [], ready_state c [], {}) =
       (Inr (sample_entry 7), r', s', {''10.0.0.7/32''})
     \<and> BlockByTarget ''10.0.0.7'' s' = Some (sample_entry 7)"
    using x by (simp add: sample_decision_def)
qed

lemma validate_passed:
  assumes "validateActiveResponseLocked en runtime d r s = None" and "gm_wf (st_sensors s)"
  shows "nd_SuggestedAction d = ''contain'' \<or> nd_SuggestedAction d = ''block''"
    "nd_SuggestedAction d = ''block'' \<Longrightarrow> kc_EnforcementMode (cf_Kinetic (re_cfg r)) = ''block'' \<and> st_coreConnected s \<and> re_core r \<noteq> None"
    "kc_EnforcementMode (cf_Kinetic (re_cfg r)) \<noteq> ''observe''" "st_enforcement s = ''enforce''"
    "rs_Phase (st_release s) = ''enforce'' \<and> rs_Ready (st_release s) \<and> \<not> rs_EmergencyStop (st_release s)"
    "\<exists>cov. gm_get (st_sensors s) ''xdp_ingress'' = Some cov \<and> sc_Status cov = CoverageOnline \<and> sc_Required cov"
    "st_allowlistReady s" "cf_PolicyRequireSigned (re_cfg r) \<Longrightarrow> ps_Verified (st_policy s)"
proof -
  note v = assms(1) [unfolded validateActiveResponseLocked_def Let_def snapshot_fields]
  have sensor: "gm_get (sy_Sensors (snd (derivedCoverageLocked en s))) ''xdp_ingress'' = gm_get (st_sensors s) ''xdp_ingress''"
    using derived_sensor [OF assms(2), of en "''xdp_ingress''"] by simp
  show "nd_SuggestedAction d = ''contain'' \<or> nd_SuggestedAction d = ''block''" using v by (simp split: if_split_asm)
  show "nd_SuggestedAction d = ''block'' \<Longrightarrow> kc_EnforcementMode (cf_Kinetic (re_cfg r)) = ''block'' \<and> st_coreConnected s \<and> re_core r \<noteq> None"
    using v by (simp split: if_split_asm)
  show "kc_EnforcementMode (cf_Kinetic (re_cfg r)) \<noteq> ''observe''" using v by (auto split: if_split_asm)
  show "st_enforcement s = ''enforce''" using v by (simp add: Modes_def split: if_split_asm)
  show "rs_Phase (st_release s) = ''enforce'' \<and> rs_Ready (st_release s) \<and> \<not> rs_EmergencyStop (st_release s)"
    using v by (simp split: if_split_asm)
  show "\<exists>cov. gm_get (st_sensors s) ''xdp_ingress'' = Some cov \<and> sc_Status cov = CoverageOnline \<and> sc_Required cov"
    using v sensor by (simp split: if_split_asm option.split_asm)
  show "st_allowlistReady s" using v by (simp split: if_split_asm)
  show "cf_PolicyRequireSigned (re_cfg r) \<Longrightarrow> ps_Verified (st_policy s)" using v by (simp split: if_split_asm)
qed

text \<open>
  C16: A decision takes effect only while the node is verifiably allowed to respond: no emergency-stop file, network
  enforcement on, the release in enforce, ready and not stopped, the ingress sensor online and required, the
  kernel allowlist synchronised, and the policy verified where signatures are required. Kernel blocking further
  needs block mode, a connected core and a decision that asks for it; a subnet needs a score of 90, a confidence of
  0.9 and at least two sources.
\<close>
theorem response_requires_live_state:
  assumes "blocks_wf s" and "gm_wf (st_sensors s)"
    and "ExecuteDecision en stat runtime d (r, s, k) = (Inr b, r', s', k')"
  shows "(trim_space (cf_EmergencyStopFile (re_cfg r)) \<noteq> [] \<longrightarrow> stat (trim_space (cf_EmergencyStopFile (re_cfg r))) = StatNotExist)
     \<and> st_enforcement s = ''enforce'' \<and> rs_Phase (st_release s) = ''enforce'' \<and> rs_Ready (st_release s) \<and> \<not> rs_EmergencyStop (st_release s)
     \<and> (\<exists>cov. gm_get (st_sensors s) ''xdp_ingress'' = Some cov \<and> sc_Status cov = CoverageOnline \<and> sc_Required cov)
     \<and> st_allowlistReady s \<and> (cf_PolicyRequireSigned (re_cfg r) \<longrightarrow> ps_Verified (st_policy s))
     \<and> (k' \<noteq> k \<longrightarrow> kc_EnforcementMode (cf_Kinetic (re_cfg r)) = ''block'' \<and> nd_SuggestedAction d = ''block'' \<and> st_coreConnected s)
     \<and> (isSubnetCIDR (be_Target b) \<longrightarrow> 90 \<le> nd_Score d \<and> 90 / 100 \<le> nd_Confidence d \<and> 2 \<le> nd_ContributorCount d)"
proof -
  obtain s1 where g: "decision_gates en stat runtime d r s = Inr (be_Target b)"
    and ka: "(if kernel_wanted d (charged en d r) (gm_get (st_blocks s) (be_Target b))
      then kernel_apply (gm_get (st_blocks s) (be_Target b)) b (charged en d r, s1, k)
      else (None, charged en d r, s1, k)) = (None, charged en d r, s', k')"
    by (rule Execute_Inr [OF assms(1,3)])
  note p = gates_passed [OF g] and v = validate_passed [OF gates_passed(7) [OF g] assms(2)]
  have stop: "trim_space (cf_EmergencyStopFile (re_cfg r)) \<noteq> [] \<longrightarrow> stat (trim_space (cf_EmergencyStopFile (re_cfg r))) = StatNotExist"
    using p(1) by (auto simp: emergency_gate_def Let_def split: if_splits stat_result.splits)
  have two: "2 \<le> minimum_sources r (be_Target b)" by (simp add: minimum_sources_def Let_def)
  have kern: "k' \<noteq> k \<longrightarrow> kc_EnforcementMode (cf_Kinetic (re_cfg r)) = ''block'' \<and> nd_SuggestedAction d = ''block'' \<and> st_coreConnected s"
    using ka v(2) by (auto simp: kernel_wanted_def split: if_split_asm)
  have sub: "isSubnetCIDR (be_Target b) \<longrightarrow> 90 \<le> nd_Score d \<and> 90 / 100 \<le> nd_Confidence d \<and> 2 \<le> nd_ContributorCount d"
    using p(6) two by auto
  show ?thesis using stop kern sub v(4-8) by (intro conjI) simp_all
qed

theorem response_requires_live_state_witness:
  "\<forall>c stat runtime. \<exists>r' s'. ExecuteDecision (demo_env 5 0) stat runtime (sample_decision 7) (ready_engine c [], ready_state c [], {}) =
       (Inr (sample_entry 7), r', s', {''10.0.0.7/32''}) \<and> st_allowlistReady (ready_state c []) \<and> ps_Verified (st_policy (ready_state c []))"
proof (intro allI)
  fix c stat runtime
  obtain r' s' where x: "ExecuteDecision (demo_env 5 0) stat runtime (sample_decision 7) (ready_engine c [], ready_state c [], {}) =
       (Inr (sample_entry 7), r', s', {''10.0.0.7/32''})" using sample_executes [of 7 stat runtime c "[]"] by auto
  from response_requires_live_state [OF ready_wf ready_sensors x]
  show "\<exists>r' s'. ExecuteDecision (demo_env 5 0) stat runtime (sample_decision 7) (ready_engine c [], ready_state c [], {}) =
       (Inr (sample_entry 7), r', s', {''10.0.0.7/32''}) \<and> st_allowlistReady (ready_state c []) \<and> ps_Verified (st_policy (ready_state c []))"
    using x by (simp add: ready_config_def)
qed

section \<open>Earlier blocks\<close>

text \<open>
  An automatic decision never weakens a block that was already there. The entry it leaves expires no earlier, is
  enforced if the old one was, keeps its identifier, creation time and source, and keeps the reason of a block
  that Kinetic did not create; every other target keeps its entry unchanged.
\<close>
theorem response_never_weakens:
  assumes "blocks_wf s" and "ExecuteDecision en stat runtime d (r, s, k) = (Inr b, r', s', k')"
    and "BlockByTarget (nd_Target d) s = Some p"
  shows "be_ExpiresAt p \<le> be_ExpiresAt b \<and> (be_Enforced p \<longrightarrow> be_Enforced b) \<and> be_ID b = be_ID p \<and> be_CreatedAt b = be_CreatedAt p
     \<and> be_Source b = be_Source p \<and> (be_Source p \<noteq> ''kinetic'' \<longrightarrow> be_Reason b = be_Reason p)
     \<and> (\<forall>t. t \<noteq> be_Target b \<longrightarrow> gm_get (st_blocks s') t = gm_get (st_blocks s) t)"
proof -
  obtain s1 where g: "decision_gates en stat runtime d r s = Inr (be_Target b)" and ch: "changed_list en (decision_now en d) (be_Target b) b s s1"
    and de: "decided_entry en (decision_now en d) (be_Target b) d (charged en d r) (gm_get (st_blocks s) (be_Target b)) b"
    and ka: "(if kernel_wanted d (charged en d r) (gm_get (st_blocks s) (be_Target b))
      then kernel_apply (gm_get (st_blocks s) (be_Target b)) b (charged en d r, s1, k)
      else (None, charged en d r, s1, k)) = (None, charged en d r, s', k')"
    by (rule Execute_Inr [OF assms(1,2)])
  have "gm_get (st_blocks s) (be_Target b) = Some p"
    using assms(3) gates_passed(2) [OF g] by (simp add: BlockByTarget_def)
  moreover have "s' = s1" using ka by (auto split: if_split_asm dest: kernel_apply_None(2))
  ultimately show ?thesis using de ch by (auto simp: decided_entry_def Let_def changed_list_def)
qed

theorem response_never_weakens_witness:
  "\<forall>c stat runtime. \<exists>b r' s'. ExecuteDecision (demo_env 5 0) stat runtime (sample_decision 7)
       (ready_engine c [], ready_state c [(''10.0.0.7/32'', (sample_entry 3)\<lparr> be_Source := ''operator'', be_ExpiresAt := 900000 * second \<rparr>)], {}) = (Inr b, r', s', {})
     \<and> be_Source b = ''operator'' \<and> 900000 * second \<le> be_ExpiresAt b"
proof (intro allI)
  fix c stat runtime
  let ?p = "(sample_entry 3)\<lparr> be_Source := ''operator'', be_ExpiresAt := 900000 * second \<rparr>"
  let ?s = "ready_state c [(''10.0.0.7/32'', ?p)]"
  have "be_Target ?p = ''10.0.0.7/32''" "be_Enforced ?p" by (simp_all add: sample_entry_def)
  from sample_renews [of 7, OF _ this] obtain b r' s' where
    x: "ExecuteDecision (demo_env 5 0) stat runtime (sample_decision 7) (ready_engine c [], ?s, {}) = (Inr b, r', s', {})" by fastforce
  have wf: "blocks_wf ?s"
    using normalizeTarget_idem [OF sample_target] by (auto simp: blocks_wf_def ready_blocks gm_wf_def sample_entry_def split: if_splits)
  have "BlockByTarget (nd_Target (sample_decision 7)) ?s = Some ?p"
    by (simp add: sample_decision_def BlockByTarget_def sample_target ready_blocks)
  from response_never_weakens [OF wf x this] x
  show "\<exists>b r' s'. ExecuteDecision (demo_env 5 0) stat runtime (sample_decision 7) (ready_engine c [], ?s, {}) = (Inr b, r', s', {})
     \<and> be_Source b = ''operator'' \<and> 900000 * second \<le> be_ExpiresAt b" by auto
qed

section \<open>Transactions\<close>

text \<open>
  What the kernel core promises: a successful call changes exactly the entry it names, a failed one changes at most that entry.
\<close>

definition core_exact :: "('k \<Rightarrow> string set) \<Rightarrow> 'k core \<Rightarrow> bool" where
  "core_exact holds core \<longleftrightarrow>
     (\<forall>t k e k'. core_Add core t k = (e, k') \<longrightarrow> (if e = None then holds k' = insert t (holds k) else holds k' - {t} = holds k - {t}))
   \<and> (\<forall>t k e k'. core_Delete core t k = (e, k') \<longrightarrow> (if e = None then holds k' = holds k - {t} else holds k' - {t} = holds k - {t}))"

lemma set_core_exact: "core_exact (\<lambda>ks. ks) set_core"
  by (auto simp: core_exact_def set_core_def)

text \<open>The kernel map holds exactly the targets of the enforced blocks.\<close>

definition mirrors :: "('k \<Rightarrow> string set) \<Rightarrow> 'l State \<Rightarrow> 'k \<Rightarrow> bool" where
  "mirrors holds s k \<longleftrightarrow> holds k = {t. \<exists>b. gm_get (st_blocks s) t = Some b \<and> be_Enforced b}"

lemma mirrors_cong: "gm_get (st_blocks s) = gm_get (st_blocks s') \<Longrightarrow> mirrors holds s k = mirrors holds s' k"
  by (simp add: mirrors_def)

lemma unwanted_target:
  assumes "kernel_wanted d r (gm_get (st_blocks s) t)" and "mirrors holds s k"
  shows "t \<notin> holds k"
  using assms by (auto simp: kernel_wanted_def mirrors_def)

lemma decided_enforced:
  assumes "decided_entry en now t d r p b"
  shows "be_Enforced b \<longleftrightarrow> kernel_wanted d r p \<or> (\<exists>q. p = Some q \<and> be_Enforced q)"
  using assms by (auto simp: decided_entry_def kernel_wanted_def Let_def split: option.splits)

lemma kernel_apply_error:
  assumes "kernel_apply p b (r, s1, k) = (Some e, r', s', k')"
    and "\<And>core. re_core r = Some core \<Longrightarrow> core_exact holds core" and "be_Target b \<notin> holds k"
  shows "r' = r" "s' = undo_block p b s1" "(\<forall>x y. e \<noteq> ErrKernelSyncDivergent x y) \<Longrightarrow> holds k' = holds k"
  using assms(1,3) assms(2) [unfolded core_exact_def]
  by (fastforce simp: kernel_apply_def split: option.splits prod.splits)+

text \<open>
  C14: A decision is a transaction. When it is refused or fails, every block, every reputation record and every pending change
  is as before, and the kernel map still mirrors the enforced blocks unless the error reports divergence, which
  happens only when the compensating delete failed. When it succeeds, the kernel map mirrors the enforced blocks
  of the new list. Rule F-02 of the fail-safe rules has a ban whose kernel update failed queued in memory for a retry; the code forgets it.
\<close>
theorem decision_transaction:
  assumes wf: "blocks_wf s" and fresh: "fresh_id en s" and core: "\<forall>core. re_core r = Some core \<longrightarrow> core_exact holds core"
    and mir: "mirrors holds s k" and call: "ExecuteDecision en stat runtime d (r, s, k) = (res, r', s', k')"
  shows "case res of
      Inl e \<Rightarrow> gm_get (st_blocks s') = gm_get (st_blocks s) \<and> re_reputation r' = re_reputation r \<and> re_pending r' = re_pending r
        \<and> ((\<forall>x y. e \<noteq> ErrKernelSyncDivergent x y) \<longrightarrow> mirrors holds s' k')
    | Inr b \<Rightarrow> mirrors holds s' k' \<and> re_reputation r' = re_reputation r"
proof (cases rule: Execute_cases [OF call])
  case (1 e)
  then show ?thesis using mir by simp
next
  case (2 t)
  then show ?thesis using mir by simp
next
  case (3 t)
  note cfg = charged_frame [of en d r]
  have n: "normalizeTarget t = Inr t" by (rule gate_target [OF 3(1)])
  show ?thesis
  proof (cases rule: apply_decision_cases [OF wf n 3(3)])
    case (1 e)
    then show ?thesis using mir by simp
  next
    case (2 b s1)
    have t: "be_Target b = t" using 2(1) by (simp add: changed_list_def)
    have "holds k' = (if kernel_wanted d (charged en d r) (gm_get (st_blocks s) t) then insert t (holds k) else holds k) \<and> s' = s1"
      using 2(3) core kernel_apply_None [of "gm_get (st_blocks s) t" b "charged en d r" s1 k]
      by (auto simp: t core_exact_def split: if_split_asm)
    then have "mirrors holds s' k'"
      using mir decided_enforced [OF 2(2)] 2(1) by (auto simp: mirrors_def changed_list_def)
    then show ?thesis using 2 by simp
  next
    case (3 b s1 e)
    have t: "be_Target b = t" using 3(1) by (simp add: changed_list_def)
    note ke = kernel_apply_error [OF 3(3), of holds]
    have un: "be_Target b \<notin> holds k" using unwanted_target [OF 3(2) mir] t by simp
    have s': "gm_get (st_blocks s') = gm_get (st_blocks s)"
      using ke(2) un core undo_changed_list [OF 3(1) wf fresh] by simp
    have "holds k' = holds k" if "\<forall>x y. e \<noteq> ErrKernelSyncDivergent x y"
      using ke(3) un core that by simp
    then show ?thesis using 3(4) ke(1) un core s' mir by (simp add: mirrors_def)
  qed
qed

lemma ready_mirrors: "mirrors (\<lambda>ks. ks) (ready_state c []) {}" "fresh_id en (ready_state c [])"
  by (simp_all add: mirrors_def fresh_id_def ready_blocks)

theorem decision_transaction_witness:
  "\<forall>c stat runtime. \<exists>b r' s'. ExecuteDecision (demo_env 5 0) stat runtime (sample_decision 7) (ready_engine c [], ready_state c [], {}) =
       (Inr b, r', s', {''10.0.0.7/32''}) \<and> mirrors (\<lambda>ks. ks) s' {''10.0.0.7/32''}"
proof (intro allI)
  fix c stat runtime
  obtain b r' s' where x: "ExecuteDecision (demo_env 5 0) stat runtime (sample_decision 7) (ready_engine c [], ready_state c [], {}) =
       (Inr b, r', s', {''10.0.0.7/32''})" using sample_executes [of 7 stat runtime c "[]"] by auto
  with decision_transaction [OF ready_wf ready_mirrors(2) _ ready_mirrors(1) x] set_core_exact
  show "\<exists>b r' s'. ExecuteDecision (demo_env 5 0) stat runtime (sample_decision 7) (ready_engine c [], ready_state c [], {}) =
       (Inr b, r', s', {''10.0.0.7/32''}) \<and> mirrors (\<lambda>ks. ks) s' {''10.0.0.7/32''}" by auto
qed

text \<open>
  C15: A rollback undoes exactly its decision. After a decision that took effect, rolling it back restores every block entry that
  was there and removes the one that was not, forgets the pending change and keeps the reputation, also when the kernel fails; and
  when it reports no error, the kernel map mirrors the enforced blocks again.
\<close>
theorem rollback_restores:
  assumes wf: "blocks_wf s" and fresh: "fresh_id en s" and core: "\<forall>core. re_core r = Some core \<longrightarrow> core_exact holds core"
    and mir: "mirrors holds s k" and call: "ExecuteDecision en stat runtime d (r, s, k) = (Inr b, r1, s1, k1)"
    and undone: "RollbackApplied b (r1, s1, k1) = (err, r2, s2, k2)"
  shows "gm_get (st_blocks s2) = gm_get (st_blocks s) \<and> re_reputation r2 = re_reputation r \<and> gm_get (re_pending r2) (be_ID b) = None
     \<and> (err = None \<longrightarrow> mirrors holds s2 k2) \<and> (\<forall>e. err = Some e \<longrightarrow> (\<exists>x. e = ErrKernelStateDivergent x))"
proof -
  obtain s0 where ch: "changed_list en (decision_now en d) (be_Target b) b s s0"
    and ka: "(if kernel_wanted d (charged en d r) (gm_get (st_blocks s) (be_Target b))
      then kernel_apply (gm_get (st_blocks s) (be_Target b)) b (charged en d r, s0, k)
      else (None, charged en d r, s0, k)) = (None, charged en d r, s1, k1)"
    and r1: "r1 = (charged en d r)\<lparr> re_pending := gm_put (be_ID b) \<lparr> pn_previous = gm_get (st_blocks s) (be_Target b),
         pn_kernelAdded = kernel_wanted d (charged en d r) (gm_get (st_blocks s) (be_Target b)),
         pn_proposedStrike = proposed_reputation (decision_now en d) (be_Target b) (charged en d r) \<rparr> (re_pending r) \<rparr>"
    by (rule Execute_Inr [OF wf call])
  let ?w = "kernel_wanted d (charged en d r) (gm_get (st_blocks s) (be_Target b))"
  have s1: "s1 = s0" using ka by (auto split: if_split_asm dest: kernel_apply_None(2))
  have s2: "s2 = undo_block (gm_get (st_blocks s) (be_Target b)) b s1" "re_reputation r2 = re_reputation r"
    "gm_get (re_pending r2) (be_ID b) = None" "\<forall>e. err = Some e \<longrightarrow> (\<exists>x. e = ErrKernelStateDivergent x)"
    using undone by (auto simp: RollbackApplied_def r1 Let_def split: prod.splits)
  have get: "gm_get (st_blocks s2) = gm_get (st_blocks s)"
    using undo_changed_list [OF ch wf fresh] s2(1) s1 by simp
  have "holds k2 = holds k" if "err = None"
  proof (cases ?w)
    case True
    with ka kernel_apply_None(3) [of "gm_get (st_blocks s) (be_Target b)" b "charged en d r" s0 k "charged en d r" s1 k1]
    obtain c where c: "re_core r = Some c" "core_Add c (be_Target b) k = (None, k1)" by auto
    have "core_Delete c (be_Target b) k1 = (None, k2)"
      using undone that True c(1) by (auto simp: RollbackApplied_def r1 Let_def split: prod.splits)
    with c core have "holds k2 = insert (be_Target b) (holds k) - {be_Target b}" by (fastforce simp: core_exact_def)
    with unwanted_target [OF True mir] show ?thesis by simp
  next
    case False
    with ka undone that show ?thesis by (auto simp: RollbackApplied_def r1 Let_def split: prod.splits)
  qed
  then show ?thesis using get s2 mir mirrors_cong [OF get, of holds k2] by (simp add: mirrors_def)
qed

theorem rollback_restores_witness:
  "\<forall>c stat runtime. case ExecuteDecision (demo_env 5 0) stat runtime (sample_decision 7) (ready_engine c [], ready_state c [], {}) of
      (Inl e, w) \<Rightarrow> False
    | (Inr b, w) \<Rightarrow> (case RollbackApplied b w of (err, r, s, ks) \<Rightarrow> gm_get (st_blocks s) ''10.0.0.7/32'' = None)"
proof (intro allI)
  fix c stat runtime
  obtain b r' s' where x: "ExecuteDecision (demo_env 5 0) stat runtime (sample_decision 7) (ready_engine c [], ready_state c [], {}) =
       (Inr b, r', s', {''10.0.0.7/32''})" using sample_executes [of 7 stat runtime c "[]"] by auto
  obtain err r s ks where y: "RollbackApplied b (r', s', {''10.0.0.7/32''}) = (err, r, s, ks)" by (metis prod_cases4)
  from rollback_restores [OF ready_wf ready_mirrors(2) _ ready_mirrors(1) x y] set_core_exact
  have "gm_get (st_blocks s) = gm_get (st_blocks (ready_state c []))" by simp
  then show "case ExecuteDecision (demo_env 5 0) stat runtime (sample_decision 7) (ready_engine c [], ready_state c [], {}) of
      (Inl e, w) \<Rightarrow> False
    | (Inr b, w) \<Rightarrow> (case RollbackApplied b w of (err, r, s, ks) \<Rightarrow> gm_get (st_blocks s) ''10.0.0.7/32'' = None)"
    using x y by (simp add: ready_blocks)
qed

section \<open>Rate\<close>

text \<open>A sequence of decisions, with the environment each is executed in; the results in order.\<close>

fun run_decisions :: "(string \<Rightarrow> stat_result) \<Rightarrow> KineticRuntimeSettings \<Rightarrow> ('l env \<times> NetworkDecision) list \<Rightarrow> ('k, 'l) world
    \<Rightarrow> (response_error + BlockEntry) list \<times> ('k, 'l) world" where
  "run_decisions stat runtime [] w = ([], w)"
| "run_decisions stat runtime ((en, d) # ds) w =
     (case ExecuteDecision en stat runtime d w of (res, w) \<Rightarrow>
      case run_decisions stat runtime ds w of (rs, w) \<Rightarrow> (res # rs, w))"

definition applied_count :: "(response_error + BlockEntry) list \<Rightarrow> nat" where
  "applied_count rs = length (filter (\<lambda>x. \<not> isl x) rs)"

text \<open>What is left in the bucket for the given second.\<close>

definition tokens_in :: "int \<Rightarrow> 'k KineticResponseEngine \<Rightarrow> int" where
  "tokens_in sec r = (if re_tokenLastSec r = sec then re_tokensAvailable r else kc_MaxStrikesPerSec (cf_Kinetic (re_cfg r)))"

lemma kernel_apply_engine: "kernel_apply p b (r, s, k) = (e, r', s', k') \<Longrightarrow> r' = r"
  by (auto simp: kernel_apply_def split: option.splits prod.splits)

lemma apply_decision_engine:
  assumes "apply_decision en now t d (r, s, k) = (res, r', s', k')"
  shows "re_tokensAvailable r' = re_tokensAvailable r \<and> re_tokenLastSec r' = re_tokenLastSec r \<and> re_cfg r' = re_cfg r"
  using assms
  by (auto simp: apply_decision_def keep_pending_def Let_def dest!: kernel_apply_engine split: prod.splits sum.splits option.splits if_split_asm)

lemma Execute_tokens:
  assumes "ExecuteDecision en stat runtime d (r, s, k) = (res, r', s', k')" and "time_unix (gs_wall (decision_now en d)) = sec"
  shows "re_cfg r' = re_cfg r \<and> (if isl res then tokens_in sec r' \<le> tokens_in sec r \<and> (0 \<le> tokens_in sec r \<longrightarrow> 0 \<le> tokens_in sec r')
      else 0 < tokens_in sec r \<and> tokens_in sec r' = tokens_in sec r - 1)"
proof -
  have ref: "re_tokensAvailable (refilled en d r) = tokens_in sec r" "re_tokenLastSec (refilled en d r) = sec" "re_cfg (refilled en d r) = re_cfg r"
    using assms(2) by (simp_all add: refilled_def refill_tokens_def tokens_in_def)
  show ?thesis
  proof (cases rule: Execute_cases [OF assms(1)])
    case (2 t)
    then show ?thesis using ref by (simp add: tokens_in_def)
  next
    case (3 t)
    from apply_decision_engine [OF 3(3)] 3(2) ref have "tokens_in sec r' = tokens_in sec r - 1" "re_cfg r' = re_cfg r"
      by (simp_all add: tokens_in_def charged_def)
    then show ?thesis using 3(2) ref by simp
  qed simp
qed

lemma run_decisions_tokens:
  assumes "run_decisions stat runtime ds (r, w) = (rs, r', w')" and "\<forall>(en, d) \<in> set ds. time_unix (gs_wall (decision_now en d)) = sec"
    and "0 \<le> tokens_in sec r"
  shows "int (applied_count rs) + tokens_in sec r' \<le> tokens_in sec r \<and> 0 \<le> tokens_in sec r'"
  using assms
proof (induction ds arbitrary: r w rs)
  case (Cons x ds)
  obtain en d where x: "x = (en, d)" by force
  obtain s k where w: "w = (s, k)" by force
  obtain res r1 s1 k1 where e: "ExecuteDecision en stat runtime d (r, s, k) = (res, r1, s1, k1)" by (metis prod_cases4)
  obtain rs1 where rs: "run_decisions stat runtime ds (r1, s1, k1) = (rs1, r', w')" "rs = res # rs1"
    using Cons.prems(1) e by (auto simp: x w split: prod.splits)
  have t: "time_unix (gs_wall (decision_now en d)) = sec" using Cons.prems(2) x by simp
  from Execute_tokens [OF e t] Cons.prems(3) have 1: "0 \<le> tokens_in sec r1"
    "tokens_in sec r1 + (if isl res then 0 else 1) \<le> tokens_in sec r" by (auto split: if_split_asm)
  from Cons.IH [OF rs(1) _ 1(1)] Cons.prems(2) 1 show ?case by (auto simp: rs(2) applied_count_def split: if_split_asm)
qed (simp add: applied_count_def)

text \<open>
  C25: However many decisions arrive within one second, at most the configured number of them takes effect in that second.
\<close>
theorem response_rate_bound:
  assumes "\<forall>(en, d) \<in> set ds. time_unix (gs_wall (decision_now en d)) = sec"
    and "0 \<le> re_tokensAvailable r" and "re_tokensAvailable r \<le> kc_MaxStrikesPerSec (cf_Kinetic (re_cfg r))"
    and "run_decisions stat runtime ds (r, s, k) = (rs, w')"
  shows "int (applied_count rs) \<le> kc_MaxStrikesPerSec (cf_Kinetic (re_cfg r))"
proof -
  obtain r' v where w': "w' = (r', v)" by (rule prod.exhaust)
  have "0 \<le> tokens_in sec r" "tokens_in sec r \<le> kc_MaxStrikesPerSec (cf_Kinetic (re_cfg r))"
    using assms(2,3) by (simp_all add: tokens_in_def)
  with run_decisions_tokens [OF assms(4) [unfolded w'] assms(1)] show ?thesis by auto
qed

theorem response_rate_bound_witness:
  "\<forall>c stat runtime. applied_count (fst (run_decisions stat runtime (replicate 50 (demo_env 5 0, sample_decision 7))
      (ready_engine c [], ready_state c [], {}))) \<le> 10"
proof (intro allI)
  fix c stat runtime
  let ?ds = "replicate 50 (demo_env 5 0, sample_decision 7)"
  obtain rs w where x: "run_decisions stat runtime ?ds (ready_engine c [], ready_state c [], {}) = (rs, w)" by (rule prod.exhaust)
  have "\<forall>(en, d) \<in> set ?ds. time_unix (gs_wall (decision_now en d)) = time_unix 7"
    by (simp add: decision_now_def sample_decision_def wall_stamp_def time_is_zero_def)
  from response_rate_bound [OF this _ _ x] have "int (applied_count rs) \<le> 10" by (simp add: ready_config_def)
  then show "applied_count (fst (run_decisions stat runtime ?ds (ready_engine c [], ready_state c [], {}))) \<le> 10"
    using x by simp
qed

section \<open>Time to live\<close>

lemma adaptive_ttl_wrapped:
  assumes base: "0 < base" "2 ^ 63 \<le> base * 2 ^ nat (strikes - 1)" "base * 2 ^ nat (strikes - 1) < 2 ^ 64" and "1 < base" "1 < strikes"
  shows "adaptive_ttl cfg base strikes < 0"
proof -
  define m :: int where "m = 2 ^ nat (strikes - 1)"
  have m: "0 < m" "m * 2 \<le> base * m" using assms(4) by (simp_all add: m_def)
  have "m * 2 < 2 ^ 64" using order_le_less_trans [OF m(2) base(3) [folded m_def]] .
  then have 1: "wrap64 m = m" using m(1) by (intro wrap64_id) (simp add: in_int64_def)
  have "wrap64 (base * m) < 0" using wrap64_upper [OF base(2,3)] base(3) by (simp add: m_def)
  with 1 assms show ?thesis by (auto simp: adaptive_ttl_def Let_def m_def)
qed

lemma adaptive_ttl_exact:
  assumes "0 < base" "base * 2 ^ nat (strikes - 1) < 2 ^ 63" "1 \<le> strikes"
    and "maxTTL = df_MaxTTLSeconds (cf_Defense cfg) * second" "0 < maxTTL" "maxTTL < 2 ^ 63"
  shows "adaptive_ttl cfg base strikes = min maxTTL (base * 2 ^ nat (strikes - 1))"
proof -
  define m :: int where "m = 2 ^ nat (strikes - 1)"
  have m: "0 < m" "m \<le> base * m" using assms(1) by (simp_all add: m_def)
  have nn: "0 \<le> base * m" using m by (rule order_trans [OF less_imp_le])
  have lt: "base * m < 2 ^ 63" using assms(2) by (simp add: m_def)
  have "wrap64 m = m" "wrap64 (base * m) = base * m"
    using m(1) nn lt order_le_less_trans [OF m(2) lt] by (auto intro!: wrap64_id simp: in_int64_def del: mult_nonneg_nonneg)
  moreover have "wrap64 maxTTL = maxTTL" using assms(5,6) by (intro wrap64_id) (simp add: in_int64_def)
  ultimately show ?thesis using assms(1,3,4,5) by (auto simp: adaptive_ttl_def Let_def m_def min_def)
qed

text \<open>
  A first block of a target lasts the base time to live, doubled for every further strike within the decay period and cut
  at the configured maximum, as long as the product stays below the range of a 64-bit duration.
\<close>
theorem backoff_doubles:
  assumes wf: "blocks_wf s" and call: "ExecuteDecision en stat runtime d (r, s, k) = (Inr b, r', s', k')"
    and new: "BlockByTarget (nd_Target d) s = None" and base: "0 < nd_BaseTTL d"
    and rep: "gm_get (re_reputation r) (be_Target b) = Some \<lparr> tr_StrikeCount = n, tr_LastStrikeAt = since \<rparr>" "0 \<le> n"
    and recent: "stamp_sub (decision_now en d) since \<le> 48 * hour"
    and fits: "nd_BaseTTL d * 2 ^ nat n < 2 ^ 63"
    and top_ttl: "maxTTL = df_MaxTTLSeconds (cf_Defense (re_cfg r)) * second" "0 < maxTTL" "maxTTL < 2 ^ 63"
    and wall: "nd_Timestamp d = wall_stamp t" "t \<noteq> 0"
  shows "be_CreatedAt b = t \<and> be_ExpiresAt b = t + min maxTTL (nd_BaseTTL d * 2 ^ nat n)"
proof -
  have now: "decision_now en d = wall_stamp t" using wall by (simp add: decision_now_def time_is_zero_def wall_stamp_def)
  obtain s1 where g: "decision_gates en stat runtime d r s = Inr (be_Target b)"
    and de: "decided_entry en (decision_now en d) (be_Target b) d (charged en d r) (gm_get (st_blocks s) (be_Target b)) b"
    by (rule Execute_Inr [OF wf call])
  have none: "gm_get (st_blocks s) (be_Target b) = None" using new gates_passed(2) [OF g] by (simp add: BlockByTarget_def)
  have "block_ttl (wall_stamp t) (be_Target b) d (charged en d r) = min maxTTL (nd_BaseTTL d * 2 ^ nat n)"
    using rep recent adaptive_ttl_exact [OF base, of "n + 1"] fits top_ttl
    by (simp add: block_ttl_def proposed_reputation_def now)
  then show ?thesis
    using de none wall(2) by (simp add: decided_entry_def Let_def now effective_now_def wall_stamp_def time_is_zero_def)
qed

lemma sample_target_of:
  assumes "ExecuteDecision (demo_env 5 0) stat runtime (sample_decision t) (ready_engine c reps, ready_state c [], ks) = (Inr b, r', s', k')"
  shows "be_Target b = ''10.0.0.7/32''"
  using Execute_Inr [OF ready_wf assms] sample_gates [of stat runtime t c reps "[]"] by (metis sum.inject(2))

theorem backoff_doubles_witness:
  "\<forall>c stat runtime. \<exists>b r' s'. ExecuteDecision (demo_env 5 0) stat runtime (sample_decision 7)
       (ready_engine c [(''10.0.0.7/32'', \<lparr> tr_StrikeCount = 2, tr_LastStrikeAt = wall_stamp 6 \<rparr>)], ready_state c [], {}) =
         (Inr b, r', s', {''10.0.0.7/32''})
     \<and> be_ExpiresAt b = 7 + 4 * 86400 * second"
proof (intro allI)
  fix c stat runtime
  let ?reps = "[(''10.0.0.7/32'', \<lparr> tr_StrikeCount = 2, tr_LastStrikeAt = wall_stamp 6 \<rparr>)]"
  obtain b r' s' where x: "ExecuteDecision (demo_env 5 0) stat runtime (sample_decision 7) (ready_engine c ?reps, ready_state c [], {}) =
       (Inr b, r', s', {''10.0.0.7/32''})" using sample_executes [of 7 stat runtime c ?reps] by auto
  have "BlockByTarget (nd_Target (sample_decision 7)) (ready_state c []) = None"
    by (simp add: BlockByTarget_def ready_blocks split: sum.split)
  from backoff_doubles [OF ready_wf x this, of 2 "wall_stamp 6" "2592000 * second" 7] sample_target_of [OF x]
  have "be_ExpiresAt b = 7 + 4 * 86400 * second"
    by (simp add: sample_decision_def decision_now_def wall_stamp_def time_is_zero_def stamp_sub_def time_sub_def max_duration_def min_duration_def ready_config_def min_def)
  with x show "\<exists>b r' s'. ExecuteDecision (demo_env 5 0) stat runtime (sample_decision 7) (ready_engine c ?reps, ready_state c [], {}) =
         (Inr b, r', s', {''10.0.0.7/32''})
     \<and> be_ExpiresAt b = 7 + 4 * 86400 * second" by blast
qed

text \<open>
  C24: The exponential backoff overflows. The eighteenth strike of a target within the decay period, with the standard ban of one
  day, computes a negative time to live, which the configured maximum does not catch: the block that the decision
  reports as created has expired before it exists, and the next sweep removes it.
\<close>
theorem backoff_overflow_expires:
  assumes wf: "blocks_wf s" and call: "ExecuteDecision en stat runtime d (r, s, k) = (Inr b, r', s', k')"
    and base: "nd_BaseTTL d = 86400 * second" and new: "BlockByTarget (nd_Target d) s = None"
    and strikes: "gm_get (re_reputation r) (be_Target b) = Some \<lparr> tr_StrikeCount = 17, tr_LastStrikeAt = since \<rparr>"
    and recent: "stamp_sub (decision_now en d) since \<le> 48 * hour"
    and wall: "nd_Timestamp d = wall_stamp t" "t \<noteq> 0"
  shows "be_ExpiresAt b < t \<and> b \<in> set (fst (Expired en' (wall_stamp t) s'))"
proof -
  have now: "decision_now en d = wall_stamp t" using wall by (simp add: decision_now_def time_is_zero_def wall_stamp_def)
  obtain s1 where g: "decision_gates en stat runtime d r s = Inr (be_Target b)" and ch: "changed_list en (decision_now en d) (be_Target b) b s s1"
    and de: "decided_entry en (decision_now en d) (be_Target b) d (charged en d r) (gm_get (st_blocks s) (be_Target b)) b"
    and ka: "(if kernel_wanted d (charged en d r) (gm_get (st_blocks s) (be_Target b))
      then kernel_apply (gm_get (st_blocks s) (be_Target b)) b (charged en d r, s1, k)
      else (None, charged en d r, s1, k)) = (None, charged en d r, s', k')"
    by (rule Execute_Inr [OF wf call])
  have none: "gm_get (st_blocks s) (be_Target b) = None" using new gates_passed(2) [OF g] by (simp add: BlockByTarget_def)
  have "block_ttl (wall_stamp t) (be_Target b) d (charged en d r) < 0"
    using strikes recent adaptive_ttl_wrapped [of "86400 * second" 18 "re_cfg r"]
    by (simp add: block_ttl_def proposed_reputation_def base now)
  then have exp: "be_ExpiresAt b < t"
    using de none wall(2) by (simp add: decided_entry_def Let_def now effective_now_def wall_stamp_def time_is_zero_def)
  have s': "s' = s1" using ka by (auto split: if_split_asm dest: kernel_apply_None(2))
  have at: "gm_get (st_blocks s') (be_Target b) = Some b" "blocks_wf s'"
    "case gm_get (st_blockDeadlines s') (be_Target b) of Some dl \<Rightarrow> gs_mono dl = None | None \<Rightarrow> True"
    using ch s' wall(2) by (auto simp: changed_list_def now effective_now_def wall_stamp_def time_is_zero_def split: option.split)
  have "entry_expired en' (wall_stamp t) s' (be_Target b) b"
    using exp entry_expired_wall [OF at(2,1,3)] by (simp add: wall_stamp_def)
  with at exp show ?thesis by (auto simp: Expired_out [OF blocks_wfD(1) [OF at(2)]])
qed

theorem backoff_overflow_expires_witness:
  "\<forall>c stat runtime. \<exists>b r' s'. ExecuteDecision (demo_env 5 0) stat runtime (sample_decision 7)
       (ready_engine c [(''10.0.0.7/32'', \<lparr> tr_StrikeCount = 17, tr_LastStrikeAt = wall_stamp 6 \<rparr>)], ready_state c [], {}) =
         (Inr b, r', s', {''10.0.0.7/32''})
     \<and> b \<in> set (fst (Expired (demo_env 7 0) (wall_stamp 7) s'))"
proof (intro allI)
  fix c stat runtime
  let ?reps = "[(''10.0.0.7/32'', \<lparr> tr_StrikeCount = 17, tr_LastStrikeAt = wall_stamp 6 \<rparr>)]"
  obtain b r' s' where x: "ExecuteDecision (demo_env 5 0) stat runtime (sample_decision 7) (ready_engine c ?reps, ready_state c [], {}) =
       (Inr b, r', s', {''10.0.0.7/32''})" using sample_executes [of 7 stat runtime c ?reps] by auto
  have "BlockByTarget (nd_Target (sample_decision 7)) (ready_state c []) = None"
    by (simp add: BlockByTarget_def ready_blocks split: sum.split)
  from backoff_overflow_expires [OF ready_wf x _ this, of "wall_stamp 6" 7 "demo_env 7 0"] sample_target_of [OF x]
  have "b \<in> set (fst (Expired (demo_env 7 0) (wall_stamp 7) s'))"
    by (simp add: sample_decision_def decision_now_def wall_stamp_def time_is_zero_def stamp_sub_def time_sub_def max_duration_def min_duration_def)
  with x show "\<exists>b r' s'. ExecuteDecision (demo_env 5 0) stat runtime (sample_decision 7) (ready_engine c ?reps, ready_state c [], {}) =
         (Inr b, r', s', {''10.0.0.7/32''})
     \<and> b \<in> set (fst (Expired (demo_env 7 0) (wall_stamp 7) s'))" by blast
qed

end
