(* ===== verification/Block_Expiry.thy ===== *)
theory Block_Expiry
  imports Kinetic_Response
begin

text \<open>
  The expiry of temporary blocks, \<open>control/block_expiry.go\<close>, and \<open>persistPolicy\<close> of \<open>control/main.go\<close>: the candidates
  that \<open>State.Expired\<close> took out of the list are removed from the kernel, the signed policy is persisted, and a failure
  of either puts blocks back.

  The signed policy store is reached through the interface \<open>policyPersistence\<close>; its two calls are parameters
  that act on a policy state. The release controller's \<open>FailSafe\<close> is a parameter that acts on the shared
  state and the kernel, \<open>None\<close> for a nil controller. The errors that Go joins are lists.
\<close>

section \<open>Persisting the policy\<close>

record 'p policyPersistence =
  pp_Persist :: "string \<Rightarrow> string \<Rightarrow> string \<Rightarrow> BlockEntry list \<Rightarrow> 'p \<Rightarrow> string option \<times> 'p"
  pp_Status :: "'p \<Rightarrow> PolicyStatus"

definition persistPolicy :: "'p policyPersistence option \<Rightarrow> Config \<Rightarrow> 'l State \<times> 'p \<Rightarrow> string option \<times> 'l State \<times> 'p" where
  "persistPolicy policy cfg sp =
     (case sp of (s, p) \<Rightarrow>
        case policy of
          None \<Rightarrow> (None, s, p)
        | Some store \<Rightarrow>
            let (enforcement, xdrMode) = Modes s;
                (err, p) = pp_Persist store (cf_NodeName cfg) enforcement xdrMode (BlocksSnapshot s) p
            in (err, SetPolicyStatus (pp_Status store p) s, p))"

section \<open>Expiry\<close>

datatype expiry_error =
    ExpCoreUnavailable string
  | ExpDelete string string
  | ExpPersist string
  | ExpRestoreUnavailable string
  | ExpRestore string string
  | ExpEvidence string ledger_error

fun ledger_text :: "ledger_error \<Rightarrow> string" where
  "ledger_text EvidenceBudgetExhausted = ''evidence segment budget exhausted''"
| "ledger_text (EvidenceUnavailable e) = e"

fun expiry_text :: "expiry_error \<Rightarrow> string" where
  "expiry_text (ExpCoreUnavailable t) = ''cannot remove enforced block '' @ t @ '': kernel core unavailable''"
| "expiry_text (ExpDelete t e) = ''delete expired block '' @ t @ '': '' @ e"
| "expiry_text (ExpPersist e) = ''persist policy after block expiry: '' @ e"
| "expiry_text (ExpRestoreUnavailable t) = ''restore enforced block '' @ t @ '': kernel core unavailable''"
| "expiry_text (ExpRestore t e) = ''restore enforced block '' @ t @ '': '' @ e"
| "expiry_text (ExpEvidence t e) = ''record expiry evidence for '' @ t @ '': '' @ ledger_text e"

text \<open>\<open>errors.Join\<close> puts the texts on lines of their own.\<close>

definition join_errors :: "string list \<Rightarrow> string" where
  "join_errors es = str_join [CHR 0x0A] es"

definition policy_event :: "gotime \<Rightarrow> string \<Rightarrow> string \<Rightarrow> string \<Rightarrow> string \<Rightarrow> Event" where
  "policy_event t severity kind message target = mk_event t severity kind ''policy'' message target"

type_synonym ('k, 'l) expiry_scan = "'l State \<times> 'k \<times> BlockEntry list \<times> expiry_error list"

text \<open>One candidate of the first loop.\<close>

definition expire_one :: "'l env \<Rightarrow> 'k core option \<Rightarrow> BlockEntry \<Rightarrow> ('k, 'l) expiry_scan \<Rightarrow> ('k, 'l) expiry_scan" where
  "expire_one en core block acc =
     (case acc of (s, k, removed, errs) \<Rightarrow>
        if be_Enforced block then
          case core of
            None \<Rightarrow>
              (AddEvent en (policy_event 0 ''warning'' ''block.expiry_deferred''
                 ''Kernel core unavailable for expired rule removal; signed policy retained the rule'' (be_Target block)) (RestoreBlock block s),
               k, removed, errs @ [ExpCoreUnavailable (be_Target block)])
          | Some c \<Rightarrow>
              (case core_Delete c (be_Target block) k of
                 (Some e, k) \<Rightarrow>
                   (AddEvent en (policy_event 0 ''warning'' ''block.expiry_deferred''
                      ''Kernel core rejected expired rule removal; signed policy retained the rule'' (be_Target block)) (RestoreBlock block s),
                    k, removed, errs @ [ExpDelete (be_Target block) e])
               | (None, k) \<Rightarrow> (s, k, removed @ [block], errs))
        else (s, k, removed @ [block], errs))"

text \<open>One block of the rollback loop.\<close>

definition restore_one :: "'k core option \<Rightarrow> BlockEntry \<Rightarrow> 'l State \<times> 'k \<times> expiry_error list \<Rightarrow> 'l State \<times> 'k \<times> expiry_error list" where
  "restore_one core block acc =
     (case acc of (s, k, errs) \<Rightarrow>
        let s = RestoreBlock block s
        in if be_Enforced block then
             case core of
               None \<Rightarrow> (s, k, errs @ [ExpRestoreUnavailable (be_Target block)])
             | Some c \<Rightarrow> (case core_Add c (be_Target block) k of
                 (Some e, k) \<Rightarrow> (s, k, errs @ [ExpRestore (be_Target block) e])
               | (None, k) \<Rightarrow> (s, k, errs))
           else (s, k, errs))"

text \<open>One block of the last loop: the event, and the evidence of a Kinetic block.\<close>

definition record_expiry :: "'l env \<Rightarrow> gotime \<Rightarrow> BlockEntry \<Rightarrow> 'l State \<times> 64 word \<times> expiry_error list \<Rightarrow> 'l State \<times> 64 word \<times> expiry_error list" where
  "record_expiry en now block acc =
     (case acc of (s, kineticExpired, errs) \<Rightarrow>
        let s = AddEvent en (policy_event now ''info'' ''block.expired'' ''Temporary block expired'' (be_Target block)) s
        in if be_Source block \<noteq> ''kinetic'' then (s, kineticExpired, errs)
           else let (i, s) = randomID en s;
                    (err, s) = RecordEvidence en (response_evidence i now ''info'' ''kinetic_rollback''
                      ''Kinetic containment expired and was removed from kernel/policy state'' (be_Target block)) s
                in (s, kineticExpired + 1, case err of None \<Rightarrow> errs | Some e \<Rightarrow> errs @ [ExpEvidence (be_Target block) e]))"

type_synonym ('k, 'l) fail_safe = "string \<Rightarrow> 'l State \<times> 'k \<Rightarrow> string option \<times> 'l State \<times> 'k"

definition call_fail_safe :: "('k, 'l) fail_safe option \<Rightarrow> string \<Rightarrow> 'l State \<times> 'k \<Rightarrow> string option \<times> 'l State \<times> 'k" where
  "call_fail_safe release reason sk = (case release of None \<Rightarrow> (None, sk) | Some f \<Rightarrow> f reason sk)"

text \<open>After a failed persist: put the removed blocks back, and fall back to the fail-safe when that failed too.\<close>

definition rollback_expiry :: "'l env \<Rightarrow> 'k core option \<Rightarrow> ('k, 'l) fail_safe option \<Rightarrow> string \<Rightarrow> BlockEntry list
    \<Rightarrow> 'l State \<times> 'k \<Rightarrow> expiry_error list \<times> 'l State \<times> 'k" where
  "rollback_expiry en core release err removed sk =
     (case sk of (s, k) \<Rightarrow>
      case fold (restore_one core) removed (s, k, []) of (s, k, rollbackErrs) \<Rightarrow>
        let (s, k) = (if rollbackErrs = [] then (s, k)
               else case call_fail_safe release ''expired block policy rollback failed'' (s, k) of (failSafeErr, s, k) \<Rightarrow>
                 (AddEvent en (policy_event 0 ''critical'' ''policy.rollback_failed''
                    (join_errors (map expiry_text rollbackErrs @ (case failSafeErr of None \<Rightarrow> [] | Some e \<Rightarrow> [e]))) []) s, k));
            s = AddEvent en (policy_event 0 ''critical'' ''policy.persist_failed''
                  ''Failed to persist signed policy after expiry; removed rules were restored'' []) s
        in (ExpPersist err # rollbackErrs, s, k))"

text \<open>After a successful persist: events, evidence and counters.\<close>

definition commit_expiry :: "'l env \<Rightarrow> gotime \<Rightarrow> ('k, 'l) fail_safe option \<Rightarrow> BlockEntry list \<Rightarrow> 'l State \<times> 'k
    \<Rightarrow> expiry_error list \<times> 'l State \<times> 'k" where
  "commit_expiry en now release removed sk =
     (case sk of (s, k) \<Rightarrow>
      case fold (record_expiry en now) removed (s, 0, []) of (s, kineticExpired, evidenceErrs) \<Rightarrow>
        let s = (if kineticExpired > 0
                 then UpdateKineticTelemetry (\<lambda>t. t\<lparr> kt_BansExpiredTotal := kt_BansExpiredTotal t + kineticExpired \<rparr>) s else s)
        in if evidenceErrs = [] then ([], s, k)
           else let s = AddEvent en (mk_event 0 ''critical'' ''kinetic.expiry_evidence_failed'' ''kinetic_response_engine''
                          (join_errors (map expiry_text evidenceErrs)) []) s
                in (evidenceErrs, snd (call_fail_safe release ''kinetic expiry evidence recording failed'' (s, k))))"

definition reconcileExpiredNetworkBlocks :: "'l env \<Rightarrow> gostamp \<Rightarrow> 'k core option \<Rightarrow> 'p policyPersistence option \<Rightarrow> Config
    \<Rightarrow> ('k, 'l) fail_safe option \<Rightarrow> 'l State \<times> 'k \<times> 'p \<Rightarrow> (BlockEntry list \<times> expiry_error list) \<times> 'l State \<times> 'k \<times> 'p" where
  "reconcileExpiredNetworkBlocks en now core policy cfg release skp =
     (case skp of (s, k, p) \<Rightarrow>
      case Expired en now s of (candidates, s) \<Rightarrow>
        if candidates = [] then (([], []), s, k, p)
        else case fold (expire_one en core) candidates (s, k, [], []) of (s, k, removed, deferredErrs) \<Rightarrow>
          if removed = [] then (([], deferredErrs), s, k, p)
          else case persistPolicy policy cfg (s, p) of
            (Some err, s, p) \<Rightarrow>
              (case rollback_expiry en core release err removed (s, k) of (errs, s, k) \<Rightarrow> (([], errs), s, k, p))
          | (None, s, p) \<Rightarrow>
              (case commit_expiry en (gs_wall now) release removed (s, k) of (errs, s, k) \<Rightarrow>
                 ((removed, errs @ deferredErrs), s, k, p)))"

section \<open>The loops\<close>

text \<open>Which blocks a run over candidates took out (\<open>ys\<close>) and which it had to keep (\<open>zs\<close>).\<close>

definition expiry_effect :: "('k \<Rightarrow> string set) \<Rightarrow> BlockEntry list \<Rightarrow> 'l State \<Rightarrow> 'k \<Rightarrow> BlockEntry list \<Rightarrow> BlockEntry list \<Rightarrow> 'l State \<Rightarrow> 'k \<Rightarrow> bool" where
  "expiry_effect holds cs s k ys zs s' k' \<longleftrightarrow>
     set cs = set ys \<union> set zs \<and> be_Target ` set ys \<inter> be_Target ` set zs = {} \<and> (\<forall>z \<in> set zs. be_Enforced z)
   \<and> distinct (map be_Target ys)
   \<and> (\<forall>z \<in> set zs. gm_get (st_blocks s') (be_Target z) = Some z)
   \<and> (\<forall>t. t \<notin> be_Target ` set zs \<longrightarrow> gm_get (st_blocks s') t = gm_get (st_blocks s) t)
   \<and> (\<forall>t. t \<notin> be_Target ` set zs \<longrightarrow> (t \<in> holds k' \<longleftrightarrow> t \<in> holds k \<and> \<not> (\<exists>y \<in> set ys. be_Enforced y \<and> be_Target y = t)))"

lemma expire_one_cases:
  assumes one: "expire_one en core b (s, k, rem, errs) = (s1, k1, rem1, errs1)" and exact: "\<forall>c. core = Some c \<longrightarrow> core_exact holds c"
  obtains (gone) "rem1 = rem @ [b]" "errs1 = errs" "s1 = s"
      "\<forall>t. t \<in> holds k1 \<longleftrightarrow> t \<in> holds k \<and> \<not> (be_Enforced b \<and> t = be_Target b)"
    | (kept) e where "rem1 = rem" "errs1 = errs @ [e]" "be_Enforced b" "\<exists>t x. e = ExpCoreUnavailable t \<or> e = ExpDelete t x"
      "\<forall>t. gm_get (st_blocks s1) t = (if t = be_Target b then Some b else gm_get (st_blocks s) t)"
      "holds k1 - {be_Target b} = holds k - {be_Target b}"
proof (cases "be_Enforced b")
  case False
  with one show thesis by (intro gone) (auto simp: expire_one_def)
next
  case True
  show thesis
  proof (cases core)
    case None
    with one True show thesis by (intro kept [of "ExpCoreUnavailable (be_Target b)"]) (auto simp: expire_one_def RestoreBlock_def)
  next
    case (Some c)
    obtain r k2 where d: "core_Delete c (be_Target b) k = (r, k2)" by (rule prod.exhaust)
    have ex: "if r = None then holds k2 = holds k - {be_Target b} else holds k2 - {be_Target b} = holds k - {be_Target b}"
      using exact Some d unfolding core_exact_def by blast
    show thesis
    proof (cases r)
      case None
      with one True Some d ex show thesis by (intro gone) (auto simp: expire_one_def)
    next
      case (Some e)
      have f: "k1 = k2" "rem1 = rem" "errs1 = errs @ [ExpDelete (be_Target b) e]"
        "\<forall>t. gm_get (st_blocks s1) t = (if t = be_Target b then Some b else gm_get (st_blocks s) t)"
        using one True Some \<open>core = Some c\<close> d by (auto simp: expire_one_def RestoreBlock_def)
      have "holds k1 - {be_Target b} = holds k - {be_Target b}" using ex Some f(1) by simp
      from kept [OF f(2,3) True _ f(4) this] show thesis by simp
    qed
  qed
qed

lemma expire_loop:
  assumes "fold (expire_one en core) cs (s, k, rem, errs) = (s', k', rem', errs')" and "distinct (map be_Target cs)"
    and "\<forall>c. core = Some c \<longrightarrow> core_exact holds c"
  shows "\<exists>ys zs es. rem' = rem @ ys \<and> errs' = errs @ es \<and> (es = [] \<longrightarrow> zs = [])
     \<and> (\<forall>e \<in> set es. \<exists>t x. e = ExpCoreUnavailable t \<or> e = ExpDelete t x) \<and> expiry_effect holds cs s k ys zs s' k'"
  using assms(1,2)
proof (induction cs arbitrary: s k rem errs)
  case Nil
  then show ?case by (intro exI [of _ "[]"]) (simp add: expiry_effect_def)
next
  case (Cons b cs)
  have dist: "distinct (map be_Target cs)" and fresh: "be_Target b \<notin> be_Target ` set cs" using Cons.prems(2) by auto
  obtain s1 k1 rem1 errs1 where one: "expire_one en core b (s, k, rem, errs) = (s1, k1, rem1, errs1)" by (metis prod_cases4)
  with Cons.prems(1) have "fold (expire_one en core) cs (s1, k1, rem1, errs1) = (s', k', rem', errs')" by simp
  from Cons.IH [OF this dist] obtain ys zs es where ih: "rem' = rem1 @ ys" "errs' = errs1 @ es" "es = [] \<longrightarrow> zs = []"
    "\<forall>e \<in> set es. \<exists>t x. e = ExpCoreUnavailable t \<or> e = ExpDelete t x" "expiry_effect holds cs s1 k1 ys zs s' k'" by blast
  have sub: "be_Target b \<notin> be_Target ` set zs" "be_Target b \<notin> be_Target ` set ys"
    using fresh ih(5) by (auto simp: expiry_effect_def)
  show ?case
  proof (cases rule: expire_one_cases [OF one assms(3)])
    case 1
    note gone = this and f = ih(5) [unfolded expiry_effect_def]
    have "expiry_effect holds (b # cs) s k (b # ys) zs s' k'"
      unfolding expiry_effect_def
    proof (intro conjI)
      show "\<forall>t. t \<notin> be_Target ` set zs \<longrightarrow> (t \<in> holds k' \<longleftrightarrow> t \<in> holds k \<and> \<not> (\<exists>y \<in> set (b # ys). be_Enforced y \<and> be_Target y = t))"
        using f gone(4) by (metis set_ConsD list.set_intros)
      show "be_Target ` set (b # ys) \<inter> be_Target ` set zs = {}" using f sub(1) by auto
      show "distinct (map be_Target (b # ys))" using f sub(2) by simp
    qed (use f gone(3) in auto)
    with ih gone show ?thesis by (intro exI [of _ "b # ys"] exI [of _ zs] exI [of _ es]) simp
  next
    case (2 e)
    note kept = this
    have "expiry_effect holds (b # cs) s k ys (b # zs) s' k'"
      using ih(5) sub kept(3,5,6) unfolding expiry_effect_def by (auto simp: set_eq_iff)
    with ih kept show ?thesis by (intro exI [of _ ys] exI [of _ "b # zs"] exI [of _ "e # es"]) auto
  qed
qed

lemma restore_loop:
  assumes "fold (restore_one core) ys (s, k, errs) = (s', k', [])" and "distinct (map be_Target ys)"
    and "\<forall>c. core = Some c \<longrightarrow> core_exact holds c"
  shows "(\<forall>y \<in> set ys. gm_get (st_blocks s') (be_Target y) = Some y)
     \<and> (\<forall>t. t \<notin> be_Target ` set ys \<longrightarrow> gm_get (st_blocks s') t = gm_get (st_blocks s) t)
     \<and> holds k' = holds k \<union> be_Target ` {y \<in> set ys. be_Enforced y}"
  using assms(1,2)
proof (induction ys arbitrary: s k errs)
  case (Cons b ys)
  obtain s1 k1 errs1 where one: "restore_one core b (s, k, errs) = (s1, k1, errs1)" by (metis prod_cases3)
  have grows: "fold (restore_one core) ys (s, k, errs) = (s', k', []) \<Longrightarrow> errs = []" for s k errs
    by (induction ys arbitrary: s k errs) (auto simp: restore_one_def Let_def split: if_split_asm option.splits prod.splits)
  have rest: "fold (restore_one core) ys (s1, k1, errs1) = (s', k', [])" using Cons.prems(1) one by simp
  have "errs1 = []" by (rule grows [OF rest])
  with one assms(3) have step: "\<forall>t. gm_get (st_blocks s1) t = (if t = be_Target b then Some b else gm_get (st_blocks s) t)"
    "holds k1 = holds k \<union> (if be_Enforced b then {be_Target b} else {})"
    by (fastforce simp: restore_one_def core_exact_def RestoreBlock_def Let_def split: if_split_asm option.splits prod.splits)+
  from Cons.IH [OF rest] Cons.prems(2) step show ?case by auto
qed simp

lemma RecordEvidence_blocks: "RecordEvidence en r s = (e, s') \<Longrightarrow> st_blocks s' = st_blocks s"
  using RecordEvidence_frame(1) [of en r s] by simp

lemma commit_loop_blocks: "fold (record_expiry en now) ys (s, n, errs) = (s', n', errs') \<Longrightarrow> st_blocks s' = st_blocks s"
proof (induction ys arbitrary: s n errs)
  case (Cons b ys)
  obtain s1 n1 errs1 where one: "record_expiry en now b (s, n, errs) = (s1, n1, errs1)" by (metis prod_cases3)
  have "st_blocks s1 = st_blocks s"
    using one by (auto simp: record_expiry_def Let_def randomID_def dest!: RecordEvidence_blocks split: if_split_asm prod.splits)
  with Cons one show ?case by simp
qed simp

section \<open>The transaction\<close>

text \<open>The errors that end in the release fail-safe.\<close>

fun fatal :: "expiry_error \<Rightarrow> bool" where
  "fatal (ExpRestoreUnavailable t) = True"
| "fatal (ExpRestore t e) = True"
| "fatal (ExpEvidence t e) = True"
| "fatal _ = False"

lemma restore_errors_fatal:
  "fold (restore_one core) ys (s, k, errs) = (s', k', errs') \<Longrightarrow> \<forall>e \<in> set errs. fatal e \<Longrightarrow> \<forall>e \<in> set errs'. fatal e"
proof (induction ys arbitrary: s k errs)
  case (Cons b ys)
  obtain s1 k1 errs1 where one: "restore_one core b (s, k, errs) = (s1, k1, errs1)" by (metis prod_cases3)
  then have "\<forall>e \<in> set errs1. fatal e"
    using Cons.prems(2) by (auto simp: restore_one_def Let_def split: if_split_asm option.splits prod.splits)
  with Cons one show ?case by simp
qed simp

lemma record_errors_fatal:
  "fold (record_expiry en now) ys (s, n, errs) = (s', n', errs') \<Longrightarrow> \<forall>e \<in> set errs. fatal e \<Longrightarrow> \<forall>e \<in> set errs'. fatal e"
proof (induction ys arbitrary: s n errs)
  case (Cons b ys)
  obtain s1 n1 errs1 where one: "record_expiry en now b (s, n, errs) = (s1, n1, errs1)" by (metis prod_cases3)
  then have "\<forall>e \<in> set errs1. fatal e"
    using Cons.prems(2) by (auto simp: record_expiry_def Let_def split: if_split_asm option.splits prod.splits)
  with Cons one show ?case by simp
qed simp

lemma rollback_quiet:
  assumes "rollback_expiry en core release err removed (s, k) = (errs, s', k')" and "\<forall>e \<in> set errs. \<not> fatal e"
    and "distinct (map be_Target removed)" and "\<forall>c. core = Some c \<longrightarrow> core_exact holds c"
  shows "(\<forall>y \<in> set removed. gm_get (st_blocks s') (be_Target y) = Some y)
     \<and> (\<forall>t. t \<notin> be_Target ` set removed \<longrightarrow> gm_get (st_blocks s') t = gm_get (st_blocks s) t)
     \<and> holds k' = holds k \<union> be_Target ` {y \<in> set removed. be_Enforced y} \<and> errs \<noteq> []"
proof -
  obtain s1 k1 rerrs where loop: "fold (restore_one core) removed (s, k, []) = (s1, k1, rerrs)" by (metis prod_cases3)
  have "rerrs = []" using restore_errors_fatal [OF loop] assms(1,2) loop
    by (cases rerrs) (auto simp: rollback_expiry_def Let_def split: prod.splits)
  with assms(1) loop restore_loop [OF loop [unfolded this] assms(3,4)] show ?thesis
    by (auto simp: rollback_expiry_def Let_def)
qed

lemma commit_quiet:
  assumes "commit_expiry en now release removed (s, k) = (errs, s', k')" and "\<forall>e \<in> set errs. \<not> fatal e"
  shows "st_blocks s' = st_blocks s \<and> k' = k \<and> errs = []"
proof -
  obtain s1 n1 eerrs where loop: "fold (record_expiry en now) removed (s, 0, []) = (s1, n1, eerrs)" by (metis prod_cases3)
  have "eerrs = []" using record_errors_fatal [OF loop] assms loop
    by (cases eerrs) (auto simp: commit_expiry_def Let_def split: prod.splits)
  with assms(1) loop commit_loop_blocks [OF loop] show ?thesis
    by (auto simp: commit_expiry_def Let_def UpdateKineticTelemetry_def)
qed

lemma persist_blocks [simp]: "persistPolicy policy cfg (s, p) = (e, s', p') \<Longrightarrow> st_blocks s' = st_blocks s"
  by (auto simp: persistPolicy_def SetPolicyStatus_def Let_def split: option.splits prod.splits)

text \<open>What a run leaves: the returned blocks are gone, everything else is as before, kernel and list agree.\<close>

definition expiry_result :: "'l env \<Rightarrow> gostamp \<Rightarrow> ('k \<Rightarrow> string set) \<Rightarrow> 'l State \<Rightarrow> BlockEntry list \<Rightarrow> bool \<Rightarrow> 'l State \<Rightarrow> 'k \<Rightarrow> bool" where
  "expiry_result en now holds s rs clean s' k' \<longleftrightarrow>
     (\<forall>t. gm_get (st_blocks s') t = (if t \<in> be_Target ` set rs then None else gm_get (st_blocks s) t))
   \<and> (\<forall>b \<in> set rs. gm_get (st_blocks s) (be_Target b) = Some b \<and> entry_expired en now s (be_Target b) b)
   \<and> (\<forall>t \<in> holds k'. \<exists>b. gm_get (st_blocks s) t = Some b \<and> be_Enforced b \<and> t \<notin> be_Target ` set rs)
   \<and> (\<forall>t b. gm_get (st_blocks s) t = Some b \<and> be_Enforced b \<and> \<not> entry_expired en now s t b \<longrightarrow> t \<in> holds k')
   \<and> (clean \<longrightarrow> (\<forall>t b. gm_get (st_blocks s) t = Some b \<and> entry_expired en now s t b \<longrightarrow> b \<in> set rs))"

lemma expired_candidates:
  assumes wf: "blocks_wf s" and ex: "Expired en now s = (cs, s0)"
  shows "distinct (map be_Target cs)"
    and "b \<in> set cs \<longleftrightarrow> gm_get (st_blocks s) (be_Target b) = Some b \<and> entry_expired en now s (be_Target b) b"
    and "gm_get (st_blocks s0) t = (if t \<in> be_Target ` set cs then None else gm_get (st_blocks s) t)"
proof -
  note gw = blocks_wfD(1) [OF wf]
  have cs: "cs = map snd (filter (\<lambda>(k, b). entry_expired en now s k b) (st_blocks s))" using ex Expired_eq [OF gw] by simp
  have key: "(k, b) \<in> set (st_blocks s) \<Longrightarrow> be_Target b = k" for k b using blocks_wfD(3) [OF wf] gw by (simp add: gm_wf_get_iff)
  have "map be_Target cs = map fst (filter (\<lambda>(k, b). entry_expired en now s k b) (st_blocks s))"
    unfolding cs by (auto simp: key)
  then show "distinct (map be_Target cs)" using gw by (simp add: gm_wf_def distinct_map_filter)
  show mem: "b \<in> set cs \<longleftrightarrow> gm_get (st_blocks s) (be_Target b) = Some b \<and> entry_expired en now s (be_Target b) b" for b
    using Expired_out [OF gw, of en now] ex blocks_wfD(3) [OF wf] by auto
  have "s0 = snd (Expired en now s)" using ex by simp
  then show "gm_get (st_blocks s0) t = (if t \<in> be_Target ` set cs then None else gm_get (st_blocks s) t)"
  proof (cases "gm_get (st_blocks s) t")
    case None
    then have "t \<notin> be_Target ` set cs" using mem by auto
    with None Expired_get [OF gw, of en now t] \<open>s0 = snd (Expired en now s)\<close> show ?thesis by simp
  next
    case (Some b)
    then have "be_Target b = t" using blocks_wfD(3) [OF wf] by blast
    then have "t \<in> be_Target ` set cs \<longleftrightarrow> entry_expired en now s t b" using mem Some by (metis (no_types, lifting) imageE image_eqI option.inject)
    with Some Expired_get [OF gw, of en now t] \<open>s0 = snd (Expired en now s)\<close> show ?thesis by simp
  qed
qed

lemma loop_result:
  assumes wf: "blocks_wf s" and ex: "Expired en now s = (cs, s0)" and mir: "mirrors holds s k"
    and eff: "expiry_effect holds cs s0 k ys zs s1 k1"
  shows "expiry_result en now holds s ys (zs = []) s1 k1"
    and "\<forall>y \<in> set ys. gm_get (st_blocks s) (be_Target y) = Some y"
proof -
  note c = expired_candidates [OF wf ex]
  note f = eff [unfolded expiry_effect_def]
  have key: "gm_get (st_blocks s) t = Some b \<Longrightarrow> be_Target b = t" for t b using blocks_wfD(3) [OF wf] .
  have in_cs: "b \<in> set ys \<or> b \<in> set zs \<longleftrightarrow> gm_get (st_blocks s) (be_Target b) = Some b \<and> entry_expired en now s (be_Target b) b" for b
    using c(2) f by auto
  have get: "gm_get (st_blocks s1) t = (if t \<in> be_Target ` set ys then None else gm_get (st_blocks s) t)" for t
  proof (cases "t \<in> be_Target ` set zs")
    case True
    then obtain z where z: "z \<in> set zs" "be_Target z = t" by auto
    with f have "gm_get (st_blocks s1) t = Some z" "t \<notin> be_Target ` set ys" by auto
    with z in_cs [of z] show ?thesis by auto
  next
    case False
    then have "gm_get (st_blocks s1) t = gm_get (st_blocks s0) t" using f by blast
    moreover have "t \<in> be_Target ` set cs \<longleftrightarrow> t \<in> be_Target ` set ys" using f False by auto
    ultimately show ?thesis using c(3) [of t] by simp
  qed
  have kern: "t \<in> holds k1 \<longleftrightarrow> (\<exists>b. gm_get (st_blocks s) t = Some b \<and> be_Enforced b) \<and> t \<notin> be_Target ` set ys" if "t \<notin> be_Target ` set zs" for t
  proof -
    have "t \<in> holds k1 \<longleftrightarrow> t \<in> holds k \<and> \<not> (\<exists>y \<in> set ys. be_Enforced y \<and> be_Target y = t)" using f that by blast
    moreover have "y = b" if "gm_get (st_blocks s) t = Some b" "y \<in> set ys" "be_Target y = t" for b y
      using in_cs [of y] that by auto
    ultimately show ?thesis using mir by (auto simp: mirrors_def)
  qed
  have zen: "\<exists>b. gm_get (st_blocks s) t = Some b \<and> be_Enforced b \<and> entry_expired en now s t b \<and> t \<notin> be_Target ` set ys" if t: "t \<in> be_Target ` set zs" for t
  proof -
    obtain z where z: "z \<in> set zs" "t = be_Target z" using t by auto
    moreover have "be_Enforced z" "t \<notin> be_Target ` set ys" using z f by auto
    ultimately show ?thesis using in_cs [of z] by auto
  qed
  show "\<forall>y \<in> set ys. gm_get (st_blocks s) (be_Target y) = Some y" using in_cs by blast
  show "expiry_result en now holds s ys (zs = []) s1 k1"
    unfolding expiry_result_def
  proof (intro conjI allI ballI impI)
    fix t assume t: "t \<in> holds k1"
    show "\<exists>b. gm_get (st_blocks s) t = Some b \<and> be_Enforced b \<and> t \<notin> be_Target ` set ys"
      using kern [of t] zen [of t] t by blast
  next
    fix t b assume b: "gm_get (st_blocks s) t = Some b \<and> be_Enforced b \<and> \<not> entry_expired en now s t b"
    have "t \<notin> be_Target ` set ys" using in_cs b by (metis (no_types, lifting) imageE option.inject)
    moreover have "t \<notin> be_Target ` set zs" using zen [of t] b by auto
    ultimately show "t \<in> holds k1" using kern b by blast
  next
    fix t b assume "zs = []" and b: "gm_get (st_blocks s) t = Some b \<and> entry_expired en now s t b"
    then show "b \<in> set ys" using in_cs [of b] key [of t b] by auto
  qed (use get in_cs in auto)
qed

lemma rolled_back_result:
  assumes "expiry_result en now holds s ys c s1 k1" and "\<forall>y \<in> set ys. gm_get (st_blocks s) (be_Target y) = Some y"
    and "\<forall>y \<in> set ys. gm_get (st_blocks s') (be_Target y) = Some y"
    and "\<forall>t. t \<notin> be_Target ` set ys \<longrightarrow> gm_get (st_blocks s') t = gm_get (st_blocks s1) t"
    and "holds k' = holds k1 \<union> be_Target ` {y \<in> set ys. be_Enforced y}"
  shows "expiry_result en now holds s [] False s' k'"
proof -
  have "gm_get (st_blocks s') t = gm_get (st_blocks s) t" for t
    using assms(1-4) by (cases "t \<in> be_Target ` set ys") (auto simp: expiry_result_def)
  then show ?thesis using assms(1,2,5) by (auto simp: expiry_result_def)
qed

text \<open>
  C17: The expiry of blocks is a transaction. Unless a rollback or the evidence ledger failed (which calls the fail-safe), exactly
  the returned blocks are gone, each of them had expired, and every other entry is as before, also when the policy could not be
  persisted; the kernel holds no target without an enforced entry and still holds every enforced block that has
  not expired; and when no error at all is returned, every expired block was removed.
\<close>
theorem expiry_transaction:
  assumes wf: "blocks_wf s" and mir: "mirrors holds s k" and core: "\<forall>c. core = Some c \<longrightarrow> core_exact holds c"
    and call: "reconcileExpiredNetworkBlocks en now core policy cfg release (s, k, p) = ((rs, errs), s', k', p')"
    and quiet: "\<forall>e \<in> set errs. \<not> fatal e"
  shows "(\<forall>t. gm_get (st_blocks s') t = (if t \<in> be_Target ` set rs then None else gm_get (st_blocks s) t))
   \<and> (\<forall>b \<in> set rs. gm_get (st_blocks s) (be_Target b) = Some b \<and> entry_expired en now s (be_Target b) b)
   \<and> (\<forall>t \<in> holds k'. \<exists>b. gm_get (st_blocks s') t = Some b \<and> be_Enforced b)
   \<and> (\<forall>t b. gm_get (st_blocks s) t = Some b \<and> be_Enforced b \<and> \<not> entry_expired en now s t b \<longrightarrow> t \<in> holds k')
   \<and> (errs = [] \<longrightarrow> (\<forall>t b. gm_get (st_blocks s) t = Some b \<and> entry_expired en now s t b \<longrightarrow> b \<in> set rs))"
proof -
  obtain cs s0 where ex: "Expired en now s = (cs, s0)" by (rule prod.exhaust)
  obtain s1 k1 ys es where loop: "fold (expire_one en core) cs (s0, k, [], []) = (s1, k1, ys, es)" by (metis prod_cases4)
  from expire_loop [OF loop expired_candidates(1) [OF wf ex] core] obtain zs where z: "es = [] \<longrightarrow> zs = []"
    "expiry_effect holds cs s0 k ys zs s1 k1" by auto
  note res = loop_result [OF wf ex mir z(2)]
  have "expiry_result en now holds s rs (errs = []) s' k'"
  proof (cases "cs = [] \<or> ys = []")
    case True
    then have "s' = s1 \<and> k' = k1 \<and> rs = ys \<and> errs = es"
      using call ex loop by (cases "cs = []") (auto simp: reconcileExpiredNetworkBlocks_def)
    with res(1) z(1) show ?thesis by (auto simp: expiry_result_def)
  next
    case False
    obtain pe s2 p2 where pp: "persistPolicy policy cfg (s1, p) = (pe, s2, p2)" by (metis prod_cases3)
    have s2: "st_blocks s2 = st_blocks s1" using pp by simp
    show ?thesis
    proof (cases pe)
      case None
      obtain e2 s3 k3 where co: "commit_expiry en (gs_wall now) release ys (s2, k1) = (e2, s3, k3)" by (metis prod_cases3)
      then have eq: "rs = ys" "errs = e2 @ es" "s' = s3" "k' = k3"
        using call ex loop False None pp by (auto simp: reconcileExpiredNetworkBlocks_def)
      from commit_quiet [OF co] quiet eq have "st_blocks s' = st_blocks s1 \<and> k' = k1 \<and> errs = es" using s2 by auto
      with res(1) z(1) eq show ?thesis by (auto simp: expiry_result_def)
    next
      case (Some err)
      obtain e2 s3 k3 where ro: "rollback_expiry en core release err ys (s2, k1) = (e2, s3, k3)" by (metis prod_cases3)
      then have eq: "rs = []" "errs = e2" "s' = s3" "k' = k3"
        using call ex loop False Some pp by (auto simp: reconcileExpiredNetworkBlocks_def)
      have "distinct (map be_Target ys)" using z(2) by (simp add: expiry_effect_def)
      from rollback_quiet [OF ro _ this core] quiet eq s2 rolled_back_result [OF res(1,2), of s' k']
      show ?thesis by (auto simp: expiry_result_def)
    qed
  qed
  note r = this [unfolded expiry_result_def]
  have "\<forall>t \<in> holds k'. \<exists>b. gm_get (st_blocks s') t = Some b \<and> be_Enforced b" using r by metis
  with r show ?thesis by (elim conjE) (intro conjI; assumption)
qed

lemma ready_no_ledger: "st_evidence (ready_state c bs) = None"
  by (simp add: ready_state_def NewState_def Let_def)

lemma no_ledger:
  "st_evidence s = None \<Longrightarrow> RecordEvidence en r s = (None, s)"
  "st_evidence s = None \<Longrightarrow> st_evidence (AddEvent en e s) = None"
  by (simp_all add: RecordEvidence_def AddEvent_def append_event_def randomID_def Let_def)

lemma sample_expires:
  "\<exists>s' k'. reconcileExpiredNetworkBlocks (demo_env 9 0) (wall_stamp (90000 * second)) (Some set_core) (None :: nat policyPersistence option) c None
      (ready_state c [(''10.0.0.7/32'', sample_entry 3)], {''10.0.0.7/32''}, 0) = (([sample_entry 3], []), s', k', 0)"
proof -
  let ?s = "ready_state c [(''10.0.0.7/32'', sample_entry 3)]"
  have ex: "Expired (demo_env 9 0) (wall_stamp (90000 * second)) ?s =
      ([sample_entry 3], ?s\<lparr> st_blocks := [], st_blockDeadlines := [] \<rparr>)"
    by (simp add: Expired_def ready_blocks blockExpired_def blockExpiryDeadline_def wall_stamp_def stamp_after_def sample_entry_def)
  have w: "gs_wall (wall_stamp t) = t" for t by (simp add: wall_stamp_def)
  have f: "be_Enforced (sample_entry 3)" "be_Target (sample_entry 3) = ''10.0.0.7/32''" by (simp_all add: sample_entry_def)
  have loop: "fold (expire_one (demo_env 9 0) (Some set_core)) [sample_entry 3] (?s\<lparr> st_blocks := [], st_blockDeadlines := [] \<rparr>, {''10.0.0.7/32''}, [], []) =
      (?s\<lparr> st_blocks := [], st_blockDeadlines := [] \<rparr>, {}, [sample_entry 3], [])"
    by (simp add: expire_one_def set_core_def f)
  obtain errs s' k' where co: "commit_expiry (demo_env 9 0) (90000 * second) (None :: (string set, nat) fail_safe option) [sample_entry 3]
      (?s\<lparr> st_blocks := [], st_blockDeadlines := [] \<rparr>, {}) = (errs, s', k')" by (metis prod_cases3)
  then have "errs = []"
    by (auto simp: commit_expiry_def record_expiry_def Let_def no_ledger ready_no_ledger randomID_def split: if_splits)
  with co show ?thesis
    by (simp add: reconcileExpiredNetworkBlocks_def ex [simplified] persistPolicy_def loop [simplified] w)
qed

theorem expiry_transaction_witness:
  "\<forall>c. case reconcileExpiredNetworkBlocks (demo_env 9 0) (wall_stamp (90000 * second)) (Some set_core) (None :: nat policyPersistence option) c None
      (ready_state c [(''10.0.0.7/32'', sample_entry 3)], {''10.0.0.7/32''}, 0) of
      ((rs, errs), s', k', p') \<Rightarrow> rs = [sample_entry 3] \<and> gm_get (st_blocks s') ''10.0.0.7/32'' = None \<and> k' = {}"
proof
  fix c
  let ?s = "ready_state c [(''10.0.0.7/32'', sample_entry 3)]"
  obtain s' k' where x: "reconcileExpiredNetworkBlocks (demo_env 9 0) (wall_stamp (90000 * second)) (Some set_core) (None :: nat policyPersistence option) c None
      (?s, {''10.0.0.7/32''}, 0) = (([sample_entry 3], []), s', k', 0)" using sample_expires by blast
  have wf: "blocks_wf ?s"
    using normalizeTarget_idem [OF sample_target] by (auto simp: blocks_wf_def ready_blocks gm_wf_def sample_entry_def split: if_splits)
  have mir: "mirrors (\<lambda>ks. ks) ?s {''10.0.0.7/32''}" by (auto simp: mirrors_def ready_blocks sample_entry_def)
  have core: "\<forall>c. Some set_core = Some c \<longrightarrow> core_exact (\<lambda>ks. ks) c" using set_core_exact by simp
  have quiet: "\<forall>e \<in> set []. \<not> fatal e" by simp
  note t = expiry_transaction [OF wf mir core x quiet]
  have get: "gm_get (st_blocks s') t = None" for t using conjunct1 [OF t] by (simp add: ready_blocks sample_entry_def)
  have "k' = {}" using conjunct1 [OF conjunct2 [OF conjunct2 [OF t]]] get by auto
  with x get show "case reconcileExpiredNetworkBlocks (demo_env 9 0) (wall_stamp (90000 * second)) (Some set_core) (None :: nat policyPersistence option) c None
      (?s, {''10.0.0.7/32''}, 0) of
      ((rs, errs), s', k', p') \<Rightarrow> rs = [sample_entry 3] \<and> gm_get (st_blocks s') ''10.0.0.7/32'' = None \<and> k' = {}" by simp
qed

end
