(* ===== verification/Release_Controller.thy ===== *)
theory Release_Controller
  imports Block_Expiry
begin

text \<open>
  The release controller, \<open>control/release.go\<close>: the phase machine observe, canary, enforce and degraded that decides
  whether automatic decisions are allowed and owns the kernel block list as a whole. \<open>kernelAdvisoryBlocker\<close> of
  \<open>control/kernel_advisories.go\<close> and the release fields of \<open>control/config.go\<close> and \<open>control/runtime_settings.go\<close> are here too.

  A method acts on a \<open>release_world\<close>: the controller, the shared state, the kernel, the policy store and the emergency
  stop marker. A \<open>release_call\<close> carries what one call reads from outside: the clock (\<open>ca_env\<close>), the second reading that the
  methods take for \<open>monoSince\<close> (\<open>ca_later\<close>), the case engine behind \<open>AddIncident\<close> and the answers of the file system when the
  marker is written or removed. The kernel core and the policy store are parameters, and so is the callback after a
  reconciliation, which acts on the state and the kernel. Log output is left out. \<open>strings.ToLower\<close> maps ASCII letters; its
  result is only compared with ASCII words that no other character maps to.

  The lemmas are in \<open>Release_Safety\<close>.
\<close>

section \<open>Configuration and state\<close>

text \<open>The channel and the path of the marker are fields of \<open>Config\<close>.\<close>

record ReleaseConfig =
  rl_MinimumObserveSeconds :: int
  rl_MinimumCanarySeconds :: int
  rl_CoreFailureThreshold :: int
  rl_MaxEvaluationDropPermille :: int
  rl_AutoDegrade :: bool

record ProtectionRuntimeSettings =
  pr_MinimumObserveSeconds :: int
  pr_MinimumCanarySeconds :: int
  pr_CoreFailureThreshold :: int
  pr_MaxEvaluationDropPermille :: int

text \<open>The runtime settings that the controller reads.\<close>

record RuntimeSettings =
  rt_FabricVersion :: int
  rt_XDREnabled :: bool
  rt_AutoDegrade :: bool
  rt_ManagementAllowlist :: "string list"
  rt_Kinetic :: KineticRuntimeSettings
  rt_Protection :: ProtectionRuntimeSettings

record AdvisoryConfig =
  ac_Enabled :: bool
  ac_Mode :: string
  ac_MaxExposure :: int

record KernelExposure =
  kx_Verdict :: string
  kx_Score :: int
  kx_Highest :: string

record 'k ReleaseCore = "'k core" +
  core_ClearBlocklist :: "'k \<Rightarrow> string option \<times> 'k"
  core_VerifyBlocklistEmpty :: "'k \<Rightarrow> string option \<times> 'k"

record ('k, 'p, 'l) ReleaseController =
  rc_cfg :: Config
  rc_release :: ReleaseConfig
  rc_advisories :: AdvisoryConfig
  rc_core :: "'k ReleaseCore option"
  rc_policy :: "'p policyPersistence"
  rc_settings :: "RuntimeSettings option"
  rc_status :: ReleaseStatus
  rc_monoSince :: gostamp
  rc_monoNominal :: "gostamp option"
  rc_exposure :: "KernelExposure option"
  rc_kernelReconciledHook :: "('l State \<times> 'k \<Rightarrow> 'l State \<times> 'k) option"

record ('k, 'p, 'l) release_world =
  rw_ctl :: "('k, 'p, 'l) ReleaseController"
  rw_state :: "'l State"
  rw_kernel :: 'k
  rw_store :: 'p
  rw_marker :: stat_result

record 'l release_call =
  ca_env :: "'l env"
  ca_later :: gostamp
  ca_ingest :: "(XDRIncident \<Rightarrow> string option) option"
  ca_write :: "string option"
  ca_remove :: "string option"

datatype release_error =
    RelTarget | RelConfirmation | RelReason
  | RelGate "string list"
  | RelPhase string
  | RelCoreNil
  | RelConfirm string string
  | RelApply string string "(string \<times> string) list"
  | RelClear string
  | RelVerify string
  | RelPersist string
  | RelEmergency
  | RelUnverified
  | RelFile string
  | RelWrap string release_error
  | RelBoth release_error release_error

fun release_text :: "release_error \<Rightarrow> string" where
  "release_text RelTarget = ''target phase must be observe, canary, or enforce''"
| "release_text RelConfirmation = ''explicit confirmation is invalid''"
| "release_text RelReason = ''reason must contain 8-240 characters''"
| "release_text (RelGate bs) = ''release gates are not satisfied: '' @ str_join ''; '' bs"
| "release_text (RelPhase p) = ''unsupported release phase '' @ p"
| "release_text RelCoreNil = ''core client is nil''"
| "release_text (RelConfirm t e) = ''kernel policy confirmation failed for '' @ t @ '': '' @ e"
| "release_text (RelApply t e rs) = ''kernel policy reconciliation failed for '' @ t @ '': '' @ e
     @ concat (map (\<lambda>(t, e). CHR 0x0A # ''rollback removal failed for '' @ t @ '': '' @ e) rs)"
| "release_text (RelClear e) = ''authoritative kernel blocklist clear failed: '' @ e"
| "release_text (RelVerify e) = ''kernel blocklist empty-state verification failed: '' @ e"
| "release_text (RelPersist e) = e"
| "release_text RelEmergency = ''emergency stop is active''"
| "release_text RelUnverified = ''kernel enforcement is not verified''"
| "release_text (RelFile e) = e"
| "release_text (RelWrap c e) = c @ '': '' @ release_text e"
| "release_text (RelBoth a b) = release_text a @ CHR 0x0A # release_text b"

abbreviation ReleasePhaseObserve :: string where "ReleasePhaseObserve \<equiv> ''observe''"
abbreviation ReleasePhaseCanary :: string where "ReleasePhaseCanary \<equiv> ''canary''"
abbreviation ReleasePhaseEnforce :: string where "ReleasePhaseEnforce \<equiv> ''enforce''"
abbreviation ReleasePhaseDegraded :: string where "ReleasePhaseDegraded \<equiv> ''degraded''"

section \<open>Helpers\<close>

text \<open>Access to the parts of the world.\<close>

definition rw_status :: "('k, 'p, 'l) release_world \<Rightarrow> ReleaseStatus" where
  "rw_status w = rc_status (rw_ctl w)"

definition upd_status :: "(ReleaseStatus \<Rightarrow> ReleaseStatus) \<Rightarrow> ('k, 'p, 'l) release_world \<Rightarrow> ('k, 'p, 'l) release_world" where
  "upd_status f w = w\<lparr> rw_ctl := (rw_ctl w)\<lparr> rc_status := f (rc_status (rw_ctl w)) \<rparr> \<rparr>"

definition on_state :: "('l State \<Rightarrow> 'l State) \<Rightarrow> ('k, 'p, 'l) release_world \<Rightarrow> ('k, 'p, 'l) release_world" where
  "on_state f w = w\<lparr> rw_state := f (rw_state w) \<rparr>"

definition publish :: "('k, 'p, 'l) release_world \<Rightarrow> ('k, 'p, 'l) release_world" where
  "publish w = on_state (SetReleaseStatus (rw_status w)) w"

definition emit :: "'l release_call \<Rightarrow> string \<Rightarrow> string \<Rightarrow> string \<Rightarrow> string \<Rightarrow> ('k, 'p, 'l) release_world \<Rightarrow> ('k, 'p, 'l) release_world" where
  "emit ca severity kind source message = on_state (AddEvent (ca_env ca) (mk_event 0 severity kind source message []))"

text \<open>\<open>r.policy.Persist\<close> with the block snapshot, and \<open>SetPolicyStatus(r.policy.Status())\<close>.\<close>

definition persist_modes :: "string \<Rightarrow> string \<Rightarrow> ('k, 'p, 'l) release_world \<Rightarrow> string option \<times> ('k, 'p, 'l) release_world" where
  "persist_modes enforcement xdrMode w =
     (case pp_Persist (rc_policy (rw_ctl w)) (cf_NodeName (rc_cfg (rw_ctl w))) enforcement xdrMode (BlocksSnapshot (rw_state w)) (rw_store w)
      of (err, p) \<Rightarrow> (err, w\<lparr> rw_store := p \<rparr>))"

definition publish_policy :: "('k, 'p, 'l) release_world \<Rightarrow> ('k, 'p, 'l) release_world" where
  "publish_policy w = on_state (SetPolicyStatus (pp_Status (rc_policy (rw_ctl w)) (rw_store w))) w"

definition to_upper_char :: "char \<Rightarrow> char" where
  "to_upper_char c = (let n = of_char c :: nat in if 97 \<le> n \<and> n \<le> 122 then char_of (n - 32) else c)"

definition trim_suffix :: "string \<Rightarrow> string \<Rightarrow> string" where
  "trim_suffix suf s = (if suffix suf s then take (length s - length suf) s else s)"

text \<open>\<open>Duration.Round(time.Second)\<close>, halfway values away from zero.\<close>

definition round_second :: "duration \<Rightarrow> duration" where
  "round_second d = sgn d * ((\<bar>d\<bar> + second div 2) div second * second)"

definition when_msg :: "bool \<Rightarrow> string \<Rightarrow> string list" where
  "when_msg c m = (if c then [m] else [])"

definition bad_reason :: "string \<Rightarrow> bool" where
  "bad_reason reason \<longleftrightarrow> length (trim_space reason) < 8 \<or> length reason > 240"

section \<open>Clocks\<close>

definition markNominalLocked :: "'l release_call \<Rightarrow> ('k, 'p, 'l) release_world \<Rightarrow> ('k, 'p, 'l) release_world" where
  "markNominalLocked ca w =
     upd_status (\<lambda>s. s\<lparr> rs_NominalSince := Some (env_now (ca_env ca)) \<rparr>)
       (w\<lparr> rw_ctl := (rw_ctl w)\<lparr> rc_monoNominal := Some (env_stamp (ca_env ca)) \<rparr> \<rparr>)"

definition sinceElapsed :: "'l env \<Rightarrow> ('k, 'p, 'l) ReleaseController \<Rightarrow> duration" where
  "sinceElapsed en r =
     (if \<not> time_is_zero (gs_wall (rc_monoSince r)) \<and> rs_Since (rc_status r) = gs_wall (rc_monoSince r)
      then stamp_sub (env_stamp en) (rc_monoSince r) else time_sub (env_now en) (rs_Since (rc_status r)))"

definition nominalElapsed :: "'l env \<Rightarrow> ('k, 'p, 'l) ReleaseController \<Rightarrow> duration" where
  "nominalElapsed en r =
     (case rs_NominalSince (rc_status r) of
        None \<Rightarrow> 0
      | Some since \<Rightarrow> (case rc_monoNominal r of
          Some m \<Rightarrow> if since = gs_wall m then stamp_sub (env_stamp en) m else time_sub (env_now en) since
        | None \<Rightarrow> time_sub (env_now en) since))"

text \<open>
  How the methods enter a phase: \<open>Since\<close> and \<open>LastTransition\<close> get one reading of the clock, \<open>monoSince\<close> another one.
\<close>

definition enter_phase :: "'l release_call \<Rightarrow> string \<Rightarrow> ('k, 'p, 'l) release_world \<Rightarrow> ('k, 'p, 'l) release_world" where
  "enter_phase ca phase w =
     upd_status (\<lambda>s. s\<lparr> rs_Phase := phase, rs_Since := env_now (ca_env ca), rs_LastTransition := Some (env_now (ca_env ca)) \<rparr>)
       (w\<lparr> rw_ctl := (rw_ctl w)\<lparr> rc_monoSince := ca_later ca \<rparr> \<rparr>)"

section \<open>Modes and gates\<close>

definition releaseModes :: "string \<Rightarrow> release_error + (string \<times> string)" where
  "releaseModes phase =
     (if phase = ReleasePhaseObserve \<or> phase = ReleasePhaseDegraded then Inr (''observe'', ''observe'')
      else if phase = ReleasePhaseCanary then Inr (''observe'', ''contain'')
      else if phase = ReleasePhaseEnforce then Inr (''enforce'', ''enforce'')
      else Inl (RelPhase phase))"

definition kernelPolicyVerified :: "string \<Rightarrow> bool" where
  "kernelPolicyVerified kernelState = (kernelState = ''verified-empty'' \<or> kernelState = ''verified-enforce'')"

definition retainedEnforcementLocked :: "ReleaseStatus \<Rightarrow> string \<Rightarrow> string \<Rightarrow> string" where
  "retainedEnforcementLocked status target requested =
     (if target = ReleasePhaseObserve then requested
      else if rs_KernelPolicyState status = ''verified-enforce'' \<and> requested = ''observe'' then ''enforce''
      else requested)"

definition fabricSettingsVersion :: int where "fabricSettingsVersion = 12"

definition defaultRuntimeSettings :: "Config \<Rightarrow> ReleaseConfig \<Rightarrow> RuntimeSettings" where
  "defaultRuntimeSettings cfg rel =
     (let kin = cf_Kinetic cfg
      in \<lparr> rt_FabricVersion = fabricSettingsVersion, rt_XDREnabled = cf_XDREnabled cfg, rt_AutoDegrade = rl_AutoDegrade rel,
           rt_ManagementAllowlist = df_Allowlist (cf_Defense cfg),
           rt_Kinetic = \<lparr> ks_Enabled = kc_Enabled kin, ks_EnforcementMode = kc_EnforcementMode kin,
             ks_IPThreshold = kc_IPThreshold kin, ks_VelocityLimit = kc_VelocityLimit kin,
             ks_RangeThreshold = kc_RangeThreshold kin, ks_IPv6SubThreshold = kc_IPv6SubThreshold kin,
             ks_WideRangeThreshold = kc_WideRangeThreshold kin, ks_PortscanThreshold = kc_PortscanThreshold kin,
             ks_SYNThreshold = kc_SYNThreshold kin, ks_SYNAckRatio = kc_SYNAckRatio kin,
             ks_LowSlowMinSeconds = kc_LowSlowMinSeconds kin, ks_SubnetMinSources = kc_SubnetMinSources kin,
             ks_IPv6SubnetMinSources = kc_IPv6SubnetMinSources kin, ks_WideMinSources = kc_WideMinSources kin,
             ks_AutoContainSingleIP = kc_AutoContainSingleIP kin, ks_AutoContainIPv4Subnet = kc_AutoContainIPv4Subnet kin,
             ks_AutoContainIPv6Subnet = kc_AutoContainIPv6Subnet kin, ks_MaxTrackingIPs = kc_MaxTrackingIPs kin,
             ks_BanTTLSeconds = kc_BanTTLSeconds kin, ks_MaxStrikesPerSec = kc_MaxStrikesPerSec kin,
             ks_ServicePortsWeb = kc_ServicePortsWeb kin, ks_ServicePortsMail = kc_ServicePortsMail kin,
             ks_ServicePortsAdmin = kc_ServicePortsAdmin kin \<rparr>,
           rt_Protection = \<lparr> pr_MinimumObserveSeconds = rl_MinimumObserveSeconds rel,
             pr_MinimumCanarySeconds = rl_MinimumCanarySeconds rel, pr_CoreFailureThreshold = rl_CoreFailureThreshold rel,
             pr_MaxEvaluationDropPermille = rl_MaxEvaluationDropPermille rel \<rparr> \<rparr>)"

definition runtimeSettingsLocked :: "('k, 'p, 'l) ReleaseController \<Rightarrow> RuntimeSettings" where
  "runtimeSettingsLocked r =
     (case rc_settings r of Some settings \<Rightarrow> settings | None \<Rightarrow> defaultRuntimeSettings (rc_cfg r) (rc_release r))"

definition effectiveReleaseConfigLocked :: "('k, 'p, 'l) ReleaseController \<Rightarrow> ReleaseConfig" where
  "effectiveReleaseConfigLocked r =
     (let cfg = rc_release r; runtime = runtimeSettingsLocked r
      in if rt_FabricVersion runtime \<ge> fabricSettingsVersion
         then cfg\<lparr> rl_MinimumObserveSeconds := pr_MinimumObserveSeconds (rt_Protection runtime),
                   rl_MinimumCanarySeconds := pr_MinimumCanarySeconds (rt_Protection runtime),
                   rl_CoreFailureThreshold := pr_CoreFailureThreshold (rt_Protection runtime),
                   rl_MaxEvaluationDropPermille := pr_MaxEvaluationDropPermille (rt_Protection runtime),
                   rl_AutoDegrade := rt_AutoDegrade runtime \<rparr>
         else cfg)"

definition kernelAdvisoryBlocker :: "string \<Rightarrow> string \<Rightarrow> AdvisoryConfig \<Rightarrow> KernelExposure \<Rightarrow> string" where
  "kernelAdvisoryBlocker target currentPhase cfg exposure =
     (if \<not> ac_Enabled cfg \<or> ac_Mode cfg \<noteq> ''strict'' then []
      else if target = currentPhase then []
      else if kx_Verdict exposure = ''unaffected'' then []
      else if kx_Score exposure < ac_MaxExposure cfg then []
      else ''kernel advisory exposure '' @ dec_int (kx_Score exposure) @ '' of 100 exceeds the strict limit ''
           @ dec_int (ac_MaxExposure cfg) @ '' ('' @ kx_Highest exposure @ '')'')"

text \<open>The soak of the promotion ladder, the last part of \<open>currentBlockersLocked\<close>.\<close>

definition soak_minimum :: "ReleaseConfig \<Rightarrow> string \<Rightarrow> duration" where
  "soak_minimum cfg target =
     (if target = ReleasePhaseCanary then wrap64 (rl_MinimumObserveSeconds cfg * second)
      else if target = ReleasePhaseEnforce then wrap64 (rl_MinimumCanarySeconds cfg * second) else 0)"

definition ladder_blockers :: "'l env \<Rightarrow> ('k, 'p, 'l) ReleaseController \<Rightarrow> string \<Rightarrow> string list" where
  "ladder_blockers en r target =
     (let elapsed = sinceElapsed en r; phase = rs_Phase (rc_status r); cfg = effectiveReleaseConfigLocked r;
          minimum = soak_minimum cfg target; remaining = duration_string (round_second (wrap64 (minimum - elapsed)))
      in if target = ReleasePhaseCanary then
           (if phase \<noteq> ReleasePhaseObserve \<and> phase \<noteq> ReleasePhaseDegraded then [''canary promotion requires observe phase'']
            else when_msg (elapsed < minimum) (''observe soak time remaining: '' @ remaining))
         else if target = ReleasePhaseEnforce then
           (if phase \<noteq> ReleasePhaseCanary then [''enforce promotion requires canary phase'']
            else when_msg (elapsed < minimum) (''canary soak time remaining: '' @ remaining))
         else [])"

text \<open>The conditions on the published state, without the controller's own status.\<close>

definition state_blockers :: "'l env \<Rightarrow> stat_result \<Rightarrow> ('k, 'p, 'l) ReleaseController \<Rightarrow> 'l State \<Rightarrow> string \<Rightarrow> string list" where
  "state_blockers en marker r s target =
     (let runtime = runtimeSettingsLocked r; snap = state_Snapshot en (rt_Kinetic runtime) s;
          passive = (target = ReleasePhaseObserve \<or> target = ReleasePhaseDegraded)
      in (case marker of StatExists \<Rightarrow> [''emergency stop is active''] | StatNotExist \<Rightarrow> []
            | StatError e \<Rightarrow> [''emergency stop state cannot be verified''])
       @ when_msg (cf_PolicyRequireSigned (rc_cfg r) \<and> \<not> ps_Verified (sn_Policy snap)) ''signed policy is not verified''
       @ when_msg (es_Enabled (sn_Evidence snap) \<and> \<not> es_Healthy (sn_Evidence snap)) ''mandatory evidence ledger is unavailable''
       @ when_msg (rt_XDREnabled runtime \<and> xs_Degraded (sn_XDR snap)) ''XDR is degraded''
       @ when_msg (cf_L7Enabled (rc_cfg r) \<and> \<not> passive \<and> \<not> l7_Healthy (sn_L7 snap)) ''L7 inspection service is unavailable''
       @ when_msg (cf_L7InlineEnabled (rc_cfg r) \<and> \<not> passive \<and> \<not> l7_InlineHealthy (sn_L7 snap)
            \<and> \<not> InlinePathVerifiedBySelfTest (sn_L7 snap) (env_now en)) ''L7 inline service is unavailable''
       @ (case releaseModes target of
            Inl _ \<Rightarrow> []
          | Inr (targetEnforcement, _) \<Rightarrow>
              when_msg (retainedEnforcementLocked (rc_status r) target targetEnforcement \<noteq> ''enforce''
                \<and> (\<exists>b \<in> set (sn_Blocks snap). be_Enforced b)) ''kernel policy reconciliation is pending'')
       @ when_msg (\<not> sn_CoreConnected snap) ''authenticated Rust core is offline''
       @ (if target = ReleasePhaseEnforce then
            (if rt_ManagementAllowlist runtime = [] then [''management network allowlist is empty'']
             else when_msg (\<not> sn_AllowlistReady snap) ''kernel management allowlist is not synchronized'')
            @ when_msg (sy_OverallStatus (sn_Coverage snap) = CoverageOffline \<or> sy_OverallStatus (sn_Coverage snap) = CoverageDegraded)
                (''kinetic sensor coverage is not nominal: '' @ sy_Summary (sn_Coverage snap))
          else [])
       @ when_msg ((target = ReleasePhaseCanary \<or> target = ReleasePhaseEnforce)
            \<and> (case gm_get (sy_Sensors (sn_Coverage snap)) ''xdp_ingress'' of
                 None \<Rightarrow> False | Some cov \<Rightarrow> sc_Required cov \<and> sc_Status cov \<noteq> CoverageOnline)) ''Kinetic ingress sensor is unavailable'')"

text \<open>The conditions on the controller's own status, and the drop rate of the XDR evaluation.\<close>

definition status_blockers :: "('k, 'p, 'l) ReleaseController \<Rightarrow> 'l State \<Rightarrow> string \<Rightarrow> string list" where
  "status_blockers r s target =
     (let st = rc_status r; cfg = effectiveReleaseConfigLocked r; xdr = st_xdr s;
          drops = xs_EvaluationDrops xdr * 1000 div xs_EvaluationsTotal xdr
      in when_msg (rs_CoreMisses st \<ge> rl_CoreFailureThreshold cfg) ''core heartbeat failure threshold reached''
       @ (case rc_exposure r of
            None \<Rightarrow> []
          | Some exposure \<Rightarrow> let m = kernelAdvisoryBlocker target (rs_Phase st) (rc_advisories r) exposure in when_msg (m \<noteq> []) m)
       @ when_msg (rs_Phase st = ReleasePhaseDegraded \<and> \<not> rs_FailSafeVerified st) ''fail-safe transition is not verified''
       @ when_msg ((rs_Phase st = ReleasePhaseObserve \<or> rs_Phase st = ReleasePhaseDegraded)
            \<and> (\<not> rs_FailSafeVerified st \<or> \<not> kernelPolicyVerified (rs_KernelPolicyState st))) ''kernel policy state is not verified''
       @ when_msg (xs_EvaluationsTotal xdr > 0 \<and> drops > word_of_int (rl_MaxEvaluationDropPermille cfg))
            (''XDR evaluation drop rate is '' @ dec_nat (unat drops) @ '' permille''))"

definition currentBlockersLocked :: "'l release_call \<Rightarrow> ('k, 'p, 'l) release_world \<Rightarrow> string \<Rightarrow> bool \<Rightarrow> string list" where
  "currentBlockersLocked ca w target includeDuration =
     state_blockers (ca_env ca) (rw_marker w) (rw_ctl w) (rw_state w) target
     @ status_blockers (rw_ctl w) (rw_state w) target
     @ (if includeDuration then ladder_blockers (ca_env ca) (rw_ctl w) target else [])"

definition refresh_detail :: "stat_result \<Rightarrow> string list \<Rightarrow> ReleaseStatus \<Rightarrow> string" where
  "refresh_detail marker blockers status =
     (case marker of
        StatError e \<Rightarrow> ''emergency stop state cannot be verified: '' @ e
      | StatExists \<Rightarrow> ''emergency stop active''
      | StatNotExist \<Rightarrow>
          (case blockers of
             b # _ \<Rightarrow> b
           | [] \<Rightarrow> if rs_Phase status = ReleasePhaseDegraded
                  then (if kernelPolicyVerified (rs_KernelPolicyState status)
                        then ''automatic response paused; kernel enforcement retained and verified''
                        else ''automatic response paused; kernel enforcement not confirmed'')
                  else ''release gates satisfied''))"

definition refreshLocked :: "'l release_call \<Rightarrow> ('k, 'p, 'l) release_world \<Rightarrow> ('k, 'p, 'l) release_world" where
  "refreshLocked ca w =
     (let w = upd_status (\<lambda>s. s\<lparr> rs_EmergencyStop := (rw_marker w \<noteq> StatNotExist) \<rparr>) w;
          blockers = currentBlockersLocked ca w (rs_Phase (rw_status w)) False
      in upd_status (\<lambda>s. s\<lparr> rs_Blockers := blockers, rs_Ready := (blockers = []),
                            rs_Detail := refresh_detail (rw_marker w) blockers s \<rparr>) w)"

definition refresh_publish :: "'l release_call \<Rightarrow> ('k, 'p, 'l) release_world \<Rightarrow> ('k, 'p, 'l) release_world" where
  "refresh_publish ca w = publish (refreshLocked ca w)"

section \<open>Kernel reconciliation\<close>

fun confirm_blocks :: "'k ReleaseCore \<Rightarrow> BlockEntry list \<Rightarrow> 'l State \<times> 'k \<Rightarrow> release_error option \<times> 'l State \<times> 'k" where
  "confirm_blocks core [] (s, k) = (None, s, k)"
| "confirm_blocks core (b # bs) (s, k) =
     (case core_Add core (be_Target b) k of
        (Some e, k) \<Rightarrow> (Some (RelConfirm (be_Target b) e), s, k)
      | (None, k) \<Rightarrow> confirm_blocks core bs (snd (SetBlockEnforced (be_Target b) True s), k))"

definition reconcileVerifiedLocked :: "('k, 'p, 'l) release_world \<Rightarrow> release_error option \<times> ('k, 'p, 'l) release_world" where
  "reconcileVerifiedLocked w =
     (case rc_core (rw_ctl w) of
        None \<Rightarrow> (Some RelCoreNil, w)
      | Some core \<Rightarrow>
          (case confirm_blocks core (BlocksSnapshot (rw_state w)) (rw_state w, rw_kernel w) of
             (err, s, k) \<Rightarrow> (err, w\<lparr> rw_state := s, rw_kernel := k \<rparr>)))"

text \<open>Undoing the additions of a failed pass.\<close>

fun unapply_blocks :: "'k ReleaseCore \<Rightarrow> string list \<Rightarrow> 'l State \<times> 'k \<Rightarrow> (string \<times> string) list \<times> 'l State \<times> 'k" where
  "unapply_blocks core [] (s, k) = ([], s, k)"
| "unapply_blocks core (t # ts) (s, k) =
     (case core_Delete core t k of
        (Some e, k) \<Rightarrow> (case unapply_blocks core ts (s, k) of (errs, sk) \<Rightarrow> ((t, e) # errs, sk))
      | (None, k) \<Rightarrow> unapply_blocks core ts (snd (SetBlockEnforced t False s), k))"

fun apply_blocks :: "'k ReleaseCore \<Rightarrow> string list \<Rightarrow> BlockEntry list \<Rightarrow> 'l State \<times> 'k \<Rightarrow> release_error option \<times> 'l State \<times> 'k" where
  "apply_blocks core applied [] (s, k) = (None, s, k)"
| "apply_blocks core applied (b # bs) (s, k) =
     (if be_Enforced b then apply_blocks core applied bs (s, k)
      else case core_Add core (be_Target b) k of
        (Some e, k) \<Rightarrow>
          (case unapply_blocks core applied (s, k) of (errs, sk) \<Rightarrow> (Some (RelApply (be_Target b) e errs), sk))
      | (None, k) \<Rightarrow> apply_blocks core (applied @ [be_Target b]) bs (snd (SetBlockEnforced (be_Target b) True s), k))"

definition notifyKernelReconciledLocked :: "('k, 'p, 'l) release_world \<Rightarrow> ('k, 'p, 'l) release_world" where
  "notifyKernelReconciledLocked w =
     (case rc_kernelReconciledHook (rw_ctl w) of
        None \<Rightarrow> w
      | Some hook \<Rightarrow> (case hook (rw_state w, rw_kernel w) of (s, k) \<Rightarrow> w\<lparr> rw_state := s, rw_kernel := k \<rparr>))"

definition clear_flags :: "BlockEntry list \<Rightarrow> 'l State \<Rightarrow> 'l State" where
  "clear_flags blocks s = fold (\<lambda>b s. if be_Enforced b then snd (SetBlockEnforced (be_Target b) False s) else s) blocks s"

definition reconcileLocked :: "string \<Rightarrow> ('k, 'p, 'l) release_world \<Rightarrow> release_error option \<times> ('k, 'p, 'l) release_world" where
  "reconcileLocked enforcement w =
     (case rc_core (rw_ctl w) of
        None \<Rightarrow> (Some RelCoreNil, w)
      | Some core \<Rightarrow>
          let blocks = BlocksSnapshot (rw_state w)
          in if enforcement = ''enforce'' then
               (case apply_blocks core [] blocks (rw_state w, rw_kernel w) of
                  (Some err, s, k) \<Rightarrow> (Some err, w\<lparr> rw_state := s, rw_kernel := k \<rparr>)
                | (None, s, k) \<Rightarrow> (None, notifyKernelReconciledLocked (w\<lparr> rw_state := s, rw_kernel := k \<rparr>)))
             else
               (case core_ClearBlocklist core (rw_kernel w) of
                  (Some e, k) \<Rightarrow> (Some (RelClear e), w\<lparr> rw_kernel := k \<rparr>)
                | (None, k) \<Rightarrow>
                    (case core_VerifyBlocklistEmpty core k of
                       (Some e, k) \<Rightarrow> (Some (RelVerify e), w\<lparr> rw_kernel := k \<rparr>)
                     | (None, k) \<Rightarrow>
                         (None, notifyKernelReconciledLocked
                            (w\<lparr> rw_state := clear_flags blocks (rw_state w), rw_kernel := k \<rparr>)))))"

section \<open>Falling back\<close>

definition fail_safe_incident :: "string \<Rightarrow> gotime \<Rightarrow> string \<Rightarrow> XDRIncident" where
  "fail_safe_incident i now reason =
     \<lparr> in_ID = i, in_Time = now, in_Severity = ''critical'', in_Process = [], in_Remote = [],
       in_RuleIDs = [''RELEASE.FAIL_SAFE''],
       in_Summary = ''Automatic response paused; kernel enforcement retained: '' @ reason,
       in_Decision = ''fail_safe'', in_Action = ''automatic_response_paused'',
       in_Outcome = ''kernel blocklist retained and verified; automatic decisions stay paused until the cause clears and the calm holds, or an operator promotes'',
       in_Acknowledged = False \<rparr>"

definition markDegradedLocked :: "'l release_call \<Rightarrow> string \<Rightarrow> string \<Rightarrow> bool \<Rightarrow> ('k, 'p, 'l) release_world \<Rightarrow> ('k, 'p, 'l) release_world" where
  "markDegradedLocked ca reason kernelState verified w =
     (let now = env_now (ca_env ca);
          w = upd_status (\<lambda>s. s\<lparr> rs_Ready := False, rs_FailSafeVerified := verified, rs_KernelPolicyState := kernelState,
                 rs_Detail := reason, rs_Blockers := [reason], rs_FailSafeReason := reason, rs_FailSafeAt := Some now \<rparr>)
                (enter_phase ca ReleasePhaseDegraded w)
      in on_state (\<lambda>s. case randomID (ca_env ca) s of (i, s) \<Rightarrow>
           AddIncident (ca_env ca) (ca_ingest ca) (fail_safe_incident i now reason) s) (publish w))"

definition degradeLocked :: "'l release_call \<Rightarrow> string \<Rightarrow> ('k, 'p, 'l) release_world \<Rightarrow> release_error option \<times> ('k, 'p, 'l) release_world" where
  "degradeLocked ca reason w =
     (case reconcileVerifiedLocked (on_state (SetModes ''unverified'' ''observe'') w) of
        (Some err, w) \<Rightarrow>
          (Some (RelWrap ''fail-closed retention could not verify the kernel policy'' err),
           emit ca ''critical'' ''release.degrade_unverified'' ''release-gate''
             (''Enforcement retained but unverified; out-of-band verification required: '' @ reason)
             (markDegradedLocked ca (reason @ ''; retained kernel policy could not be verified'') ''unverified'' False w))
      | (None, w) \<Rightarrow>
          (case persist_modes ''enforce'' ''observe'' w of
             (Some err, w) \<Rightarrow>
               (Some (RelWrap ''fail-closed retention could not persist the signed policy'' (RelPersist err)),
                emit ca ''critical'' ''release.degrade_policy_failed'' ''release-gate''
                  (''Kernel enforcement is retained but the signed policy could not be persisted: '' @ reason)
                  (markDegradedLocked ca (reason @ ''; retained policy persistence failed'') ''unverified'' False (publish_policy w)))
           | (None, w) \<Rightarrow>
               (None,
                emit ca ''critical'' ''release.degraded_enforcement_retained'' ''release-gate''
                  (''Automatic response paused; kernel enforcement retained (fail-closed): '' @ reason)
                  (markDegradedLocked ca reason ''verified-enforce'' True
                    (on_state (SetModes ''enforce'' ''observe'') (publish_policy w))))))"

definition FailSafe :: "'l release_call \<Rightarrow> string \<Rightarrow> ('k, 'p, 'l) release_world \<Rightarrow> release_error option \<times> ('k, 'p, 'l) release_world" where
  "FailSafe ca reason w =
     (let reason = (if trim_space reason = [] then ''kernel transaction integrity failure'' else reason)
      in case degradeLocked ca reason w of (err, w) \<Rightarrow> (err, refresh_publish ca w))"

section \<open>Operator transitions\<close>

text \<open>
  The methods that return a status return the one of the resulting world; the definitions return the error and the world.
\<close>

definition confirmation_phrase :: "string \<Rightarrow> string" where
  "confirmation_phrase target = (if target = ReleasePhaseObserve then ''RETURN:OBSERVE'' else ''PROMOTE:'' @ map to_upper_char target)"

text \<open>The part of \<open>Transition\<close> after the gates.\<close>

definition transition_apply :: "'l release_call \<Rightarrow> string \<Rightarrow> string \<Rightarrow> ('k, 'p, 'l) release_world
    \<Rightarrow> release_error option \<times> ('k, 'p, 'l) release_world" where
  "transition_apply ca target reason w =
     (let old = rw_status w; (oldEnforcement, oldXDR) = Modes (rw_state w)
      in case releaseModes target of
           Inl e \<Rightarrow> (Some e, w)
         | Inr (requested, newXDR) \<Rightarrow>
             let newEnforcement = retainedEnforcementLocked (rw_status w) target requested
             in case reconcileLocked newEnforcement w of
                  (Some e, w) \<Rightarrow> (Some e, w)
                | (None, w) \<Rightarrow>
                    (case persist_modes newEnforcement newXDR w of
                       (Some err, w) \<Rightarrow>
                         (case reconcileLocked oldEnforcement w of
                            (Some rollbackErr, w) \<Rightarrow>
                              (Some (RelBoth (RelWrap ''signed policy transition failed'' (RelPersist err)) (RelWrap ''kernel rollback failed'' rollbackErr)),
                               markDegradedLocked ca ''policy transition and kernel rollback failed'' ''unverified'' False
                                 (on_state (SetModes ''unverified'' ''observe'') w))
                          | (None, w) \<Rightarrow> (Some (RelWrap ''signed policy transition failed'' (RelPersist err)), w))
                     | (None, w) \<Rightarrow>
                         let w = enter_phase ca target (publish_policy (on_state (SetModes newEnforcement newXDR) w));
                             kernelState = (if newEnforcement = ''observe'' then ''verified-empty'' else ''verified-enforce'');
                             w = upd_status (\<lambda>s. s\<lparr> rs_Detail := trim_space reason, rs_Blockers := [], rs_Ready := True,
                                   rs_KernelPolicyState := kernelState, rs_FailSafeVerified := kernelPolicyVerified kernelState \<rparr>) w
                         in (None, emit ca ''high'' ''release.transition'' ''release-gate''
                              (''Beta phase changed from '' @ rs_Phase old @ '' to '' @ target @ '': '' @ trim_space reason) (publish w))))"

definition Transition :: "'l release_call \<Rightarrow> string \<Rightarrow> string \<Rightarrow> string \<Rightarrow> ('k, 'p, 'l) release_world
    \<Rightarrow> release_error option \<times> ('k, 'p, 'l) release_world" where
  "Transition ca target confirmation reason w =
     (let target = map to_lower_char (trim_space target)
      in if target \<noteq> ReleasePhaseObserve \<and> target \<noteq> ReleasePhaseCanary \<and> target \<noteq> ReleasePhaseEnforce then (Some RelTarget, w)
         else if confirmation \<noteq> confirmation_phrase target then (Some RelConfirmation, w)
         else if bad_reason reason then (Some RelReason, w)
         else if target = rs_Phase (rw_status w) then (None, w)
         else
           let blockers = (if target = ReleasePhaseObserve then [] else currentBlockersLocked ca w target True)
           in if blockers \<noteq> [] then
                (Some (RelGate blockers),
                 publish (upd_status (\<lambda>s. s\<lparr> rs_Blockers := blockers, rs_Ready := False, rs_Detail := hd blockers \<rparr>) w))
              else transition_apply ca target reason w)"

definition EmergencyStop :: "'l release_call \<Rightarrow> string \<Rightarrow> ('k, 'p, 'l) release_world \<Rightarrow> release_error option \<times> ('k, 'p, 'l) release_world" where
  "EmergencyStop ca reason w =
     (if bad_reason reason then (Some RelReason, w)
      else case ca_write ca of
        Some e \<Rightarrow> (Some (RelFile e), w)
      | None \<Rightarrow>
          (case degradeLocked ca (''emergency stop: '' @ trim_space reason) (w\<lparr> rw_marker := StatExists \<rparr>) of
             (err, w) \<Rightarrow>
               (map_option (RelWrap ''emergency stop persisted but fail-safe verification failed'') err,
                publish (upd_status (\<lambda>s. s\<lparr> rs_EmergencyStop := True \<rparr>) w))))"

definition ClearEmergencyStop :: "'l release_call \<Rightarrow> string \<Rightarrow> string \<Rightarrow> ('k, 'p, 'l) release_world
    \<Rightarrow> release_error option \<times> ('k, 'p, 'l) release_world" where
  "ClearEmergencyStop ca confirmation reason w =
     (if confirmation \<noteq> ''CLEAR:EMERGENCY-STOP'' then (Some RelConfirmation, w)
      else if bad_reason reason then (Some RelReason, w)
      else case ca_remove ca of
        Some e \<Rightarrow> (Some (RelFile e), w)
      | None \<Rightarrow>
          (case reconcileLocked ''observe'' (w\<lparr> rw_marker := StatNotExist \<rparr>) of
             (Some e, w) \<Rightarrow> (Some e, w)
           | (None, w) \<Rightarrow>
               (case persist_modes ''observe'' ''observe'' w of
                  (Some err, w) \<Rightarrow> (Some (RelWrap ''signed policy update failed'' (RelPersist err)), w)
                | (None, w) \<Rightarrow>
                    let w = enter_phase ca ReleasePhaseObserve (publish_policy (on_state (SetModes ''observe'' ''observe'') w));
                        w = upd_status (\<lambda>s. s\<lparr> rs_EmergencyStop := False, rs_FailSafeVerified := True,
                              rs_KernelPolicyState := ''verified-empty'', rs_Detail := trim_space reason, rs_Blockers := [] \<rparr>) w
                    in (None, emit ca ''high'' ''release.emergency_stop_cleared'' ''operator''
                         (''Emergency stop cleared; system remains in Observe: '' @ trim_space reason) (refresh_publish ca w)))))"

section \<open>Startup\<close>

definition initializeObserveLocked :: "'l release_call \<Rightarrow> ('k, 'p, 'l) release_world \<Rightarrow> release_error option \<times> ('k, 'p, 'l) release_world" where
  "initializeObserveLocked ca w =
     (case reconcileLocked ''observe'' w of
        (Some e, w) \<Rightarrow>
          (Some (RelWrap ''startup kernel observe reconciliation failed'' e),
           markDegradedLocked ca ''startup kernel observe verification failed'' ''unverified'' False w)
      | (None, w) \<Rightarrow>
          (case persist_modes ''observe'' ''observe'' (on_state (SetModes ''observe'' ''observe'') w) of
             (Some err, w) \<Rightarrow>
               (Some (RelWrap ''startup signed observe policy persistence failed'' (RelPersist err)),
                markDegradedLocked ca ''startup observe policy persistence failed'' ''verified-empty'' False (publish_policy w))
           | (None, w) \<Rightarrow>
               let w = upd_status (\<lambda>s. s\<lparr> rs_Phase := ReleasePhaseObserve, rs_FailSafeVerified := True,
                         rs_KernelPolicyState := ''verified-empty'', rs_Detail := ''startup kernel blocklist verified empty'' \<rparr>) (publish_policy w)
               in (None, emit ca ''info'' ''release.startup_verified'' ''release-gate''
                    ''Startup Observe policy persisted and kernel blocklist verified empty'' (refresh_publish ca w))))"

definition startup_retain :: "'l release_call \<Rightarrow> ('k, 'p, 'l) release_world \<Rightarrow> release_error option \<times> ('k, 'p, 'l) release_world" where
  "startup_retain ca w =
     (case reconcileVerifiedLocked (on_state (SetModes ''unverified'' ''observe'') w) of
        (Some e, w) \<Rightarrow>
          (Some (RelWrap ''startup enforcement retention failed'' e),
           emit ca ''critical'' ''release.startup_retention_unverified'' ''release-gate''
             ''Signed policy states enforcement but the kernel state could not be verified; out-of-band verification required''
             (markDegradedLocked ca ''startup retained enforcement could not be verified'' ''unverified'' False w))
      | (None, w) \<Rightarrow>
          (case persist_modes ''enforce'' ''observe'' w of
             (Some err, w) \<Rightarrow>
               (Some (RelWrap ''startup retained policy persistence failed'' (RelPersist err)),
                markDegradedLocked ca ''startup retained policy persistence failed'' ''unverified'' False (publish_policy w))
           | (None, w) \<Rightarrow>
               let w = enter_phase ca ReleasePhaseDegraded (on_state (SetModes ''enforce'' ''observe'') (publish_policy w));
                   w = upd_status (\<lambda>s. s\<lparr> rs_Ready := False, rs_FailSafeVerified := True, rs_KernelPolicyState := ''verified-enforce'',
                         rs_Detail := ''startup retained the verified kernel enforcement from the signed policy; automatic response stays paused until the promotion gates pass'' \<rparr>) w
               in (None, emit ca ''high'' ''release.startup_enforcement_retained'' ''release-gate''
                    ''Startup retained verified kernel enforcement from the signed policy; automatic response paused until promotion''
                    (refresh_publish ca w))))"

definition InitializeStartup :: "'l release_call \<Rightarrow> string \<Rightarrow> bool \<Rightarrow> ('k, 'p, 'l) release_world
    \<Rightarrow> release_error option \<times> ('k, 'p, 'l) release_world" where
  "InitializeStartup ca policyEnforcement policyVerified w =
     (if rw_marker w = StatExists then
        degradeLocked ca ''emergency stop active at startup'' (upd_status (\<lambda>s. s\<lparr> rs_EmergencyStop := True \<rparr>) w)
      else if \<not> policyVerified then
        degradeLocked ca ''startup: signed policy intent could not be verified''
          (emit ca ''critical'' ''release.startup_policy_unverified'' ''release-gate''
             ''Startup signed policy could not be verified; kernel enforcement is retained and degraded until an operator verifies or confirms a release'' w)
      else if policyEnforcement \<noteq> ''enforce'' then initializeObserveLocked ca w
      else startup_retain ca w)"

text \<open>The constructor publishes the refreshed status.\<close>

definition NewReleaseController :: "'l release_call \<Rightarrow> Config \<Rightarrow> ReleaseConfig \<Rightarrow> AdvisoryConfig \<Rightarrow> 'k ReleaseCore option
    \<Rightarrow> 'p policyPersistence \<Rightarrow> RuntimeSettings option \<Rightarrow> 'l State \<Rightarrow> 'k \<Rightarrow> 'p \<Rightarrow> stat_result \<Rightarrow> ('k, 'p, 'l) release_world" where
  "NewReleaseController ca cfg rel adv core policy settings s k p marker =
     refresh_publish ca \<lparr>
       rw_ctl = \<lparr> rc_cfg = cfg, rc_release = rel, rc_advisories = adv, rc_core = core, rc_policy = policy, rc_settings = settings,
         rc_status = \<lparr> rs_Channel = cf_ReleaseChannel cfg, rs_Phase = ReleasePhaseObserve, rs_Since = env_now (ca_env ca),
           rs_Ready = False, rs_Blockers = [], rs_CoreMisses = 0, rs_EmergencyStop = False, rs_FailSafeVerified = False,
           rs_KernelPolicyState = ''unverified'', rs_LastTransition = None, rs_Detail = ''beta startup safety gate'',
           rs_FailSafeReason = [], rs_FailSafeAt = None, rs_NominalSince = None \<rparr>,
         rc_monoSince = env_stamp (ca_env ca), rc_monoNominal = None, rc_exposure = None, rc_kernelReconciledHook = None \<rparr>,
       rw_state = s, rw_kernel = k, rw_store = p, rw_marker = marker \<rparr>"

section \<open>Evaluation\<close>

definition ObserveCore :: "'l release_call \<Rightarrow> bool \<Rightarrow> ('k, 'p, 'l) release_world \<Rightarrow> ('k, 'p, 'l) release_world" where
  "ObserveCore ca success w =
     (let cfg = effectiveReleaseConfigLocked (rw_ctl w);
          w = (if success then
                 let w = upd_status (\<lambda>s. s\<lparr> rs_CoreMisses := 0 \<rparr>) w
                 in if rs_Phase (rw_status w) = ReleasePhaseDegraded \<and> \<not> rs_FailSafeVerified (rw_status w)
                    then snd (degradeLocked ca (trim_suffix ''; retained kernel policy could not be verified'' (rs_Detail (rw_status w))) w)
                    else w
               else if rs_CoreMisses (rw_status w) < rl_CoreFailureThreshold cfg + 1
                    then upd_status (\<lambda>s. s\<lparr> rs_CoreMisses := rs_CoreMisses s + 1 \<rparr>) w else w);
          w = (if rl_AutoDegrade cfg \<and> rs_Phase (rw_status w) \<noteq> ReleasePhaseObserve \<and> rs_CoreMisses (rw_status w) \<ge> rl_CoreFailureThreshold cfg
               then snd (degradeLocked ca ''authenticated core heartbeat threshold exceeded'' w) else w)
      in refresh_publish ca w)"

definition trackNominalLocked :: "'l release_call \<Rightarrow> ('k, 'p, 'l) release_world \<Rightarrow> ('k, 'p, 'l) release_world" where
  "trackNominalLocked ca w =
     (if rs_Phase (rw_status w) \<noteq> ReleasePhaseDegraded \<or> currentBlockersLocked ca w ReleasePhaseEnforce False \<noteq> []
      then upd_status (\<lambda>s. s\<lparr> rs_NominalSince := None \<rparr>) w
      else if rs_NominalSince (rw_status w) = None then markNominalLocked ca w else w)"

text \<open>The common end of a recovery and of a re-arm.\<close>

definition enter_enforce :: "'l release_call \<Rightarrow> string \<Rightarrow> ('k, 'p, 'l) release_world \<Rightarrow> ('k, 'p, 'l) release_world" where
  "enter_enforce ca detail w =
     (let w = upd_status (\<lambda>s. s\<lparr> rs_Ready := True, rs_Blockers := [], rs_KernelPolicyState := ''verified-enforce'',
                rs_FailSafeVerified := True, rs_FailSafeReason := [], rs_FailSafeAt := None, rs_NominalSince := None,
                rs_Detail := detail \<rparr>) (enter_phase ca ReleasePhaseEnforce w)
      in publish_policy (snd (persist_modes ''enforce'' ''enforce'' (on_state (SetModes ''enforce'' ''enforce'') w))))"

definition recoverIfGatesPassLocked :: "'l release_call \<Rightarrow> ('k, 'p, 'l) release_world \<Rightarrow> ('k, 'p, 'l) release_world" where
  "recoverIfGatesPassLocked ca w =
     (let st = rw_status w; cfg = effectiveReleaseConfigLocked (rw_ctl w)
      in if rs_Phase st \<noteq> ReleasePhaseDegraded \<or> rs_EmergencyStop st then w
         else if rs_KernelPolicyState st \<noteq> ''verified-enforce'' \<or> \<not> rs_FailSafeVerified st then w
         else if rs_NominalSince st = None then w
         else if nominalElapsed (ca_env ca) (rw_ctl w) < wrap64 (rl_MinimumObserveSeconds cfg * second) then w
         else if currentBlockersLocked ca w ReleasePhaseEnforce False \<noteq> [] then w
         else case reconcileVerifiedLocked w of
           (Some err, w) \<Rightarrow> w
         | (None, w) \<Rightarrow>
             let previousReason = rs_FailSafeReason (rw_status w)
             in emit ca ''high'' ''release.recovered'' ''release-gate''
                  (''Automatic response resumed; kernel enforcement stayed in place throughout. Cause was: '' @ previousReason)
                  (enter_enforce ca ''recovered to enforce after the cause cleared and the calm held'' w))"

definition Evaluate :: "'l release_call \<Rightarrow> ('k, 'p, 'l) release_world \<Rightarrow> ('k, 'p, 'l) release_world" where
  "Evaluate ca w =
     (if \<not> rt_AutoDegrade (runtimeSettingsLocked (rw_ctl w)) \<or> rs_Phase (rw_status w) = ReleasePhaseObserve
         \<or> rs_Phase (rw_status w) = ReleasePhaseDegraded
      then refresh_publish ca (recoverIfGatesPassLocked ca (trackNominalLocked ca w))
      else
        let blockers = currentBlockersLocked ca w (rs_Phase (rw_status w)) False;
            w = (if blockers \<noteq> [] then snd (degradeLocked ca (str_join ''; '' blockers) w) else w)
        in refresh_publish ca (trackNominalLocked ca w))"

definition ReArmVerified :: "'l release_call \<Rightarrow> string \<Rightarrow> ('k, 'p, 'l) release_world \<Rightarrow> release_error option \<times> ('k, 'p, 'l) release_world" where
  "ReArmVerified ca reason w =
     (let st = rw_status w; blockers = currentBlockersLocked ca w ReleasePhaseEnforce False
      in if rs_EmergencyStop st then (Some RelEmergency, w)
         else if rs_Phase st = ReleasePhaseEnforce then (None, w)
         else if rs_KernelPolicyState st \<noteq> ''verified-enforce'' \<or> \<not> rs_FailSafeVerified st then (Some RelUnverified, w)
         else if blockers \<noteq> [] then (Some (RelGate blockers), w)
         else case reconcileVerifiedLocked w of
           (Some err, w) \<Rightarrow> (Some (RelWrap ''kernel could not be confirmed'' err), w)
         | (None, w) \<Rightarrow>
             (None, emit ca ''high'' ''release.startup_rearmed'' ''release-gate''
                (''Startup self-check verified every module and re-armed protection. Reason: '' @ reason)
                (enter_enforce ca ''startup self-check verified every module; enforcement re-armed without the ladder'' w)))"

definition ReconcileVerifiedPolicy :: "('k, 'p, 'l) release_world \<Rightarrow> release_error option \<times> ('k, 'p, 'l) release_world" where
  "ReconcileVerifiedPolicy w = reconcileVerifiedLocked w"

section \<open>Attachments\<close>

definition AttachKernelExposure :: "KernelExposure option \<Rightarrow> ('k, 'p, 'l) release_world \<Rightarrow> ('k, 'p, 'l) release_world" where
  "AttachKernelExposure exposure w = w\<lparr> rw_ctl := (rw_ctl w)\<lparr> rc_exposure := exposure \<rparr> \<rparr>"

definition SetKernelReconciledHook :: "('l State \<times> 'k \<Rightarrow> 'l State \<times> 'k) option \<Rightarrow> ('k, 'p, 'l) release_world \<Rightarrow> ('k, 'p, 'l) release_world" where
  "SetKernelReconciledHook hook w = w\<lparr> rw_ctl := (rw_ctl w)\<lparr> rc_kernelReconciledHook := hook \<rparr> \<rparr>"

section \<open>Reading the status\<close>

definition release_Status :: "'l release_call \<Rightarrow> ('k, 'p, 'l) release_world \<Rightarrow> ReleaseStatus \<times> ('k, 'p, 'l) release_world" where
  "release_Status ca w = (let w = refresh_publish ca w in (rw_status w, w))"

definition release_Ready :: "'l release_call \<Rightarrow> ('k, 'p, 'l) release_world \<Rightarrow> (bool \<times> string list) \<times> ('k, 'p, 'l) release_world" where
  "release_Ready ca w = (let w = refresh_publish ca w in ((rs_Ready (rw_status w), rs_Blockers (rw_status w)), w))"

record ReleaseReadiness =
  rd_Target :: string
  rd_Ready :: bool
  rd_Blockers :: "string list"
  rd_CurrentPhase :: string
  rd_ReadyAt :: "gotime option"
  rd_SoakRemainingSeconds :: int
  rd_MinimumSoakSeconds :: int
  rd_ElapsedSoakSeconds :: int

definition readiness_target :: "string \<Rightarrow> string \<Rightarrow> string" where
  "readiness_target phase target =
     (let target = map to_lower_char (trim_space target)
      in if target \<noteq> [] then target
         else if phase = ReleasePhaseObserve \<or> phase = ReleasePhaseDegraded then ReleasePhaseCanary
         else if phase = ReleasePhaseCanary then ReleasePhaseEnforce else ReleasePhaseObserve)"

text \<open>The seconds of a duration are its integer quotient, without the rounding of a float.\<close>

definition Readiness :: "'l release_call \<Rightarrow> string \<Rightarrow> ('k, 'p, 'l) release_world
    \<Rightarrow> (release_error + ReleaseReadiness) \<times> ('k, 'p, 'l) release_world" where
  "Readiness ca target w =
     (let cfg = effectiveReleaseConfigLocked (rw_ctl w); target = readiness_target (rs_Phase (rw_status w)) target
      in if target \<noteq> ReleasePhaseObserve \<and> target \<noteq> ReleasePhaseCanary \<and> target \<noteq> ReleasePhaseEnforce then (Inl RelTarget, w)
         else
           let w = refreshLocked ca w; blockers = currentBlockersLocked ca w target True;
               elapsed = sinceElapsed (ca_env ca) (rw_ctl w); minSoak = soak_minimum cfg target;
               waiting = (minSoak > 0 \<and> elapsed < minSoak)
           in (Inr \<lparr> rd_Target = target, rd_Ready = (blockers = []), rd_Blockers = blockers,
                     rd_CurrentPhase = rs_Phase (rw_status w),
                     rd_ReadyAt = (if waiting then Some (time_add (rs_Since (rw_status w)) minSoak) else None),
                     rd_SoakRemainingSeconds = (if waiting then go_div (wrap64 (minSoak - elapsed)) second else 0),
                     rd_MinimumSoakSeconds = go_div minSoak second, rd_ElapsedSoakSeconds = go_div elapsed second \<rparr>, w))"

end
