(* ===== verification/Release_Safety.thy ===== *)
theory Release_Safety
  imports Release_Controller
begin

text \<open>
  What the release controller guarantees. The machine is a step relation: \<open>automatic_step\<close> holds the methods the platform
  calls on its own and the emergency stop, \<open>release_step\<close> adds the operator's transitions and everything
  other components may do between two calls.
\<close>

section \<open>Runs of a step relation\<close>

inductive run_of :: "('s \<Rightarrow> 's \<Rightarrow> bool) \<Rightarrow> 's \<Rightarrow> 's \<Rightarrow> bool" for step where
  run_start: "run_of step w w"
| run_more: "run_of step w w' \<Longrightarrow> step w' w'' \<Longrightarrow> run_of step w w''"

text \<open>A preorder that every step respects is respected by every run.\<close>

locale step_order =
  fixes step :: "'s \<Rightarrow> 's \<Rightarrow> bool" and le :: "'s \<Rightarrow> 's \<Rightarrow> bool"
  assumes le_refl: "le w w"
    and le_trans: "le w w' \<Longrightarrow> le w' w'' \<Longrightarrow> le w w''"
    and step_le: "step w w' \<Longrightarrow> le w w'"
begin

lemma run_le: "run_of step w w' \<Longrightarrow> le w w'"
  by (induction rule: run_of.induct) (blast intro: le_refl le_trans step_le)+

end

text \<open>A property that holds of the start and that every step keeps holds after every run.\<close>

locale step_invariant =
  fixes step :: "'s \<Rightarrow> 's \<Rightarrow> bool" and inv :: "'s \<Rightarrow> bool"
  assumes step_keeps: "inv w \<Longrightarrow> step w w' \<Longrightarrow> inv w'"
begin

lemma run_keeps: "run_of step w w' \<Longrightarrow> inv w \<Longrightarrow> inv w'"
  by (induction rule: run_of.induct) (blast intro: step_keeps)+

end

section \<open>What the helpers change\<close>

text \<open>The parts of the world that decide about enforcement in the kernel.\<close>

lemma AddIncident_view: "enforcement_view (AddIncident en ingest i s) = enforcement_view s"
proof -
  have failures: "enforcement_view (noteCaseHistoryFailure e t) = enforcement_view t"
    "enforcement_view (noteCaseHistorySuccess t) = enforcement_view t" for e and t :: "'a State"
    by (simp_all add: noteCaseHistoryFailure_def noteCaseHistorySuccess_def view_causes Let_def)
       (simp_all add: enforcement_view_def)
  have push: "enforcement_view (push_incident i t) = enforcement_view t" for i and t :: "'a State"
    by (simp add: push_incident_def enforcement_view_def Let_def)
  have dedupe: "enforcement_view (t\<lparr> st_incidentDedupe := m \<rparr>) = enforcement_view t"
    "enforcement_view (t\<lparr> st_minted := n \<rparr>) = enforcement_view t" for m n and t :: "'a State"
    by (simp_all add: enforcement_view_def)
  show ?thesis
    by (auto simp: AddIncident_def Let_def randomID_def failures push dedupe split: option.split)
qed

lemmas AddIncident_frame [simp] = enforcement_viewD [OF AddIncident_view]

lemma world_frame [simp]:
  "rw_state (upd_status f w) = rw_state w" "rw_kernel (upd_status f w) = rw_kernel w"
  "rw_marker (upd_status f w) = rw_marker w" "rw_store (upd_status f w) = rw_store w"
  "rw_status (upd_status f w) = f (rw_status w)"
  "rw_state (on_state g w) = g (rw_state w)" "rw_kernel (on_state g w) = rw_kernel w"
  "rw_marker (on_state g w) = rw_marker w" "rw_ctl (on_state g w) = rw_ctl w" "rw_store (on_state g w) = rw_store w"
  "rw_status (on_state g w) = rw_status w"
  "rc_core (rw_ctl (upd_status f w)) = rc_core (rw_ctl w)"
  "rc_kernelReconciledHook (rw_ctl (upd_status f w)) = rc_kernelReconciledHook (rw_ctl w)"
  by (simp_all add: upd_status_def on_state_def rw_status_def)

lemma status_update [simp]:
  "rw_status (w\<lparr> rw_state := s \<rparr>) = rw_status w" "rw_status (w\<lparr> rw_kernel := k \<rparr>) = rw_status w"
  "rw_status (w\<lparr> rw_store := p \<rparr>) = rw_status w" "rw_status (w\<lparr> rw_marker := m \<rparr>) = rw_status w"
  by (simp_all add: rw_status_def)

lemma setters_frame [simp]:
  "st_blocks (SetModes e x s) = st_blocks s" "st_blocks (SetReleaseStatus r s) = st_blocks s"
  "st_blocks (SetPolicyStatus p s) = st_blocks s"
  "st_enforcement (SetModes e x s) = e" "st_releaseXDRMode (SetModes e x s) = x"
  "st_enforcement (SetReleaseStatus r s) = st_enforcement s" "st_releaseXDRMode (SetReleaseStatus r s) = st_releaseXDRMode s"
  "st_enforcement (SetPolicyStatus p s) = st_enforcement s" "st_releaseXDRMode (SetPolicyStatus p s) = st_releaseXDRMode s"
  "st_release (SetReleaseStatus r s) = r" "st_release (SetModes e x s) = st_release s" "st_release (SetPolicyStatus p s) = st_release s"
  by (simp_all add: SetModes_def SetReleaseStatus_def SetPolicyStatus_def)

lemma helpers_frame [simp]:
  "rw_kernel (publish w) = rw_kernel w" "rw_ctl (publish w) = rw_ctl w" "rw_marker (publish w) = rw_marker w" "rw_status (publish w) = rw_status w"
  "st_blocks (rw_state (publish w)) = st_blocks (rw_state w)" "st_enforcement (rw_state (publish w)) = st_enforcement (rw_state w)"
  "st_releaseXDRMode (rw_state (publish w)) = st_releaseXDRMode (rw_state w)" "st_release (rw_state (publish w)) = rw_status w"
  "rw_kernel (emit ca a b c d w) = rw_kernel w" "rw_ctl (emit ca a b c d w) = rw_ctl w" "rw_marker (emit ca a b c d w) = rw_marker w"
  "rw_status (emit ca a b c d w) = rw_status w"
  "st_blocks (rw_state (emit ca a b c d w)) = st_blocks (rw_state w)" "st_enforcement (rw_state (emit ca a b c d w)) = st_enforcement (rw_state w)"
  "st_releaseXDRMode (rw_state (emit ca a b c d w)) = st_releaseXDRMode (rw_state w)" "st_release (rw_state (emit ca a b c d w)) = st_release (rw_state w)"
  "rw_kernel (publish_policy w) = rw_kernel w" "rw_ctl (publish_policy w) = rw_ctl w" "rw_marker (publish_policy w) = rw_marker w"
  "rw_status (publish_policy w) = rw_status w"
  "st_blocks (rw_state (publish_policy w)) = st_blocks (rw_state w)" "st_enforcement (rw_state (publish_policy w)) = st_enforcement (rw_state w)"
  "st_releaseXDRMode (rw_state (publish_policy w)) = st_releaseXDRMode (rw_state w)" "st_release (rw_state (publish_policy w)) = st_release (rw_state w)"
  "rw_kernel (snd (persist_modes e x w)) = rw_kernel w" "rw_ctl (snd (persist_modes e x w)) = rw_ctl w"
  "rw_marker (snd (persist_modes e x w)) = rw_marker w" "rw_status (snd (persist_modes e x w)) = rw_status w"
  "rw_state (snd (persist_modes e x w)) = rw_state w"
  by (simp_all add: publish_def emit_def publish_policy_def persist_modes_def rw_status_def split: prod.split)

lemma enter_phase_frame [simp]:
  "rw_kernel (enter_phase ca ph w) = rw_kernel w" "rw_state (enter_phase ca ph w) = rw_state w" "rw_marker (enter_phase ca ph w) = rw_marker w"
  "rc_core (rw_ctl (enter_phase ca ph w)) = rc_core (rw_ctl w)"
  "rc_kernelReconciledHook (rw_ctl (enter_phase ca ph w)) = rc_kernelReconciledHook (rw_ctl w)"
  "rw_status (enter_phase ca ph w) = (rw_status w)\<lparr> rs_Phase := ph, rs_Since := env_now (ca_env ca), rs_LastTransition := Some (env_now (ca_env ca)) \<rparr>"
  by (simp_all add: enter_phase_def upd_status_def rw_status_def)

lemma refresh_frame [simp]:
  "rw_kernel (refresh_publish ca w) = rw_kernel w" "rw_marker (refresh_publish ca w) = rw_marker w"
  "rc_core (rw_ctl (refresh_publish ca w)) = rc_core (rw_ctl w)"
  "rc_kernelReconciledHook (rw_ctl (refresh_publish ca w)) = rc_kernelReconciledHook (rw_ctl w)"
  "st_blocks (rw_state (refresh_publish ca w)) = st_blocks (rw_state w)"
  "st_enforcement (rw_state (refresh_publish ca w)) = st_enforcement (rw_state w)"
  "st_releaseXDRMode (rw_state (refresh_publish ca w)) = st_releaseXDRMode (rw_state w)"
  "rs_Phase (rw_status (refresh_publish ca w)) = rs_Phase (rw_status w)"
  "rs_KernelPolicyState (rw_status (refresh_publish ca w)) = rs_KernelPolicyState (rw_status w)"
  "rs_FailSafeVerified (rw_status (refresh_publish ca w)) = rs_FailSafeVerified (rw_status w)"
  "rs_NominalSince (rw_status (refresh_publish ca w)) = rs_NominalSince (rw_status w)"
  "rs_EmergencyStop (rw_status (refresh_publish ca w)) \<longleftrightarrow> rw_marker w \<noteq> StatNotExist"
  "st_release (rw_state (refresh_publish ca w)) = rw_status (refresh_publish ca w)"
  by (simp_all add: refresh_publish_def refreshLocked_def Let_def)

lemma nominal_frame [simp]:
  "rw_kernel (trackNominalLocked ca w) = rw_kernel w" "rw_state (trackNominalLocked ca w) = rw_state w"
  "rw_marker (trackNominalLocked ca w) = rw_marker w" "rc_core (rw_ctl (trackNominalLocked ca w)) = rc_core (rw_ctl w)"
  "rc_kernelReconciledHook (rw_ctl (trackNominalLocked ca w)) = rc_kernelReconciledHook (rw_ctl w)"
  "rs_Phase (rw_status (trackNominalLocked ca w)) = rs_Phase (rw_status w)"
  "rs_KernelPolicyState (rw_status (trackNominalLocked ca w)) = rs_KernelPolicyState (rw_status w)"
  "rs_FailSafeVerified (rw_status (trackNominalLocked ca w)) = rs_FailSafeVerified (rw_status w)"
  "rs_EmergencyStop (rw_status (trackNominalLocked ca w)) = rs_EmergencyStop (rw_status w)"
  by (simp_all add: trackNominalLocked_def markNominalLocked_def rw_status_def upd_status_def)

lemma markDegraded_frame [simp]:
  "rw_kernel (markDegradedLocked ca reason ks v w) = rw_kernel w" "rw_marker (markDegradedLocked ca reason ks v w) = rw_marker w"
  "rc_core (rw_ctl (markDegradedLocked ca reason ks v w)) = rc_core (rw_ctl w)"
  "rc_kernelReconciledHook (rw_ctl (markDegradedLocked ca reason ks v w)) = rc_kernelReconciledHook (rw_ctl w)"
  "st_blocks (rw_state (markDegradedLocked ca reason ks v w)) = st_blocks (rw_state w)"
  "st_enforcement (rw_state (markDegradedLocked ca reason ks v w)) = st_enforcement (rw_state w)"
  "st_releaseXDRMode (rw_state (markDegradedLocked ca reason ks v w)) = st_releaseXDRMode (rw_state w)"
  "rs_Phase (rw_status (markDegradedLocked ca reason ks v w)) = ReleasePhaseDegraded"
  "rs_KernelPolicyState (rw_status (markDegradedLocked ca reason ks v w)) = ks"
  "rs_FailSafeVerified (rw_status (markDegradedLocked ca reason ks v w)) = v"
  "rs_Ready (rw_status (markDegradedLocked ca reason ks v w)) = False"
  "st_release (rw_state (markDegradedLocked ca reason ks v w)) = rw_status (markDegradedLocked ca reason ks v w)"
  by (simp_all add: markDegradedLocked_def Let_def randomID_def)

section \<open>Fail-closed retention\<close>

text \<open>The kernel keeps every entry, and every block stays as it is except that it may become enforced.\<close>

definition strengthened :: "BlockEntry \<Rightarrow> BlockEntry \<Rightarrow> bool" where
  "strengthened b b' \<longleftrightarrow> (\<exists>e. (be_Enforced b \<longrightarrow> e) \<and> b' = b\<lparr> be_Enforced := e \<rparr>)"

definition blocks_strengthened :: "'l State \<Rightarrow> 'l State \<Rightarrow> bool" where
  "blocks_strengthened s s' \<longleftrightarrow> (\<forall>t. rel_option strengthened (gm_get (st_blocks s) t) (gm_get (st_blocks s') t))"

definition retained :: "('k \<Rightarrow> string set) \<Rightarrow> ('k, 'p, 'l) release_world \<Rightarrow> ('k, 'p, 'l) release_world \<Rightarrow> bool" where
  "retained holds w w' \<longleftrightarrow> holds (rw_kernel w) \<subseteq> holds (rw_kernel w') \<and> blocks_strengthened (rw_state w) (rw_state w')
     \<and> rc_core (rw_ctl w') = rc_core (rw_ctl w)"

lemma strengthened_refl [simp]: "strengthened b b"
proof -
  have "b = b\<lparr> be_Enforced := be_Enforced b \<rparr>" by (cases b) simp
  then show ?thesis unfolding strengthened_def by blast
qed

lemma strengthened_trans:
  assumes "strengthened b b'" "strengthened b' b''"
  shows "strengthened b b''"
proof -
  from assms obtain e e' where e: "be_Enforced b \<longrightarrow> e" "be_Enforced b' \<longrightarrow> e'"
    and b: "b' = b\<lparr> be_Enforced := e \<rparr>" "b'' = b'\<lparr> be_Enforced := e' \<rparr>" unfolding strengthened_def by blast
  have "b'' = b\<lparr> be_Enforced := e' \<rparr>" unfolding b by simp
  moreover have "be_Enforced b \<longrightarrow> e'" using e unfolding b(1) by simp
  ultimately show ?thesis unfolding strengthened_def by blast
qed

lemma blocks_strengthened_refl [simp]: "blocks_strengthened s s"
  by (simp add: blocks_strengthened_def option.rel_refl)

lemma blocks_strengthened_trans:
  assumes "blocks_strengthened s s'" "blocks_strengthened s' s''"
  shows "blocks_strengthened s s''"
  unfolding blocks_strengthened_def
proof
  fix t
  have "rel_option strengthened (gm_get (st_blocks s) t) (gm_get (st_blocks s') t)"
    "rel_option strengthened (gm_get (st_blocks s') t) (gm_get (st_blocks s'') t)"
    using assms by (simp_all add: blocks_strengthened_def)
  then show "rel_option strengthened (gm_get (st_blocks s) t) (gm_get (st_blocks s'') t)"
    by (cases "gm_get (st_blocks s) t"; cases "gm_get (st_blocks s') t"; cases "gm_get (st_blocks s'') t")
       (auto intro: strengthened_trans)
qed

lemma blocks_strengthened_cong:
  "st_blocks s = st_blocks t \<Longrightarrow> st_blocks s' = st_blocks t' \<Longrightarrow> blocks_strengthened s s' = blocks_strengthened t t'"
  by (simp add: blocks_strengthened_def)

lemma SetBlockEnforced_strengthened: "blocks_strengthened s (snd (SetBlockEnforced t True s))"
  by (auto simp: blocks_strengthened_def SetBlockEnforced_def strengthened_def option.rel_refl split: option.split)

lemma retained_trans: "retained holds w w' \<Longrightarrow> retained holds w' w'' \<Longrightarrow> retained holds w w''"
  by (auto simp: retained_def intro: blocks_strengthened_trans)

lemma retained_refl [simp]: "retained holds w w"
  by (simp add: retained_def)

text \<open>A world with the same kernel, blocks and core is as good.\<close>

lemma retained_same:
  "rw_kernel w' = rw_kernel u \<Longrightarrow> st_blocks (rw_state w') = st_blocks (rw_state u) \<Longrightarrow> rc_core (rw_ctl w') = rc_core (rw_ctl u)
    \<Longrightarrow> retained holds w u \<Longrightarrow> retained holds w w'"
  by (simp add: retained_def blocks_strengthened_def)

text \<open>
  What a kernel promises: adding an entry removes none and a successful addition installs the entry. The comment of
  \<open>reconcileVerifiedLocked\<close> documents it: an addition is an unconditional and idempotent map insert.
\<close>

definition add_keeps :: "('k \<Rightarrow> string set) \<Rightarrow> 'k ReleaseCore \<Rightarrow> bool" where
  "add_keeps holds core \<longleftrightarrow>
     (\<forall>t k e k'. core_Add core t k = (e, k') \<longrightarrow> holds k \<subseteq> holds k' \<and> (e = None \<longrightarrow> t \<in> holds k'))"

lemma confirm_blocks_retains:
  assumes "confirm_blocks core bs (s, k) = (err, s', k')" and "add_keeps holds core"
  shows "holds k \<subseteq> holds k' \<and> blocks_strengthened s s'"
  using assms(1)
proof (induction bs arbitrary: s k)
  case Nil
  then show ?case by simp
next
  case (Cons b bs)
  obtain e k1 where add: "core_Add core (be_Target b) k = (e, k1)" by (rule prod.exhaust)
  then have k1: "holds k \<subseteq> holds k1" using assms(2) by (simp add: add_keeps_def)
  show ?case
  proof (cases e)
    case (Some x)
    with Cons.prems add k1 show ?thesis by simp
  next
    case None
    with Cons.prems add have "confirm_blocks core bs (snd (SetBlockEnforced (be_Target b) True s), k1) = (err, s', k')" by simp
    from Cons.IH [OF this] k1 show ?thesis
      by (auto intro: blocks_strengthened_trans [OF SetBlockEnforced_strengthened])
  qed
qed

definition core_keeps :: "('k \<Rightarrow> string set) \<Rightarrow> ('k, 'p, 'l) release_world \<Rightarrow> bool" where
  "core_keeps holds w \<longleftrightarrow> (\<forall>core. rc_core (rw_ctl w) = Some core \<longrightarrow> add_keeps holds core)"

lemma reconcileVerified_frame [simp]:
  "rw_ctl (snd (reconcileVerifiedLocked w)) = rw_ctl w" "rw_marker (snd (reconcileVerifiedLocked w)) = rw_marker w"
  "rw_status (snd (reconcileVerifiedLocked w)) = rw_status w" "rw_store (snd (reconcileVerifiedLocked w)) = rw_store w"
  by (simp_all add: reconcileVerifiedLocked_def rw_status_def split: option.split prod.split)

lemma reconcileVerified_retains: "core_keeps holds w \<Longrightarrow> retained holds w (snd (reconcileVerifiedLocked w))"
  by (auto simp: reconcileVerifiedLocked_def retained_def core_keeps_def dest: confirm_blocks_retains split: option.split prod.split)

lemma retained_core: "retained holds w w' \<Longrightarrow> core_keeps holds w \<Longrightarrow> core_keeps holds w'"
  by (simp add: retained_def core_keeps_def)

lemma confirm_blocks_modes:
  "confirm_blocks core bs (s, k) = (err, s', k') \<Longrightarrow> st_enforcement s' = st_enforcement s \<and> st_releaseXDRMode s' = st_releaseXDRMode s"
proof (induction bs arbitrary: s k)
  case (Cons b bs)
  then show ?case by (auto simp: SetBlockEnforced_def split: prod.splits option.splits)
qed simp

lemma reconcileVerified_modes [simp]:
  "st_enforcement (rw_state (snd (reconcileVerifiedLocked w))) = st_enforcement (rw_state w)"
  "st_releaseXDRMode (rw_state (snd (reconcileVerifiedLocked w))) = st_releaseXDRMode (rw_state w)"
  by (auto simp: reconcileVerifiedLocked_def dest: confirm_blocks_modes split: option.split prod.split)

text \<open>\<open>degradeLocked\<close> is the confirmation pass followed by one of three marks.\<close>

definition confirmed :: "('k, 'p, 'l) release_world \<Rightarrow> ('k, 'p, 'l) release_world" where
  "confirmed w = snd (reconcileVerifiedLocked (on_state (SetModes ''unverified'' ''observe'') w))"

lemma degrade_result:
  fixes w :: "('k, 'p, 'l) release_world" and reason ca
  defines "d \<equiv> snd (degradeLocked ca reason w)"
  shows "rw_kernel d = rw_kernel (confirmed w)" "st_blocks (rw_state d) = st_blocks (rw_state (confirmed w))" "rw_marker d = rw_marker w"
    "rc_core (rw_ctl d) = rc_core (rw_ctl w)" "rc_kernelReconciledHook (rw_ctl d) = rc_kernelReconciledHook (rw_ctl w)"
    "rs_Phase (rw_status d) = ReleasePhaseDegraded" "rs_Ready (rw_status d) = False"
    "st_release (rw_state d) = rw_status d" "st_releaseXDRMode (rw_state d) = ''observe''"
    "if fst (degradeLocked ca reason w) = None
     then rs_KernelPolicyState (rw_status d) = ''verified-enforce'' \<and> rs_FailSafeVerified (rw_status d) \<and> st_enforcement (rw_state d) = ''enforce''
     else rs_KernelPolicyState (rw_status d) = ''unverified'' \<and> \<not> rs_FailSafeVerified (rw_status d) \<and> st_enforcement (rw_state d) = ''unverified''"
    "fst (degradeLocked ca reason w) = None \<Longrightarrow> fst (reconcileVerifiedLocked (on_state (SetModes ''unverified'' ''observe'') w)) = None"
proof -
  obtain err w1 where r: "reconcileVerifiedLocked (on_state (SetModes ''unverified'' ''observe'') w) = (err, w1)" by (rule prod.exhaust)
  then have w1: "w1 = confirmed w" by (simp add: confirmed_def)
  obtain err2 w2 where p: "persist_modes ''enforce'' ''observe'' w1 = (err2, w2)" by (rule prod.exhaust)
  then have w2: "w2 = snd (persist_modes ''enforce'' ''observe'' (confirmed w))" by (simp add: w1)
  have f: "rw_marker (confirmed w) = rw_marker w" "rc_core (rw_ctl (confirmed w)) = rc_core (rw_ctl w)"
    "rc_kernelReconciledHook (rw_ctl (confirmed w)) = rc_kernelReconciledHook (rw_ctl w)"
    "st_releaseXDRMode (rw_state (confirmed w)) = ''observe''" "st_enforcement (rw_state (confirmed w)) = ''unverified''"
    by (simp_all add: confirmed_def)
  note d = d_def degradeLocked_def r p
  show "rw_kernel d = rw_kernel (confirmed w)" by (cases err; cases err2) (simp_all add: d w1 [symmetric], simp_all add: w1 w2)
  show "st_blocks (rw_state d) = st_blocks (rw_state (confirmed w))" by (cases err; cases err2) (simp_all add: d w1 [symmetric], simp_all add: w1 w2)
  show "rw_marker d = rw_marker w" by (cases err; cases err2) (simp_all add: d, simp_all add: w1 w2 f)
  show "rc_core (rw_ctl d) = rc_core (rw_ctl w)" by (cases err; cases err2) (simp_all add: d, simp_all add: w1 w2 f)
  show "rc_kernelReconciledHook (rw_ctl d) = rc_kernelReconciledHook (rw_ctl w)" by (cases err; cases err2) (simp_all add: d, simp_all add: w1 w2 f)
  show "rs_Phase (rw_status d) = ReleasePhaseDegraded" by (cases err; cases err2) (simp_all add: d)
  show "rs_Ready (rw_status d) = False" by (cases err; cases err2) (simp_all add: d)
  show "st_release (rw_state d) = rw_status d" by (cases err; cases err2) (simp_all add: d)
  show "st_releaseXDRMode (rw_state d) = ''observe''" by (cases err; cases err2) (simp_all add: d, simp_all add: w1 w2 f)
  show "if fst (degradeLocked ca reason w) = None
     then rs_KernelPolicyState (rw_status d) = ''verified-enforce'' \<and> rs_FailSafeVerified (rw_status d) \<and> st_enforcement (rw_state d) = ''enforce''
     else rs_KernelPolicyState (rw_status d) = ''unverified'' \<and> \<not> rs_FailSafeVerified (rw_status d) \<and> st_enforcement (rw_state d) = ''unverified''"
    by (cases err; cases err2) (simp_all add: d, simp_all add: w1 w2 f)
  show "fst (reconcileVerifiedLocked (on_state (SetModes ''unverified'' ''observe'') w)) = None" if "fst (degradeLocked ca reason w) = None"
    using that by (cases err) (simp_all add: d)
qed

lemma confirmed_retains:
  assumes "core_keeps holds w"
  shows "retained holds w (confirmed w)"
proof -
  have "core_keeps holds (on_state (SetModes ''unverified'' ''observe'') w)" using assms by (simp add: core_keeps_def)
  from reconcileVerified_retains [OF this] show ?thesis by (simp add: confirmed_def retained_def blocks_strengthened_def)
qed

lemma degrade_retains: "core_keeps holds w \<Longrightarrow> retained holds w (snd (degradeLocked ca reason w))"
  by (drule confirmed_retains, erule retained_same [rotated 3]) (simp_all add: degrade_result, simp add: confirmed_def)

lemma enter_enforce_frame [simp]:
  "rw_kernel (enter_enforce ca d w) = rw_kernel w" "st_blocks (rw_state (enter_enforce ca d w)) = st_blocks (rw_state w)"
  "rc_core (rw_ctl (enter_enforce ca d w)) = rc_core (rw_ctl w)" "rw_marker (enter_enforce ca d w) = rw_marker w"
  "rc_kernelReconciledHook (rw_ctl (enter_enforce ca d w)) = rc_kernelReconciledHook (rw_ctl w)"
  "rs_Phase (rw_status (enter_enforce ca d w)) = ReleasePhaseEnforce"
  "rs_KernelPolicyState (rw_status (enter_enforce ca d w)) = ''verified-enforce''"
  "rs_FailSafeVerified (rw_status (enter_enforce ca d w))"
  "st_enforcement (rw_state (enter_enforce ca d w)) = ''enforce''" "st_releaseXDRMode (rw_state (enter_enforce ca d w)) = ''enforce''"
  by (simp_all add: enter_enforce_def Let_def)

lemma recover_cases:
  obtains (stay) "recoverIfGatesPassLocked ca w = w"
  | (tried) "recoverIfGatesPassLocked ca w = snd (reconcileVerifiedLocked w)"
  | (recovered) m where "fst (reconcileVerifiedLocked w) = None" "currentBlockersLocked ca w ReleasePhaseEnforce False = []"
      "rs_Phase (rw_status w) = ReleasePhaseDegraded" "\<not> rs_EmergencyStop (rw_status w)"
      "rs_KernelPolicyState (rw_status w) = ''verified-enforce''" "rs_FailSafeVerified (rw_status w)"
      "rs_NominalSince (rw_status w) \<noteq> None"
      "wrap64 (rl_MinimumObserveSeconds (effectiveReleaseConfigLocked (rw_ctl w)) * second) \<le> nominalElapsed (ca_env ca) (rw_ctl w)"
      "recoverIfGatesPassLocked ca w = emit ca ''high'' ''release.recovered'' ''release-gate'' m
         (enter_enforce ca ''recovered to enforce after the cause cleared and the calm held'' (snd (reconcileVerifiedLocked w)))"
proof (cases "recoverIfGatesPassLocked ca w = w")
  case True
  then show thesis by (rule stay)
next
  case False
  note u = recoverIfGatesPassLocked_def Let_def
  have g1: "rs_Phase (rw_status w) = ReleasePhaseDegraded" by (rule ccontr, insert False) (simp add: u)
  have g2: "\<not> rs_EmergencyStop (rw_status w)" by (rule notI, insert False) (simp add: u)
  have g3: "rs_KernelPolicyState (rw_status w) = ''verified-enforce''" by (rule ccontr, insert False) (simp add: u)
  have g4: "rs_FailSafeVerified (rw_status w)" by (rule ccontr, insert False) (simp add: u)
  have g5: "rs_NominalSince (rw_status w) \<noteq> None" by (rule notI, insert False) (simp add: u)
  have g6: "wrap64 (rl_MinimumObserveSeconds (effectiveReleaseConfigLocked (rw_ctl w)) * second) \<le> nominalElapsed (ca_env ca) (rw_ctl w)"
    by (rule ccontr, insert False) (simp add: u)
  have g7: "currentBlockersLocked ca w ReleasePhaseEnforce False = []" by (rule ccontr, insert False) (simp add: u)
  obtain err w1 where r: "reconcileVerifiedLocked w = (err, w1)" by (rule prod.exhaust)
  show thesis
  proof (cases err)
    case (Some e)
    then show thesis using g1 g2 g3 g4 g5 g6 g7 r by (intro tried) (simp add: u del: not_None_eq)
  next
    case None
    then have "fst (reconcileVerifiedLocked w) = None" using r by simp
    then show thesis by (rule recovered [OF _ g7 g1 g2 g3 g4 g5 g6]) (use g1 g2 g3 g4 g5 g6 g7 r None in \<open>simp add: u del: not_None_eq\<close>)
  qed
qed

lemma rearm_cases:
  obtains (stay) "snd (ReArmVerified ca reason w) = w"
  | (tried) "snd (ReArmVerified ca reason w) = snd (reconcileVerifiedLocked w)"
  | (armed) m where "fst (reconcileVerifiedLocked w) = None" "currentBlockersLocked ca w ReleasePhaseEnforce False = []"
      "\<not> rs_EmergencyStop (rw_status w)" "rs_Phase (rw_status w) \<noteq> ReleasePhaseEnforce"
      "rs_KernelPolicyState (rw_status w) = ''verified-enforce''" "rs_FailSafeVerified (rw_status w)"
      "snd (ReArmVerified ca reason w) = emit ca ''high'' ''release.startup_rearmed'' ''release-gate'' m
         (enter_enforce ca ''startup self-check verified every module; enforcement re-armed without the ladder'' (snd (reconcileVerifiedLocked w)))"
proof (cases "snd (ReArmVerified ca reason w) = w")
  case True
  then show thesis by (rule stay)
next
  case False
  note u = ReArmVerified_def Let_def
  have g2: "\<not> rs_EmergencyStop (rw_status w)" by (rule notI, insert False) (simp add: u)
  have g1: "rs_Phase (rw_status w) \<noteq> ReleasePhaseEnforce" by (rule notI, insert False g2) (simp add: u)
  have g3: "rs_KernelPolicyState (rw_status w) = ''verified-enforce''" by (rule ccontr, insert False g2 g1) (simp add: u)
  have g4: "rs_FailSafeVerified (rw_status w)" by (rule ccontr, insert False g2 g1) (simp add: u)
  have g7: "currentBlockersLocked ca w ReleasePhaseEnforce False = []" by (rule ccontr, insert False g1 g2 g3 g4) (simp add: u)
  obtain err w1 where r: "reconcileVerifiedLocked w = (err, w1)" by (rule prod.exhaust)
  show thesis
  proof (cases err)
    case (Some e)
    then show thesis using g1 g2 g3 g4 g7 r by (intro tried) (simp add: u)
  next
    case None
    then have "fst (reconcileVerifiedLocked w) = None" using r by simp
    then show thesis by (rule armed [OF _ g7 g2 g1 g3 g4]) (use g1 g2 g3 g4 g7 r None in \<open>simp add: u\<close>)
  qed
qed

lemma recover_retains: "core_keeps holds w \<Longrightarrow> retained holds w (recoverIfGatesPassLocked ca w)"
  by (rule recover_cases [of ca w])
     (auto intro: reconcileVerified_retains retained_same [OF _ _ _ reconcileVerified_retains])

lemma rearm_retains: "core_keeps holds w \<Longrightarrow> retained holds w (snd (ReArmVerified ca reason w))"
  by (rule rearm_cases [of ca reason w])
     (auto intro: reconcileVerified_retains retained_same [OF _ _ _ reconcileVerified_retains])

lemma retained_refresh: "retained holds w u \<Longrightarrow> retained holds w (refresh_publish ca u)"
  by (rule retained_same) simp_all

lemma evaluate_retains:
  assumes "core_keeps holds w"
  shows "retained holds w (Evaluate ca w)"
proof -
  have n: "core_keeps holds (trackNominalLocked ca w)" using assms by (simp add: core_keeps_def)
  have r: "retained holds w (recoverIfGatesPassLocked ca (trackNominalLocked ca w))"
    by (rule retained_trans [OF _ recover_retains [OF n]]) (simp add: retained_def)
  have "retained holds w (trackNominalLocked ca u)" if "retained holds w u" for u
    using that by (rule retained_same [rotated 3]) simp_all
  then show ?thesis using r assms by (auto simp: Evaluate_def Let_def intro!: retained_refresh degrade_retains)
qed

lemma observeCore_retains:
  assumes "core_keeps holds w"
  shows "retained holds w (ObserveCore ca ok w)"
proof -
  have st: "retained holds w (upd_status f u)" if "retained holds w u" for f u
    using that by (rule retained_same [rotated 3]) simp_all
  have dg: "retained holds w (snd (degradeLocked ca m u))" if "retained holds w u" for m u
    using that degrade_retains [OF retained_core [OF that assms]] by (rule retained_trans)
  show ?thesis
    unfolding ObserveCore_def Let_def by (intro retained_refresh) (auto intro!: st dg split: if_split)
qed

lemma failSafe_retains: "core_keeps holds w \<Longrightarrow> retained holds w (snd (FailSafe ca reason w))"
  by (auto simp: FailSafe_def Let_def case_prod_beta intro!: retained_refresh degrade_retains)

lemma emergencyStop_retains:
  assumes "core_keeps holds w"
  shows "retained holds w (snd (EmergencyStop ca reason w))"
proof -
  have "core_keeps holds (w\<lparr> rw_marker := StatExists \<rparr>)" using assms by (simp add: core_keeps_def)
  from degrade_retains [OF this] have "retained holds w (snd (degradeLocked ca m (w\<lparr> rw_marker := StatExists \<rparr>)))" for m
    by (simp add: retained_def)
  from retained_same [OF _ _ _ this] show ?thesis by (simp add: EmergencyStop_def case_prod_beta split: option.split)
qed

lemma startup_retain_result:
  fixes w :: "('k, 'p, 'l) release_world" and ca
  defines "d \<equiv> snd (startup_retain ca w)"
  shows "rw_kernel d = rw_kernel (confirmed w)" "st_blocks (rw_state d) = st_blocks (rw_state (confirmed w))" "rw_marker d = rw_marker w"
    "rc_core (rw_ctl d) = rc_core (rw_ctl w)" "rc_kernelReconciledHook (rw_ctl d) = rc_kernelReconciledHook (rw_ctl w)"
    "rs_Phase (rw_status d) = ReleasePhaseDegraded" "st_releaseXDRMode (rw_state d) = ''observe''"
    "if fst (startup_retain ca w) = None
     then rs_KernelPolicyState (rw_status d) = ''verified-enforce'' \<and> rs_FailSafeVerified (rw_status d) \<and> st_enforcement (rw_state d) = ''enforce''
     else rs_KernelPolicyState (rw_status d) = ''unverified'' \<and> \<not> rs_FailSafeVerified (rw_status d) \<and> st_enforcement (rw_state d) = ''unverified''"
proof -
  obtain err w1 where r: "reconcileVerifiedLocked (on_state (SetModes ''unverified'' ''observe'') w) = (err, w1)" by (rule prod.exhaust)
  then have w1: "w1 = confirmed w" by (simp add: confirmed_def)
  obtain err2 w2 where p: "persist_modes ''enforce'' ''observe'' w1 = (err2, w2)" by (rule prod.exhaust)
  then have w2: "w2 = snd (persist_modes ''enforce'' ''observe'' (confirmed w))" by (simp add: w1)
  have f: "rw_marker (confirmed w) = rw_marker w" "rc_core (rw_ctl (confirmed w)) = rc_core (rw_ctl w)"
    "rc_kernelReconciledHook (rw_ctl (confirmed w)) = rc_kernelReconciledHook (rw_ctl w)"
    "st_releaseXDRMode (rw_state (confirmed w)) = ''observe''" "st_enforcement (rw_state (confirmed w)) = ''unverified''"
    by (simp_all add: confirmed_def)
  note d = d_def startup_retain_def Let_def r p
  show "rw_kernel d = rw_kernel (confirmed w)" by (cases err; cases err2) (simp_all add: d w1 [symmetric], simp_all add: w1 w2)
  show "st_blocks (rw_state d) = st_blocks (rw_state (confirmed w))" by (cases err; cases err2) (simp_all add: d w1 [symmetric], simp_all add: w1 w2)
  show "rw_marker d = rw_marker w" by (cases err; cases err2) (simp_all add: d, simp_all add: w1 w2 f)
  show "rc_core (rw_ctl d) = rc_core (rw_ctl w)" by (cases err; cases err2) (simp_all add: d, simp_all add: w1 w2 f)
  show "rc_kernelReconciledHook (rw_ctl d) = rc_kernelReconciledHook (rw_ctl w)" by (cases err; cases err2) (simp_all add: d, simp_all add: w1 w2 f)
  show "rs_Phase (rw_status d) = ReleasePhaseDegraded" by (cases err; cases err2) (simp_all add: d)
  show "st_releaseXDRMode (rw_state d) = ''observe''" by (cases err; cases err2) (simp_all add: d, simp_all add: w1 w2 f)
  show "if fst (startup_retain ca w) = None
     then rs_KernelPolicyState (rw_status d) = ''verified-enforce'' \<and> rs_FailSafeVerified (rw_status d) \<and> st_enforcement (rw_state d) = ''enforce''
     else rs_KernelPolicyState (rw_status d) = ''unverified'' \<and> \<not> rs_FailSafeVerified (rw_status d) \<and> st_enforcement (rw_state d) = ''unverified''"
    by (cases err; cases err2) (simp_all add: d, simp_all add: w1 w2 f)
qed

lemma startup_retains:
  assumes "core_keeps holds w" and "rw_marker w = StatExists \<or> \<not> verified \<or> enforcement = ''enforce''"
  shows "retained holds w (snd (InitializeStartup ca enforcement verified w))"
proof -
  have dg: "retained holds w (snd (degradeLocked ca m u))" if "retained holds w u" for m u
    using that degrade_retains [OF retained_core [OF that assms(1)]] by (rule retained_trans)
  have "retained holds w (snd (startup_retain ca w))"
    using confirmed_retains [OF assms(1)] by (rule retained_same [rotated 3]) (simp_all add: startup_retain_result, simp add: confirmed_def)
  moreover have "retained holds w (upd_status f w)" "retained holds w (emit ca a b d e w)" for f a b d e
    by (simp_all add: retained_def blocks_strengthened_def option.rel_refl)
  ultimately show ?thesis using assms(2) by (auto simp: InitializeStartup_def intro: dg)
qed

text \<open>What the platform does on its own, and the emergency stop; the startup with an unverified policy or with the intent to enforce.\<close>

inductive automatic_step :: "('k, 'p, 'l) release_world \<Rightarrow> ('k, 'p, 'l) release_world \<Rightarrow> bool" where
  auto_fail_safe: "automatic_step w (snd (FailSafe ca reason w))"
| auto_observe_core: "automatic_step w (ObserveCore ca success w)"
| auto_evaluate: "automatic_step w (Evaluate ca w)"
| auto_rearm: "automatic_step w (snd (ReArmVerified ca reason w))"
| auto_reconcile: "automatic_step w (snd (ReconcileVerifiedPolicy w))"
| auto_emergency: "automatic_step w (snd (EmergencyStop ca reason w))"
| auto_startup: "rw_marker w = StatExists \<or> \<not> verified \<or> enforcement = ''enforce'' \<Longrightarrow>
    automatic_step w (snd (InitializeStartup ca enforcement verified w))"
| auto_status: "automatic_step w (snd (release_Status ca w))"
| auto_ready: "automatic_step w (snd (release_Ready ca w))"
| auto_readiness: "automatic_step w (snd (Readiness ca target w))"

inductive_cases automatic_stepE: "automatic_step w w'"

lemma readiness_frame [simp]:
  "rw_kernel (snd (Readiness ca target w)) = rw_kernel w" "rw_state (snd (Readiness ca target w)) = rw_state w"
  "rc_core (rw_ctl (snd (Readiness ca target w))) = rc_core (rw_ctl w)"
  "rc_kernelReconciledHook (rw_ctl (snd (Readiness ca target w))) = rc_kernelReconciledHook (rw_ctl w)"
  "rs_Phase (rw_status (snd (Readiness ca target w))) = rs_Phase (rw_status w)"
  "rs_KernelPolicyState (rw_status (snd (Readiness ca target w))) = rs_KernelPolicyState (rw_status w)"
  "rs_FailSafeVerified (rw_status (snd (Readiness ca target w))) = rs_FailSafeVerified (rw_status w)"
  by (simp_all add: Readiness_def refreshLocked_def Let_def)

lemma automatic_retains: "automatic_step w w' \<Longrightarrow> core_keeps holds w \<Longrightarrow> retained holds w w'"
proof (induction rule: automatic_step.induct)
  case (auto_readiness w ca target)
  then show ?case by (simp add: retained_def)
qed (simp_all add: failSafe_retains observeCore_retains evaluate_retains rearm_retains ReconcileVerifiedPolicy_def
      reconcileVerified_retains emergencyStop_retains startup_retains release_Status_def release_Ready_def Let_def retained_refresh)

interpretation retention: step_order automatic_step "\<lambda>w w'. core_keeps holds w \<longrightarrow> retained holds w w'" for holds :: "'k \<Rightarrow> string set"
proof unfold_locales
  fix w w' w'' :: "('k, 'a, 'b) release_world"
  assume "core_keeps holds w \<longrightarrow> retained holds w w'" "core_keeps holds w' \<longrightarrow> retained holds w' w''"
  then show "core_keeps holds w \<longrightarrow> retained holds w w''" by (blast intro: retained_core retained_trans)
qed (auto dest: automatic_retains)

section \<open>An example world\<close>

definition set_release_core :: "string set ReleaseCore" where
  "set_release_core = \<lparr> core_Add = (\<lambda>t ks. (None, insert t ks)), core_Delete = (\<lambda>t ks. (None, ks - {t})),
     core_ClearBlocklist = (\<lambda>ks. (None, {})), core_VerifyBlocklistEmpty = (\<lambda>ks. (if ks = {} then None else Some ''not empty'', ks)) \<rparr>"

definition list_store :: "PolicyStatus \<Rightarrow> BlockEntry list policyPersistence" where
  "list_store ps = \<lparr> pp_Persist = (\<lambda>node enforcement xdr bs p. (None, bs)), pp_Status = (\<lambda>p. ps) \<rparr>"

definition sample_release :: ReleaseConfig where
  "sample_release = \<lparr> rl_MinimumObserveSeconds = 300, rl_MinimumCanarySeconds = 600, rl_CoreFailureThreshold = 3,
     rl_MaxEvaluationDropPermille = 10, rl_AutoDegrade = True \<rparr>"

definition sample_controller :: "Config \<Rightarrow> ReleaseStatus \<Rightarrow> PolicyStatus \<Rightarrow> (string set, BlockEntry list, nat) ReleaseController" where
  "sample_controller c st ps = \<lparr> rc_cfg = c, rc_release = sample_release,
     rc_advisories = \<lparr> ac_Enabled = False, ac_Mode = ''report'', ac_MaxExposure = 70 \<rparr>, rc_core = Some set_release_core, rc_policy = list_store ps,
     rc_settings = None, rc_status = st, rc_monoSince = wall_stamp 0, rc_monoNominal = None, rc_exposure = None, rc_kernelReconciledHook = None \<rparr>"

definition sample_world :: "Config \<Rightarrow> ReleaseStatus \<Rightarrow> nat State \<Rightarrow> string set \<Rightarrow> (string set, BlockEntry list, nat) release_world" where
  "sample_world c st s ks = \<lparr> rw_ctl = sample_controller c st (st_policy s), rw_state = s, rw_kernel = ks, rw_store = [], rw_marker = StatNotExist \<rparr>"

lemma set_release_core_keeps: "add_keeps (\<lambda>ks. ks) set_release_core"
  by (auto simp: add_keeps_def set_release_core_def)

lemma sample_core_keeps: "core_keeps (\<lambda>ks. ks) (sample_world c st s ks)"
  by (simp add: core_keeps_def sample_world_def sample_controller_def set_release_core_keeps)

text \<open>
  C2: Whatever the platform does on its own (fail-safe, heartbeat, evaluation and recovery, re-arm, confirmation, emergency
  stop, a startup that does not start from a verified non-enforcing policy, and the status calls), in any order and
  with any failures of the kernel and of the policy store, the kernel keeps every entry it had, no block
  leaves the list or changes, and no block stops being enforced. For the emergency stop this is not what the comments at \<open>kernelReconciledHook\<close> and \<open>degradeLocked\<close>,
  the security policy, the readme, the operations guide and rule F-06 of the fail-safe rules describe: they have it clear the block list and verify that it is empty.
\<close>

theorem fail_closed:
  assumes "run_of automatic_step w w'" and "core_keeps holds w"
  shows "holds (rw_kernel w) \<subseteq> holds (rw_kernel w')
     \<and> (\<forall>t b. gm_get (st_blocks (rw_state w)) t = Some b \<longrightarrow>
          (\<exists>e. (be_Enforced b \<longrightarrow> e) \<and> gm_get (st_blocks (rw_state w')) t = Some (b\<lparr> be_Enforced := e \<rparr>)))
     \<and> (\<forall>t. gm_get (st_blocks (rw_state w)) t = None \<longrightarrow> gm_get (st_blocks (rw_state w')) t = None)"
proof -
  have r: "retained holds w w'" using retention.run_le [OF assms(1)] assms(2) by blast
  have o: "rel_option strengthened (gm_get (st_blocks (rw_state w)) t) (gm_get (st_blocks (rw_state w')) t)" for t
    using r by (simp add: retained_def blocks_strengthened_def)
  have "\<exists>e. (be_Enforced b \<longrightarrow> e) \<and> gm_get (st_blocks (rw_state w')) t = Some (b\<lparr> be_Enforced := e \<rparr>)"
    if "gm_get (st_blocks (rw_state w)) t = Some b" for t b
    using o [of t] that by (cases "gm_get (st_blocks (rw_state w')) t") (auto simp: strengthened_def)
  moreover have "gm_get (st_blocks (rw_state w')) t = None" if "gm_get (st_blocks (rw_state w)) t = None" for t
    using o [of t] that by (simp add: option.rel_sel)
  ultimately show ?thesis using r by (simp add: retained_def)
qed

theorem fail_closed_witness:
  "\<forall>c st ca ca'. let w = sample_world c st (ready_state c [(''10.0.0.7/32'', sample_entry 5)]) {''10.0.0.7/32''};
       w' = Evaluate ca' (snd (FailSafe ca ''heartbeat lost'' w))
     in ''10.0.0.7/32'' \<in> rw_kernel w' \<and> gm_get (st_blocks (rw_state w')) ''10.0.0.7/32'' = Some (sample_entry 5)"
proof (intro allI)
  fix c st ca ca'
  let ?w = "sample_world c st (ready_state c [(''10.0.0.7/32'', sample_entry 5)]) {''10.0.0.7/32''}"
  let ?w' = "Evaluate ca' (snd (FailSafe ca ''heartbeat lost'' ?w))"
  have run: "run_of automatic_step ?w ?w'"
    by (rule run_more, rule run_more, rule run_start, rule auto_fail_safe, rule auto_evaluate)
  have b: "gm_get (st_blocks (rw_state ?w)) ''10.0.0.7/32'' = Some (sample_entry 5)" "rw_kernel ?w = {''10.0.0.7/32''}"
    by (simp_all add: sample_world_def ready_blocks)
  note f = fail_closed [OF run sample_core_keeps]
  from f b(1) obtain e where "be_Enforced (sample_entry 5) \<longrightarrow> e"
    "gm_get (st_blocks (rw_state ?w')) ''10.0.0.7/32'' = Some ((sample_entry 5)\<lparr> be_Enforced := e \<rparr>)" by blast
  then have "gm_get (st_blocks (rw_state ?w')) ''10.0.0.7/32'' = Some (sample_entry 5)" by (simp add: sample_entry_def)
  moreover have "''10.0.0.7/32'' \<in> rw_kernel ?w'" using f b(2) by blast
  ultimately show "let w = ?w; w' = Evaluate ca' (snd (FailSafe ca ''heartbeat lost'' w)) in ''10.0.0.7/32'' \<in> rw_kernel w' \<and> gm_get (st_blocks (rw_state w')) ''10.0.0.7/32'' = Some (sample_entry 5)"
    unfolding Let_def by blast
qed

section \<open>The whole machine\<close>

text \<open>The callback after a reconciliation reports events and acts on the kernel; it leaves the enforcement part of the state alone.\<close>

definition hook_quiet :: "('l State \<times> 'k \<Rightarrow> 'l State \<times> 'k) option \<Rightarrow> bool" where
  "hook_quiet hook \<longleftrightarrow> (\<forall>h s k. hook = Some h \<longrightarrow> enforcement_view (fst (h (s, k))) = enforcement_view s)"

text \<open>
  A step of the machine: a method of the controller, or anything the other components do, which leaves the status, the core,
  the callback and the modes alone.
\<close>

inductive release_step :: "('k, 'p, 'l) release_world \<Rightarrow> ('k, 'p, 'l) release_world \<Rightarrow> bool" where
  step_automatic: "automatic_step w w' \<Longrightarrow> release_step w w'"
| step_transition: "release_step w (snd (Transition ca target confirmation reason w))"
| step_clear: "release_step w (snd (ClearEmergencyStop ca confirmation reason w))"
| step_startup: "release_step w (snd (InitializeStartup ca enforcement verified w))"
| step_exposure: "release_step w (AttachKernelExposure exposure w)"
| step_hook: "hook_quiet hook \<Longrightarrow> release_step w (SetKernelReconciledHook hook w)"
| step_other: "rw_status w' = rw_status w \<Longrightarrow> rc_core (rw_ctl w') = rc_core (rw_ctl w) \<Longrightarrow>
    rc_kernelReconciledHook (rw_ctl w') = rc_kernelReconciledHook (rw_ctl w) \<Longrightarrow>
    st_enforcement (rw_state w') = st_enforcement (rw_state w) \<Longrightarrow> st_releaseXDRMode (rw_state w') = st_releaseXDRMode (rw_state w) \<Longrightarrow>
    release_step w w'"

inductive_cases release_stepE: "release_step w w'"

lemma unapply_modes:
  "unapply_blocks core ts (s, k) = (errs, s', k') \<Longrightarrow> st_enforcement s' = st_enforcement s \<and> st_releaseXDRMode s' = st_releaseXDRMode s"
proof (induction ts arbitrary: s k errs)
  case (Cons t ts)
  then show ?case by (auto simp: SetBlockEnforced_def split: prod.splits option.splits)
qed simp

lemma apply_modes:
  "apply_blocks core applied bs (s, k) = (err, s', k') \<Longrightarrow> st_enforcement s' = st_enforcement s \<and> st_releaseXDRMode s' = st_releaseXDRMode s"
proof (induction bs arbitrary: s k applied)
  case (Cons b bs)
  show ?case
  proof (cases "be_Enforced b")
    case True
    with Cons show ?thesis by simp
  next
    case False
    obtain e k1 where add: "core_Add core (be_Target b) k = (e, k1)" by (rule prod.exhaust)
    show ?thesis
    proof (cases e)
      case None
      with Cons.prems False add
      have "apply_blocks core (applied @ [be_Target b]) bs (snd (SetBlockEnforced (be_Target b) True s), k1) = (err, s', k')" by simp
      from Cons.IH [OF this] show ?thesis by (auto simp: SetBlockEnforced_def split: option.splits)
    next
      case (Some x)
      with Cons.prems False add show ?thesis by (auto split: prod.splits dest: unapply_modes)
    qed
  qed
qed simp

lemma clear_flags_modes:
  "st_enforcement (clear_flags bs s) = st_enforcement s \<and> st_releaseXDRMode (clear_flags bs s) = st_releaseXDRMode s"
  unfolding clear_flags_def
  by (induction bs arbitrary: s) (simp_all add: SetBlockEnforced_def split: option.split)

lemma notify_frame [simp]:
  "rw_ctl (notifyKernelReconciledLocked w) = rw_ctl w" "rw_marker (notifyKernelReconciledLocked w) = rw_marker w"
  "rw_status (notifyKernelReconciledLocked w) = rw_status w"
  by (simp_all add: notifyKernelReconciledLocked_def rw_status_def split: option.split prod.split)

lemma notify_view:
  assumes "hook_quiet (rc_kernelReconciledHook (rw_ctl w))"
  shows "enforcement_view (rw_state (notifyKernelReconciledLocked w)) = enforcement_view (rw_state w)"
proof (cases "rc_kernelReconciledHook (rw_ctl w)")
  case (Some h)
  obtain s k where "h (rw_state w, rw_kernel w) = (s, k)" by (rule prod.exhaust)
  moreover from this have "enforcement_view s = enforcement_view (rw_state w)" using assms Some unfolding hook_quiet_def by (metis fst_conv)
  ultimately show ?thesis by (simp add: notifyKernelReconciledLocked_def Some)
qed (simp add: notifyKernelReconciledLocked_def)

lemmas notify_modes = enforcement_viewD(3,4) [OF notify_view]

lemma reconcile_frame [simp]:
  "rw_ctl (snd (reconcileLocked e w)) = rw_ctl w" "rw_marker (snd (reconcileLocked e w)) = rw_marker w"
  "rw_status (snd (reconcileLocked e w)) = rw_status w"
  by (simp_all add: reconcileLocked_def Let_def rw_status_def split: option.split prod.split)

lemma reconcile_modes:
  assumes "hook_quiet (rc_kernelReconciledHook (rw_ctl w))"
  shows "st_enforcement (rw_state (snd (reconcileLocked e w))) = st_enforcement (rw_state w)
     \<and> st_releaseXDRMode (rw_state (snd (reconcileLocked e w))) = st_releaseXDRMode (rw_state w)"
  using assms
  by (auto simp: reconcileLocked_def Let_def clear_flags_modes notify_modes dest: apply_modes split: option.split prod.split)

section \<open>Phases, modes and kernel states\<close>

text \<open>What the phase says about the modes and about the kernel.\<close>

definition release_typed :: "('k, 'p, 'l) release_world \<Rightarrow> bool" where
  "release_typed w \<longleftrightarrow>
     (let st = rw_status w; enforcement = st_enforcement (rw_state w); xdr = st_releaseXDRMode (rw_state w); kernel = rs_KernelPolicyState st
      in rs_Phase st \<in> {ReleasePhaseObserve, ReleasePhaseCanary, ReleasePhaseEnforce, ReleasePhaseDegraded}
       \<and> kernel \<in> {''unverified'', ''verified-empty'', ''verified-enforce''}
       \<and> (rs_Phase st = ReleasePhaseEnforce \<longrightarrow> enforcement = ''enforce'' \<and> xdr = ''enforce'' \<and> kernel = ''verified-enforce'' \<and> rs_FailSafeVerified st)
       \<and> (rs_Phase st = ReleasePhaseCanary \<longrightarrow> xdr = ''contain'' \<and> rs_FailSafeVerified st
            \<and> ((enforcement = ''enforce'' \<and> kernel = ''verified-enforce'') \<or> (enforcement = ''observe'' \<and> kernel = ''verified-empty'')))
       \<and> (rs_Phase st = ReleasePhaseDegraded \<and> rs_FailSafeVerified st \<longrightarrow> enforcement = ''enforce'' \<and> xdr = ''observe'' \<and> kernel = ''verified-enforce'')
       \<and> (rs_Phase st = ReleasePhaseObserve \<and> rs_FailSafeVerified st \<longrightarrow> enforcement = ''observe'' \<and> xdr = ''observe'' \<and> kernel = ''verified-empty''))"

text \<open>The machine invariant: typed, and the callback is quiet.\<close>

definition release_inv :: "('k, 'p, 'l) release_world \<Rightarrow> bool" where
  "release_inv w \<longleftrightarrow> release_typed w \<and> hook_quiet (rc_kernelReconciledHook (rw_ctl w))"

text \<open>The parts the invariant reads.\<close>

definition typed_view where
  "typed_view w = (rs_Phase (rw_status w), rs_KernelPolicyState (rw_status w), rs_FailSafeVerified (rw_status w),
     st_enforcement (rw_state w), st_releaseXDRMode (rw_state w), rc_kernelReconciledHook (rw_ctl w))"

lemma inv_cong: "typed_view w = typed_view w' \<Longrightarrow> release_inv w = release_inv w'"
  by (simp add: typed_view_def release_inv_def release_typed_def Let_def)

lemma inv_view: "release_inv w \<Longrightarrow> typed_view w' = typed_view w \<Longrightarrow> release_inv w'"
  using inv_cong by blast

lemma inv_degraded:
  assumes "hook_quiet (rc_kernelReconciledHook (rw_ctl w))" "rs_Phase (rw_status w) = ReleasePhaseDegraded"
    "rs_KernelPolicyState (rw_status w) \<in> {''unverified'', ''verified-empty'', ''verified-enforce''}"
    "rs_FailSafeVerified (rw_status w) \<Longrightarrow> rs_KernelPolicyState (rw_status w) = ''verified-enforce'' \<and> st_enforcement (rw_state w) = ''enforce''
       \<and> st_releaseXDRMode (rw_state w) = ''observe''"
  shows "release_inv w"
  using assms by (auto simp: release_inv_def release_typed_def Let_def)

lemma inv_degrade: "hook_quiet (rc_kernelReconciledHook (rw_ctl w)) \<Longrightarrow> release_inv (snd (degradeLocked ca reason w))"
  using degrade_result(10) [of ca reason w] by (intro inv_degraded) (auto simp: degrade_result split: if_splits)

lemma inv_retain: "hook_quiet (rc_kernelReconciledHook (rw_ctl w)) \<Longrightarrow> release_inv (snd (startup_retain ca w))"
  using startup_retain_result(8) [of ca w] by (intro inv_degraded) (auto simp: startup_retain_result split: if_splits)

lemma inv_quiet: "release_inv w \<Longrightarrow> hook_quiet (rc_kernelReconciledHook (rw_ctl w))"
  by (simp add: release_inv_def)

lemma inv_refresh [simp]: "release_inv (refresh_publish ca w) = release_inv w"
  by (rule inv_cong) (simp add: typed_view_def)

lemma inv_track [simp]: "release_inv (trackNominalLocked ca w) = release_inv w"
  by (rule inv_cong) (simp add: typed_view_def)

lemma inv_emit [simp]: "release_inv (emit ca a b c d w) = release_inv w"
  by (rule inv_cong) (simp add: typed_view_def)

lemma inv_confirm [simp]: "release_inv (snd (reconcileVerifiedLocked w)) = release_inv w"
  by (rule inv_cong) (simp add: typed_view_def)

lemma inv_enter_enforce: "hook_quiet (rc_kernelReconciledHook (rw_ctl w)) \<Longrightarrow> release_inv (enter_enforce ca d w)"
  by (simp add: release_inv_def release_typed_def Let_def)

lemma inv_recover: "release_inv w \<Longrightarrow> release_inv (recoverIfGatesPassLocked ca w)"
  by (rule recover_cases [of ca w]) (simp_all add: inv_enter_enforce inv_quiet)

lemma inv_rearm: "release_inv w \<Longrightarrow> release_inv (snd (ReArmVerified ca reason w))"
  by (rule rearm_cases [of ca reason w]) (simp_all add: inv_enter_enforce inv_quiet)

lemma inv_evaluate: "release_inv w \<Longrightarrow> release_inv (Evaluate ca w)"
  by (simp add: Evaluate_def Let_def inv_recover inv_degrade inv_quiet)

lemma inv_observeCore:
  assumes "release_inv w"
  shows "release_inv (ObserveCore ca ok w)"
proof -
  have m: "release_inv (upd_status (\<lambda>s. s\<lparr> rs_CoreMisses := f s \<rparr>) w)" for f
    by (rule inv_view [OF assms]) (simp add: typed_view_def)
  show ?thesis unfolding ObserveCore_def Let_def
    using m assms by (simp add: inv_degrade inv_quiet)
qed

lemma inv_mark:
  assumes "hook_quiet (rc_kernelReconciledHook (rw_ctl w))" "ks \<in> {''unverified'', ''verified-empty'', ''verified-enforce''}"
  shows "release_inv (markDegradedLocked ca reason ks False w)"
  using assms by (intro inv_degraded) simp_all

text \<open>The world after a completed transition, before the event.\<close>

definition transition_done :: "'l release_call \<Rightarrow> string \<Rightarrow> string \<Rightarrow> string \<Rightarrow> string \<Rightarrow> ('k, 'p, 'l) release_world \<Rightarrow> ('k, 'p, 'l) release_world" where
  "transition_done ca target enforcement xdr reason w =
     (let kernelState = (if enforcement = ''observe'' then ''verified-empty'' else ''verified-enforce'')
      in publish (upd_status (\<lambda>s. s\<lparr> rs_Detail := trim_space reason, rs_Blockers := [], rs_Ready := True,
           rs_KernelPolicyState := kernelState, rs_FailSafeVerified := kernelPolicyVerified kernelState \<rparr>)
         (enter_phase ca target (publish_policy (on_state (SetModes enforcement xdr) w)))))"

lemma transition_apply_cases:
  fixes w :: "('k, 'p, 'l) release_world" and ca reason
  assumes "releaseModes target = Inr (requested, xdr)"
  defines "new \<equiv> retainedEnforcementLocked (rw_status w) target requested"
  obtains (refused) "snd (transition_apply ca target reason w) = snd (reconcileLocked new w)" "fst (transition_apply ca target reason w) \<noteq> None"
  | (undone) w2 where "w2 = snd (persist_modes new xdr (snd (reconcileLocked new w)))" "fst (transition_apply ca target reason w) \<noteq> None"
      "snd (transition_apply ca target reason w) = snd (reconcileLocked (st_enforcement (rw_state w)) w2)"
  | (lost) w2 where "w2 = snd (persist_modes new xdr (snd (reconcileLocked new w)))" "fst (transition_apply ca target reason w) \<noteq> None"
      "snd (transition_apply ca target reason w) = markDegradedLocked ca ''policy transition and kernel rollback failed'' ''unverified'' False
         (on_state (SetModes ''unverified'' ''observe'') (snd (reconcileLocked (st_enforcement (rw_state w)) w2)))"
  | (completed) m where "fst (reconcileLocked new w) = None" "fst (transition_apply ca target reason w) = None"
      "snd (transition_apply ca target reason w) = emit ca ''high'' ''release.transition'' ''release-gate'' m
         (transition_done ca target new xdr reason (snd (persist_modes new xdr (snd (reconcileLocked new w)))))"
proof -
  obtain e1 w1 where r1: "reconcileLocked new w = (e1, w1)" by (rule prod.exhaust)
  obtain e2 w2 where r2: "persist_modes new xdr w1 = (e2, w2)" by (rule prod.exhaust)
  obtain e3 w3 where r3: "reconcileLocked (st_enforcement (rw_state w)) w2 = (e3, w3)" by (rule prod.exhaust)
  note u = transition_apply_def assms(1) new_def [symmetric] r1 r2 r3 Modes_def Let_def
  have w2: "w2 = snd (persist_modes new xdr (snd (reconcileLocked new w)))" by (simp add: r1 r2)
  show thesis
  proof (cases e1)
    case (Some e)
    show thesis by (rule refused) (simp_all add: u Some)
  next
    case None
    note e1 = this
    show thesis
    proof (cases e2)
      case None
      show thesis by (rule completed) (simp_all add: u e1 None transition_done_def)
    next
      case (Some e)
      show thesis
      proof (cases e3)
        case None
        show thesis by (rule undone [OF w2]) (simp_all add: u e1 Some None)
      next
        case (Some e')
        show thesis by (rule lost [OF w2]) (simp_all add: u e1 \<open>e2 = Some e\<close> Some)
      qed
    qed
  qed
qed

lemma inv_reconcile:
  assumes "release_inv w"
  shows "release_inv (snd (reconcileLocked e w))"
  by (rule inv_view [OF assms]) (simp add: typed_view_def reconcile_modes [OF inv_quiet [OF assms]])

lemma inv_persist [simp]: "release_inv (snd (persist_modes e x w)) = release_inv w"
  by (rule inv_cong) (simp add: typed_view_def)

lemma inv_transition_apply:
  assumes "release_inv w" and "releaseModes target = Inr (requested, xdr)" and "target \<noteq> ReleasePhaseDegraded"
  shows "release_inv (snd (transition_apply ca target reason w))"
proof -
  let ?new = "retainedEnforcementLocked (rw_status w) target requested"
  have inv2: "release_inv (snd (persist_modes ?new xdr (snd (reconcileLocked ?new w))))" using inv_reconcile [OF assms(1)] by simp
  note quiet = inv_quiet [OF assms(1)]
  have modes: "(target = ReleasePhaseObserve \<and> requested = ''observe'' \<and> xdr = ''observe'')
     \<or> (target = ReleasePhaseCanary \<and> requested = ''observe'' \<and> xdr = ''contain'')
     \<or> (target = ReleasePhaseEnforce \<and> requested = ''enforce'' \<and> xdr = ''enforce'')"
    using assms(2,3) by (auto simp: releaseModes_def split: if_splits)
  show ?thesis
  proof (cases rule: transition_apply_cases [OF assms(2), where w = w and ca = ca and reason = reason])
    case 1
    then show ?thesis using inv_reconcile [OF assms(1)] by simp
  next
    case (2 w2)
    then show ?thesis using inv_reconcile [OF inv2] by simp
  next
    case (3 w2)
    then show ?thesis using quiet by (auto intro!: inv_mark)
  next
    case (4 m)
    then show ?thesis
      using modes quiet
      by (auto simp: release_inv_def release_typed_def transition_done_def retainedEnforcementLocked_def kernelPolicyVerified_def Let_def)
  qed
qed

lemma target_modes:
  assumes "target = ReleasePhaseObserve \<or> target = ReleasePhaseCanary \<or> target = ReleasePhaseEnforce"
  obtains requested xdr where "releaseModes target = Inr (requested, xdr)" "target \<noteq> ReleasePhaseDegraded"
  using assms by (auto simp: releaseModes_def)

lemma transition_outcome:
  obtains (unchanged) "snd (Transition ca target confirmation reason w) = w"
  | (rejected) b where "snd (Transition ca target confirmation reason w) =
      publish (upd_status (\<lambda>s. s\<lparr> rs_Blockers := b, rs_Ready := False, rs_Detail := hd b \<rparr>) w)"
      "fst (Transition ca target confirmation reason w) \<noteq> None"
  | (applied) t where "t = map to_lower_char (trim_space target)"
      "t = ReleasePhaseObserve \<or> t = ReleasePhaseCanary \<or> t = ReleasePhaseEnforce"
      "t \<noteq> ReleasePhaseObserve \<longrightarrow> currentBlockersLocked ca w t True = []" "t \<noteq> rs_Phase (rw_status w)"
      "confirmation = confirmation_phrase t" "\<not> bad_reason reason"
      "Transition ca target confirmation reason w = transition_apply ca t reason w"
proof -
  define t where "t = map to_lower_char (trim_space target)"
  define b where "b = (if t = ReleasePhaseObserve then [] else currentBlockersLocked ca w t True)"
  note u = Transition_def Let_def t_def [symmetric] b_def [symmetric]
  show thesis
  proof (cases "(t = ReleasePhaseObserve \<or> t = ReleasePhaseCanary \<or> t = ReleasePhaseEnforce) \<and> confirmation = confirmation_phrase t
      \<and> \<not> bad_reason reason \<and> t \<noteq> rs_Phase (rw_status w)")
    case False
    then consider "\<not> (t = ReleasePhaseObserve \<or> t = ReleasePhaseCanary \<or> t = ReleasePhaseEnforce)"
      | "confirmation \<noteq> confirmation_phrase t" | "bad_reason reason" | "t = rs_Phase (rw_status w)" by blast
    then have "snd (Transition ca target confirmation reason w) = w" by cases (simp_all only: u de_Morgan_disj if_True snd_conv simp_thms split: if_split)
    then show thesis by (rule unchanged)
  next
    case ok: True
    show thesis
    proof (cases "b = []")
      case True
      have "Transition ca target confirmation reason w = transition_apply ca t reason w" using ok True by (simp only: u) auto
      moreover have "t \<noteq> ReleasePhaseObserve \<longrightarrow> currentBlockersLocked ca w t True = []" using True b_def by auto
      ultimately show thesis using ok applied [OF t_def] by blast
    next
      case False
      have "Transition ca target confirmation reason w =
        (Some (RelGate b), publish (upd_status (\<lambda>s. s\<lparr> rs_Blockers := b, rs_Ready := False, rs_Detail := hd b \<rparr>) w))"
        using ok False by (simp only: u) auto
      then show thesis by (intro rejected [of b]) simp_all
    qed
  qed
qed

lemma inv_transition: "release_inv w \<Longrightarrow> release_inv (snd (Transition ca target confirmation reason w))"
proof (rule transition_outcome [of ca target confirmation reason w])
  fix b
  assume inv: "release_inv w" and s: "snd (Transition ca target confirmation reason w) =
      publish (upd_status (\<lambda>s. s\<lparr> rs_Blockers := b, rs_Ready := False, rs_Detail := hd b \<rparr>) w)"
  show ?thesis unfolding s by (rule inv_view [OF inv]) (simp add: typed_view_def)
next
  fix t
  assume inv: "release_inv w" and t: "t = ReleasePhaseObserve \<or> t = ReleasePhaseCanary \<or> t = ReleasePhaseEnforce"
    and s: "Transition ca target confirmation reason w = transition_apply ca t reason w"
  from t obtain requested xdr where "releaseModes t = Inr (requested, xdr)" "t \<noteq> ReleasePhaseDegraded" by (rule target_modes)
  from inv_transition_apply [OF inv this] show ?thesis by (simp add: s)
qed simp

lemma inv_observe:
  assumes "hook_quiet (rc_kernelReconciledHook (rw_ctl w))" "rs_Phase (rw_status w) = ReleasePhaseObserve"
    "rs_KernelPolicyState (rw_status w) = ''verified-empty''" "st_enforcement (rw_state w) = ''observe''" "st_releaseXDRMode (rw_state w) = ''observe''"
  shows "release_inv w"
  using assms by (simp add: release_inv_def release_typed_def Let_def)

lemma inv_initializeObserve:
  assumes "hook_quiet (rc_kernelReconciledHook (rw_ctl w))"
  shows "release_inv (snd (initializeObserveLocked ca w))"
proof -
  obtain e1 w1 where r1: "reconcileLocked ''observe'' w = (e1, w1)" by (rule prod.exhaust)
  obtain e2 w2 where r2: "persist_modes ''observe'' ''observe'' (on_state (SetModes ''observe'' ''observe'') w1) = (e2, w2)" by (rule prod.exhaust)
  have q1: "rc_kernelReconciledHook (rw_ctl w1) = rc_kernelReconciledHook (rw_ctl w)" using reconcile_frame(1) [of "''observe''" w] r1 by simp
  have q2: "rc_kernelReconciledHook (rw_ctl w2) = rc_kernelReconciledHook (rw_ctl w)" "st_enforcement (rw_state w2) = ''observe''"
      "st_releaseXDRMode (rw_state w2) = ''observe''"
    using helpers_frame(26,29) [of "''observe''" "''observe''" "on_state (SetModes ''observe'' ''observe'') w1"] r2 q1 by simp_all
  have "release_inv (markDegradedLocked ca m ''unverified'' False w1)" "release_inv (markDegradedLocked ca m ''verified-empty'' False (publish_policy w2))" for m
    using q1 q2 assms by (simp_all add: inv_mark)
  moreover have "release_inv (upd_status (\<lambda>s. s\<lparr> rs_Phase := ReleasePhaseObserve, rs_FailSafeVerified := True,
                         rs_KernelPolicyState := ''verified-empty'', rs_Detail := m \<rparr>) (publish_policy w2))" for m
    using q2 assms by (intro inv_observe) simp_all
  ultimately show ?thesis using q1 q2 by (simp add: initializeObserveLocked_def r1 r2 Let_def split: option.split)
qed

lemma inv_startup:
  assumes "release_inv w"
  shows "release_inv (snd (InitializeStartup ca enforcement verified w))"
  using inv_quiet [OF assms] by (simp add: InitializeStartup_def inv_degrade inv_initializeObserve inv_retain)

lemma inv_clear:
  assumes "release_inv w"
  shows "release_inv (snd (ClearEmergencyStop ca confirmation reason w))"
proof -
  let ?w = "w\<lparr> rw_marker := StatNotExist \<rparr>"
  have inv: "release_inv ?w" by (rule inv_view [OF assms]) (simp add: typed_view_def)
  obtain e1 w1 where r1: "reconcileLocked ''observe'' ?w = (e1, w1)" by (rule prod.exhaust)
  have i1: "release_inv w1" using inv_reconcile [OF inv, of "''observe''"] r1 by simp
  obtain e2 w2 where r2: "persist_modes ''observe'' ''observe'' w1 = (e2, w2)" by (rule prod.exhaust)
  have i2: "release_inv w2" using inv_persist [of "''observe''" "''observe''" w1] i1 r2 by simp
  have "release_inv (upd_status (\<lambda>s. s\<lparr> rs_EmergencyStop := False, rs_FailSafeVerified := True,
             rs_KernelPolicyState := ''verified-empty'', rs_Detail := m, rs_Blockers := [] \<rparr>)
           (enter_phase ca ReleasePhaseObserve (publish_policy (on_state (SetModes ''observe'' ''observe'') w2))))" for m
    using inv_quiet [OF i2] by (intro inv_observe) simp_all
  then show ?thesis using i1 i2 assms by (simp add: ClearEmergencyStop_def r1 r2 Let_def split: option.split)
qed

lemma inv_emergency:
  assumes "release_inv w"
  shows "release_inv (snd (EmergencyStop ca reason w))"
proof -
  have "hook_quiet (rc_kernelReconciledHook (rw_ctl (w\<lparr> rw_marker := StatExists \<rparr>)))" using inv_quiet [OF assms] by simp
  from inv_degrade [OF this] have d: "release_inv (snd (degradeLocked ca m (w\<lparr> rw_marker := StatExists \<rparr>)))" for m .
  have "release_inv (publish (upd_status (\<lambda>s. s\<lparr> rs_EmergencyStop := True \<rparr>) (snd (degradeLocked ca m (w\<lparr> rw_marker := StatExists \<rparr>)))))" for m
    by (rule inv_view [OF d [of m]]) (simp add: typed_view_def)
  then show ?thesis using assms by (simp add: EmergencyStop_def case_prod_beta split: option.split)
qed

lemma automatic_keeps_inv: "automatic_step w w' \<Longrightarrow> release_inv w \<Longrightarrow> release_inv w'"
proof (induction rule: automatic_step.induct)
  case (auto_fail_safe w ca reason)
  then show ?case by (simp add: FailSafe_def Let_def case_prod_beta inv_degrade inv_quiet)
next
  case (auto_readiness w ca target)
  show ?case by (rule inv_view [OF auto_readiness]) (simp add: typed_view_def)
qed (simp_all add: inv_observeCore inv_evaluate inv_rearm ReconcileVerifiedPolicy_def inv_emergency inv_startup
      release_Status_def release_Ready_def Let_def)

lemma step_keeps_inv: "release_step w w' \<Longrightarrow> release_inv w \<Longrightarrow> release_inv w'"
proof (induction rule: release_step.induct)
  case (step_automatic w w')
  then show ?case by (rule automatic_keeps_inv)
next
  case (step_exposure w exposure)
  show ?case by (rule inv_view [OF step_exposure]) (simp add: typed_view_def AttachKernelExposure_def rw_status_def)
next
  case (step_hook hook w)
  then show ?case by (simp add: release_inv_def release_typed_def SetKernelReconciledHook_def rw_status_def)
next
  case (step_other w' w)
  show ?case by (rule inv_view [OF step_other(6)]) (simp add: typed_view_def step_other)
qed (simp_all add: inv_transition inv_clear inv_startup)

interpretation release_machine: step_invariant release_step release_inv
  by unfold_locales (rule step_keeps_inv)

lemma NewReleaseController_inv: "release_inv (NewReleaseController ca cfg rel adv core policy settings s k p marker)"
  unfolding NewReleaseController_def inv_refresh
  by (simp add: release_inv_def release_typed_def rw_status_def hook_quiet_def Let_def)

text \<open>
  C4: In every state the control plane can reach, with the other components acting between the calls, the phase is one of
  four and the kernel state one of three. The enforce phase stands with both modes on enforce and a kernel whose
  enforcement was verified; canary contains in the XDR and keeps either a verified enforcing or a verified empty
  kernel; a verified degraded phase keeps the enforcement on and the XDR on observe; a verified observe phase has both
  modes on observe and an empty kernel.
\<close>

theorem release_phases_typed:
  assumes "run_of release_step (NewReleaseController ca cfg rel adv core policy settings s k p marker) w"
  shows "release_typed w"
  using release_machine.run_keeps [OF assms NewReleaseController_inv] by (simp add: release_inv_def)

theorem release_phases_typed_witness:
  "\<forall>ca ca' cfg rel adv s marker. release_typed (snd (FailSafe ca' ''heartbeat lost''
     (NewReleaseController ca cfg rel adv (Some set_release_core) (list_store (st_policy s)) None (s :: nat State) {} [] marker)))"
proof (intro allI)
  fix ca ca' cfg rel adv marker and s :: "nat State"
  show "release_typed (snd (FailSafe ca' ''heartbeat lost''
     (NewReleaseController ca cfg rel adv (Some set_release_core) (list_store (st_policy s)) None s {} [] marker)))"
    by (rule release_phases_typed, rule run_more, rule run_start, rule step_automatic, rule auto_fail_safe)
qed

section \<open>Entering the enforce phase\<close>

text \<open>The substantive gates, read off the world.\<close>

definition gates_open :: "'l env \<Rightarrow> ('k, 'p, 'l) release_world \<Rightarrow> bool" where
  "gates_open en w \<longleftrightarrow>
     (let r = rw_ctl w; s = rw_state w; runtime = runtimeSettingsLocked r; coverage = snd (derivedCoverageLocked en s)
      in rw_marker w = StatNotExist \<and> st_coreConnected s
       \<and> (cf_PolicyRequireSigned (rc_cfg r) \<longrightarrow> ps_Verified (st_policy s))
       \<and> (es_Enabled (st_evidenceStatus s) \<longrightarrow> es_Healthy (st_evidenceStatus s))
       \<and> (rt_XDREnabled runtime \<longrightarrow> \<not> xs_Degraded (st_xdr s))
       \<and> (cf_L7Enabled (rc_cfg r) \<longrightarrow> l7_Healthy (st_l7 s))
       \<and> rt_ManagementAllowlist runtime \<noteq> [] \<and> st_allowlistReady s
       \<and> sy_OverallStatus coverage \<noteq> CoverageOffline \<and> sy_OverallStatus coverage \<noteq> CoverageDegraded
       \<and> rs_CoreMisses (rc_status r) < rl_CoreFailureThreshold (effectiveReleaseConfigLocked r))"

lemma when_msg_Nil [simp]: "when_msg c m = [] \<longleftrightarrow> \<not> c"
  by (simp add: when_msg_def)

lemma snapshot_health: "l7_Healthy (fst (derivedCoverageLocked en s)) = l7_Healthy (st_l7 s)" "xs_Degraded (sn_XDR (state_Snapshot en k s)) = xs_Degraded (st_xdr s)"
  by (simp_all add: state_Snapshot_def derivedCoverageLocked_def Let_def case_prod_beta)

lemma gates_open_enforce:
  assumes "currentBlockersLocked ca w ReleasePhaseEnforce d = []"
  shows "gates_open (ca_env ca) w"
proof -
  let ?snap = "state_Snapshot (ca_env ca) (rt_Kinetic (runtimeSettingsLocked (rw_ctl w))) (rw_state w)"
  have s: "state_blockers (ca_env ca) (rw_marker w) (rw_ctl w) (rw_state w) ReleasePhaseEnforce = []"
    and m: "status_blockers (rw_ctl w) (rw_state w) ReleasePhaseEnforce = []"
    using assms by (simp_all add: currentBlockersLocked_def)
  have "rw_marker w = StatNotExist" using s by (simp add: state_blockers_def Let_def split: stat_result.splits)
  moreover have "rs_CoreMisses (rc_status (rw_ctl w)) < rl_CoreFailureThreshold (effectiveReleaseConfigLocked (rw_ctl w))"
    using m by (simp add: status_blockers_def Let_def)
  moreover have "sn_Coverage ?snap = snd (derivedCoverageLocked (ca_env ca) (rw_state w))" "sn_Policy ?snap = st_policy (rw_state w)"
    "sn_Evidence ?snap = st_evidenceStatus (rw_state w)" "sn_CoreConnected ?snap = st_coreConnected (rw_state w)"
    "sn_AllowlistReady ?snap = st_allowlistReady (rw_state w)"
    by (simp_all add: state_Snapshot_def Let_def case_prod_beta)
  ultimately show ?thesis using s
    unfolding gates_open_def Let_def state_blockers_def
    by (auto simp: snapshot_health split: if_splits)
qed

text \<open>The canary phase has lasted its soak; the calm after a verified fail-safe has lasted the soak of the observe phase.\<close>

definition canary_soaked :: "'l env \<Rightarrow> ('k, 'p, 'l) release_world \<Rightarrow> bool" where
  "canary_soaked en w \<longleftrightarrow> rs_Phase (rw_status w) = ReleasePhaseCanary
     \<and> wrap64 (rl_MinimumCanarySeconds (effectiveReleaseConfigLocked (rw_ctl w)) * second) \<le> sinceElapsed en (rw_ctl w)"

definition calm_held :: "'l env \<Rightarrow> ('k, 'p, 'l) release_world \<Rightarrow> bool" where
  "calm_held en w \<longleftrightarrow>
     (let st = rw_status w; soak = wrap64 (rl_MinimumObserveSeconds (effectiveReleaseConfigLocked (rw_ctl w)) * second)
      in rs_Phase st = ReleasePhaseDegraded \<and> rs_KernelPolicyState st = ''verified-enforce'' \<and> rs_FailSafeVerified st
       \<and> (soak \<le> 0 \<or> (rs_NominalSince st \<noteq> None \<and> soak \<le> nominalElapsed en (rw_ctl w))))"

definition enters_enforce :: "('k, 'p, 'l) release_world \<Rightarrow> ('k, 'p, 'l) release_world \<Rightarrow> bool" where
  "enters_enforce w w' \<longleftrightarrow> rs_Phase (rw_status w) \<noteq> ReleasePhaseEnforce \<and> rs_Phase (rw_status w') = ReleasePhaseEnforce"

lemma track_fields [simp]:
  "rc_cfg (rw_ctl (trackNominalLocked ca w)) = rc_cfg (rw_ctl w)" "rc_settings (rw_ctl (trackNominalLocked ca w)) = rc_settings (rw_ctl w)"
  "rc_release (rw_ctl (trackNominalLocked ca w)) = rc_release (rw_ctl w)"
  "rs_CoreMisses (rc_status (rw_ctl (trackNominalLocked ca w))) = rs_CoreMisses (rc_status (rw_ctl w))"
  by (simp_all add: trackNominalLocked_def markNominalLocked_def upd_status_def)

lemma settings_track [simp]: "runtimeSettingsLocked (rw_ctl (trackNominalLocked ca w)) = runtimeSettingsLocked (rw_ctl w)"
  by (simp add: runtimeSettingsLocked_def split: option.split)

lemma effective_track [simp]:
  "effectiveReleaseConfigLocked (rw_ctl (trackNominalLocked ca w)) = effectiveReleaseConfigLocked (rw_ctl w)"
  by (simp add: effectiveReleaseConfigLocked_def)

lemma gates_open_track [simp]: "gates_open en (trackNominalLocked ca w) = gates_open en w"
  by (simp add: gates_open_def Let_def)

lemma nominal_now:
  "rs_NominalSince (rc_status r) = Some (env_now en) \<Longrightarrow> rc_monoNominal r = Some (env_stamp en) \<Longrightarrow> nominalElapsed en r = 0"
  by (simp add: nominalElapsed_def env_stamp_def stamp_sub_def time_sub_def max_duration_def min_duration_def)

lemma recover_enters:
  assumes "enters_enforce w (recoverIfGatesPassLocked ca (trackNominalLocked ca w))"
  shows "gates_open (ca_env ca) w \<and> calm_held (ca_env ca) w"
proof (rule recover_cases [of ca "trackNominalLocked ca w"])
  fix m
  let ?w = "trackNominalLocked ca w" and ?min = "wrap64 (rl_MinimumObserveSeconds (effectiveReleaseConfigLocked (rw_ctl w)) * second)"
  assume b: "currentBlockersLocked ca ?w ReleasePhaseEnforce False = []" and ph: "rs_Phase (rw_status ?w) = ReleasePhaseDegraded"
    and ks: "rs_KernelPolicyState (rw_status ?w) = ''verified-enforce''" "rs_FailSafeVerified (rw_status ?w)"
    and ns: "rs_NominalSince (rw_status ?w) \<noteq> None"
    and el: "wrap64 (rl_MinimumObserveSeconds (effectiveReleaseConfigLocked (rw_ctl ?w)) * second) \<le> nominalElapsed (ca_env ca) (rw_ctl ?w)"
  have cal: "\<not> (rs_Phase (rw_status w) \<noteq> ReleasePhaseDegraded \<or> currentBlockersLocked ca w ReleasePhaseEnforce False \<noteq> [])"
  proof
    assume "rs_Phase (rw_status w) \<noteq> ReleasePhaseDegraded \<or> currentBlockersLocked ca w ReleasePhaseEnforce False \<noteq> []"
    then have "rs_NominalSince (rw_status ?w) = None" by (simp only: trackNominalLocked_def if_True world_frame) simp
    with ns show False by simp
  qed
  have "?min \<le> 0 \<or> (rs_NominalSince (rw_status w) \<noteq> None \<and> ?min \<le> nominalElapsed (ca_env ca) (rw_ctl w))"
  proof (cases "rs_NominalSince (rw_status w)")
    case None
    then have "?w = markNominalLocked ca w" using cal by (simp add: trackNominalLocked_def)
    then have "nominalElapsed (ca_env ca) (rw_ctl ?w) = 0" by (simp add: nominal_now markNominalLocked_def upd_status_def)
    with el show ?thesis by simp
  next
    case (Some t)
    then have "?w = w" using cal by (simp add: trackNominalLocked_def)
    with el Some show ?thesis by simp
  qed
  then show ?thesis using gates_open_enforce [OF b] ph ks by (simp add: calm_held_def Let_def)
qed (use assms in \<open>simp_all add: enters_enforce_def\<close>)

lemma evaluate_enters:
  assumes "enters_enforce w (Evaluate ca w)"
  shows "gates_open (ca_env ca) w \<and> calm_held (ca_env ca) w"
proof (rule recover_enters)
  show "enters_enforce w (recoverIfGatesPassLocked ca (trackNominalLocked ca w))"
    using assms by (auto simp: Evaluate_def Let_def enters_enforce_def degrade_result split: if_splits)
qed

lemma transition_enters:
  assumes "enters_enforce w (snd (Transition ca target confirmation reason w))"
  shows "gates_open (ca_env ca) w \<and> canary_soaked (ca_env ca) w"
proof (rule transition_outcome [of ca target confirmation reason w])
  fix t
  assume t: "t = ReleasePhaseObserve \<or> t = ReleasePhaseCanary \<or> t = ReleasePhaseEnforce"
    and b: "t \<noteq> ReleasePhaseObserve \<longrightarrow> currentBlockersLocked ca w t True = []"
    and s: "Transition ca target confirmation reason w = transition_apply ca t reason w"
  from t obtain requested xdr where m: "releaseModes t = Inr (requested, xdr)" by (rule target_modes)
  have "t = ReleasePhaseEnforce"
    using assms unfolding s
    by (cases rule: transition_apply_cases [OF m, where w = w and ca = ca and reason = reason])
       (auto simp: enters_enforce_def transition_done_def Let_def)
  then have e: "currentBlockersLocked ca w ReleasePhaseEnforce True = []" using b by simp
  then have "ladder_blockers (ca_env ca) (rw_ctl w) ReleasePhaseEnforce = []" by (simp add: currentBlockersLocked_def)
  then have "canary_soaked (ca_env ca) w"
    by (simp add: ladder_blockers_def canary_soaked_def soak_minimum_def Let_def rw_status_def not_less split: if_splits)
  then show ?thesis using gates_open_enforce [OF e] by simp
qed (use assms in \<open>simp_all add: enters_enforce_def\<close>)

lemma startup_phase:
  "rs_Phase (rw_status (snd (initializeObserveLocked ca w))) = ReleasePhaseDegraded \<or> rs_Phase (rw_status (snd (initializeObserveLocked ca w))) = ReleasePhaseObserve"
  "rs_Phase (rw_status (snd (InitializeStartup ca e v w))) \<noteq> ReleasePhaseEnforce"
proof -
  show p: "rs_Phase (rw_status (snd (initializeObserveLocked ca w))) = ReleasePhaseDegraded \<or> rs_Phase (rw_status (snd (initializeObserveLocked ca w))) = ReleasePhaseObserve" for ca w
    by (simp add: initializeObserveLocked_def Let_def split: prod.split option.split)
  show "rs_Phase (rw_status (snd (InitializeStartup ca e v w))) \<noteq> ReleasePhaseEnforce"
    using p [of ca w] by (auto simp: InitializeStartup_def degrade_result startup_retain_result)
qed

lemma clear_phase: "\<not> enters_enforce w (snd (ClearEmergencyStop ca confirmation reason w))"
proof -
  let ?w = "w\<lparr> rw_marker := StatNotExist \<rparr>"
  obtain e1 w1 where r1: "reconcileLocked ''observe'' ?w = (e1, w1)" by (rule prod.exhaust)
  have s1: "rw_status w1 = rw_status w" using reconcile_frame(3) [of "''observe''" ?w] r1 by simp
  obtain e2 w2 where r2: "persist_modes ''observe'' ''observe'' w1 = (e2, w2)" by (rule prod.exhaust)
  have s2: "rw_status w2 = rw_status w" using helpers_frame(28) [of "''observe''" "''observe''" w1] r2 s1 by simp
  show ?thesis using s1 s2 by (simp add: ClearEmergencyStop_def r1 r2 enters_enforce_def Let_def split: option.split)
qed

lemma rearm_enters:
  assumes "enters_enforce w (snd (ReArmVerified ca reason w))"
  shows "gates_open (ca_env ca) w \<and> rs_KernelPolicyState (rw_status w) = ''verified-enforce'' \<and> rs_FailSafeVerified (rw_status w)"
proof (rule rearm_cases [of ca reason w])
  assume "currentBlockersLocked ca w ReleasePhaseEnforce False = []" "rs_KernelPolicyState (rw_status w) = ''verified-enforce''"
    "rs_FailSafeVerified (rw_status w)"
  then show ?thesis using gates_open_enforce by blast
qed (use assms in \<open>simp_all add: enters_enforce_def\<close>)

text \<open>The three calls that can enter the enforce phase.\<close>

definition entering_call :: "'l release_call \<Rightarrow> string \<Rightarrow> string \<Rightarrow> string \<Rightarrow> ('k, 'p, 'l) release_world \<Rightarrow> ('k, 'p, 'l) release_world \<Rightarrow> bool" where
  "entering_call ca target confirmation reason w w' \<longleftrightarrow>
     w' = snd (Transition ca target confirmation reason w) \<or> w' = Evaluate ca w \<or> w' = snd (ReArmVerified ca reason w)"

lemma automatic_enters:
  assumes "automatic_step w w'" and "enters_enforce w w'"
  shows "\<exists>ca target confirmation reason. entering_call ca target confirmation reason w w'"
  using assms
proof (induction rule: automatic_step.induct)
  case (auto_evaluate w ca)
  then show ?case by (auto simp: entering_call_def)
next
  case (auto_rearm w ca reason)
  then show ?case by (auto simp: entering_call_def)
next
  case (auto_observe_core w ca success)
  then show ?case by (simp add: ObserveCore_def enters_enforce_def Let_def degrade_result split: if_splits)
next
  case (auto_emergency w ca reason)
  then show ?case by (simp add: EmergencyStop_def case_prod_beta enters_enforce_def degrade_result split: if_splits option.splits)
next
  case (auto_readiness w ca target)
  then show ?case by (simp add: enters_enforce_def)
next
  case (auto_startup w verified enforcement ca)
  then show ?case by (simp add: enters_enforce_def startup_phase)
qed (simp_all add: enters_enforce_def FailSafe_def case_prod_beta Let_def degrade_result ReconcileVerifiedPolicy_def release_Status_def release_Ready_def)

lemma step_enters:
  assumes "release_step w w'" and "enters_enforce w w'"
  shows "\<exists>ca target confirmation reason. entering_call ca target confirmation reason w w'"
  using assms
proof (induction rule: release_step.induct)
  case (step_automatic w w')
  then show ?case by (rule automatic_enters)
next
  case (step_transition w ca target confirmation reason)
  then show ?case by (auto simp: entering_call_def)
next
  case (step_clear w ca confirmation reason)
  then show ?case using clear_phase by blast
next
  case (step_startup w ca enforcement verified)
  then show ?case by (simp add: enters_enforce_def startup_phase)
next
  case (step_other w' w)
  then show ?case by (simp add: enters_enforce_def)
qed (simp_all add: enters_enforce_def AttachKernelExposure_def SetKernelReconciledHook_def rw_status_def)

text \<open>
  C3: The machine enters the enforce phase only through a transition, an evaluation (recovery) or a re-arm. Whenever one of these calls
  enters it, no emergency stop marker is there and every substantive gate is open at the clock readings of that very call (core online, policy verified,
  evidence, XDR and L7 healthy, management allowlist present and synchronised, coverage neither offline nor degraded, heartbeats below the threshold). A transition
  that enters it starts in canary, and at the reading of that call canary has lasted its soak; an evaluation starts in a degraded phase with a
  verified enforcement whose calm has lasted at the reading of that call; a re-arm finds an enforcement that was verified before.
\<close>

theorem enforce_entry_guarded:
  assumes "enters_enforce w w'"
  shows "(w' = snd (Transition ca target confirmation reason w) \<longrightarrow> gates_open (ca_env ca) w \<and> canary_soaked (ca_env ca) w)
     \<and> (w' = Evaluate ca w \<longrightarrow> gates_open (ca_env ca) w \<and> calm_held (ca_env ca) w)
     \<and> (w' = snd (ReArmVerified ca reason w) \<longrightarrow>
          gates_open (ca_env ca) w \<and> rs_KernelPolicyState (rw_status w) = ''verified-enforce'' \<and> rs_FailSafeVerified (rw_status w))
     \<and> (release_step w w' \<longrightarrow> (\<exists>ca target confirmation reason. entering_call ca target confirmation reason w w'))"
  using assms transition_enters [of w ca target confirmation reason] evaluate_enters [of w ca] rearm_enters [of w ca reason] step_enters [of w w'] by blast

section \<open>The confirmation pass\<close>

text \<open>Every block of the list is in the kernel and marked as enforced.\<close>

definition all_confirmed :: "('k \<Rightarrow> string set) \<Rightarrow> ('k, 'p, 'l) release_world \<Rightarrow> bool" where
  "all_confirmed holds w \<longleftrightarrow> (\<forall>t b. gm_get (st_blocks (rw_state w)) t = Some b \<longrightarrow> be_Enforced b \<and> t \<in> holds (rw_kernel w))"

lemma strengthened_enforced: "strengthened b b' \<Longrightarrow> be_Enforced b \<Longrightarrow> be_Enforced b'"
  by (auto simp: strengthened_def)

lemma strengthened_some:
  assumes "blocks_strengthened s s'" "gm_get (st_blocks s) t = Some b" "be_Enforced b"
  shows "\<exists>b'. gm_get (st_blocks s') t = Some b' \<and> be_Enforced b'"
proof -
  have "rel_option strengthened (Some b) (gm_get (st_blocks s') t)" using assms(1,2) unfolding blocks_strengthened_def by metis
  then show ?thesis using assms(3) by (cases "gm_get (st_blocks s') t") (auto dest: strengthened_enforced)
qed

lemma confirm_blocks_success:
  assumes "confirm_blocks core bs (s, k) = (None, s', k')" and "add_keeps holds core" and "b \<in> set bs"
    and "gm_get (st_blocks s) (be_Target b) \<noteq> None"
  shows "be_Target b \<in> holds k' \<and> (\<exists>b'. gm_get (st_blocks s') (be_Target b) = Some b' \<and> be_Enforced b')"
  using assms(1,3,4)
proof (induction bs arbitrary: s k)
  case (Cons c cs)
  obtain e k1 where add: "core_Add core (be_Target c) k = (e, k1)" by (rule prod.exhaust)
  then have "e = None" using Cons.prems(1) by (cases e) simp_all
  with Cons.prems(1) add have run: "confirm_blocks core cs (snd (SetBlockEnforced (be_Target c) True s), k1) = (None, s', k')" by simp
  have k1: "be_Target c \<in> holds k1" using assms(2) add \<open>e = None\<close> by (simp add: add_keeps_def)
  note keep = confirm_blocks_retains [OF run assms(2)]
  show ?case
  proof (cases "be_Target b = be_Target c")
    case True
    then obtain x where "gm_get (st_blocks s) (be_Target c) = Some x" using Cons.prems(3) by auto
    then have "gm_get (st_blocks (snd (SetBlockEnforced (be_Target c) True s))) (be_Target c) = Some (x\<lparr> be_Enforced := True \<rparr>)"
      by (simp add: SetBlockEnforced_def)
    from strengthened_some [OF conjunct2 [OF keep] this] show ?thesis using k1 keep True by auto
  next
    case False
    then have "b \<in> set cs" using Cons.prems(2) by auto
    moreover have "gm_get (st_blocks (snd (SetBlockEnforced (be_Target c) True s))) (be_Target b) \<noteq> None"
      using Cons.prems(3) by (simp add: SetBlockEnforced_def split: option.split)
    ultimately show ?thesis using Cons.IH [OF run] by blast
  qed
qed simp

lemma snapshot_members: "b \<in> set (BlocksSnapshot s) \<longleftrightarrow> b \<in> snd ` set (st_blocks s)"
  by (simp add: BlocksSnapshot_def)

lemma reconcileVerified_confirms:
  assumes "fst (reconcileVerifiedLocked w) = None" and "core_keeps holds w" and wf: "blocks_wf (rw_state w)"
  shows "all_confirmed holds (snd (reconcileVerifiedLocked w))"
proof -
  obtain core where core: "rc_core (rw_ctl w) = Some core" using assms(1) by (cases "rc_core (rw_ctl w)") (simp_all add: reconcileVerifiedLocked_def)
  obtain err s' k' where c: "confirm_blocks core (BlocksSnapshot (rw_state w)) (rw_state w, rw_kernel w) = (err, s', k')" by (metis prod_cases3)
  have n: "err = None" using assms(1) by (simp add: reconcileVerifiedLocked_def core c)
  have k: "add_keeps holds core" using assms(2) core by (simp add: core_keeps_def)
  have "be_Enforced b' \<and> t \<in> holds k'" if b': "gm_get (st_blocks s') t = Some b'" for t b'
  proof -
    have "rel_option strengthened (gm_get (st_blocks (rw_state w)) t) (gm_get (st_blocks s') t)"
      using confirm_blocks_retains [OF c k] by (simp add: blocks_strengthened_def)
    then obtain b where b: "gm_get (st_blocks (rw_state w)) t = Some b" using b' by (cases "gm_get (st_blocks (rw_state w)) t") auto
    have t: "be_Target b = t" using blocks_wfD(3) [OF wf b] .
    have "b \<in> set (BlocksSnapshot (rw_state w))" using map_of_SomeD [OF b] by (force simp: snapshot_members)
    from confirm_blocks_success [OF c [unfolded n] k this] show ?thesis using b b' t by auto
  qed
  then show ?thesis by (simp add: all_confirmed_def reconcileVerifiedLocked_def core c)
qed

lemma all_confirmed_same:
  "rw_kernel w' = rw_kernel u \<Longrightarrow> st_blocks (rw_state w') = st_blocks (rw_state u) \<Longrightarrow> all_confirmed holds u \<Longrightarrow> all_confirmed holds w'"
  by (simp add: all_confirmed_def)

lemma all_confirmed_frame [simp]:
  "all_confirmed holds (refresh_publish ca w) = all_confirmed holds w" "all_confirmed holds (emit ca a b c d w) = all_confirmed holds w"
  "all_confirmed holds (enter_enforce ca x w) = all_confirmed holds w"
  by (simp_all add: all_confirmed_def)

lemma degrade_confirms:
  assumes "fst (degradeLocked ca reason w) = None" "core_keeps holds w" "blocks_wf (rw_state w)"
  shows "all_confirmed holds (snd (degradeLocked ca reason w))"
proof -
  let ?u = "on_state (SetModes ''unverified'' ''observe'') w"
  have "core_keeps holds ?u" "blocks_wf (rw_state ?u)" using assms(2,3) by (simp_all add: core_keeps_def blocks_wf_def SetModes_def)
  from reconcileVerified_confirms [OF degrade_result(11) [OF assms(1)] this]
  show ?thesis by (rule all_confirmed_same [rotated 2]) (simp_all add: degrade_result confirmed_def)
qed

lemma recover_confirms:
  assumes "enters_enforce w (recoverIfGatesPassLocked ca w)" "core_keeps holds w" "blocks_wf (rw_state w)"
  shows "all_confirmed holds (recoverIfGatesPassLocked ca w)"
proof (rule recover_cases [of ca w])
  fix m
  assume "fst (reconcileVerifiedLocked w) = None" and "recoverIfGatesPassLocked ca w = emit ca ''high'' ''release.recovered'' ''release-gate'' m
         (enter_enforce ca ''recovered to enforce after the cause cleared and the calm held'' (snd (reconcileVerifiedLocked w)))"
  then show ?thesis using reconcileVerified_confirms [OF _ assms(2,3)] by (simp only: all_confirmed_frame)
qed (use assms in \<open>simp_all add: enters_enforce_def\<close>)

lemma rearm_confirms:
  assumes "enters_enforce w (snd (ReArmVerified ca reason w))" "core_keeps holds w" "blocks_wf (rw_state w)"
  shows "all_confirmed holds (snd (ReArmVerified ca reason w))"
proof (rule rearm_cases [of ca reason w])
  fix m
  assume "fst (reconcileVerifiedLocked w) = None" and "snd (ReArmVerified ca reason w) = emit ca ''high'' ''release.startup_rearmed'' ''release-gate'' m
         (enter_enforce ca ''startup self-check verified every module; enforcement re-armed without the ladder'' (snd (reconcileVerifiedLocked w)))"
  then show ?thesis using reconcileVerified_confirms [OF _ assms(2,3)] by (simp only: all_confirmed_frame)
qed (use assms in \<open>simp_all add: enters_enforce_def\<close>)

text \<open>
  C6: After a fail-safe without an error, and when an evaluation or a re-arm returns to the enforce phase, the kernel accepted every block of the
  list in that pass: each one is in the kernel and marked as enforced. These three calls confirm through \<open>reconcileVerifiedLocked\<close>. A transition
  of the operator is not covered: it goes through \<open>reconcileLocked\<close>, which skips the blocks that are already marked as enforced.
\<close>

theorem verified_enforce_confirmed:
  assumes "core_keeps holds w" and "blocks_wf (rw_state w)"
  shows "(fst (FailSafe ca reason w) = None \<longrightarrow> all_confirmed holds (snd (FailSafe ca reason w)))
     \<and> (enters_enforce w (Evaluate ca w) \<longrightarrow> all_confirmed holds (Evaluate ca w))
     \<and> (enters_enforce w (snd (ReArmVerified ca reason w)) \<longrightarrow> all_confirmed holds (snd (ReArmVerified ca reason w)))"
proof (intro conjI impI)
  assume "fst (FailSafe ca reason w) = None"
  then show "all_confirmed holds (snd (FailSafe ca reason w))"
    using degrade_confirms [OF _ assms] by (simp add: FailSafe_def Let_def case_prod_beta)
next
  assume e: "enters_enforce w (Evaluate ca w)"
  let ?u = "trackNominalLocked ca w"
  have u: "core_keeps holds ?u" "blocks_wf (rw_state ?u)" using assms by (simp_all add: core_keeps_def)
  have "Evaluate ca w = refresh_publish ca (recoverIfGatesPassLocked ca ?u)"
    using e by (auto simp: Evaluate_def Let_def enters_enforce_def degrade_result split: if_splits)
  moreover from this e have "enters_enforce ?u (recoverIfGatesPassLocked ca ?u)" by (simp add: enters_enforce_def)
  ultimately show "all_confirmed holds (Evaluate ca w)"
    using recover_confirms [OF _ u] by (simp only: all_confirmed_frame)
qed (rule rearm_confirms [OF _ assms])

section \<open>Recovery\<close>

lemma confirm_succeeds:
  assumes "\<forall>t k. fst (core_Add core t k) = None"
  shows "fst (confirm_blocks core bs (s, k)) = None"
  using assms
proof (induction bs arbitrary: s k)
  case (Cons b bs)
  then show ?case by (cases "core_Add core (be_Target b) k") (metis (no_types, lifting) confirm_blocks.simps(2) fst_conv option.simps(4) case_prod_conv)
qed simp

lemma reconcileVerified_succeeds:
  "rc_core (rw_ctl w) = Some core \<Longrightarrow> \<forall>t k. fst (core_Add core t k) = None \<Longrightarrow> fst (reconcileVerifiedLocked w) = None"
  using confirm_succeeds [of core "BlocksSnapshot (rw_state w)" "rw_state w" "rw_kernel w"]
  by (simp add: reconcileVerifiedLocked_def case_prod_beta)

lemma recover_fires:
  assumes "rs_Phase (rw_status w) = ReleasePhaseDegraded" "\<not> rs_EmergencyStop (rw_status w)"
    "rs_KernelPolicyState (rw_status w) = ''verified-enforce''" "rs_FailSafeVerified (rw_status w)" "rs_NominalSince (rw_status w) = Some t"
    "wrap64 (rl_MinimumObserveSeconds (effectiveReleaseConfigLocked (rw_ctl w)) * second) \<le> nominalElapsed (ca_env ca) (rw_ctl w)"
    "currentBlockersLocked ca w ReleasePhaseEnforce False = []" "fst (reconcileVerifiedLocked w) = None"
  shows "\<exists>m. recoverIfGatesPassLocked ca w = emit ca ''high'' ''release.recovered'' ''release-gate'' m
         (enter_enforce ca ''recovered to enforce after the cause cleared and the calm held'' (snd (reconcileVerifiedLocked w)))"
proof -
  obtain w1 where r: "reconcileVerifiedLocked w = (None, w1)" using assms(8) by (metis prod.collapse)
  show ?thesis
    by (rule exI [of _ "''Automatic response resumed; kernel enforcement stayed in place throughout. Cause was: '' @ rs_FailSafeReason (rw_status w1)"])
       (use assms(1-7) r in \<open>simp add: recoverIfGatesPassLocked_def Let_def\<close>)
qed

text \<open>The first evaluation of a calm platform starts the soak and nothing else.\<close>

lemma first_evaluation:
  assumes "rs_Phase (rw_status w) = ReleasePhaseDegraded" "rs_NominalSince (rw_status w) = None"
    "currentBlockersLocked ca w ReleasePhaseEnforce False = []"
    "0 < wrap64 (rl_MinimumObserveSeconds (effectiveReleaseConfigLocked (rw_ctl w)) * second)"
  shows "Evaluate ca w = refresh_publish ca (markNominalLocked ca w)"
proof -
  have t: "trackNominalLocked ca w = markNominalLocked ca w" using assms(1-3) by (simp add: trackNominalLocked_def)
  have z: "nominalElapsed (ca_env ca) (rw_ctl (markNominalLocked ca w)) = 0" by (simp add: nominal_now markNominalLocked_def upd_status_def)
  have "effectiveReleaseConfigLocked (rw_ctl (markNominalLocked ca w)) = effectiveReleaseConfigLocked (rw_ctl w)"
    using effective_track [of ca w] unfolding t .
  then have "recoverIfGatesPassLocked ca (markNominalLocked ca w) = markNominalLocked ca w"
    using assms(4) z by (simp add: recoverIfGatesPassLocked_def Let_def)
  then show ?thesis using assms(1) by (simp add: Evaluate_def t)
qed

lemma refresh_fields:
  "rc_cfg (rw_ctl (refresh_publish ca w)) = rc_cfg (rw_ctl w)" "rc_settings (rw_ctl (refresh_publish ca w)) = rc_settings (rw_ctl w)"
  "rc_release (rw_ctl (refresh_publish ca w)) = rc_release (rw_ctl w)" "rc_monoNominal (rw_ctl (refresh_publish ca w)) = rc_monoNominal (rw_ctl w)"
  "rc_exposure (rw_ctl (refresh_publish ca w)) = rc_exposure (rw_ctl w)" "rs_CoreMisses (rw_status (refresh_publish ca w)) = rs_CoreMisses (rw_status w)"
  "rw_state (refresh_publish ca w) = SetReleaseStatus (rw_status (refresh_publish ca w)) (rw_state w)"
  by (simp_all add: refresh_publish_def refreshLocked_def Let_def, simp_all add: publish_def upd_status_def rw_status_def on_state_def)

lemma refresh_settings: "runtimeSettingsLocked (rw_ctl (refresh_publish ca w)) = runtimeSettingsLocked (rw_ctl w)"
  by (simp add: runtimeSettingsLocked_def refresh_fields split: option.split)

lemma refresh_ctl:
  "rc_monoNominal (rw_ctl (refresh_publish ca w)) = rc_monoNominal (rw_ctl w)"
  "effectiveReleaseConfigLocked (rw_ctl (refresh_publish ca w)) = effectiveReleaseConfigLocked (rw_ctl w)"
  by (simp_all add: refresh_fields effectiveReleaseConfigLocked_def refresh_settings)

text \<open>
  C5: A degraded platform that kept a verified enforcement returns to the enforce phase by itself: when an
  evaluation finds every gate open, and a later one, at least the configured soak away on the monotonic clock,
  finds them open again and the kernel accepts the blocks, the second one enters the enforce phase, whatever other components did
  to the state and the kernel in between.
\<close>

theorem recovery_happens:
  assumes degraded: "rs_Phase (rw_status w) = ReleasePhaseDegraded" "rs_KernelPolicyState (rw_status w) = ''verified-enforce''"
      "rs_FailSafeVerified (rw_status w)" "rs_NominalSince (rw_status w) = None"
    and soak: "minimum = wrap64 (rl_MinimumObserveSeconds (effectiveReleaseConfigLocked (rw_ctl w)) * second)" "0 < minimum"
    and calm: "currentBlockersLocked ca w ReleasePhaseEnforce False = []"
    and between: "rw_ctl w2 = rw_ctl (Evaluate ca w)"
    and calm': "currentBlockersLocked ca' w2 ReleasePhaseEnforce False = []"
    and held: "minimum \<le> time_sub (env_mono (ca_env ca')) (env_mono (ca_env ca))"
    and kernel: "rc_core (rw_ctl w2) = Some core" "\<forall>t k. fst (core_Add core t k) = None"
  shows "rs_Phase (st_release (rw_state (Evaluate ca' w2))) = ReleasePhaseEnforce
     \<and> Modes (rw_state (Evaluate ca' w2)) = (''enforce'', ''enforce'')"
proof -
  note first = first_evaluation [OF degraded(1,4) calm soak(2) [unfolded soak(1)]]
  let ?m = "refresh_publish ca (markNominalLocked ca w)"
  have ctl: "rw_ctl w2 = rw_ctl ?m" using between first by simp
  then have st: "rw_status w2 = rw_status ?m" by (simp add: rw_status_def)
  have mk: "rw_status (markNominalLocked ca w) = (rw_status w)\<lparr> rs_NominalSince := Some (env_now (ca_env ca)) \<rparr>"
    "rw_marker (markNominalLocked ca w) = rw_marker w" "rc_monoNominal (rw_ctl (markNominalLocked ca w)) = Some (env_stamp (ca_env ca))"
    by (simp_all add: markNominalLocked_def upd_status_def rw_status_def)
  have eff: "effectiveReleaseConfigLocked (rw_ctl w2) = effectiveReleaseConfigLocked (rw_ctl w)"
    using effective_track [of ca w] degraded(1,4) calm by (simp add: ctl refresh_ctl trackNominalLocked_def)
  have marker: "rw_marker w = StatNotExist" using gates_open_enforce [OF calm] by (simp add: gates_open_def Let_def)
  have track: "trackNominalLocked ca' w2 = w2" using calm' st mk degraded by (simp add: trackNominalLocked_def)
  have "nominalElapsed (ca_env ca') (rw_ctl w2) = time_sub (env_mono (ca_env ca')) (env_mono (ca_env ca))"
    using mk st [unfolded rw_status_def] refresh_frame(11) [of ca "markNominalLocked ca w"]
    by (simp add: nominalElapsed_def ctl refresh_ctl env_stamp_def stamp_sub_def rw_status_def)
  then have "wrap64 (rl_MinimumObserveSeconds (effectiveReleaseConfigLocked (rw_ctl w2)) * second) \<le> nominalElapsed (ca_env ca') (rw_ctl w2)"
    using held soak(1) eff by simp
  from recover_fires [OF _ _ _ _ _ this calm' reconcileVerified_succeeds [OF kernel]] st mk degraded marker
  obtain m where "recoverIfGatesPassLocked ca' w2 = emit ca' ''high'' ''release.recovered'' ''release-gate'' m
         (enter_enforce ca' ''recovered to enforce after the cause cleared and the calm held'' (snd (reconcileVerifiedLocked w2)))" by auto
  then have "Evaluate ca' w2 = refresh_publish ca' (emit ca' ''high'' ''release.recovered'' ''release-gate'' m
         (enter_enforce ca' ''recovered to enforce after the cause cleared and the calm held'' (snd (reconcileVerifiedLocked w2))))"
    using st mk degraded by (simp add: Evaluate_def track)
  then show ?thesis by (simp add: Modes_def)
qed

section \<open>A platform that recovers\<close>

definition calm_config :: "Config \<Rightarrow> Config" where
  "calm_config c = (ready_config c)\<lparr> cf_L7Enabled := False, cf_L7InlineEnabled := False \<rparr>"

definition calm_state :: "Config \<Rightarrow> nat State" where
  "calm_state c = ready_state (calm_config c) [(''10.0.0.7/32'', sample_entry 5)]"

definition calm_status :: ReleaseStatus where
  "calm_status = \<lparr> rs_Channel = ''beta'', rs_Phase = ReleasePhaseDegraded, rs_Since = 1, rs_Ready = False, rs_Blockers = [], rs_CoreMisses = 0,
     rs_EmergencyStop = False, rs_FailSafeVerified = True, rs_KernelPolicyState = ''verified-enforce'', rs_LastTransition = Some 1,
     rs_Detail = [], rs_FailSafeReason = ''heartbeat lost'', rs_FailSafeAt = Some 1, rs_NominalSince = None \<rparr>"

definition calm_world :: "Config \<Rightarrow> (string set, BlockEntry list, nat) release_world" where
  "calm_world c = sample_world (calm_config c) calm_status (calm_state c) {''10.0.0.7/32''}"

lemma snapshot_evidence: "sn_Evidence (state_Snapshot en k s) = st_evidenceStatus s"
  by (simp add: state_Snapshot_def Let_def case_prod_beta)

lemma calm_coverage:
  assumes "st_sensors s = st_sensors (calm_state c)" "st_l7 s = st_l7 (calm_state c)"
  shows "sy_OverallStatus (snd (derivedCoverageLocked en s)) = CoverageOnline"
    "gm_get (sy_Sensors (snd (derivedCoverageLocked en s))) ''xdp_ingress'' = gm_get (st_sensors (calm_state c)) ''xdp_ingress''"
proof -
  have off: "\<not> l7_Enabled (st_l7 s)" "\<not> l7_CoverageRequired (st_l7 s)"
    using assms(2) by (simp_all add: calm_state_def ready_state_def NewState_def calm_config_def Let_def)
  have sens: "st_sensors s = [(''xdp_ingress'', \<lparr> sc_Name = ''xdp_ingress'', sc_Layer = LayerIngressNetwork, sc_Status = CoverageOnline,
       sc_Required = True, sc_LastOK = Some 1, sc_LastError = [], sc_SelfTest = ''pass'', sc_CoverageReason = [] \<rparr>)]"
    using assms(1) by (simp add: calm_state_def ready_state_def Let_def)
  show "sy_OverallStatus (snd (derivedCoverageLocked en s)) = CoverageOnline"
  proof -
    obtain l cov where d: "derivedCoverageLocked en s = (l, cov)" by (rule prod.exhaust)
    note l = derived_l7_fields(1,5) [OF d]
    have "\<not> sc_Required (deriveL7SensorCoverage l (l7_Healthy l))" using l(2) off(2) by (simp add: deriveL7SensorCoverage_def split: prod.split)
    then show ?thesis by (simp add: d l(1) EvaluateCoverage_cases sens sensor_offline_def sensor_degraded_def)
  qed
  have "gm_wf (st_sensors s)" by (simp add: sens gm_wf_def)
  from derived_sensor [OF this, of en "''xdp_ingress''"] assms(1)
  show "gm_get (sy_Sensors (snd (derivedCoverageLocked en s))) ''xdp_ingress'' = gm_get (st_sensors (calm_state c)) ''xdp_ingress''" by simp
qed

text \<open>The gates are open as long as only the published release status changes.\<close>

lemma calm_gates:
  assumes "rw_marker w = StatNotExist" "rw_state w = SetReleaseStatus x (calm_state c)" "rc_cfg (rw_ctl w) = calm_config c"
    "rc_settings (rw_ctl w) = None" "rc_release (rw_ctl w) = sample_release" "rc_exposure (rw_ctl w) = None"
    "rs_CoreMisses (rw_status w) = 0" "rs_FailSafeVerified (rw_status w)" "rs_KernelPolicyState (rw_status w) = ''verified-enforce''"
  shows "currentBlockersLocked ca w ReleasePhaseEnforce False = []"
proof -
  let ?s = "SetReleaseStatus x (calm_state c)" and ?en = "ca_env ca"
  have sets: "runtimeSettingsLocked (rw_ctl w) = defaultRuntimeSettings (calm_config c) sample_release"
    using assms by (simp add: runtimeSettingsLocked_def)
  have cfg: "effectiveReleaseConfigLocked (rw_ctl w) = sample_release"
    using assms by (simp add: effectiveReleaseConfigLocked_def sets defaultRuntimeSettings_def sample_release_def Let_def)
  have cov: "sy_OverallStatus (snd (derivedCoverageLocked ?en ?s)) = CoverageOnline"
    "gm_get (sy_Sensors (snd (derivedCoverageLocked ?en ?s))) ''xdp_ingress'' = gm_get (st_sensors (calm_state c)) ''xdp_ingress''"
    by (rule calm_coverage; simp add: SetReleaseStatus_def)+
  have fields: "cf_PolicyRequireSigned (calm_config c) \<longrightarrow> ps_Verified (st_policy ?s)" "\<not> es_Enabled (st_evidenceStatus ?s)" "\<not> xs_Degraded (st_xdr ?s)"
    "\<not> cf_L7Enabled (calm_config c)" "\<not> cf_L7InlineEnabled (calm_config c)" "st_coreConnected ?s" "st_allowlistReady ?s" "xs_EvaluationsTotal (st_xdr ?s) = 0"
    "df_Allowlist (cf_Defense (calm_config c)) \<noteq> []"
    by (simp_all add: SetReleaseStatus_def calm_state_def ready_state_def NewState_def calm_config_def ready_config_def Let_def)
  have allow: "rt_ManagementAllowlist (defaultRuntimeSettings (calm_config c) sample_release) \<noteq> []"
    using fields(9) by (simp add: defaultRuntimeSettings_def Let_def)
  have "gm_get (st_sensors (calm_state c)) ''xdp_ingress'' = Some \<lparr> sc_Name = ''xdp_ingress'', sc_Layer = LayerIngressNetwork, sc_Status = CoverageOnline,
       sc_Required = True, sc_LastOK = Some 1, sc_LastError = [], sc_SelfTest = ''pass'', sc_CoverageReason = [] \<rparr>"
    by (simp add: calm_state_def ready_state_def Let_def)
  then have "state_blockers ?en (rw_marker w) (rw_ctl w) (rw_state w) ReleasePhaseEnforce = []"
    using fields cov assms(1-3) sets allow
    by (simp add: state_blockers_def releaseModes_def retainedEnforcementLocked_def snapshot_health snapshot_evidence Let_def)
  moreover have "status_blockers (rw_ctl w) (rw_state w) ReleasePhaseEnforce = []"
    using fields(8) assms(6-9) cfg
    by (simp add: status_blockers_def rw_status_def kernelPolicyVerified_def sample_release_def assms(2) Let_def)
  ultimately show ?thesis by (simp add: currentBlockersLocked_def)
qed

lemma calm_start: "currentBlockersLocked ca (calm_world c) ReleasePhaseEnforce False = []"
  by (rule calm_gates [where x = "st_release (calm_state c)" and c = c])
     (simp_all add: calm_world_def sample_world_def sample_controller_def calm_status_def rw_status_def SetReleaseStatus_def)

lemma calm_status_fields:
  "rw_status (calm_world c) = calm_status" "rc_settings (rw_ctl (calm_world c)) = None" "rc_release (rw_ctl (calm_world c)) = sample_release"
  "rc_cfg (rw_ctl (calm_world c)) = calm_config c" "rc_exposure (rw_ctl (calm_world c)) = None" "rc_core (rw_ctl (calm_world c)) = Some set_release_core"
  "rw_state (calm_world c) = calm_state c" "rw_marker (calm_world c) = StatNotExist" "rw_kernel (calm_world c) = {''10.0.0.7/32''}"
  by (simp_all add: calm_world_def sample_world_def sample_controller_def rw_status_def)

lemma calm_soak: "wrap64 (rl_MinimumObserveSeconds (effectiveReleaseConfigLocked (rw_ctl (calm_world c))) * second) = 300 * second"
  by (simp add: effectiveReleaseConfigLocked_def runtimeSettingsLocked_def calm_status_fields defaultRuntimeSettings_def sample_release_def wrap64_def Let_def)

lemma calm_first:
  "Evaluate ca (calm_world c) = refresh_publish ca (markNominalLocked ca (calm_world c))"
  by (rule first_evaluation) (simp_all add: calm_status_fields calm_status_def calm_start calm_soak)

lemma calm_second: "currentBlockersLocked ca' (Evaluate ca (calm_world c)) ReleasePhaseEnforce False = []"
proof -
  have mark: "rw_state (markNominalLocked ca w) = rw_state w" "rw_marker (markNominalLocked ca w) = rw_marker w"
    "rc_cfg (rw_ctl (markNominalLocked ca w)) = rc_cfg (rw_ctl w)" "rc_settings (rw_ctl (markNominalLocked ca w)) = rc_settings (rw_ctl w)"
    "rc_release (rw_ctl (markNominalLocked ca w)) = rc_release (rw_ctl w)" "rc_exposure (rw_ctl (markNominalLocked ca w)) = rc_exposure (rw_ctl w)"
    "rw_status (markNominalLocked ca w) = (rw_status w)\<lparr> rs_NominalSince := Some (env_now (ca_env ca)) \<rparr>" for ca and w :: "('a, 'b, 'd) release_world"
    by (simp_all add: markNominalLocked_def upd_status_def rw_status_def)
  show ?thesis
    by (rule calm_gates [where c = c and x = "rw_status (refresh_publish ca (markNominalLocked ca (calm_world c)))"])
       (simp_all add: calm_first refresh_fields mark calm_status_fields, simp_all add: calm_status_def)
qed

lemma calm_core: "rc_core (rw_ctl (Evaluate ca (calm_world c))) = Some set_release_core"
  by (simp add: calm_first markNominalLocked_def calm_status_fields)

lemma set_core_accepts: "\<forall>t k. fst (core_Add set_release_core t k) = None"
  by (simp add: set_release_core_def)

definition call_at :: "int \<Rightarrow> nat release_call" where
  "call_at t = \<lparr> ca_env = demo_env t t, ca_later = wall_stamp t, ca_ingest = None, ca_write = None, ca_remove = None \<rparr>"

theorem recovery_happens_witness:
  "\<forall>c. rs_Phase (st_release (rw_state (Evaluate (call_at (400 * second)) (Evaluate (call_at (100 * second)) (calm_world c))))) = ReleasePhaseEnforce"
proof
  fix c
  have "300 * second \<le> time_sub (env_mono (ca_env (call_at (400 * second)))) (env_mono (ca_env (call_at (100 * second))))"
    by (simp add: call_at_def demo_env_def go_time_simps)
  from recovery_happens [OF _ _ _ _ calm_soak [symmetric] _ calm_start refl calm_second this calm_core set_core_accepts]
  show "rs_Phase (st_release (rw_state (Evaluate (call_at (400 * second)) (Evaluate (call_at (100 * second)) (calm_world c))))) = ReleasePhaseEnforce"
    by (simp add: calm_status_fields calm_status_def)
qed

text \<open>The re-arm of the same platform.\<close>

lemma calm_rearm: "enters_enforce (calm_world c) (snd (ReArmVerified ca reason (calm_world c)))"
proof -
  have "fst (reconcileVerifiedLocked (calm_world c)) = None"
    by (rule reconcileVerified_succeeds [OF calm_status_fields(6) set_core_accepts])
  then obtain w1 where "reconcileVerifiedLocked (calm_world c) = (None, w1)" by (metis prod.collapse)
  then show ?thesis
    by (simp add: enters_enforce_def ReArmVerified_def calm_start calm_status_fields calm_status_def Let_def)
qed

theorem enforce_entry_guarded_witness:
  "\<forall>c. gates_open (ca_env (call_at 5)) (calm_world c)
     \<and> (\<exists>ca target confirmation reason. entering_call ca target confirmation reason (calm_world c) (snd (ReArmVerified (call_at 5) ''self check'' (calm_world c))))"
proof
  fix c
  let ?w' = "snd (ReArmVerified (call_at 5) ''self check'' (calm_world c))"
  have "release_step (calm_world c) ?w'" by (rule step_automatic, rule auto_rearm)
  moreover have e: "enters_enforce (calm_world c) ?w'" by (rule calm_rearm)
  ultimately
  show "gates_open (ca_env (call_at 5)) (calm_world c) \<and> (\<exists>ca target confirmation reason. entering_call ca target confirmation reason (calm_world c) ?w')"
    using enforce_entry_guarded [OF e, of "call_at 5" "[]" "[]" "''self check''"] by blast
qed

theorem verified_enforce_confirmed_witness:
  "\<forall>c. all_confirmed (\<lambda>ks. ks) (snd (ReArmVerified (call_at 5) ''self check'' (calm_world c)))"
proof
  fix c
  have k: "core_keeps (\<lambda>ks. ks) (calm_world c)" by (simp add: calm_world_def sample_core_keeps)
  have wf: "blocks_wf (rw_state (calm_world c))"
    using normalizeTarget_idem [OF sample_target]
    by (simp add: calm_status_fields calm_state_def blocks_wf_def ready_blocks gm_wf_def sample_entry_def)
  from verified_enforce_confirmed [OF k wf] calm_rearm
  show "all_confirmed (\<lambda>ks. ks) (snd (ReArmVerified (call_at 5) ''self check'' (calm_world c)))" by blast
qed

section \<open>The soak of the ladder runs on the wall clock\<close>

lemma reconcile_observe_ok:
  "rc_core (rw_ctl w) = Some set_release_core \<Longrightarrow> fst (reconcileLocked ''observe'' w) = None"
  by (simp add: reconcileLocked_def set_release_core_def Let_def)

text \<open>
  C13: A transition takes one clock reading for the published phase start and another for its monotonic anchor. When the two
  differ, the soak of the next promotion is measured on the wall clock alone: the monotonic reading has no
  influence on the ladder, so a forward step of the wall clock satisfies it at once.
\<close>

theorem ladder_soak_on_wall_clock:
  assumes "Transition ca target confirmation reason w = (None, w')" and "rs_Phase (rw_status w') \<noteq> rs_Phase (rw_status w)"
    and "gs_wall (ca_later ca) \<noteq> env_now (ca_env ca)"
  shows "sinceElapsed en (rw_ctl w') = time_sub (env_now en) (env_now (ca_env ca))
     \<and> (env_now en = env_now en' \<longrightarrow> ladder_blockers en (rw_ctl w') next_phase = ladder_blockers en' (rw_ctl w') next_phase)"
proof -
  have "rs_Since (rc_status (rw_ctl w')) = env_now (ca_env ca) \<and> rc_monoSince (rw_ctl w') = ca_later ca"
  proof (rule transition_outcome [of ca target confirmation reason w])
    fix t
    assume t: "t = ReleasePhaseObserve \<or> t = ReleasePhaseCanary \<or> t = ReleasePhaseEnforce"
      and s: "Transition ca target confirmation reason w = transition_apply ca t reason w"
    from t obtain requested xdr where m: "releaseModes t = Inr (requested, xdr)" by (rule target_modes)
    show ?thesis
      using assms(1) unfolding s
      by (cases rule: transition_apply_cases [OF m, where w = w and ca = ca and reason = reason])
         (auto simp: transition_done_def enter_phase_def upd_status_def Let_def)
  qed (use assms(1,2) in simp_all)
  then have e: "sinceElapsed en (rw_ctl w') = time_sub (env_now en) (env_now (ca_env ca))" for en :: "'c env"
    using assms(3) by (simp add: sinceElapsed_def)
  then show ?thesis by (simp add: ladder_blockers_def Let_def)
qed

lemma calm_return:
  obtains w' where "Transition ca ''observe'' ''RETURN:OBSERVE'' ''maintenance window'' (calm_world c) = (None, w')"
    "rs_Phase (rw_status w') = ReleasePhaseObserve"
proof -
  have t: "map to_lower_char (trim_space ''observe'') = ReleasePhaseObserve"
    by (simp add: trim_space_graphic graphic_def to_lower_char_def)
  have r: "\<not> bad_reason ''maintenance window''" by (simp add: bad_reason_def trim_space_graphic graphic_def)
  have m: "releaseModes ReleasePhaseObserve = Inr (''observe'', ''observe'')" by (simp add: releaseModes_def)
  let ?w = "calm_world c"
  obtain w1 where r1: "reconcileLocked ''observe'' ?w = (None, w1)"
    using reconcile_observe_ok [OF calm_status_fields(6), of c] by (metis prod.collapse)
  have "rw_ctl w1 = rw_ctl ?w" using reconcile_frame(1) [of "''observe''" ?w] r1 by simp
  then have "rc_policy (rw_ctl w1) = list_store (st_policy (calm_state c))"
    by (simp add: calm_world_def sample_world_def sample_controller_def)
  then obtain w2 where r2: "persist_modes ''observe'' ''observe'' w1 = (None, w2)" by (simp add: persist_modes_def list_store_def)
  have tr: "Transition ca ''observe'' ''RETURN:OBSERVE'' ''maintenance window'' ?w = transition_apply ca ReleasePhaseObserve ''maintenance window'' ?w"
    by (simp add: Transition_def t r confirmation_phrase_def calm_status_fields calm_status_def Let_def)
  have ap: "fst (transition_apply ca ReleasePhaseObserve ''maintenance window'' ?w) = None
      \<and> rs_Phase (rw_status (snd (transition_apply ca ReleasePhaseObserve ''maintenance window'' ?w))) = ReleasePhaseObserve"
    by (simp add: transition_apply_def m retainedEnforcementLocked_def r1 r2 Let_def case_prod_beta)
  show thesis by (rule that [OF prod_eqI, of "snd (transition_apply ca ReleasePhaseObserve ''maintenance window'' ?w)"]) (simp_all only: tr ap fst_conv snd_conv)
qed

theorem ladder_soak_on_wall_clock_witness:
  "\<forall>c. \<exists>w'. Transition ((call_at (500 * second))\<lparr> ca_later := wall_stamp (500 * second + 1) \<rparr>) ''observe'' ''RETURN:OBSERVE'' ''maintenance window'' (calm_world c) = (None, w')
     \<and> sinceElapsed (demo_env (900 * second) (501 * second)) (rw_ctl w') = 400 * second"
proof
  fix c
  let ?ca = "(call_at (500 * second))\<lparr> ca_later := wall_stamp (500 * second + 1) \<rparr>"
  obtain w' where w': "Transition ?ca ''observe'' ''RETURN:OBSERVE'' ''maintenance window'' (calm_world c) = (None, w')"
    "rs_Phase (rw_status w') = ReleasePhaseObserve" by (rule calm_return)
  have "rs_Phase (rw_status w') \<noteq> rs_Phase (rw_status (calm_world c))" "gs_wall (ca_later ?ca) \<noteq> env_now (ca_env ?ca)"
    using w'(2) by (simp_all add: calm_status_fields calm_status_def call_at_def wall_stamp_def demo_env_def)
  from ladder_soak_on_wall_clock [OF w'(1) this, of "demo_env (900 * second) (501 * second)"] w'(1)
  show "\<exists>w'. Transition ?ca ''observe'' ''RETURN:OBSERVE'' ''maintenance window'' (calm_world c) = (None, w')
     \<and> sinceElapsed (demo_env (900 * second) (501 * second)) (rw_ctl w') = 400 * second"
    by (simp add: call_at_def demo_env_def go_time_simps)
qed

section \<open>A cleared kernel behind an enforcing status\<close>

lemma apply_blocks_flagged: "\<forall>b \<in> set bs. be_Enforced b \<Longrightarrow> apply_blocks core applied bs (s, k) = (None, s, k)"
  by (induction bs) simp_all

text \<open>
  C12: When the operator returns a platform of verified enforcement to observe, the kernel clears its list and the check that it is empty fails, the
  call returns an error and changes nothing but the kernel: the kernel is empty while the status still reports verified enforcement and every block keeps its
  enforcement flag. A later reconciliation to enforce trusts the flags: it succeeds, and no block of the list is in the kernel afterwards. Assumed is that the clear that
  succeeded left the kernel empty, that every block was flagged as enforced, and that the callback after a reconciliation, which
  republishes the threat feeds, publishes no block of the list.
\<close>

theorem clear_without_verification:
  assumes "rc_core (rw_ctl w) = Some core" and "core_ClearBlocklist core (rw_kernel w) = (None, k1)"
    and "core_VerifyBlocklistEmpty core k1 = (Some e, k2)" and empty: "holds k2 = {}" and "rs_Phase (rw_status w) \<noteq> ReleasePhaseObserve" and "\<not> bad_reason reason"
    and flags: "\<forall>b \<in> snd ` set (st_blocks (rw_state w)). be_Enforced b" and status: "rs_KernelPolicyState (rw_status w) = ''verified-enforce''"
    and feeds: "\<forall>hook t. rc_kernelReconciledHook (rw_ctl w) = Some hook \<longrightarrow> gm_has (st_blocks (rw_state w)) t \<longrightarrow> t \<notin> holds (snd (hook (rw_state w, k2)))"
  shows "Transition ca ''observe'' ''RETURN:OBSERVE'' reason w = (Some (RelVerify e), w\<lparr> rw_kernel := k2 \<rparr>)
     \<and> rs_KernelPolicyState (rw_status (w\<lparr> rw_kernel := k2 \<rparr>)) = ''verified-enforce'' \<and> holds (rw_kernel (w\<lparr> rw_kernel := k2 \<rparr>)) = {}
     \<and> fst (reconcileLocked ''enforce'' (w\<lparr> rw_kernel := k2 \<rparr>)) = None
     \<and> (\<forall>t. gm_has (st_blocks (rw_state w)) t \<longrightarrow> t \<notin> holds (rw_kernel (snd (reconcileLocked ''enforce'' (w\<lparr> rw_kernel := k2 \<rparr>)))))"
proof -
  have t: "map to_lower_char (trim_space ''observe'') = ReleasePhaseObserve"
    by (simp add: trim_space_graphic graphic_def to_lower_char_def)
  have m: "releaseModes ReleasePhaseObserve = Inr (''observe'', ''observe'')" by (simp add: releaseModes_def)
  have r: "reconcileLocked ''observe'' w = (Some (RelVerify e), w\<lparr> rw_kernel := k2 \<rparr>)"
    using assms(1-3) by (simp add: reconcileLocked_def Let_def)
  have "Transition ca ''observe'' ''RETURN:OBSERVE'' reason w = (Some (RelVerify e), w\<lparr> rw_kernel := k2 \<rparr>)"
    using assms(5,6) r by (auto simp: Transition_def t confirmation_phrase_def transition_apply_def m retainedEnforcementLocked_def Let_def case_prod_beta)
  moreover have "apply_blocks core [] (BlocksSnapshot (rw_state w)) (rw_state w, k2) = (None, rw_state w, k2)"
    using flags by (intro apply_blocks_flagged) (auto simp: snapshot_members)
  then have e: "reconcileLocked ''enforce'' (w\<lparr> rw_kernel := k2 \<rparr>) = (None, notifyKernelReconciledLocked (w\<lparr> rw_kernel := k2 \<rparr>))"
    using assms(1) by (simp add: reconcileLocked_def Let_def)
  moreover have "t \<notin> holds (rw_kernel (notifyKernelReconciledLocked (w\<lparr> rw_kernel := k2 \<rparr>)))" if "gm_has (st_blocks (rw_state w)) t" for t
    using feeds empty that by (simp add: notifyKernelReconciledLocked_def case_prod_beta split: option.split)
  ultimately show ?thesis using status empty by (simp add: rw_status_def)
qed

text \<open>A kernel whose emptiness check times out, with a callback that republishes a feed.\<close>

definition mute_core :: "string set ReleaseCore" where
  "mute_core = set_release_core\<lparr> core_VerifyBlocklistEmpty := (\<lambda>ks. (Some ''timeout'', ks)) \<rparr>"

definition republish_feed :: "nat State \<times> string set \<Rightarrow> nat State \<times> string set" where
  "republish_feed = (\<lambda>(s, ks). (s, insert ''203.0.113.0/24'' ks))"

definition mute_world :: "Config \<Rightarrow> (string set, BlockEntry list, nat) release_world" where
  "mute_world c = (calm_world c)\<lparr> rw_ctl := (rw_ctl (calm_world c))\<lparr> rc_core := Some mute_core, rc_kernelReconciledHook := Some republish_feed \<rparr> \<rparr>"

theorem clear_without_verification_witness:
  "\<forall>c ca. let w' = snd (Transition ca ''observe'' ''RETURN:OBSERVE'' ''maintenance window'' (mute_world c))
     in rw_kernel w' = {} \<and> rs_KernelPolicyState (rw_status w') = ''verified-enforce''
        \<and> gm_get (st_blocks (rw_state w')) ''10.0.0.7/32'' = Some (sample_entry 5)"
proof (intro allI)
  fix c ca
  have r: "\<not> bad_reason ''maintenance window''" by (simp add: bad_reason_def trim_space_graphic graphic_def)
  have f: "rw_status (mute_world c) = calm_status" "rw_state (mute_world c) = calm_state c"
    "rc_core (rw_ctl (mute_world c)) = Some mute_core" "rc_kernelReconciledHook (rw_ctl (mute_world c)) = Some republish_feed"
    by (simp_all add: mute_world_def rw_status_def calm_world_def sample_world_def sample_controller_def)
  have cl: "core_ClearBlocklist mute_core (rw_kernel (mute_world c)) = (None, {})" "core_VerifyBlocklistEmpty mute_core {} = (Some ''timeout'', {})"
    by (simp_all add: mute_core_def set_release_core_def)
  have bs: "\<forall>b \<in> snd ` set (st_blocks (rw_state (mute_world c))). be_Enforced b"
    by (simp add: f calm_state_def ready_blocks sample_entry_def)
  have ph: "rs_Phase (rw_status (mute_world c)) \<noteq> ReleasePhaseObserve" "rs_KernelPolicyState (rw_status (mute_world c)) = ''verified-enforce''"
    by (simp_all add: f calm_status_def)
  have hook: "\<forall>hook t. rc_kernelReconciledHook (rw_ctl (mute_world c)) = Some hook \<longrightarrow> gm_has (st_blocks (rw_state (mute_world c))) t
      \<longrightarrow> t \<notin> snd (hook (rw_state (mute_world c), {}))"
    by (auto simp: f republish_feed_def calm_state_def ready_blocks gm_has_iff_fst)
  have "Transition ca ''observe'' ''RETURN:OBSERVE'' ''maintenance window'' (mute_world c) =
      (Some (RelVerify ''timeout''), (mute_world c)\<lparr> rw_kernel := {} \<rparr>)"
    using clear_without_verification [where holds = "\<lambda>ks. ks", OF f(3) cl refl ph(1) r bs ph(2) hook] by blast
  then show "let w' = snd (Transition ca ''observe'' ''RETURN:OBSERVE'' ''maintenance window'' (mute_world c))
     in rw_kernel w' = {} \<and> rs_KernelPolicyState (rw_status w') = ''verified-enforce''
        \<and> gm_get (st_blocks (rw_state w')) ''10.0.0.7/32'' = Some (sample_entry 5)"
    by (simp add: Let_def f calm_status_def calm_state_def ready_blocks)
qed

section \<open>A fall-back stops the responses\<close>

lemma phase_refuses:
  assumes "rs_Phase (st_release s) \<noteq> ReleasePhaseEnforce"
  shows "\<exists>e. ExecuteDecision en stat runtime d (r, s, k) = (Inl e, r, s, k)"
proof (cases "decision_gates en stat runtime d r s")
  case (Inl e)
  then show ?thesis by (simp add: ExecuteDecision_def)
next
  case (Inr target)
  from gates_passed(7) [OF this] assms show ?thesis
    by (simp add: validateActiveResponseLocked_def Let_def split: if_split_asm)
qed

text \<open>
  C7: After a fail-safe, whatever it found, and after an emergency stop whose marker was written, the published
  phase is degraded, and the response engine refuses every decision without changing engine, blocks or kernel.
\<close>

theorem fall_back_stops_responses:
  assumes "w' = snd (FailSafe ca reason w) \<or> (w' = snd (EmergencyStop ca reason w) \<and> ca_write ca = None \<and> \<not> bad_reason reason)"
  shows "rs_Phase (st_release (rw_state w')) = ReleasePhaseDegraded
     \<and> (\<exists>e. ExecuteDecision en stat runtime d (r, rw_state w', k) = (Inl e, r, rw_state w', k))"
proof -
  have p: "rs_Phase (st_release (rw_state w')) = ReleasePhaseDegraded"
    using assms by (auto simp: FailSafe_def EmergencyStop_def case_prod_beta Let_def degrade_result)
  then have "rs_Phase (st_release (rw_state w')) \<noteq> ReleasePhaseEnforce" by simp
  from phase_refuses [OF this] p show ?thesis by simp
qed

theorem fall_back_stops_responses_witness:
  "\<forall>c stat runtime. let s = rw_state (snd (EmergencyStop (call_at 5) ''operator request'' (calm_world c)))
     in \<exists>e. ExecuteDecision (demo_env 5 0) stat runtime (sample_decision 7) (ready_engine c [], s, {''10.0.0.7/32''}) =
          (Inl e, ready_engine c [], s, {''10.0.0.7/32''})"
proof (intro allI)
  fix c stat runtime
  let ?w = "snd (EmergencyStop (call_at 5) ''operator request'' (calm_world c))"
  have "\<not> bad_reason ''operator request''" by (simp add: bad_reason_def trim_space_graphic graphic_def)
  then have "?w = snd (FailSafe (call_at 5) ''operator request'' (calm_world c))
     \<or> (?w = snd (EmergencyStop (call_at 5) ''operator request'' (calm_world c)) \<and> ca_write (call_at 5) = None \<and> \<not> bad_reason ''operator request'')"
    by (simp add: call_at_def)
  from fall_back_stops_responses [OF this, of "demo_env 5 0" stat runtime "sample_decision 7" "ready_engine c []" "{''10.0.0.7/32''}"]
  show "let s = rw_state ?w in \<exists>e. ExecuteDecision (demo_env 5 0) stat runtime (sample_decision 7) (ready_engine c [], s, {''10.0.0.7/32''}) =
          (Inl e, ready_engine c [], s, {''10.0.0.7/32''})"
    unfolding Let_def by blast
qed

end
