(* ===== verification/Kinetic_Runtime.thy ===== *)
theory Kinetic_Runtime
  imports Kinetic_Detection Release_Safety
begin

text \<open>
  The production loop of Kinetic Defense, \<open>control/kinetic_runtime.go\<close>: samples drained from the core are ingested, the
  strongest event per target becomes a decision, an applied decision is persisted and committed or rolled back, and the health of
  the ingress sensor is published. The loop composes the detection engine, the response engine, the signed
  policy and the release controller.

  The server is the one \<open>main.go\<close> builds: the release controller, the settings and the policy store are attached and shared with
  the controller of \<open>release_world\<close>. The answers of the core (\<open>IngressEvents\<close>, \<open>IngressHealth\<close>) are parameters. The tickers decide only
  when a step runs: a step is one pass of the \<open>select\<close> loop. \<open>kw_running\<close> says that \<open>kineticCancel\<close> is set, and the detection engine
  is attached, as \<open>main.go\<close> attaches it before the runtime starts.
\<close>

section \<open>Data\<close>

record CoreIngressEvent =
  ci_Family :: "8 word"
  ci_Protocol :: "8 word"
  ci_TCPFlags :: "8 word"
  ci_AttemptCount :: "8 word"
  ci_SrcPort :: "16 word"
  ci_DstPort :: "16 word"
  ci_Packets :: "32 word"
  ci_Bytes :: "32 word"
  ci_SYNCount :: "32 word"
  ci_ACKCount :: "32 word"
  ci_WindowEpoch :: "64 word"
  ci_Source :: ip
  ci_Destination :: ip

record CoreIngressHealth =
  ch_EventsEmitted :: "64 word"
  ch_RingDrops :: "64 word"
  ch_TrackInsertFailures :: "64 word"
  ch_Mode :: string

record ('k, 'p, 'l) runtime_world =
  kw_engine :: KineticEngine
  kw_response :: "'k KineticResponseEngine option"
  kw_world :: "('k, 'p, 'l) release_world"
  kw_eventFailures :: int
  kw_healthFailures :: int
  kw_lastHealth :: "CoreIngressHealth option"
  kw_running :: bool

definition kineticOfflineAfterFails :: int where "kineticOfflineAfterFails = 5"
definition kineticMaxDrainBatches :: nat where "kineticMaxDrainBatches = 16"
definition kineticDrainDegradeAfterFails :: int where "kineticDrainDegradeAfterFails = 5"

section \<open>Error texts\<close>

fun target_text :: "target_error \<Rightarrow> string" where
  "target_text UnspecifiedTarget = ''blocking the unspecified address is not allowed''"
| "target_text MalformedTarget = ''target must be an IPv4/IPv6 address or CIDR''"

fun block_text :: "block_error \<Rightarrow> string" where
  "block_text (BlockTarget e) = target_text e"
| "block_text BlockReasonLength = ''reason must contain 3-240 characters''"
| "block_text BlockCapacityNotPositive = ''blocklist capacity must be positive''"
| "block_text BlockCapacityReached = ''blocklist capacity reached''"

fun response_text :: "response_error \<Rightarrow> string" where
  "response_text (ErrEmergencyStopActive e) = ''action rejected: emergency stop is active or cannot be verified''
     @ (case e of None \<Rightarrow> [] | Some m \<Rightarrow> '': '' @ m)"
| "response_text (ErrTarget e) = target_text e"
| "response_text ErrAllowlistProtected = ''action rejected: target is within immutable management allowlist''"
| "response_text ErrBroadSectorProtected = ''action rejected: automated /16 or wider CIDR containment is prohibited''"
| "response_text ErrAutoContainDisabled = ''action rejected: automatic containment is disabled for target scope''"
| "response_text ErrSubnetEvidenceLow = ''action rejected: subnet containment requires multi-source evidence''"
| "response_text (ErrResponseNotReady m) = ''action rejected: kinetic active response is not safely enabled: '' @ m"
| "response_text ErrRateLimitThrottled = ''action rejected: response token bucket exhausted''"
| "response_text (ErrBlockRejected e) = block_text e"
| "response_text (ErrKernelSync e) = ''kernel LPM trie sync failed: '' @ e"
| "response_text (ErrKernelSyncDivergent e d) = ''kernel LPM trie sync failed: '' @ e
     @ CHR 0x0A # ''kernel containment state may be divergent: compensating delete failed: '' @ d"
| "response_text (ErrKernelStateDivergent m) = ''kernel containment state may be divergent: '' @ m"
| "response_text ErrRollbackUnavailable = ''kinetic rollback transaction is unavailable''"

text \<open>The refusals that \<open>handleKineticDecisions\<close> counts as suppressed.\<close>

fun expectedSuppression :: "response_error \<Rightarrow> bool" where
  "expectedSuppression ErrAllowlistProtected = True"
| "expectedSuppression ErrBroadSectorProtected = True"
| "expectedSuppression ErrSubnetEvidenceLow = True"
| "expectedSuppression ErrRateLimitThrottled = True"
| "expectedSuppression (ErrEmergencyStopActive _) = True"
| "expectedSuppression (ErrResponseNotReady _) = True"
| "expectedSuppression ErrAutoContainDisabled = True"
| "expectedSuppression _ = False"

fun divergent_error :: "response_error \<Rightarrow> bool" where
  "divergent_error (ErrKernelSyncDivergent _ _) = True"
| "divergent_error (ErrKernelStateDivergent _) = True"
| "divergent_error _ = False"

section \<open>From events to decisions\<close>

definition kineticEventTarget :: "KineticEvent \<Rightarrow> string" where
  "kineticEventTarget event =
     (if ke_RuleID event = ''NET.INGRESS.SUBNET_V4'' \<or> ke_RuleID event = ''NET.INGRESS.SUBNET_V6'' then ke_Subnet event
      else if ke_RuleID event = ''NET.INGRESS.WIDE_V4'' then []
      else ke_SourceIP event)"

text \<open>A float outside the range of \<open>int\<close> converts to the smallest integer on the supported 64-bit targets and so fails the comparison.\<close>

definition kineticContributorCount :: "KineticEvent \<Rightarrow> int" where
  "kineticContributorCount event =
     (case gm_get (ke_Metadata event) ''active_sources'' of
        Some (MetaInt n) \<Rightarrow> n
      | Some (MetaInt32 n) \<Rightarrow> n
      | Some (MetaInt64 n) \<Rightarrow> n
      | Some (MetaUint n) \<Rightarrow> wrap64 (int n)
      | Some (MetaUint32 n) \<Rightarrow> int n
      | Some (MetaUint64 n) \<Rightarrow> (if n > 2 ^ 63 - 1 then 0 else int n)
      | Some (MetaFloat x) \<Rightarrow> (if x < 0 \<or> x \<ge> 2 ^ 63 \<or> x \<noteq> of_int \<lfloor>x\<rfloor> then 0 else \<lfloor>x\<rfloor>)
      | _ \<Rightarrow> 0)"

definition stronger :: "KineticEvent \<Rightarrow> KineticEvent \<Rightarrow> bool" where
  "stronger event current \<longleftrightarrow> ke_Score event > ke_Score current
     \<or> (ke_Score event = ke_Score current \<and> ke_Confidence event > ke_Confidence current)"

definition actionable :: "KineticEvent \<Rightarrow> bool" where
  "actionable event \<longleftrightarrow> (ke_Action event = ''contain'' \<or> ke_Action event = ''block'') \<and> kineticEventTarget event \<noteq> []"

definition keep_strongest :: "KineticEvent \<Rightarrow> (string, KineticEvent) gomap \<Rightarrow> (string, KineticEvent) gomap" where
  "keep_strongest event strongest =
     (if \<not> actionable event then strongest
      else let target = kineticEventTarget event
           in case gm_get strongest target of
                None \<Rightarrow> gm_put target event strongest
              | Some current \<Rightarrow> if stronger event current then gm_put target event strongest else strongest)"

definition strongest_events :: "KineticEvent list \<Rightarrow> (string, KineticEvent) gomap" where
  "strongest_events events = fold keep_strongest events []"

definition runtime_kinetic :: "('k, 'p, 'l) release_world \<Rightarrow> KineticRuntimeSettings" where
  "runtime_kinetic w = rt_Kinetic (runtimeSettingsLocked (rw_ctl w))"

definition banTTL :: "('k, 'p, 'l) release_world \<Rightarrow> int" where
  "banTTL w = (let base = kc_BanTTLSeconds (cf_Kinetic (rc_cfg (rw_ctl w)))
     in case rc_settings (rw_ctl w) of
          Some settings \<Rightarrow> if ks_BanTTLSeconds (rt_Kinetic settings) > 0 then ks_BanTTLSeconds (rt_Kinetic settings) else base
        | None \<Rightarrow> base)"

definition event_decision :: "('k, 'p, 'l) release_world \<Rightarrow> string \<Rightarrow> KineticEvent \<Rightarrow> NetworkDecision" where
  "event_decision w target event = \<lparr> nd_Target = target, nd_RuleIDs = [ke_RuleID event], nd_Score = ke_Score event,
     nd_Confidence = ke_Confidence event, nd_ContributorCount = kineticContributorCount event, nd_SuggestedAction = ke_Action event,
     nd_BaseTTL = wrap64 (banTTL w * second), nd_Reason = ke_Decision event, nd_EvidenceRoot = ke_EvidenceID event,
     nd_Timestamp = wall_stamp (ke_Time event) \<rparr>"

definition kinetic_event :: "KineticEvent \<Rightarrow> string \<Rightarrow> string \<Rightarrow> string \<Rightarrow> string \<Rightarrow> string \<Rightarrow> Event" where
  "kinetic_event event severity kind source message target = mk_event (ke_Time event) severity kind source message target"

text \<open>A refused or failed decision.\<close>

definition decision_refused :: "'l release_call \<Rightarrow> string \<Rightarrow> KineticEvent \<Rightarrow> response_error \<Rightarrow> ('k, 'p, 'l) release_world \<Rightarrow> ('k, 'p, 'l) release_world" where
  "decision_refused ca target event err w =
     (let suppressed = expectedSuppression err;
          w = on_state (\<lambda>s. AddEvent (ca_env ca) (kinetic_event event (if suppressed then ''low'' else ''high'')
                (if suppressed then ''kinetic.response_suppressed'' else ''kinetic.response_failed'') ''kinetic_response_engine''
                (ke_RuleID event @ '': '' @ response_text err) target) (if suppressed then RecordSuppressed s else RecordFailure s)) w
      in if divergent_error err then snd (FailSafe ca ''kinetic kernel apply compensation failed'' w) else w)"

text \<open>An applied decision whose policy could not be persisted.\<close>

definition decision_unpersisted :: "'l release_call \<Rightarrow> NetworkDecision \<Rightarrow> KineticEvent \<Rightarrow> BlockEntry \<Rightarrow> string
    \<Rightarrow> 'k KineticResponseEngine \<times> ('k, 'p, 'l) release_world \<Rightarrow> 'k KineticResponseEngine \<times> ('k, 'p, 'l) release_world" where
  "decision_unpersisted ca decision event entry err rw =
     (case rw of (r, w) \<Rightarrow>
      case RollbackApplied entry (r, rw_state w, rw_kernel w) of (rollbackErr, r, s, k) \<Rightarrow>
        let s = RecordApplyRollback (ca_env ca) decision entry err (map_option response_text rollbackErr) s;
            s = AddEvent (ca_env ca) (kinetic_event event ''critical'' ''kinetic.policy_persist_failed'' ''kinetic_runtime'' err (be_Target entry)) s;
            w = w\<lparr> rw_state := s, rw_kernel := k \<rparr>
        in (r, if rollbackErr \<noteq> None then snd (FailSafe ca ''kinetic block policy rollback failed'' w) else w))"

definition decision_persisted :: "'l release_call \<Rightarrow> NetworkDecision \<Rightarrow> KineticEvent \<Rightarrow> BlockEntry
    \<Rightarrow> 'k KineticResponseEngine \<times> ('k, 'p, 'l) release_world \<Rightarrow> 'k KineticResponseEngine \<times> ('k, 'p, 'l) release_world" where
  "decision_persisted ca decision event entry rw =
     (case rw of (r, w) \<Rightarrow>
      case CommitApplied (ca_env ca) decision entry (r, rw_state w, rw_kernel w) of
        (Some err, r, s, k) \<Rightarrow>
          let s = AddEvent (ca_env ca) (kinetic_event event ''critical'' ''kinetic.evidence_commit_failed'' ''kinetic_response_engine''
                    (ledger_text err) (be_Target entry)) (RecordFailure s)
          in (r, snd (FailSafe ca ''kinetic containment evidence commit failed'' (w\<lparr> rw_state := s, rw_kernel := k \<rparr>)))
      | (None, r, s, k) \<Rightarrow>
          let s = AddEvent (ca_env ca) (kinetic_event event ''high'' ''kinetic.block_applied'' ''kinetic_response_engine''
                    (ke_RuleID event @ '' applied for '' @ be_Target entry) (be_Target entry)) s
          in (r, w\<lparr> rw_state := s, rw_kernel := k \<rparr>))"

definition handle_target :: "'l release_call \<Rightarrow> string \<times> KineticEvent
    \<Rightarrow> 'k KineticResponseEngine \<times> ('k, 'p, 'l) release_world \<Rightarrow> 'k KineticResponseEngine \<times> ('k, 'p, 'l) release_world" where
  "handle_target ca te rw =
     (case te of (target, event) \<Rightarrow> case rw of (r, w) \<Rightarrow>
        let decision = event_decision w target event
        in case ExecuteDecision (ca_env ca) (\<lambda>_. rw_marker w) (runtime_kinetic w) decision (r, rw_state w, rw_kernel w) of
             (Inl err, r, s, k) \<Rightarrow> (r, decision_refused ca target event err (w\<lparr> rw_state := s, rw_kernel := k \<rparr>))
           | (Inr entry, r, s, k) \<Rightarrow>
               (case persistPolicy (Some (rc_policy (rw_ctl w))) (rc_cfg (rw_ctl w)) (s, rw_store w) of
                  (Some err, s, p) \<Rightarrow> decision_unpersisted ca decision event entry err (r, w\<lparr> rw_state := s, rw_kernel := k, rw_store := p \<rparr>)
                | (None, s, p) \<Rightarrow> decision_persisted ca decision event entry (r, w\<lparr> rw_state := s, rw_kernel := k, rw_store := p \<rparr>)))"

definition handleKineticDecisions :: "'l release_call \<Rightarrow> KineticEvent list \<Rightarrow> ('k, 'p, 'l) runtime_world \<Rightarrow> ('k, 'p, 'l) runtime_world" where
  "handleKineticDecisions ca events kw =
     (case kw_response kw of
        None \<Rightarrow> kw
      | Some r \<Rightarrow>
          if events = [] then kw
          else case fold (handle_target ca) (strongest_events events) (r, kw_world kw) of
            (r, w) \<Rightarrow> kw\<lparr> kw_response := Some r, kw_world := w \<rparr>)"

section \<open>Sensor health\<close>

definition describeIngressMode :: "string \<Rightarrow> string" where
  "describeIngressMode mode =
     (if mode = ''NATIVE_XDP'' then ''native XDP in the driver path''
      else if mode = ''GENERIC_XDP'' then ''generic XDP (the driver has no native hook)''
      else if mode = ''TC_INGRESS'' then ''TC ingress (no XDP was available, enforcement is at the traffic-control layer)''
      else if mode = [] then ''an unreported hook (the core did not state its enforcement mode)''
      else mode)"

definition evaluateKineticSensorHealth :: "int \<Rightarrow> int \<Rightarrow> CoreIngressHealth option \<Rightarrow> CoreIngressHealth option
    \<Rightarrow> SensorCoverageStatus \<times> string \<times> string" where
  "evaluateKineticSensorHealth eventFailures healthFailures previous current =
     (if healthFailures \<ge> kineticOfflineAfterFails then
        (CoverageOffline, ''failed'', ''kernel ingress enforcement path is unavailable (health_failures='' @ dec_int healthFailures @ '')'')
      else if healthFailures > 0 then
        (CoverageDegraded, ''degraded'', ''kernel ingress enforcement path is unstable (health_failures='' @ dec_int healthFailures @ '')'')
      else case current of
        None \<Rightarrow> (CoverageOffline, ''unverified'', ''kernel ingress health has not been verified'')
      | Some cur \<Rightarrow>
          let pressureNote = (case previous of
                 None \<Rightarrow> []
               | Some prev \<Rightarrow> if ch_RingDrops cur > ch_RingDrops prev \<or> ch_TrackInsertFailures cur > ch_TrackInsertFailures prev
                   then ''; kernel ingress telemetry pressure observed (ring_drops='' @ dec_nat (unat (ch_RingDrops cur))
                     @ '' tracking_insert_failures='' @ dec_nat (unat (ch_TrackInsertFailures cur)) @ ''), enforcement path unaffected'' else []);
              sampleNote = (if eventFailures > 0
                 then ''; '' @ dec_int eventFailures @ '' recovered sample drain failure(s), enforcement path unaffected'' else [])
          in if eventFailures \<ge> kineticDrainDegradeAfterFails then
               (CoverageDegraded, ''degraded'', ''kernel ingress sample transport failed '' @ dec_int eventFailures
                 @ '' times consecutively while the enforcement path stayed verified (events emitted='' @ dec_nat (unat (ch_EventsEmitted cur)) @ '')'')
             else if ch_EventsEmitted cur = 0 then
               (CoverageOnline, ''pass'', ''kernel ingress program and bounded health maps verified; no ingress events emitted yet'' @ sampleNote @ pressureNote)
             else (CoverageOnline, ''pass'', ''verified kernel ingress producer via '' @ describeIngressMode (ch_Mode cur)
                 @ '' ('' @ dec_nat (unat (ch_EventsEmitted cur)) @ '' events emitted)'' @ sampleNote @ pressureNote))"

definition layer_mode :: "string \<Rightarrow> string \<Rightarrow> EnforcementMode" where
  "layer_mode globalNetworkMode kineticMode =
     (if globalNetworkMode = ''enforce'' then
        (if kineticMode = ''contain'' then EnforcementContain else if kineticMode = ''block'' then EnforcementBlock else EnforcementObserve)
      else EnforcementObserve)"

definition setKineticSensorState :: "'l release_call \<Rightarrow> SensorCoverageStatus \<Rightarrow> string \<Rightarrow> string \<Rightarrow> ('k, 'p, 'l) release_world \<Rightarrow> ('k, 'p, 'l) release_world" where
  "setKineticSensorState ca status selfTest reason w =
     (let now = env_now (ca_env ca); up = (status = CoverageOnline);
          coverage = \<lparr> sc_Name = ''xdp_ingress'', sc_Layer = LayerIngressNetwork, sc_Status = status, sc_Required = True,
            sc_LastOK = (if up then Some now else None), sc_LastError = (if up then [] else reason), sc_SelfTest = selfTest,
            sc_CoverageReason = reason \<rparr>;
          w = on_state (SetSensorCoverage coverage) w;
          kinetic = runtime_kinetic w; mode = layer_mode (fst (Modes (rw_state w))) (ks_EnforcementMode kinetic);
          w = on_state (UpdateKineticTelemetry (\<lambda>t. t\<lparr> kt_Layers := gm_put LayerIngressNetwork
                \<lparr> dl_Layer = LayerIngressNetwork, dl_DetectionEnabled = ks_Enabled kinetic, dl_DetectionHealthy = up,
                  dl_EnforcementMode = mode, dl_EnforcementHealthy = (up \<or> mode = EnforcementObserve), dl_ModeReason = reason,
                  dl_Coverage = status \<rparr> (kt_Layers t) \<rparr>)) w
      in if \<not> up then Evaluate ca w else w)"

section \<open>Steps of the loop\<close>

definition publish_health :: "'l release_call \<Rightarrow> string \<Rightarrow> CoreIngressHealth option \<Rightarrow> CoreIngressHealth option
    \<Rightarrow> ('k, 'p, 'l) runtime_world \<Rightarrow> ('k, 'p, 'l) runtime_world" where
  "publish_health ca suffix_text previous current kw =
     (case evaluateKineticSensorHealth (kw_eventFailures kw) (kw_healthFailures kw) previous current of
        (status, selfTest, reason) \<Rightarrow> kw\<lparr> kw_world := setKineticSensorState ca status selfTest (reason @ suffix_text) (kw_world kw) \<rparr>)"

definition probeIngressHealth :: "'l release_call \<Rightarrow> string + CoreIngressHealth \<Rightarrow> ('k, 'p, 'l) runtime_world \<Rightarrow> ('k, 'p, 'l) runtime_world" where
  "probeIngressHealth ca answer kw =
     (case answer of
        Inl err \<Rightarrow>
          publish_health ca (''; health query: '' @ err) (kw_lastHealth kw) None (kw\<lparr> kw_healthFailures := kw_healthFailures kw + 1 \<rparr>)
      | Inr current \<Rightarrow>
          let kw = kw\<lparr> kw_healthFailures := 0,
                kw_world := on_state (UpdateKineticTelemetry (\<lambda>t. t\<lparr> kt_KernelEventsEmitted := ch_EventsEmitted current,
                  kt_KernelRingDrops := ch_RingDrops current, kt_KernelTrackInsertFailures := ch_TrackInsertFailures current,
                  kt_IngressMode := ch_Mode current \<rparr>)) (kw_world kw) \<rparr>
          in (publish_health ca [] (kw_lastHealth kw) (Some current) kw)\<lparr> kw_lastHealth := Some current \<rparr>)"

definition ingress_packet :: "gotime \<Rightarrow> CoreIngressEvent \<Rightarrow> IngressPacket" where
  "ingress_packet now raw = \<lparr> pk_Family = ci_Family raw, pk_Protocol = ci_Protocol raw, pk_SrcIP = ci_Source raw, pk_DstIP = ci_Destination raw,
     pk_SrcPort = ci_SrcPort raw, pk_DstPort = ci_DstPort raw, pk_TCPFlags = ci_TCPFlags raw, pk_AttemptCount = ucast (ci_AttemptCount raw),
     pk_Packets = ci_Packets raw, pk_SYNCount = ci_SYNCount raw, pk_ACKCount = ci_ACKCount raw, pk_Bytes = ci_Bytes raw,
     pk_Timestamp = now, pk_WindowEpoch = ci_WindowEpoch raw \<rparr>"

text \<open>One sample: ingest it and act on what it produced.\<close>

definition ingest_sample :: "'l release_call \<Rightarrow> CoreIngressEvent \<Rightarrow> ('k, 'p, 'l) runtime_world \<Rightarrow> ('k, 'p, 'l) runtime_world" where
  "ingest_sample ca raw kw =
     (case IngestPacket (ca_env ca) (ingress_packet (env_now (ca_env ca)) raw) (kw_engine kw, rw_state (kw_world kw)) of
        (generated, e, s) \<Rightarrow>
          handleKineticDecisions ca generated (kw\<lparr> kw_engine := e, kw_world := (kw_world kw)\<lparr> rw_state := s \<rparr> \<rparr>))"

text \<open>The drain of one poll: \<open>answers\<close> are the replies of \<open>IngressEvents\<close> in order, read until one is empty or an error.\<close>

fun drain_batches :: "'l release_call \<Rightarrow> nat \<Rightarrow> (nat \<Rightarrow> string + CoreIngressEvent list) \<Rightarrow> ('k, 'p, 'l) runtime_world
    \<Rightarrow> string option \<times> ('k, 'p, 'l) runtime_world" where
  "drain_batches ca 0 answers kw = (None, kw)"
| "drain_batches ca (Suc n) answers kw =
     (case answers 0 of
        Inl err \<Rightarrow> (Some err, kw)
      | Inr events \<Rightarrow>
          let kw = fold (ingest_sample ca) events kw
          in if events = [] then (None, kw) else drain_batches ca n (\<lambda>i. answers (Suc i)) kw)"

definition poll_step :: "'l release_call \<Rightarrow> (nat \<Rightarrow> string + CoreIngressEvent list) \<Rightarrow> ('k, 'p, 'l) runtime_world \<Rightarrow> ('k, 'p, 'l) runtime_world" where
  "poll_step ca answers kw =
     (case drain_batches ca kineticMaxDrainBatches answers kw of
        (Some err, kw) \<Rightarrow>
          publish_health ca (''; event drain: '' @ err) (kw_lastHealth kw) (kw_lastHealth kw)
            (kw\<lparr> kw_eventFailures := kw_eventFailures kw + 1 \<rparr>)
      | (None, kw) \<Rightarrow> kw\<lparr> kw_eventFailures := 0 \<rparr>)"

definition sweep_step :: "'l release_call \<Rightarrow> ('k, 'p, 'l) runtime_world \<Rightarrow> ('k, 'p, 'l) runtime_world" where
  "sweep_step ca kw =
     (case Sweep (env_now (ca_env ca)) (kw_engine kw, rw_state (kw_world kw)) of
        (e, s) \<Rightarrow> kw\<lparr> kw_engine := e, kw_world := (kw_world kw)\<lparr> rw_state := s \<rparr> \<rparr>)"

definition start_runtime :: "'l release_call \<Rightarrow> string + CoreIngressHealth \<Rightarrow> ('k, 'p, 'l) runtime_world \<Rightarrow> ('k, 'p, 'l) runtime_world" where
  "start_runtime ca answer kw = probeIngressHealth ca answer (kw\<lparr> kw_eventFailures := 0, kw_healthFailures := 0, kw_lastHealth := None \<rparr>)"

definition setKineticRuntimeEnabled :: "'l release_call \<Rightarrow> string + CoreIngressHealth \<Rightarrow> bool \<Rightarrow> ('k, 'p, 'l) runtime_world \<Rightarrow> ('k, 'p, 'l) runtime_world" where
  "setKineticRuntimeEnabled ca answer enabled kw =
     (if \<not> enabled then
        kw\<lparr> kw_running := False,
          kw_world := setKineticSensorState ca CoverageDisabled ''disabled'' ''Kinetic Defense disabled by configuration'' (kw_world kw) \<rparr>
      else if kw_running kw then kw
      else if rc_core (rw_ctl (kw_world kw)) = None then
        kw\<lparr> kw_world := setKineticSensorState ca CoverageOffline ''failed'' ''Rust Core client unavailable'' (kw_world kw) \<rparr>
      else start_runtime ca answer (kw\<lparr> kw_running := True \<rparr>))"

definition startKineticRuntime :: "'l release_call \<Rightarrow> string + CoreIngressHealth \<Rightarrow> ('k, 'p, 'l) runtime_world \<Rightarrow> ('k, 'p, 'l) runtime_world" where
  "startKineticRuntime ca answer kw =
     setKineticRuntimeEnabled ca answer
       (case rc_settings (rw_ctl (kw_world kw)) of
          None \<Rightarrow> kc_Enabled (cf_Kinetic (rc_cfg (rw_ctl (kw_world kw))))
        | Some settings \<Rightarrow> ks_Enabled (rt_Kinetic settings)) kw"

text \<open>The passes of the loop and the switch, with the clock, the failures and the answers of the core that each of them meets.\<close>

datatype 'l tick =
    PollTick "'l release_call" "nat \<Rightarrow> string + CoreIngressEvent list"
  | HealthTick "'l release_call" "string + CoreIngressHealth"
  | SweepTick "'l release_call"
  | SwitchTick "'l release_call" "string + CoreIngressHealth" bool

definition runKineticRuntime :: "'l tick \<Rightarrow> ('k, 'p, 'l) runtime_world \<Rightarrow> ('k, 'p, 'l) runtime_world" where
  "runKineticRuntime t kw =
     (case t of
        PollTick ca answers \<Rightarrow> if kw_running kw then poll_step ca answers kw else kw
      | HealthTick ca answer \<Rightarrow> if kw_running kw then probeIngressHealth ca answer kw else kw
      | SweepTick ca \<Rightarrow> if kw_running kw then sweep_step ca kw else kw
      | SwitchTick ca answer enabled \<Rightarrow> setKineticRuntimeEnabled ca answer enabled kw)"

section \<open>Blocks of the runtime\<close>

text \<open>The block list is well formed and holds, beside the targets \<open>K\<close>, only targets that the allowlist does not protect.\<close>

definition spared :: "allowlist \<Rightarrow> string set \<Rightarrow> 'l State \<Rightarrow> bool" where
  "spared al K s \<longleftrightarrow> blocks_wf s \<and> (\<forall>t. gm_has (st_blocks s) t \<longrightarrow> t \<in> K \<or> \<not> isAllowlistProtectedLocked al t)"

lemma spared_cong:
  "st_blocks s' = st_blocks s \<Longrightarrow> st_blockDeadlines s' = st_blockDeadlines s \<Longrightarrow> spared al K s' = spared al K s"
  using blocks_wf_cong [of s' s] by (simp add: spared_def)

lemma spared_view: "enforcement_view s' = enforcement_view s \<Longrightarrow> spared al K s' = spared al K s"
  by (rule spared_cong) (erule enforcement_viewD)+

lemma confirm_blocks_keeps:
  assumes "confirm_blocks core bs (s, k) = (err, s', k')"
  shows "(blocks_wf s \<longrightarrow> blocks_wf s') \<and> (\<forall>t. gm_has (st_blocks s') t \<longleftrightarrow> gm_has (st_blocks s) t)"
  using assms
proof (induction bs arbitrary: s k)
  case (Cons b bs)
  obtain e k1 where add: "core_Add core (be_Target b) k = (e, k1)" by (rule prod.exhaust)
  show ?case
  proof (cases e)
    case None
    let ?s = "snd (SetBlockEnforced (be_Target b) True s)"
    have "confirm_blocks core bs (?s, k1) = (err, s', k')" using Cons.prems add None by simp
    from Cons.IH [OF this] SetBlockEnforced_blocks_wf [of s "be_Target b" True]
    show ?thesis by (auto simp: SetBlockEnforced_def gm_has_def split: option.splits)
  qed (use Cons.prems add in simp)
qed simp

lemma deadline_frame [simp]:
  "st_blockDeadlines (SetModes e x s) = st_blockDeadlines s" "st_blockDeadlines (SetReleaseStatus r s) = st_blockDeadlines s"
  "st_blockDeadlines (SetPolicyStatus p s) = st_blockDeadlines s"
  "st_blockDeadlines (rw_state (publish w)) = st_blockDeadlines (rw_state w)" "st_blockDeadlines (rw_state (emit ca a b c d w)) = st_blockDeadlines (rw_state w)"
  "st_blockDeadlines (rw_state (publish_policy w)) = st_blockDeadlines (rw_state w)"
  "st_blockDeadlines (rw_state (refresh_publish ca w)) = st_blockDeadlines (rw_state w)"
  "st_blockDeadlines (rw_state (markDegradedLocked ca reason ks v w)) = st_blockDeadlines (rw_state w)"
  by (simp_all add: SetModes_def SetReleaseStatus_def SetPolicyStatus_def publish_def emit_def publish_policy_def
      refresh_publish_def refreshLocked_def markDegradedLocked_def randomID_def Let_def)

lemma spared_confirmed:
  assumes "spared al K (rw_state w)"
  shows "spared al K (rw_state (confirmed w))"
proof -
  let ?u = "on_state (SetModes ''unverified'' ''observe'') w"
  have u: "spared al K (rw_state ?u)" using assms spared_cong [of "rw_state ?u" "rw_state w" al K] by simp
  show ?thesis
  proof (cases "rc_core (rw_ctl w)")
    case None
    then show ?thesis using u by (simp add: confirmed_def reconcileVerifiedLocked_def)
  next
    case (Some core)
    obtain err s' k' where c: "confirm_blocks core (BlocksSnapshot (rw_state ?u)) (rw_state ?u, rw_kernel ?u) = (err, s', k')" by (metis prod_cases3)
    have "rw_state (confirmed w) = s'" using c by (simp add: confirmed_def reconcileVerifiedLocked_def Some)
    then show ?thesis using confirm_blocks_keeps [OF c] u by (simp add: spared_def)
  qed
qed

lemma degrade_deadlines: "st_blockDeadlines (rw_state (snd (degradeLocked ca reason w))) = st_blockDeadlines (rw_state (confirmed w))"
proof -
  obtain err w1 where r: "reconcileVerifiedLocked (on_state (SetModes ''unverified'' ''observe'') w) = (err, w1)" by (rule prod.exhaust)
  then have w1: "confirmed w = w1" by (simp add: confirmed_def)
  obtain err2 w2 where p: "persist_modes ''enforce'' ''observe'' w1 = (err2, w2)" by (rule prod.exhaust)
  then have "rw_state w2 = rw_state w1" using helpers_frame(29) [of "''enforce''" "''observe''" w1] by simp
  then show ?thesis unfolding w1 by (cases err; cases err2) (simp_all add: degradeLocked_def r p)
qed

lemma spared_degrade:
  assumes "spared al K (rw_state w)"
  shows "spared al K (rw_state (snd (degradeLocked ca m w)))"
  using spared_confirmed [OF assms] by (subst spared_cong [of _ "rw_state (confirmed w)"]) (simp_all add: degrade_result degrade_deadlines)

lemma spared_failSafe:
  assumes "spared al K (rw_state w)"
  shows "spared al K (rw_state (snd (FailSafe ca reason w)))"
proof -
  have "rw_state (snd (FailSafe ca reason w)) = SetReleaseStatus x (rw_state (snd (degradeLocked ca m w))) \<Longrightarrow> ?thesis" for x m
    using spared_degrade [OF assms, of ca m] by (subst spared_cong [of _ "rw_state (snd (degradeLocked ca m w))"]) simp_all
  then show ?thesis
    by (simp add: FailSafe_def Let_def case_prod_beta refresh_fields(7))
qed

lemma spared_changed:
  assumes "spared al K s" "changed_list en now target b s s1" "\<not> isAllowlistProtectedLocked al target"
  shows "spared al K s1"
  using assms by (auto simp: spared_def changed_list_def gm_has_def)

lemma spared_undo:
  assumes "spared al K s1" "blocks_wf (undo_block previous b s1)" "\<forall>p. previous = Some p \<longrightarrow> gm_has (st_blocks s1) (be_Target p)"
  shows "spared al K (undo_block previous b s1)"
proof -
  have "gm_has (st_blocks s1) t" if "gm_has (st_blocks (undo_block previous b s1)) t" for t
    using that assms(3) by (auto simp: undo_block_def RestoreBlock_def RemoveBlockByID_def split: option.splits prod.splits)
  then show ?thesis using assms(1,2) by (auto simp: spared_def)
qed

lemma execute_spared:
  assumes sp: "spared al K s" and al: "re_allowlist r = al"
    and call: "ExecuteDecision en stat runtime d (r, s, k) = (res, r', s', k')"
  shows "spared al K s'" "re_allowlist r' = al"
    "res = Inr b \<Longrightarrow> \<exists>change. gm_get (re_pending r') (be_ID b) = Some change
        \<and> (\<forall>p. pn_previous change = Some p \<longrightarrow> be_Target p = be_Target b) \<and> gm_get (st_blocks s') (be_Target b) = Some b"
proof -
  have wf: "blocks_wf s" using sp by (simp add: spared_def)
  have "spared al K s' \<and> re_allowlist r' = al \<and> (res = Inr b \<longrightarrow> (\<exists>change. gm_get (re_pending r') (be_ID b) = Some change
        \<and> (\<forall>p. pn_previous change = Some p \<longrightarrow> be_Target p = be_Target b) \<and> gm_get (st_blocks s') (be_Target b) = Some b))"
  proof (cases rule: Execute_cases [OF call])
    case 1
    then show ?thesis using sp al by simp
  next
    case (2 target)
    then show ?thesis using sp al by (simp add: refilled_def refill_tokens_def)
  next
    case (3 target)
    let ?p = "gm_get (st_blocks s) target" and ?r = "charged en d r"
    have prot: "\<not> isAllowlistProtectedLocked al target" using gates_passed(3) [OF 3(1)] al by simp
    have prev: "?p = Some p \<Longrightarrow> be_Target p = target" for p using blocks_wfD(3) [OF wf] by blast
    show ?thesis
    proof (cases rule: apply_decision_cases [OF wf gate_target [OF 3(1)] 3(3)])
      case (1 e)
      then show ?thesis using sp al by simp
    next
      case (2 c s1)
      have "s' = s1" using 2(3) by (auto split: if_split_asm dest: kernel_apply_None(2))
      moreover have "spared al K s1" by (rule spared_changed [OF sp 2(1) prot])
      moreover have "be_Target c = target" "gm_get (st_blocks s1) target = Some c" using 2(1) by (auto simp: changed_list_def)
      ultimately show ?thesis using 2(4,5) al prev by auto
    next
      case (3 c s1 e)
      have s': "s' = undo_block ?p c s1" "re_allowlist r' = al"
        using 3(3) al by (auto simp: kernel_apply_def split: option.splits prod.splits)
      have s1: "spared al K s1" by (rule spared_changed [OF sp 3(1) prot])
      have "gm_has (st_blocks s1) (be_Target p)" if "?p = Some p" for p
        using 3(1) prev [OF that] by (simp add: changed_list_def gm_has_def)
      then have "spared al K s'"
        unfolding s'(1) using wf s1 3(1) prev gate_target [OF \<open>decision_gates en stat runtime d r s = Inr target\<close>]
        by (intro spared_undo undo_block_wf) (auto simp: spared_def)
      then show ?thesis using s'(2) 3(4) by simp
    qed
  qed
  then show "spared al K s'" "re_allowlist r' = al"
    "res = Inr b \<Longrightarrow> \<exists>change. gm_get (re_pending r') (be_ID b) = Some change
        \<and> (\<forall>p. pn_previous change = Some p \<longrightarrow> be_Target p = be_Target b) \<and> gm_get (st_blocks s') (be_Target b) = Some b"
    by blast+
qed

lemma spared_on_state:
  "spared al K (rw_state w) \<Longrightarrow> (\<And>s. enforcement_view (f s) = enforcement_view s) \<Longrightarrow> spared al K (rw_state (on_state f w))"
  using spared_view by (metis world_frame(6))

lemma spared_telemetry: "spared al K (UpdateKineticTelemetry f s) = spared al K s"
  by (rule spared_cong) (simp_all add: UpdateKineticTelemetry_def)

lemma spared_evidence: "spared al K (snd (RecordEvidence en e s)) = spared al K s" "spared al K (AddEvent en x s) = spared al K s"
  by (rule spared_view, rule view_RecordEvidence, rule spared_view, rule view_AddEvent)

lemma spared_minted: "spared al K (s\<lparr> st_minted := n \<rparr>) = spared al K s"
  by (rule spared_cong) simp_all

lemmas spared_simps = spared_telemetry spared_evidence spared_minted

lemma refused_spared:
  assumes "spared al K (rw_state w)"
  shows "spared al K (rw_state (decision_refused ca target event err w))"
proof -
  have "spared al K (rw_state (on_state (\<lambda>s. AddEvent en x (if c then RecordSuppressed s else RecordFailure s)) w))" for en x c
    using assms by (simp add: spared_simps RecordSuppressed_def RecordFailure_def)
  then show ?thesis by (simp add: decision_refused_def Let_def spared_failSafe)
qed

lemma unpersisted_spared:
  assumes "spared al K (rw_state w)" "gm_get (re_pending r) (be_ID entry) = Some change"
    "\<forall>p. pn_previous change = Some p \<longrightarrow> be_Target p = be_Target entry" "gm_get (st_blocks (rw_state w)) (be_Target entry) = Some entry"
    and call: "decision_unpersisted ca d event entry err (r, w) = (r', w')"
  shows "spared al K (rw_state w') \<and> re_allowlist r' = re_allowlist r"
proof -
  let ?u = "undo_block (pn_previous change) entry (rw_state w)"
  have wf: "blocks_wf (rw_state w)" using assms(1) by (simp add: spared_def)
  have t: "normalizeTarget (be_Target entry) = Inr (be_Target entry)" by (rule blocks_wfD(4) [OF wf assms(4)])
  have "blocks_wf ?u"
    using wf t assms(3) by (auto simp: undo_block_def RemoveBlockByID_blocks_wf intro!: RestoreBlock_blocks_wf split: option.split)
  then have u: "spared al K ?u" using assms(1,3,4) by (intro spared_undo) (simp_all add: gm_has_def)
  obtain rb r1 s1 k1 where roll0: "RollbackApplied entry (r, rw_state w, rw_kernel w) = (rb, r1, s1, k1)" by (metis prod_cases4)
  then have s1: "s1 = ?u" "re_allowlist r1 = re_allowlist r" using assms(2) by (auto simp: RollbackApplied_def Let_def case_prod_beta)
  note roll = roll0 [unfolded s1(1)] s1(2)
  have s: "spared al K (AddEvent (ca_env ca) x (RecordApplyRollback (ca_env ca) d entry err m ?u))" for x m
    using u by (simp add: spared_simps RecordApplyRollback_def Let_def randomID_def case_prod_beta)
  then show ?thesis using call roll s by (auto simp: decision_unpersisted_def Let_def spared_failSafe split: if_splits)
qed

lemma persisted_spared:
  assumes "spared al K (rw_state w)" and call: "decision_persisted ca d event entry (r, w) = (r', w')"
  shows "spared al K (rw_state w') \<and> re_allowlist r' = re_allowlist r"
proof -
  obtain e r1 s k where c: "CommitApplied (ca_env ca) d entry (r, rw_state w, rw_kernel w) = (e, r1, s, k)" by (metis prod_cases4)
  have "spared al K s \<and> re_allowlist r1 = re_allowlist r"
    using c assms(1) by (auto simp: CommitApplied_def Let_def spared_simps case_prod_beta split: option.splits)
  then show ?thesis using call c by (cases e) (auto simp: decision_persisted_def Let_def spared_simps RecordFailure_def spared_failSafe)
qed

lemma handle_spared:
  assumes sp: "spared al K (rw_state w)" and al: "re_allowlist r = al" and call: "handle_target ca te (r, w) = (r', w')"
  shows "spared al K (rw_state w') \<and> re_allowlist r' = al"
proof -
  obtain target event where te: "te = (target, event)" by (rule prod.exhaust)
  let ?d = "event_decision w target event"
  obtain res r1 s k where ex: "ExecuteDecision (ca_env ca) (\<lambda>_. rw_marker w) (runtime_kinetic w) ?d (r, rw_state w, rw_kernel w) = (res, r1, s, k)"
    by (metis prod_cases4)
  note e = execute_spared [OF sp al ex]
  show ?thesis
  proof (cases res)
    case (Inl err)
    then show ?thesis using call ex e(1,2) refused_spared [of al K "w\<lparr> rw_state := s, rw_kernel := k \<rparr>"] by (auto simp: handle_target_def te Let_def)
  next
    case (Inr entry)
    obtain perr s2 p where pp: "persistPolicy (Some (rc_policy (rw_ctl w))) (rc_cfg (rw_ctl w)) (s, rw_store w) = (perr, s2, p)" by (metis prod_cases3)
    have s2: "\<exists>ps. s2 = SetPolicyStatus ps s" using pp by (auto simp: persistPolicy_def Let_def split: prod.splits)
    let ?w = "w\<lparr> rw_state := s2, rw_kernel := k, rw_store := p \<rparr>"
    have sw: "spared al K (rw_state ?w)" using e(1) s2 spared_cong [of s2 s al K] by auto
    from e(3) [OF Inr] s2 obtain change where pend: "gm_get (re_pending r1) (be_ID entry) = Some change"
      "\<forall>q. pn_previous change = Some q \<longrightarrow> be_Target q = be_Target entry" "gm_get (st_blocks (rw_state ?w)) (be_Target entry) = Some entry" by auto
    show ?thesis
    proof (cases perr)
      case (Some x)
      then have "decision_unpersisted ca ?d event entry x (r1, ?w) = (r', w')" using call ex pp Inr by (simp add: handle_target_def te Let_def)
      from unpersisted_spared [OF sw pend this] e(2) show ?thesis by simp
    next
      case None
      then have "decision_persisted ca ?d event entry (r1, ?w) = (r', w')" using call ex pp Inr by (simp add: handle_target_def te Let_def)
      from persisted_spared [OF sw this] e(2) show ?thesis by simp
    qed
  qed
qed

lemma handle_fold_spared:
  assumes "fold (handle_target ca) tes (r, w) = (r', w')" "spared al K (rw_state w)" "re_allowlist r = al"
  shows "spared al K (rw_state w') \<and> re_allowlist r' = al"
  using assms
proof (induction tes arbitrary: r w)
  case (Cons te tes)
  obtain r1 w1 where h: "handle_target ca te (r, w) = (r1, w1)" by (rule prod.exhaust)
  from handle_spared [OF Cons.prems(2,3) h] Cons.IH [of r1 w1] Cons.prems(1) h show ?case by simp
qed simp

text \<open>The invariant of a drain.\<close>

definition runtime_spared :: "allowlist \<Rightarrow> string set \<Rightarrow> ('k, 'p, 'l) runtime_world \<Rightarrow> bool" where
  "runtime_spared al K kw \<longleftrightarrow> spared al K (rw_state (kw_world kw)) \<and> (\<forall>r. kw_response kw = Some r \<longrightarrow> re_allowlist r = al)"

lemma decisions_spared: "runtime_spared al K kw \<Longrightarrow> runtime_spared al K (handleKineticDecisions ca events kw)"
  by (auto simp: runtime_spared_def handleKineticDecisions_def dest!: handle_fold_spared split: option.split prod.split)

lemma sample_spared:
  assumes "runtime_spared al K kw"
  shows "runtime_spared al K (ingest_sample ca raw kw)"
proof -
  obtain g e s where i: "IngestPacket (ca_env ca) (ingress_packet (env_now (ca_env ca)) raw) (kw_engine kw, rw_state (kw_world kw)) = (g, e, s)"
    by (metis prod_cases3)
  have "spared al K s" using assms ingest_state(1,2) [OF i] spared_cong [of s "rw_state (kw_world kw)" al K] by (simp add: runtime_spared_def)
  then have "runtime_spared al K (kw\<lparr> kw_engine := e, kw_world := (kw_world kw)\<lparr> rw_state := s \<rparr> \<rparr>)" using assms by (simp add: runtime_spared_def)
  from decisions_spared [OF this] show ?thesis by (simp add: ingest_sample_def i)
qed

lemma samples_spared: "runtime_spared al K kw \<Longrightarrow> runtime_spared al K (fold (ingest_sample ca) events kw)"
  by (induction events arbitrary: kw) (simp_all add: sample_spared)

lemma drain_spared: "drain_batches ca n answers kw = (err, kw') \<Longrightarrow> runtime_spared al K kw \<Longrightarrow> runtime_spared al K kw'"
proof (induction n arbitrary: answers kw)
  case (Suc n)
  show ?case
  proof (cases "answers 0")
    case (Inr events)
    note s = samples_spared [OF Suc.prems(2), of ca events]
    show ?thesis
    proof (cases "events = []")
      case False
      with Suc.prems(1) Inr have "drain_batches ca n (\<lambda>i. answers (Suc i)) (fold (ingest_sample ca) events kw) = (err, kw')" by simp
      from Suc.IH [OF this s] show ?thesis .
    qed (use Suc.prems Inr in simp)
  qed (use Suc.prems in simp)
qed simp

text \<open>The release controller, called when a decision or the sensor fails, keeps what the block list holds.\<close>

lemma spared_reconcile: "spared al K (rw_state w) \<Longrightarrow> spared al K (rw_state (snd (reconcileVerifiedLocked w)))"
  using confirm_blocks_keeps by (fastforce simp: spared_def reconcileVerifiedLocked_def split: option.split prod.split)

lemma spared_recover:
  assumes "spared al K (rw_state w)"
  shows "spared al K (rw_state (recoverIfGatesPassLocked ca w))"
proof (cases rule: recover_cases [of ca w, case_names stay tried recovered])
  case (recovered m)
  let ?v = "snd (reconcileVerifiedLocked w)" and ?d = "''recovered to enforce after the cause cleared and the calm held''"
  have "spared al K (rw_state (emit ca ''high'' ''release.recovered'' ''release-gate'' m (enter_enforce ca ?d ?v))) = spared al K (rw_state ?v)"
    by (rule spared_cong) (simp_all add: enter_enforce_def enter_phase_def Let_def)
  with recovered spared_reconcile [OF assms] show ?thesis by simp
qed (use assms spared_reconcile in simp_all)

lemma spared_evaluate:
  fixes w :: "('k, 'p, 'l) release_world" and ca :: "'l release_call"
  assumes "spared al K (rw_state w)"
  shows "spared al K (rw_state (Evaluate ca w))"
proof -
  have q: "spared al K (rw_state (refresh_publish ca u)) = spared al K (rw_state u)" "spared al K (rw_state (trackNominalLocked ca u)) = spared al K (rw_state u)"
    for u :: "('k, 'p, 'l) release_world"
    by (rule spared_cong; simp add: trackNominalLocked_def markNominalLocked_def)+
  show ?thesis
    using assms spared_recover [of al K "trackNominalLocked ca w" ca] spared_degrade [OF assms, of ca] by (simp add: Evaluate_def Let_def q)
qed

lemma spared_sensor:
  assumes "spared al K (rw_state w)"
  shows "spared al K (rw_state (setKineticSensorState ca status st reason w))"
proof -
  have u: "spared al K (SetSensorCoverage c s) = spared al K s" "spared al K (UpdateKineticTelemetry f s) = spared al K s" for c f s
    by (rule spared_cong; simp add: SetSensorCoverage_def UpdateKineticTelemetry_def Let_def)+
  show ?thesis using assms by (simp add: setKineticSensorState_def Let_def u spared_evaluate)
qed

lemma runtime_spared_world:
  "runtime_spared al K kw \<Longrightarrow> spared al K (rw_state w) \<Longrightarrow> kw_response kw' = kw_response kw \<Longrightarrow> kw_world kw' = w \<Longrightarrow> runtime_spared al K kw'"
  by (simp add: runtime_spared_def)

lemma publish_spared: "runtime_spared al K kw \<Longrightarrow> runtime_spared al K (publish_health ca m p c kw)"
  by (simp add: publish_health_def runtime_spared_def spared_sensor split: prod.split)

lemma probe_spared:
  assumes "runtime_spared al K kw"
  shows "runtime_spared al K (probeIngressHealth ca answer kw)"
proof -
  have t: "spared al K (UpdateKineticTelemetry f s) = spared al K s" for f s
    by (rule spared_cong; simp add: UpdateKineticTelemetry_def)
  have h: "runtime_spared al K (u\<lparr> kw_lastHealth := x \<rparr>) = runtime_spared al K u" for u x by (simp add: runtime_spared_def)
  show ?thesis unfolding probeIngressHealth_def Let_def
    using assms by (auto simp: h split: sum.split intro!: publish_spared) (simp_all add: runtime_spared_def t)
qed

lemma poll_spared:
  assumes "runtime_spared al K kw"
  shows "runtime_spared al K (poll_step ca answers kw)"
proof -
  obtain err u where d: "drain_batches ca kineticMaxDrainBatches answers kw = (err, u)" by (rule prod.exhaust)
  have c: "runtime_spared al K (u\<lparr> kw_eventFailures := x \<rparr>)" for x using drain_spared [OF d assms] by (simp add: runtime_spared_def)
  show ?thesis by (simp add: poll_step_def d c publish_spared split: option.split)
qed

lemma sweep_spared: "runtime_spared al K kw \<Longrightarrow> runtime_spared al K (sweep_step ca kw)"
  using spared_cong [of "syncTelemetryStateLocked e (rw_state (kw_world kw))" "rw_state (kw_world kw)" al K for e]
  by (simp add: sweep_step_def Sweep_def Let_def runtime_spared_def syncTelemetryStateLocked_def UpdateKineticTelemetry_def)

lemma tick_spared:
  assumes "runtime_spared al K kw"
  shows "runtime_spared al K (runKineticRuntime t kw)"
proof -
  have s: "runtime_spared al K (start_runtime ca answer (kw\<lparr> kw_running := True \<rparr>))" for ca answer
    unfolding start_runtime_def by (rule probe_spared) (use assms in \<open>simp add: runtime_spared_def\<close>)
  have "runtime_spared al K (setKineticRuntimeEnabled ca answer enabled kw)" for ca answer enabled
    using assms s by (auto simp: setKineticRuntimeEnabled_def) (simp_all add: runtime_spared_def spared_sensor)
  with assms show ?thesis by (simp add: runKineticRuntime_def poll_spared probe_spared sweep_spared split: tick.split)
qed

text \<open>The targets that the second state blocks and the first does not contain no address of the management allowlist.\<close>

definition new_blocks_spare :: "string list \<Rightarrow> 'l State \<Rightarrow> 'l State \<Rightarrow> bool" where
  "new_blocks_spare items s s' \<longleftrightarrow> (\<forall>t ip n a. gm_has (st_blocks s') t \<and> \<not> gm_has (st_blocks s) t \<and> parseCIDR t = Some (ip, n)
     \<and> (length a = 4 \<or> length a = 16) \<and> isAllowlistedLocked (compile_allowlist items) a \<longrightarrow> \<not> net_contains n a)"

text \<open>
  C8: From the kernel samples to the block list the production loop never blocks an allowlisted address. Whatever the core answers,
  whatever fails on the way, and however the runtime is switched off and on between, no target that a run of the loop adds to the block list contains
  an address that the compiled management allowlist accepts.
\<close>

theorem runtime_spares_allowlist:
  fixes kw :: "('a, 'b, 'c) runtime_world"
  assumes "kw_response kw = Some r" and "re_allowlist r = compile_allowlist items" and "blocks_wf (rw_state (kw_world kw))"
  shows "new_blocks_spare items (rw_state (kw_world kw)) (rw_state (kw_world (fold runKineticRuntime ticks kw)))"
proof -
  let ?K = "{t. gm_has (st_blocks (rw_state (kw_world kw))) t}" and ?al = "compile_allowlist items"
  have run: "runtime_spared ?al K u \<Longrightarrow> runtime_spared ?al K (fold runKineticRuntime ticks u)" for K and u :: "('a, 'b, 'c) runtime_world"
    by (induction ticks arbitrary: u) (simp_all add: tick_spared)
  have "runtime_spared ?al ?K kw" using assms by (simp add: runtime_spared_def spared_def)
  from run [OF this]
  show ?thesis unfolding new_blocks_spare_def runtime_spared_def spared_def by (blast dest: unprotected_disjoint)
qed

section \<open>Which event decides\<close>

text \<open>What the selection loop has collected from the events so far.\<close>

definition selection :: "KineticEvent set \<Rightarrow> (string, KineticEvent) gomap \<Rightarrow> bool" where
  "selection E m \<longleftrightarrow> gm_wf m
     \<and> (\<forall>t e. gm_get m t = Some e \<longrightarrow> e \<in> E \<and> actionable e \<and> kineticEventTarget e = t
          \<and> (\<forall>e' \<in> E. actionable e' \<and> kineticEventTarget e' = t \<longrightarrow> \<not> stronger e' e))
     \<and> (\<forall>e \<in> E. actionable e \<longrightarrow> gm_has m (kineticEventTarget e))"

lemma stronger_irrefl: "\<not> stronger e e"
  by (simp add: stronger_def)

lemma stronger_trans: "stronger a b \<Longrightarrow> \<not> stronger c b \<Longrightarrow> \<not> stronger c a"
  by (auto simp: stronger_def)

lemma selection_step:
  assumes "selection E m"
  shows "selection (insert e E) (keep_strongest e m)"
proof (cases "actionable e")
  case True
  let ?t = "kineticEventTarget e"
  show ?thesis
  proof (cases "gm_get m ?t")
    case None
    then have "\<forall>e' \<in> E. actionable e' \<longrightarrow> kineticEventTarget e' \<noteq> ?t" using assms by (auto simp: selection_def gm_has_def)
    then show ?thesis using None True assms
      by (auto simp: selection_def keep_strongest_def gm_has_def stronger_irrefl split: if_splits)
  next
    case (Some c)
    have c: "c \<in> E" "actionable c" "kineticEventTarget c = ?t" "\<And>e'. e' \<in> E \<Longrightarrow> actionable e' \<Longrightarrow> kineticEventTarget e' = ?t \<Longrightarrow> \<not> stronger e' c"
      using assms Some by (auto simp: selection_def)
    show ?thesis
    proof (cases "stronger e c")
      case s: True
      show ?thesis using Some True s assms c(4) stronger_trans [OF s]
        by (auto simp: selection_def keep_strongest_def gm_has_def stronger_irrefl split: if_splits)
    next
      case False
      then have "keep_strongest e m = m" using Some True by (simp add: keep_strongest_def)
      then show ?thesis using assms Some False by (auto simp: selection_def gm_has_def)
    qed
  qed
next
  case False
  then show ?thesis using assms by (auto simp: selection_def keep_strongest_def)
qed

lemma selection_events: "selection (set events) (strongest_events events)"
proof -
  have "selection E m \<Longrightarrow> selection (set es \<union> E) (fold keep_strongest es m)" for E m es
  proof (induction es arbitrary: E m)
    case (Cons e es)
    from Cons.IH [OF selection_step [OF Cons.prems, of e]] show ?case by simp
  qed simp
  from this [of "{}" "[]" events] show ?thesis by (simp add: strongest_events_def selection_def)
qed

text \<open>
  C9: One batch of events leads to at most one decision per target, and to one for every target that asks for containment. The event that
  decides is one of the batch that asks to contain or block that target, no other such event of the batch is stronger, and a
  wide-range event names no target at all.
\<close>

theorem one_decision_per_target:
  "distinct (map fst (strongest_events events))
   \<and> fst ` set (strongest_events events) = kineticEventTarget ` {e \<in> set events. actionable e}
   \<and> snd ` set (strongest_events events) \<subseteq> {e \<in> set events. actionable e \<and> ke_RuleID e \<noteq> ''NET.INGRESS.WIDE_V4''
        \<and> {e' \<in> set events. actionable e' \<and> kineticEventTarget e' = kineticEventTarget e \<and> stronger e' e} = {}}
   \<and> {(t, e) \<in> set (strongest_events events). t \<noteq> kineticEventTarget e} = {}"
proof -
  let ?m = "strongest_events events"
  note s = selection_events [of events]
  have wf: "gm_wf ?m" and mem: "(t, e) \<in> set ?m \<longleftrightarrow> gm_get ?m t = Some e" for t e
    using s by (simp_all add: selection_def gm_wf_get_iff)
  have sound: "e \<in> set events \<and> actionable e \<and> kineticEventTarget e = t
      \<and> (\<forall>e' \<in> set events. actionable e' \<and> kineticEventTarget e' = t \<longrightarrow> \<not> stronger e' e)" if "(t, e) \<in> set ?m" for t e
    using s that unfolding mem selection_def by blast
  have tgt: "actionable e \<Longrightarrow> kineticEventTarget e \<noteq> [] \<and> ke_RuleID e \<noteq> ''NET.INGRESS.WIDE_V4''" for e
    by (auto simp: actionable_def kineticEventTarget_def)
  have "fst ` set ?m = kineticEventTarget ` {e \<in> set events. actionable e}"
  proof
    show "fst ` set ?m \<subseteq> kineticEventTarget ` {e \<in> set events. actionable e}" using sound tgt by fastforce
    have "kineticEventTarget e \<in> fst ` set ?m" if "e \<in> set events" "actionable e" for e
    proof -
      have "gm_has ?m (kineticEventTarget e)" using s that by (simp add: selection_def)
      then obtain e' where "gm_get ?m (kineticEventTarget e) = Some e'" by (auto simp: gm_has_def)
      then show ?thesis using mem by force
    qed
    then show "kineticEventTarget ` {e \<in> set events. actionable e} \<subseteq> fst ` set ?m" by blast
  qed
  moreover have "distinct (map fst ?m)" using wf by (simp add: gm_wf_def)
  ultimately show ?thesis using sound tgt by fastforce
qed

section \<open>Transport failures\<close>

lemma online_verdict:
  assumes "0 \<le> n" "n < 5"
  shows "\<exists>reason. evaluateKineticSensorHealth n 0 p (Some h) = (CoverageOnline, ''pass'', reason)"
  using assms by (simp add: evaluateKineticSensorHealth_def kineticOfflineAfterFails_def kineticDrainDegradeAfterFails_def Let_def)

lemma ingest_counters [simp]:
  "kw_eventFailures (fold (ingest_sample ca) events kw) = kw_eventFailures kw" "kw_healthFailures (fold (ingest_sample ca) events kw) = kw_healthFailures kw"
  "kw_lastHealth (fold (ingest_sample ca) events kw) = kw_lastHealth kw"
  by (induction events arbitrary: kw) (simp_all add: ingest_sample_def handleKineticDecisions_def case_prod_beta split: option.split)

text \<open>A drain that fails after some batches has handled exactly those.\<close>

lemma drain_fails:
  fixes kw :: "('k, 'p, 'l) runtime_world"
  assumes "\<And>i. i < length batches \<Longrightarrow> answers i = Inr (batches ! i)" and "answers (length batches) = Inl err" and "[] \<notin> set batches" and "length batches < n"
  shows "drain_batches ca n answers kw = (Some err, fold (ingest_sample ca) (concat batches) kw)"
  using assms
proof (induction batches arbitrary: n answers kw)
  case Nil
  then show ?case by (cases n) simp_all
next
  case (Cons b bs)
  from Cons.prems(4) obtain m where n: "n = Suc m" by (cases n) simp_all
  have "answers 0 = Inr b" "b \<noteq> []" using Cons.prems(1) [of 0] Cons.prems(3) by auto
  moreover have "drain_batches ca m (\<lambda>i. answers (Suc i)) u = (Some err, fold (ingest_sample ca) (concat bs) u)" for u :: "('k, 'p, 'l) runtime_world"
    using Cons.IH [of "\<lambda>i. answers (Suc i)" m u] Cons.prems n by fastforce
  ultimately show ?case by (simp add: n Let_def)
qed

text \<open>
  C10: A few failed drains are no outage. While the health probe last saw a verified enforcement path, a drain that fails after fewer than four failed ones, with its first request or after
  any number of batches, is counted and reported, and the failure itself changes nothing else: the samples of the batches that arrived are handled as they would be without it, and against the state
  they leave, the release controller, the policy store, the block list and the kernel are untouched, the ingress sensor stays online and no fall-back is evaluated.
\<close>

theorem drain_failures_tolerated:
  assumes "\<And>i. i < length batches \<Longrightarrow> answers i = Inr (batches ! i)" and "answers (length batches) = Inl err" and "[] \<notin> set batches" and "length batches < 16"
    and "kw_healthFailures kw = 0" and "kw_lastHealth kw = Some h" and "0 \<le> kw_eventFailures kw" and "kw_eventFailures kw < 4"
  shows "let kw' = poll_step ca answers kw; w = kw_world (fold (ingest_sample ca) (concat batches) kw); w' = kw_world kw'
    in kw_eventFailures kw' = kw_eventFailures kw + 1 \<and> rw_ctl w' = rw_ctl w \<and> rw_kernel w' = rw_kernel w \<and> rw_store w' = rw_store w
       \<and> st_blocks (rw_state w') = st_blocks (rw_state w)
       \<and> map_option sc_Status (gm_get (st_sensors (rw_state w')) ''xdp_ingress'') = Some CoverageOnline"
proof -
  obtain reason where v: "evaluateKineticSensorHealth (kw_eventFailures kw + 1) 0 (Some h) (Some h) = (CoverageOnline, ''pass'', reason)"
    using online_verdict [of "kw_eventFailures kw + 1" "Some h" h] assms(7,8) by auto
  have d: "drain_batches ca kineticMaxDrainBatches answers kw = (Some err, fold (ingest_sample ca) (concat batches) kw)"
    by (rule drain_fails [OF assms(1-3)]) (use assms(4) in \<open>simp_all add: kineticMaxDrainBatches_def\<close>)
  show ?thesis
    by (simp add: poll_step_def d publish_health_def assms(5,6) v setKineticSensorState_def Let_def SetSensorCoverage_def
        UpdateKineticTelemetry_def)
qed

section \<open>An example runtime\<close>

definition sample_runtime :: "KineticEngine \<Rightarrow> Config \<Rightarrow> int \<Rightarrow> (string set, BlockEntry list, nat) runtime_world" where
  "sample_runtime e c n = \<lparr> kw_engine = e, kw_response = Some (ready_engine c []),
     kw_world = sample_world c (st_release (ready_state c [])) (ready_state c []) {}, kw_eventFailures = n, kw_healthFailures = 0,
     kw_lastHealth = Some \<lparr> ch_EventsEmitted = 7, ch_RingDrops = 0, ch_TrackInsertFailures = 0, ch_Mode = ''NATIVE_XDP'' \<rparr>, kw_running = True \<rparr>"

theorem runtime_spares_allowlist_witness:
  "\<forall>e c ticks. new_blocks_spare [''192.0.2.0/24''] (ready_state c []) (rw_state (kw_world (fold runKineticRuntime ticks (sample_runtime e c 0))))"
proof (intro allI)
  fix e c ticks
  have "kw_response (sample_runtime e c 0) = Some (ready_engine c [])" "rw_state (kw_world (sample_runtime e c 0)) = ready_state c []"
    by (simp_all add: sample_runtime_def sample_world_def)
  with runtime_spares_allowlist [OF _ ready_allowlist, of "sample_runtime e c 0" c "[]" ticks] ready_wf
  show "new_blocks_spare [''192.0.2.0/24''] (ready_state c []) (rw_state (kw_world (fold runKineticRuntime ticks (sample_runtime e c 0))))" by simp
qed

theorem drain_failures_tolerated_witness:
  "\<forall>e c raw. let kw' = poll_step (call_at 9) (\<lambda>i. if i = 0 then Inr [raw] else Inl ''timeout'') (sample_runtime e c 3)
     in kw_eventFailures kw' = 4 \<and> map_option sc_Status (gm_get (st_sensors (rw_state (kw_world kw'))) ''xdp_ingress'') = Some CoverageOnline"
proof (intro allI)
  fix e c raw
  show "let kw' = poll_step (call_at 9) (\<lambda>i. if i = 0 then Inr [raw] else Inl ''timeout'') (sample_runtime e c 3)
     in kw_eventFailures kw' = 4 \<and> map_option sc_Status (gm_get (st_sensors (rw_state (kw_world kw'))) ''xdp_ingress'') = Some CoverageOnline"
    using drain_failures_tolerated [of "[[raw]]" "\<lambda>i. if i = 0 then Inr [raw] else Inl ''timeout''" "''timeout''" "sample_runtime e c 3" _ "call_at 9"]
    by (simp add: sample_runtime_def Let_def)
qed

section \<open>The bound of a drain\<close>

lemma drain_reads:
  fixes kw :: "('k, 'p, 'l) runtime_world"
  shows "(\<And>i. i < n \<Longrightarrow> answers i = answers' i) \<Longrightarrow> drain_batches ca n answers kw = drain_batches ca n answers' kw"
proof (induction n arbitrary: answers answers' kw)
  case (Suc n)
  have "answers 0 = answers' 0" using Suc.prems by simp
  moreover have "drain_batches ca n (\<lambda>i. answers (Suc i)) u = drain_batches ca n (\<lambda>i. answers' (Suc i)) u" for u :: "('k, 'p, 'l) runtime_world"
    using Suc.IH [of "\<lambda>i. answers (Suc i)" "\<lambda>i. answers' (Suc i)" u] Suc.prems by simp
  ultimately show ?case by (simp add: Let_def split: sum.split)
qed simp

text \<open>
  C11: A poll ends whatever the core sends. It asks for at most sixteen batches, so a core that answers with events for ever cannot keep the
  loop from its health probe and its sweep: the result depends on the first sixteen answers only.
\<close>

theorem poll_reads_bounded:
  assumes "\<And>i. i < 16 \<Longrightarrow> answers i = answers' i"
  shows "poll_step ca answers kw = poll_step ca answers' kw"
  using drain_reads [of kineticMaxDrainBatches answers answers' ca kw] assms by (simp add: poll_step_def kineticMaxDrainBatches_def)

theorem poll_reads_bounded_witness:
  "\<forall>e c ev. poll_step (call_at 9) (\<lambda>_. Inr [ev]) (sample_runtime e c 0) = poll_step (call_at 9) (\<lambda>i. if i < 16 then Inr [ev] else Inl ''closed'') (sample_runtime e c 0)"
proof (intro allI)
  fix e c ev
  show "poll_step (call_at 9) (\<lambda>_. Inr [ev]) (sample_runtime e c 0) = poll_step (call_at 9) (\<lambda>i. if i < 16 then Inr [ev] else Inl ''closed'') (sample_runtime e c 0)"
    by (rule poll_reads_bounded) simp
qed

end
