(* ===== verification/Encodings.thy ===== *)
theory Encodings
  imports Net_Facts
begin

text \<open>
  Text encodings of Go's standard library that the evidence ledger and the gateway rely on: \<open>encoding/hex\<close>, \<open>base64.RawURLEncoding\<close>,
  UTF-8 decoding, the string literals of \<open>encoding/json\<close> and the JSON form of \<open>time.Time\<close>. Byte strings are strings.

  The lemmas give the round trips of hex and Base64, and show how \<open>encoding/json\<close> treats bytes that are not UTF-8: the encoder writes the escape of the
  replacement character, a decoder then yields the character itself, and encoding that again gives a different text.
\<close>

section \<open>Hexadecimal\<close>

definition byte_of :: "char \<Rightarrow> nat" where "byte_of c = of_char c"

lemma byte_of_lt [simp]: "byte_of c < 256"
  by (simp add: byte_of_def)

lemma char_of_byte_of [simp]: "char_of (byte_of c) = c"
  by (simp add: byte_of_def)

lemma byte_of_char_of: "n < 256 \<Longrightarrow> byte_of (char_of n) = n"
  by (simp add: byte_of_def)

lemma byte_of_inject [simp]: "byte_of c = byte_of d \<longleftrightarrow> c = d"
  by (simp add: byte_of_def)

fun hex_encode :: "string \<Rightarrow> string" where
  "hex_encode [] = []"
| "hex_encode (c # cs) = hex_char (byte_of c div 16) # hex_char (byte_of c mod 16) # hex_encode cs"

fun hex_decode :: "string \<Rightarrow> string option" where
  "hex_decode [] = Some []"
| "hex_decode [c] = None"
| "hex_decode (a # b # cs) =
     (case (hex_value a, hex_value b, hex_decode cs) of
        (Some x, Some y, Some r) \<Rightarrow> Some (char_of (x * 16 + y) # r)
      | _ \<Rightarrow> None)"

lemma hex_decode_encode [simp]: "hex_decode (hex_encode s) = Some s"
  by (induction s) (simp_all add: less_mult_imp_div_less)

lemma length_hex_encode [simp]: "length (hex_encode s) = 2 * length s"
  by (induction s) simp_all

lemma hex_encode_inject [simp]: "hex_encode s = hex_encode t \<longleftrightarrow> s = t"
  by (metis hex_decode_encode option.inject)

section \<open>Base64, URL alphabet, no padding\<close>

definition b64_char :: "nat \<Rightarrow> char" where
  "b64_char n = ''ABCDEFGHIJKLMNOPQRSTUVWXYZabcdefghijklmnopqrstuvwxyz0123456789-_'' ! n"

definition b64_value :: "char \<Rightarrow> nat option" where
  "b64_value c =
     (let n = byte_of c
      in if 65 \<le> n \<and> n \<le> 90 then Some (n - 65)
         else if 97 \<le> n \<and> n \<le> 122 then Some (n - 71)
         else if 48 \<le> n \<and> n \<le> 57 then Some (n + 4)
         else if n = 45 then Some 62
         else if n = 95 then Some 63
         else None)"

fun b64_encode :: "string \<Rightarrow> string" where
  "b64_encode [] = []"
| "b64_encode [a] = (let x = byte_of a in [b64_char (x div 4), b64_char (x mod 4 * 16)])"
| "b64_encode [a, b] = (let x = byte_of a; y = byte_of b
     in [b64_char (x div 4), b64_char (x mod 4 * 16 + y div 16), b64_char (y mod 16 * 4)])"
| "b64_encode (a # b # c # cs) = (let x = byte_of a; y = byte_of b; z = byte_of c
     in b64_char (x div 4) # b64_char (x mod 4 * 16 + y div 16) # b64_char (y mod 16 * 4 + z div 64) # b64_char (z mod 64) # b64_encode cs)"

text \<open>The decoder skips line breaks; a group of one character is an error, the bits beyond the last byte are ignored.\<close>

fun b64_groups :: "nat list \<Rightarrow> string option" where
  "b64_groups [] = Some []"
| "b64_groups [p] = None"
| "b64_groups [p, q] = Some [char_of (p * 4 + q div 16)]"
| "b64_groups [p, q, r] = Some [char_of (p * 4 + q div 16), char_of (q mod 16 * 16 + r div 4)]"
| "b64_groups (p # q # r # s # vs) =
     map_option (\<lambda>t. char_of (p * 4 + q div 16) # char_of (q mod 16 * 16 + r div 4) # char_of (r mod 4 * 64 + s) # t) (b64_groups vs)"

definition b64_decode :: "string \<Rightarrow> string option" where
  "b64_decode s =
     (let cs = filter (\<lambda>c. byte_of c \<noteq> 10 \<and> byte_of c \<noteq> 13) s; vs = map b64_value cs
      in if None \<in> set vs then None else b64_groups (map the vs))"

lemma b64_table: "\<forall>n \<in> {0..<64}. b64_value (b64_char n) = Some n \<and> byte_of (b64_char n) \<ge> 45 \<and> b64_char n \<noteq> CHR ''.''"
  by (simp add: atLeastLessThan_nat_numeral b64_char_def b64_value_def byte_of_def)

lemma b64_value_char [simp]: "n < 64 \<Longrightarrow> b64_value (b64_char n) = Some n"
  and b64_char_printable: "n < 64 \<Longrightarrow> byte_of (b64_char n) \<ge> 45"
  and b64_char_dot: "n < 64 \<Longrightarrow> b64_char n \<noteq> CHR ''.''"
  using b64_table by auto

lemma b64_sextets:
  assumes "x < 256" "y < 256" "z < (256 :: nat)"
  shows "x div 4 < 64" "x mod 4 * 16 < 64" "x mod 4 * 16 + y div 16 < 64" "y mod 16 * 4 < 64" "y mod 16 * 4 + z div 64 < 64" "z mod 64 < 64"
proof -
  have "x div 4 < 64" "y div 16 < 16" "z div 64 < 4" using assms by (simp_all add: less_mult_imp_div_less)
  moreover have "x mod 4 < 4" "y mod 16 < 16" by simp_all
  ultimately show "x div 4 < 64" "x mod 4 * 16 < 64" "x mod 4 * 16 + y div 16 < 64" "y mod 16 * 4 < 64" "y mod 16 * 4 + z div 64 < 64" "z mod 64 < 64"
    by linarith+
qed

lemma b64_char_in: "n < 64 \<Longrightarrow> b64_char n \<in> b64_char ` {..<64}"
  by simp

lemma b64_encode_alphabet: "set (b64_encode s) \<subseteq> b64_char ` {..<64}"
proof (induction s rule: b64_encode.induct)
  case (2 a)
  show ?case using b64_sextets [of "byte_of a" 0 0, OF byte_of_lt, THEN b64_char_in]
    unfolding b64_encode.simps Let_def list.set insert_subset by (simp only: zero_less_numeral empty_subsetI simp_thms)
next
  case (3 a b)
  show ?case using b64_sextets [of "byte_of a" "byte_of b" 0, OF byte_of_lt byte_of_lt, THEN b64_char_in]
    unfolding b64_encode.simps Let_def list.set insert_subset by (simp only: zero_less_numeral empty_subsetI simp_thms)
next
  case (4 a b c cs)
  show ?case using b64_sextets [of "byte_of a" "byte_of b" "byte_of c", OF byte_of_lt byte_of_lt byte_of_lt, THEN b64_char_in] 4
    unfolding b64_encode.simps Let_def list.set insert_subset by (simp only: simp_thms)
qed simp

lemma b64_bytes:
  assumes "x < 256" "y < 256" "z < (256 :: nat)"
  shows "x div 4 * 4 + x mod 4 * 16 div 16 = x" "x div 4 * 4 + (x mod 4 * 16 + y div 16) div 16 = x"
    "(x mod 4 * 16 + y div 16) mod 16 * 16 + y mod 16 * 4 div 4 = y"
    "(x mod 4 * 16 + y div 16) mod 16 * 16 + (y mod 16 * 4 + z div 64) div 4 = y"
    "(y mod 16 * 4 + z div 64) mod 4 * 64 + z mod 64 = z"
proof -
  have h: "y div 16 < 16" "z div 64 < 4" using assms by (simp_all add: less_mult_imp_div_less)
  then have "(x mod 4 * 16 + y div 16) div 16 = x mod 4" "(x mod 4 * 16 + y div 16) mod 16 = y div 16"
    "(y mod 16 * 4 + z div 64) div 4 = y mod 16" "(y mod 16 * 4 + z div 64) mod 4 = z div 64" by simp_all
  then show "x div 4 * 4 + x mod 4 * 16 div 16 = x" "x div 4 * 4 + (x mod 4 * 16 + y div 16) div 16 = x"
    "(x mod 4 * 16 + y div 16) mod 16 * 16 + y mod 16 * 4 div 4 = y"
    "(x mod 4 * 16 + y div 16) mod 16 * 16 + (y mod 16 * 4 + z div 64) div 4 = y"
    "(y mod 16 * 4 + z div 64) mod 4 * 64 + z mod 64 = z"
    by (simp_all only: div_mult_mod_eq nonzero_mult_div_cancel_right numeral_neq_zero not_False_eq_True if_False simp_thms)
qed

lemma b64_groups_encode: "b64_groups (map (\<lambda>c. the (b64_value c)) (b64_encode s)) = Some s"
proof (induction s rule: b64_encode.induct)
  case (2 a)
  note x = b64_sextets [of "byte_of a" 0 0, OF byte_of_lt] and y = b64_bytes [of "byte_of a" 0 0, OF byte_of_lt]
  show ?case unfolding b64_encode.simps Let_def list.map
    by (simp only: b64_value_char x option.sel b64_groups.simps y char_of_byte_of) 
next
  case (3 a b)
  note x = b64_sextets [of "byte_of a" "byte_of b" 0, OF byte_of_lt byte_of_lt] and y = b64_bytes [of "byte_of a" "byte_of b" 0, OF byte_of_lt byte_of_lt]
  show ?case unfolding b64_encode.simps Let_def list.map
    by (simp only: b64_value_char x option.sel b64_groups.simps y char_of_byte_of zero_less_numeral) 
next
  case (4 a b c cs)
  note x = b64_sextets [of "byte_of a" "byte_of b" "byte_of c", OF byte_of_lt byte_of_lt byte_of_lt]
    and y = b64_bytes [of "byte_of a" "byte_of b" "byte_of c", OF byte_of_lt byte_of_lt byte_of_lt]
  have "b64_groups (map (\<lambda>c. the (b64_value c)) (b64_encode cs)) = Some cs" using 4 by simp
  then show ?case unfolding b64_encode.simps Let_def list.map
    by (simp only: b64_value_char x option.sel b64_groups.simps y char_of_byte_of option.map) 
qed simp

lemma b64_decode_encode [simp]: "b64_decode (b64_encode s) = Some s"
proof -
  have a: "b64_value c \<noteq> None \<and> byte_of c \<noteq> 10 \<and> byte_of c \<noteq> 13" if "c \<in> set (b64_encode s)" for c
    using that b64_encode_alphabet [of s] b64_char_printable by fastforce
  then have "filter (\<lambda>c. byte_of c \<noteq> 10 \<and> byte_of c \<noteq> 13) (b64_encode s) = b64_encode s" by (simp add: filter_id_conv)
  moreover have "None \<notin> set (map b64_value (b64_encode s))" using a by fastforce
  ultimately show ?thesis using b64_groups_encode [of s] by (simp add: b64_decode_def comp_def)
qed

lemma b64_encode_dot: "CHR ''.'' \<notin> set (b64_encode s)"
  using b64_encode_alphabet [of s] b64_char_dot by force

section \<open>UTF-8\<close>

text \<open>\<open>utf8.DecodeRuneInString\<close>: the number of bytes of the valid encoding at the front of the string, if there is one.\<close>

definition cont_byte :: "nat \<Rightarrow> nat \<Rightarrow> char \<Rightarrow> bool" where
  "cont_byte lo hi c \<longleftrightarrow> lo \<le> byte_of c \<and> byte_of c \<le> hi"

fun rune_len :: "string \<Rightarrow> nat option" where
  "rune_len [] = None"
| "rune_len (c # cs) =
     (let n = byte_of c; t = cont_byte 128 191
      in if n < 128 then Some 1
         else if 194 \<le> n \<and> n \<le> 223 then (case cs of a # _ \<Rightarrow> if t a then Some 2 else None | _ \<Rightarrow> None)
         else if 224 \<le> n \<and> n \<le> 239 then
           (case cs of a # b # _ \<Rightarrow>
              if cont_byte (if n = 224 then 160 else 128) (if n = 237 then 159 else 191) a \<and> t b then Some 3 else None
            | _ \<Rightarrow> None)
         else if 240 \<le> n \<and> n \<le> 244 then
           (case cs of a # b # d # _ \<Rightarrow>
              if cont_byte (if n = 240 then 144 else 128) (if n = 244 then 143 else 191) a \<and> t b \<and> t d then Some 4 else None
            | _ \<Rightarrow> None)
         else None)"

lemma rune_len_bounds: "rune_len s = Some n \<Longrightarrow> 0 < n \<and> n \<le> length s"
  by (cases s) (auto simp: Let_def split: if_splits list.splits)

lemma rune_len_take: "rune_len s = Some n \<Longrightarrow> rune_len (take n s @ t) = Some n"
  by (cases s) (auto simp: Let_def split: if_splits list.splits)

definition replacement_char :: string where
  "replacement_char = map char_of [239, 191, 189 :: nat]"

lemma rune_len_replacement [simp]: "rune_len (replacement_char @ s) = Some 3"
  by (simp add: replacement_char_def byte_of_char_of Let_def cont_byte_def)

text \<open>The valid UTF-8 string a byte string is coerced to: every byte that starts no valid encoding becomes the replacement character.\<close>

function coerce_utf8 :: "string \<Rightarrow> string" where
  "coerce_utf8 s =
     (if s = [] then [] else case rune_len s of
        None \<Rightarrow> replacement_char @ coerce_utf8 (tl s)
      | Some n \<Rightarrow> take n s @ coerce_utf8 (drop n s))"
  by pat_completeness auto
termination
  by (relation "measure length") (auto dest: rune_len_bounds)

declare coerce_utf8.simps [simp del]

function valid_utf8 :: "string \<Rightarrow> bool" where
  "valid_utf8 s = (s = [] \<or> (case rune_len s of None \<Rightarrow> False | Some n \<Rightarrow> valid_utf8 (drop n s)))"
  by pat_completeness auto
termination
  by (relation "measure length") (auto dest: rune_len_bounds)

declare valid_utf8.simps [simp del]

lemma coerce_valid: "valid_utf8 s \<Longrightarrow> coerce_utf8 s = s"
proof (induction s rule: coerce_utf8.induct)
  case (1 s)
  show ?case
  proof (cases "s = []")
    case False
    with 1 show ?thesis
      by (cases "rune_len s") (auto simp: coerce_utf8.simps [of s] valid_utf8.simps [of s])
  qed (simp add: coerce_utf8.simps)
qed

section \<open>JSON strings\<close>

text \<open>\<open>encoding/json\<close> with the HTML escaping of \<open>json.Marshal\<close>.\<close>

definition json_escape :: "char \<Rightarrow> string" where
  "json_escape c =
     (let n = byte_of c
      in if n = 34 then [CHR 0x5C, c] else if n = 92 then [CHR 0x5C, c]
         else if n = 8 then [CHR 0x5C, CHR ''b''] else if n = 12 then [CHR 0x5C, CHR ''f'']
         else if n = 10 then [CHR 0x5C, CHR ''n''] else if n = 13 then [CHR 0x5C, CHR ''r'']
         else if n = 9 then [CHR 0x5C, CHR ''t'']
         else if n < 32 \<or> n = 60 \<or> n = 62 \<or> n = 38 then CHR 0x5C # ''u00'' @ [hex_char (n div 16), hex_char (n mod 16)]
         else [c])"

definition line_separators :: "string list" where
  "line_separators = [map char_of [226, 128, 168 :: nat], map char_of [226, 128, 169 :: nat]]"

function json_body :: "string \<Rightarrow> string" where
  "json_body s =
     (if s = [] then []
      else if byte_of (hd s) < 128 then json_escape (hd s) @ json_body (tl s)
      else case rune_len s of
        None \<Rightarrow> CHR 0x5C # ''ufffd'' @ json_body (tl s)
      | Some n \<Rightarrow>
          (if take n s = line_separators ! 0 then CHR 0x5C # ''u2028''
           else if take n s = line_separators ! 1 then CHR 0x5C # ''u2029'' else take n s) @ json_body (drop n s))"
  by pat_completeness auto
termination
  by (relation "measure length") (auto dest: rune_len_bounds)

declare json_body.simps [simp del]

definition json_string :: "string \<Rightarrow> string" where
  "json_string s = CHR 0x22 # json_body s @ [CHR 0x22]"

text \<open>One character of the string: what the encoder writes for the first \<open>n\<close> bytes does not depend on the rest.\<close>

definition json_chunk :: "string \<Rightarrow> string" where
  "json_chunk u =
     (if byte_of (hd u) < 128 then json_escape (hd u)
      else if u = line_separators ! 0 then CHR 0x5C # ''u2028''
      else if u = line_separators ! 1 then CHR 0x5C # ''u2029'' else u)"

lemma rune_len_ascii: "s \<noteq> [] \<Longrightarrow> byte_of (hd s) < 128 \<Longrightarrow> rune_len s = Some 1"
  by (cases s) (simp_all add: Let_def)

lemma json_body_Nil [simp]: "json_body [] = []"
  by (simp add: json_body.simps)

lemma json_body_rune:
  assumes "rune_len s = Some n"
  shows "json_body (take n s @ t) = json_chunk (take n s) @ json_body t"
proof -
  have n: "0 < n" "n \<le> length s" using rune_len_bounds [OF assms] by auto
  have ne: "take n s @ t \<noteq> []" "hd (take n s @ t) = hd (take n s)" using n by (cases s; cases n; auto)+
  show ?thesis
  proof (cases "byte_of (hd (take n s)) < 128")
    case True
    have "n = 1" using rune_len_ascii [of s] True assms n by (cases s) auto
    then obtain a where "take n s = [a]" using n by (cases s) auto
    then show ?thesis using True by (simp add: json_body.simps [of "a # t"] json_chunk_def)
  next
    case False
    have r: "rune_len (take n s @ t) = Some n" by (rule rune_len_take [OF assms])
    have l: "length (take n s) = n" using n by simp
    show ?thesis using False ne r l
      by (simp add: json_body.simps [of "take n s @ t"] json_chunk_def)
  qed
qed

lemma json_body_bad:
  assumes "s \<noteq> []" "rune_len s = None"
  shows "json_body s = CHR 0x5C # ''ufffd'' @ json_body (tl s)"
  using assms rune_len_ascii [OF assms(1)] by (auto simp: json_body.simps [of s])

lemma json_body_replacement: "json_body (replacement_char @ t) = replacement_char @ json_body t"
  using json_body_rune [of replacement_char 3 t] rune_len_replacement [of "[]"]
  by (simp add: json_chunk_def replacement_char_def line_separators_def byte_of_char_of)

text \<open>Bytes that are not UTF-8 are written as an escape, but the coerced string is written as it is: the two texts part there.\<close>

lemma json_body_coerced:
  assumes "\<not> valid_utf8 s"
  shows "\<exists>p u v. json_body s = p @ CHR 0x5C # u \<and> json_body (coerce_utf8 s) = p @ char_of (239 :: nat) # v"
  using assms
proof (induction s rule: coerce_utf8.induct)
  case (1 s)
  have ne: "s \<noteq> []" using 1(3) by (auto simp: valid_utf8.simps)
  show ?case
  proof (cases "rune_len s")
    case None
    have "json_body (coerce_utf8 s) = char_of (239 :: nat) # char_of (191 :: nat) # char_of (189 :: nat) # json_body (coerce_utf8 (tl s))"
      using ne None by (simp add: coerce_utf8.simps [of s] json_body_replacement) (simp add: replacement_char_def)
    then show ?thesis using json_body_bad [OF ne None] by (metis append_Nil append_Cons)
  next
    case (Some n)
    have "\<not> valid_utf8 (drop n s)" using 1(3) ne Some by (simp add: valid_utf8.simps [of s])
    from 1(2) [OF ne Some this] obtain p u v
      where ih: "json_body (drop n s) = p @ CHR 0x5C # u" "json_body (coerce_utf8 (drop n s)) = p @ char_of (239 :: nat) # v" by blast
    have "json_body s = json_chunk (take n s) @ json_body (drop n s)" using json_body_rune [OF Some, of "drop n s"] by simp
    moreover have "json_body (coerce_utf8 s) = json_chunk (take n s) @ json_body (coerce_utf8 (drop n s))"
      using ne Some json_body_rune [OF Some] by (simp add: coerce_utf8.simps [of s])
    ultimately have "json_body s = (json_chunk (take n s) @ p) @ CHR 0x5C # u"
      "json_body (coerce_utf8 s) = (json_chunk (take n s) @ p) @ char_of (239 :: nat) # v" using ih by simp_all
    then show ?thesis by blast
  qed
qed

section \<open>Reading a JSON string\<close>

definition utf8_encode :: "nat \<Rightarrow> string" where
  "utf8_encode n =
     (if n < 128 then [char_of n]
      else if n < 2048 then [char_of (192 + n div 64), char_of (128 + n mod 64)]
      else [char_of (224 + n div 4096), char_of (128 + n div 64 mod 64), char_of (128 + n mod 64)])"

definition unescape :: "char \<Rightarrow> char option" where
  "unescape c =
     (if c = CHR ''b'' then Some (char_of (8 :: nat)) else if c = CHR ''f'' then Some (char_of (12 :: nat))
      else if c = CHR ''n'' then Some (char_of (10 :: nat)) else if c = CHR ''r'' then Some (char_of (13 :: nat))
      else if c = CHR ''t'' then Some (char_of (9 :: nat))
      else if c = CHR 0x22 \<or> c = CHR 0x5C \<or> c = CHR ''/'' then Some c else None)"

text \<open>The literal up to its closing quote, and what follows. Escapes above the basic plane do not occur in what the encoder writes.\<close>

function json_scan :: "string \<Rightarrow> (string \<times> string) option" where
  "json_scan s =
     (case s of
        [] \<Rightarrow> None
      | c # cs \<Rightarrow>
          if c = CHR 0x22 then Some ([], cs)
          else if c \<noteq> CHR 0x5C then map_option (apfst ((#) c)) (json_scan cs)
          else (case cs of
             [] \<Rightarrow> None
           | e # ds \<Rightarrow>
               if e = CHR ''u'' then
                 (case map hex_value (take 4 ds) of
                    [Some p, Some q, Some r, Some t] \<Rightarrow>
                      map_option (apfst ((@) (utf8_encode (((p * 16 + q) * 16 + r) * 16 + t)))) (json_scan (drop 4 ds))
                  | _ \<Rightarrow> None)
               else (case unescape e of None \<Rightarrow> None | Some d \<Rightarrow> map_option (apfst ((#) d)) (json_scan ds))))"
  by pat_completeness auto
termination
  by (relation "measure length") auto

declare json_scan.simps [simp del]

lemma scan_quote [simp]: "json_scan (CHR 0x22 # s) = Some ([], s)"
  by (simp add: json_scan.simps)

lemma scan_raw: "c \<noteq> CHR 0x22 \<Longrightarrow> c \<noteq> CHR 0x5C \<Longrightarrow> json_scan (c # s) = map_option (apfst ((#) c)) (json_scan s)"
  by (simp add: json_scan.simps [of "c # s"])

lemma scan_escape: "e \<noteq> CHR ''u'' \<Longrightarrow> unescape e = Some d \<Longrightarrow> json_scan (CHR 0x5C # e # s) = map_option (apfst ((#) d)) (json_scan s)"
  by (simp add: json_scan.simps [of "CHR 0x5C # e # s"])

lemma scan_unicode:
  assumes "map hex_value [a, b, c, d] = map Some [p, q, r, t]"
  shows "json_scan (CHR 0x5C # CHR ''u'' # a # b # c # d # s) = map_option (apfst ((@) (utf8_encode (((p * 16 + q) * 16 + r) * 16 + t)))) (json_scan s)"
  using assms by (simp add: json_scan.simps [of "CHR 0x5C # CHR ''u'' # a # b # c # d # s"])

lemma scan_escaped:
  assumes "byte_of c < 128"
  shows "json_scan (json_escape c @ s) = map_option (apfst ((#) c)) (json_scan s)"
proof -
  have hx: "hex_value (hex_char (byte_of c div 16)) = Some (byte_of c div 16)" "hex_value (hex_char (byte_of c mod 16)) = Some (byte_of c mod 16)"
    using assms by (simp_all add: less_mult_imp_div_less)
  have z: "hex_value CHR ''0'' = Some 0" by (simp add: hex_value_def)
  have c: "\<And>n. byte_of c = n \<Longrightarrow> c = char_of n" by (metis char_of_byte_of)
  have u: "json_scan (CHR 0x5C # ''u00'' @ [hex_char (byte_of c div 16), hex_char (byte_of c mod 16)] @ s) = map_option (apfst ((#) c)) (json_scan s)"
    using scan_unicode [of "CHR ''0''" "CHR ''0''" "hex_char (byte_of c div 16)" "hex_char (byte_of c mod 16)" 0 0 "byte_of c div 16" "byte_of c mod 16" s] hx z assms
    by (simp add: utf8_encode_def comp_def apfst_def map_prod_def)
  have raw: "byte_of c \<noteq> 34 \<Longrightarrow> byte_of c \<noteq> 92 \<Longrightarrow> json_scan (c # s) = map_option (apfst ((#) c)) (json_scan s)"
    by (rule scan_raw) (auto simp: byte_of_def)
  have e: "unescape CHR ''b'' = Some (char_of (8 :: nat))" "unescape CHR ''f'' = Some (char_of (12 :: nat))" "unescape CHR ''n'' = Some (char_of (10 :: nat))"
    "unescape CHR ''r'' = Some (char_of (13 :: nat))" "unescape CHR ''t'' = Some (char_of (9 :: nat))" "unescape CHR 0x22 = Some CHR 0x22" "unescape CHR 0x5C = Some CHR 0x5C"
    by (simp_all add: unescape_def)
  have w: "char_of (34 :: nat) = CHR 0x22" "char_of (92 :: nat) = CHR 0x5C" by (simp_all add: char_of_def bit_simps)
  show ?thesis
    unfolding json_escape_def Let_def
    using u raw by (auto simp: w scan_escape [OF _ e(1)] scan_escape [OF _ e(2)] scan_escape [OF _ e(3)] scan_escape [OF _ e(4)] scan_escape [OF _ e(5)]
        scan_escape [OF _ e(6)] scan_escape [OF _ e(7)] dest!: c)
qed

lemma rune_bytes: "rune_len s = Some n \<Longrightarrow> 128 \<le> byte_of (hd s) \<Longrightarrow> c \<in> set (take n s) \<Longrightarrow> 128 \<le> byte_of c"
  by (cases s) (auto simp: Let_def cont_byte_def split: if_splits list.splits)

lemma scan_plain: "\<forall>c \<in> set u. 128 \<le> byte_of c \<Longrightarrow> json_scan (u @ s) = map_option (apfst ((@) u)) (json_scan s)"
proof (induction u)
  case Nil
  show ?case by (simp add: apfst_def map_prod_def option.map_ident)
next
  case (Cons c u)
  have "c \<noteq> CHR 0x22" "c \<noteq> CHR 0x5C" using Cons.prems by (auto simp: byte_of_def)
  then show ?case using Cons by (simp add: scan_raw option.map_comp comp_def apfst_def map_prod_def split_def)
qed

lemma separator_bytes: "utf8_encode 8232 = line_separators ! 0" "utf8_encode 8233 = line_separators ! 1" "utf8_encode 65533 = replacement_char"
  by (simp_all add: utf8_encode_def line_separators_def replacement_char_def)

lemma separator_hex:
  "map hex_value ''2028'' = map Some [2, 0, 2, 8]" "map hex_value ''2029'' = map Some [2, 0, 2, 9]" "map hex_value ''fffd'' = map Some [15, 15, 15, 13]"
  by (simp_all add: hex_value_def)

lemma scan_chunk:
  assumes "rune_len s = Some n"
  shows "json_scan (json_chunk (take n s) @ t) = map_option (apfst ((@) (take n s))) (json_scan t)"
proof -
  have n: "0 < n" "n \<le> length s" using rune_len_bounds [OF assms] by auto
  then have hd: "hd (take n s) = hd s" by (cases s; cases n; auto)
  show ?thesis
  proof (cases "byte_of (hd s) < 128")
    case True
    have "n = 1" using rune_len_ascii [of s] True assms n by (cases s) auto
    then have "take n s = [hd s]" using n by (cases s) auto
    moreover have "(@) [hd s] = (#) (hd s)" by auto
    ultimately show ?thesis using scan_escaped [OF True, of t] True by (simp add: json_chunk_def)
  next
    case False
    then have "\<forall>c \<in> set (take n s). 128 \<le> byte_of c" using rune_bytes [OF assms] by simp
    note plain = scan_plain [OF this, of t]
    have "json_scan (CHR 0x5C # ''u2028'' @ t) = map_option (apfst ((@) (line_separators ! 0))) (json_scan t)"
      "json_scan (CHR 0x5C # ''u2029'' @ t) = map_option (apfst ((@) (line_separators ! 1))) (json_scan t)"
      using scan_unicode [OF separator_hex(1), of t] scan_unicode [OF separator_hex(2), of t] by (simp_all add: separator_bytes)
    then show ?thesis using plain False hd by (simp add: json_chunk_def)
  qed
qed

text \<open>Reading what was written gives the coerced string.\<close>

lemma json_scan_body: "json_scan (json_body s @ CHR 0x22 # rest) = Some (coerce_utf8 s, rest)"
proof (induction s rule: coerce_utf8.induct)
  case (1 s)
  show ?case
  proof (cases "s = []")
    case True
    then show ?thesis by (simp add: coerce_utf8.simps)
  next
    case False
    show ?thesis
    proof (cases "rune_len s")
      case None
      have "json_scan (json_body s @ CHR 0x22 # rest) = map_option (apfst ((@) replacement_char)) (json_scan (json_body (tl s) @ CHR 0x22 # rest))"
        using json_body_bad [OF False None] scan_unicode [OF separator_hex(3), of "json_body (tl s) @ CHR 0x22 # rest"] by (simp add: separator_bytes)
      then show ?thesis using 1(1) [OF False None] False None by (simp add: coerce_utf8.simps [of s])
    next
      case (Some n)
      have "json_body s = json_chunk (take n s) @ json_body (drop n s)" using json_body_rune [OF Some, of "drop n s"] by simp
      then have "json_scan (json_body s @ CHR 0x22 # rest) = map_option (apfst ((@) (take n s))) (json_scan (json_body (drop n s) @ CHR 0x22 # rest))"
        using scan_chunk [OF Some] by simp
      then show ?thesis using 1(2) [OF False Some] False Some by (simp add: coerce_utf8.simps [of s])
    qed
  qed
qed

lemma json_string_split:
  assumes "json_string s @ r = json_string t @ r'"
  shows "coerce_utf8 s = coerce_utf8 t \<and> r = r'"
proof -
  have "json_body s @ CHR 0x22 # r = json_body t @ CHR 0x22 # r'" using assms by (simp add: json_string_def)
  then show ?thesis using json_scan_body [of s r] json_scan_body [of t r'] by simp
qed

text \<open>Printable ASCII without the escaped characters is written as it is.\<close>

definition json_plain :: "char \<Rightarrow> bool" where
  "json_plain c \<longleftrightarrow> json_escape c = [c] \<and> byte_of c < 128"

lemma json_body_plain: "\<forall>c \<in> set s. json_plain c \<Longrightarrow> json_body s = s"
  by (induction s) (simp_all add: json_body.simps [of "_ # _"] json_plain_def)

lemma valid_plain: "\<forall>c \<in> set s. byte_of c < 128 \<Longrightarrow> valid_utf8 s"
proof (induction s)
  case (Cons c s)
  then show ?case using rune_len_ascii [of "c # s"] by (simp add: valid_utf8.simps [of "c # s"])
qed (simp add: valid_utf8.simps)

lemma hex_char_plain: "d < 16 \<Longrightarrow> json_plain (hex_char d)"
  using less_16_cases [of d] less_10_cases [of d] by (auto simp: hex_char_def json_plain_def json_escape_def byte_of_def)

lemma hex_encode_plain: "c \<in> set (hex_encode s) \<Longrightarrow> json_plain c"
  by (induction s) (auto simp: hex_char_plain less_mult_imp_div_less)

lemma b64_char_plain: "n < 64 \<Longrightarrow> json_plain (b64_char n)"
proof -
  have "\<forall>n \<in> {0..<64}. json_plain (b64_char n)"
    by (simp add: atLeastLessThan_nat_numeral b64_char_def json_plain_def json_escape_def byte_of_def)
  then show "n < 64 \<Longrightarrow> json_plain (b64_char n)" by simp
qed

lemma b64_encode_plain: "c \<in> set (b64_encode s) \<Longrightarrow> json_plain c"
  using b64_encode_alphabet [of s] b64_char_plain by blast

end
