(* ===== verification/Evidence_Ledger.thy ===== *)
theory Evidence_Ledger
  imports State_Model Encodings
begin

text \<open>
  The signed evidence ledger, \<open>control/evidence_ledger.go\<close>: an append-only file of hash-chained, signed and encrypted records, a checkpoint that seals its end
  and a watermark that says how far it was verified.

  The disk is a record of file contents, so that a crash between two writes, a partial write and an edit from outside are states of the model.
  What the ledger calls and is not modelled is a parameter, collected in \<open>evidence_codec\<close>: SHA-256, Ed25519, the encrypted envelope of \<open>storage_crypto.go\<close> (modelled in \<open>Storage_Cipher\<close>, which fills this parameter), the JSON form of a
  time and the JSON decoder. The JSON text that is hashed is modelled, because the hash depends on it byte by byte. Which I/O calls fail is
  part of \<open>evidence_io\<close>. The storage cipher is configured (the branch without encryption is left out), and of a start that is refused only the cause is kept. Sequence numbers are natural numbers: the file size, an \<open>int64\<close>, bounds them below the width of \<open>uint64\<close>.
\<close>

section \<open>Data\<close>

record LedgerRecord = EvidenceRecord +
  lr_Version :: int
  lr_Sequence :: nat
  lr_RequestID :: string
  lr_PrevHash :: string
  lr_Hash :: string
  lr_Signature :: string

record evidenceCheckpoint =
  cp_Version :: int
  cp_Sequence :: nat
  cp_HeadHash :: string

datatype evidence_error =
    EvidenceIO string | EvidenceBudget | Quarantined evidence_error
  | RecordIdentity | PredecessorMismatch | TextRequired string | TextBoundary string | TimeEncoding | HashMismatch | SignatureInvalid
  | DecryptFailed string | DecodeFailed string | AtLine nat evidence_error | LineTooLong
  | LedgerPolicy | SizeBudgetExceeded | ShorterThanWatermark nat nat | RangeShort nat
  | CheckpointOrphaned | CheckpointMissing | CheckpointMismatch | CheckpointVersion | CheckpointSealsNone
  | CountMismatch nat nat | TailMismatch | NoRecords | Recovery string evidence_error
  | PolicyChanged | SizeChanged | AdvancedOutside | CheckpointCommit string | WatermarkFailed string | WatermarkUnusable

record evidence_codec =
  cd_sha256 :: "string \<Rightarrow> string"
  cd_sign :: "string \<Rightarrow> string"
  cd_verify :: "string \<Rightarrow> string \<Rightarrow> bool"
  cd_encrypt :: "string \<Rightarrow> nat \<Rightarrow> string \<Rightarrow> string + string"
  cd_isEnvelope :: "string \<Rightarrow> bool"
  cd_open :: "string \<Rightarrow> nat option \<Rightarrow> string \<Rightarrow> string + string"
  cd_time :: "gotime \<Rightarrow> string option"
  cd_decodeRecord :: "string \<Rightarrow> string + LedgerRecord"
  cd_decodeCheckpoint :: "string \<Rightarrow> string + evidenceCheckpoint"

text \<open>\<open>dk_private\<close>: the ledger is a regular private file; the last field is the error that reading the checkpoint file returns, other than that it does not exist.\<close>

record evidence_disk =
  dk_ledger :: "string option"
  dk_private :: bool
  dk_head :: "string option"
  dk_mark :: "string option"
  dk_headErr :: "string option"

record evidence_io =
  io_now :: gotime
  io_id :: string
  io_write :: "(nat \<times> string) option"
  io_head :: "string option"
  io_truncate :: "string option"
  io_mark :: "string option"

definition evidenceRecordVersion :: int where "evidenceRecordVersion = 1"
definition evidenceDomain :: string where "evidenceDomain = ''VGT-GEDEFENSE-EVIDENCE-V1'' @ [CHR 0x00]"
definition evidenceRecentLimit :: nat where "evidenceRecentLimit = 4096"
definition evidenceIncrementalChunkRecords :: nat where "evidenceIncrementalChunkRecords = 25000"

record EvidenceLedger =
  el_sequence :: nat
  el_headHash :: string
  el_expectedSize :: int
  el_maxBytes :: int
  el_policyMaxBytes :: int
  el_integrityErr :: "evidence_error option"
  el_budgetExhausted :: bool
  el_recent :: "LedgerRecord list"
  el_verifyScope :: string
  el_fullVerifiedAt :: "gotime option"
  el_incrementalChunk :: nat

section \<open>Records\<close>

definition json_field :: "string \<Rightarrow> string \<Rightarrow> string" where
  "json_field key val = CHR '','' # json_string key @ CHR '':'' # json_string val"

definition json_omitempty :: "string \<Rightarrow> string \<Rightarrow> string" where
  "json_omitempty key val = (if val = [] then [] else json_field key val)"

text \<open>The JSON text of a record, before and with the previous hash: \<open>t\<close> is the JSON form of its time.\<close>

definition payload_front :: "string \<Rightarrow> 'a LedgerRecord_scheme \<Rightarrow> string" where
  "payload_front t r =
     CHR ''{'' # json_string ''version'' @ CHR '':'' # dec_int (lr_Version r) @ CHR '','' # json_string ''sequence'' @ CHR '':'' # dec_nat (lr_Sequence r)
     @ json_field ''id'' (er_ID r) @ CHR '','' # json_string ''time'' @ CHR '':'' # t
     @ json_field ''severity'' (er_Severity r) @ json_field ''kind'' (er_Kind r) @ json_field ''source'' (er_Source r)
     @ json_field ''message'' (er_Message r) @ json_omitempty ''target'' (er_Target r) @ json_omitempty ''request_id'' (lr_RequestID r)"

definition payload_json :: "string \<Rightarrow> 'a LedgerRecord_scheme \<Rightarrow> string" where
  "payload_json t r = payload_front t r @ json_field ''prev_hash'' (lr_PrevHash r)"

definition evidenceCanonical :: "evidence_codec \<Rightarrow> LedgerRecord \<Rightarrow> string option" where
  "evidenceCanonical c r = map_option (\<lambda>t. payload_json t r @ ''}'') (cd_time c (er_Time r))"

definition record_json :: "evidence_codec \<Rightarrow> LedgerRecord \<Rightarrow> string option" where
  "record_json c r = map_option (\<lambda>t. payload_json t r @ json_field ''hash'' (lr_Hash r) @ json_field ''signature'' (lr_Signature r) @ ''}'')
     (cd_time c (er_Time r))"

definition evidenceHash :: "evidence_codec \<Rightarrow> string \<Rightarrow> string" where
  "evidenceHash c canonical = cd_sha256 c (evidenceDomain @ canonical)"

text \<open>The code ranges over a map, so which of several invalid fields is named is open.\<close>

definition text_fields :: "LedgerRecord \<Rightarrow> (string \<times> string \<times> nat \<times> bool) list" where
  "text_fields r = [(''severity'', er_Severity r, 32, True), (''kind'', er_Kind r, 128, True), (''source'', er_Source r, 128, True),
     (''message'', er_Message r, 4096, True), (''target'', er_Target r, 1024, False), (''request_id'', lr_RequestID r, 256, False)]"

definition text_fault :: "string \<times> string \<times> nat \<times> bool \<Rightarrow> evidence_error option" where
  "text_fault f = (case f of (label, val, limit, required) \<Rightarrow>
     if val = [] \<and> required then Some (TextRequired label)
     else if limit < length val \<or> CHR 0x00 \<in> set val then Some (TextBoundary label) else None)"

definition validateEvidenceText :: "LedgerRecord \<Rightarrow> evidence_error option" where
  "validateEvidenceText r = (case find (\<lambda>f. text_fault f \<noteq> None) (text_fields r) of None \<Rightarrow> None | Some f \<Rightarrow> text_fault f)"

definition verifyEvidenceRecord :: "evidence_codec \<Rightarrow> LedgerRecord \<Rightarrow> nat \<Rightarrow> string \<Rightarrow> evidence_error option" where
  "verifyEvidenceRecord c r seq previous =
     (if lr_Version r \<noteq> evidenceRecordVersion \<or> lr_Sequence r \<noteq> seq \<or> er_ID r = [] \<or> time_is_zero (er_Time r) then Some RecordIdentity
      else if lr_PrevHash r \<noteq> previous then Some PredecessorMismatch
      else case validateEvidenceText r of
        Some e \<Rightarrow> Some e
      | None \<Rightarrow>
          case evidenceCanonical c r of
            None \<Rightarrow> Some TimeEncoding
          | Some canonical \<Rightarrow>
              let expected = evidenceHash c canonical
              in case hex_decode (lr_Hash r) of
                   None \<Rightarrow> Some HashMismatch
                 | Some provided \<Rightarrow>
                     if length provided \<noteq> 32 \<or> provided \<noteq> expected then Some HashMismatch
                     else case b64_decode (lr_Signature r) of
                       None \<Rightarrow> Some SignatureInvalid
                     | Some sg \<Rightarrow> if length sg \<noteq> 64 \<or> \<not> cd_verify c expected sg then Some SignatureInvalid else None)"

text \<open>\<open>StorageCipher.Decrypt\<close>: a document that is no envelope is returned as it is and reported as legacy.\<close>

definition Decrypt :: "evidence_codec \<Rightarrow> string \<Rightarrow> string \<Rightarrow> nat option \<Rightarrow> string + string \<times> bool" where
  "Decrypt c purpose data seq =
     (let trimmed = trim_space data
      in if trimmed = [] then Inl ''encrypted storage document is empty''
         else if \<not> cd_isEnvelope c trimmed then Inr (data, True)
         else case cd_open c purpose seq trimmed of Inl e \<Rightarrow> Inl e | Inr plain \<Rightarrow> Inr (plain, False))"

text \<open>One line of the file: decrypted, decoded and verified.\<close>

definition verify_line :: "evidence_codec \<Rightarrow> nat \<Rightarrow> string \<Rightarrow> string \<Rightarrow> evidence_error + LedgerRecord" where
  "verify_line c seq previous line =
     (case Decrypt c ''evidence-record'' line (Some seq) of
        Inl e \<Rightarrow> Inl (AtLine seq (DecryptFailed e))
      | Inr (plain, _) \<Rightarrow>
          case cd_decodeRecord c plain of
            Inl e \<Rightarrow> Inl (AtLine seq (DecodeFailed e))
          | Inr r \<Rightarrow> case verifyEvidenceRecord c r seq previous of Some e \<Rightarrow> Inl (AtLine seq e) | None \<Rightarrow> Inr r)"

section \<open>Lines of a file\<close>

text \<open>\<open>bufio.Scanner\<close> with \<open>ScanLines\<close> and the four-megabyte buffer: the lines before the first one that does not fit, and whether there is such a line.\<close>

abbreviation newline :: char where "newline \<equiv> CHR 0x0A"

fun raw_lines :: "string \<Rightarrow> string list" where
  "raw_lines [] = []"
| "raw_lines (c # cs) =
     (if c = newline then [] # raw_lines cs else (case raw_lines cs of [] \<Rightarrow> [[c]] | l # ls \<Rightarrow> (c # l) # ls))"

definition drop_cr :: "string \<Rightarrow> string" where
  "drop_cr l = (if l \<noteq> [] \<and> last l = CHR 0x0D then butlast l else l)"

definition scan_limit :: nat where "scan_limit = 4194304"

definition scan_lines :: "string \<Rightarrow> string list \<times> bool" where
  "scan_lines s = (let ls = raw_lines s; ok = takeWhile (\<lambda>l. length l < scan_limit) ls in (map drop_cr ok, length ok < length ls))"

definition last_n :: "nat \<Rightarrow> 'a list \<Rightarrow> 'a list" where
  "last_n n xs = drop (length xs - n) xs"

section \<open>The walk\<close>

record walk_bounds =
  wb_From :: nat
  wb_To :: nat
  wb_PrevHash :: string

record walk_state =
  ws_sequence :: nat
  ws_previous :: string
  ws_lastVerified :: string
  ws_recent :: "LedgerRecord list"

text \<open>The boolean says that the walk stopped at its upper bound, before the scanner reached its end.\<close>

fun walk :: "evidence_codec \<Rightarrow> walk_bounds \<Rightarrow> string list \<Rightarrow> walk_state \<Rightarrow> evidence_error + walk_state \<times> bool" where
  "walk c b [] w = Inr (w, False)"
| "walk c b (l # ls) w =
     (let seq = ws_sequence w + 1
      in if 0 < wb_To b \<and> wb_To b < seq then Inr (w, True)
         else if seq < wb_From b then walk c b ls (w\<lparr> ws_sequence := seq \<rparr>)
         else case verify_line c seq (ws_previous w) l of
           Inl e \<Rightarrow> Inl e
         | Inr r \<Rightarrow>
             let w = w\<lparr> ws_sequence := seq, ws_previous := lr_Hash r, ws_lastVerified := lr_Hash r,
                        ws_recent := last_n evidenceRecentLimit (ws_recent w @ [r]) \<rparr>
             in if 0 < wb_To b \<and> seq = wb_To b then Inr (w, True) else walk c b ls w)"

text \<open>The result is the head, the number of lines read and the recent records, with the file size beside it.\<close>

definition verifyEvidenceChain :: "evidence_codec \<Rightarrow> evidence_disk \<Rightarrow> int \<Rightarrow> walk_bounds
    \<Rightarrow> (evidence_error + string \<times> nat \<times> LedgerRecord list) \<times> int" where
  "verifyEvidenceChain c d maxBytes b =
     (case dk_ledger d of
        None \<Rightarrow> (Inr ([], 0, []), 0)
      | Some file \<Rightarrow>
          let sz = int (length file)
          in if \<not> dk_private d then (Inl LedgerPolicy, 0)
             else if maxBytes < sz then (Inl SizeBudgetExceeded, sz)
             else case scan_lines file of (ls, tooLong) \<Rightarrow>
               (case walk c b ls \<lparr> ws_sequence = 0, ws_previous = wb_PrevHash b, ws_lastVerified = [], ws_recent = [] \<rparr> of
                  Inl e \<Rightarrow> (Inl e, sz)
                | Inr (w, stopped) \<Rightarrow>
                    if tooLong \<and> \<not> stopped then (Inl LineTooLong, sz)
                    else if ws_sequence w + 1 < wb_From b then (Inl (ShorterThanWatermark (ws_sequence w) (wb_From b - 1)), sz)
                    else (Inr (if ws_lastVerified w = [] then wb_PrevHash b else ws_lastVerified w, ws_sequence w, ws_recent w), sz)))"

section \<open>Checkpoint\<close>

definition checkpoint_json :: "evidenceCheckpoint \<Rightarrow> string" where
  "checkpoint_json p = CHR ''{'' # json_string ''version'' @ CHR '':'' # dec_int (cp_Version p) @ CHR '','' # json_string ''sequence'' @ CHR '':'' # dec_nat (cp_Sequence p)
     @ json_field ''head_hash'' (cp_HeadHash p) @ ''}''"

datatype 'a read_result = NotExist | ReadError evidence_error | ReadOK 'a

definition readEvidenceCheckpoint :: "evidence_codec \<Rightarrow> evidence_disk \<Rightarrow> evidenceCheckpoint read_result" where
  "readEvidenceCheckpoint c d =
     (case dk_headErr d of
        Some e \<Rightarrow> ReadError (EvidenceIO e)
      | None \<Rightarrow>
          case dk_head d of
            None \<Rightarrow> NotExist
          | Some data \<Rightarrow>
              case Decrypt c ''evidence-head'' data None of
                Inl e \<Rightarrow> ReadError (DecryptFailed e)
              | Inr (plain, _) \<Rightarrow>
                  case cd_decodeCheckpoint c plain of Inl e \<Rightarrow> ReadError (DecodeFailed e) | Inr p \<Rightarrow> ReadOK p)"

definition verifyEvidenceCheckpoint :: "evidence_codec \<Rightarrow> evidence_disk \<Rightarrow> nat \<Rightarrow> string \<Rightarrow> evidence_error option" where
  "verifyEvidenceCheckpoint c d seq headHash =
     (case readEvidenceCheckpoint c d of
        NotExist \<Rightarrow> if seq = 0 \<and> headHash = [] then None else Some CheckpointMissing
      | ReadError e \<Rightarrow> Some e
      | ReadOK p \<Rightarrow> if cp_Version p \<noteq> evidenceRecordVersion \<or> cp_Sequence p \<noteq> seq \<or> cp_HeadHash p \<noteq> headHash then Some CheckpointMismatch else None)"

text \<open>Encrypted and written atomically: a failed write leaves the old file.\<close>

definition write_sealed :: "evidence_codec \<Rightarrow> string \<Rightarrow> evidenceCheckpoint \<Rightarrow> string option \<Rightarrow> string + string" where
  "write_sealed c purpose p failure =
     (case cd_encrypt c purpose (cp_Sequence p) (checkpoint_json p) of
        Inl e \<Rightarrow> Inl e
      | Inr data \<Rightarrow> (case failure of Some e \<Rightarrow> Inl e | None \<Rightarrow> Inr (data @ [newline])))"

definition writeEvidenceCheckpoint :: "evidence_codec \<Rightarrow> evidence_io \<Rightarrow> nat \<Rightarrow> string \<Rightarrow> evidence_disk \<Rightarrow> string option \<times> evidence_disk" where
  "writeEvidenceCheckpoint c io seq headHash d =
     (case write_sealed c ''evidence-head'' \<lparr> cp_Version = evidenceRecordVersion, cp_Sequence = seq, cp_HeadHash = headHash \<rparr> (io_head io) of
        Inl e \<Rightarrow> (Some e, d)
      | Inr data \<Rightarrow> (None, d\<lparr> dk_head := Some data \<rparr>))"

definition verifyEvidenceFiles :: "evidence_codec \<Rightarrow> evidence_disk \<Rightarrow> int \<Rightarrow> (evidence_error + string \<times> nat \<times> LedgerRecord list) \<times> int" where
  "verifyEvidenceFiles c d maxBytes =
     (if dk_ledger d = None then
        (if dk_head d \<noteq> None then Inl CheckpointOrphaned else Inr ([], 0, []), 0)
      else case verifyEvidenceChain c d maxBytes \<lparr> wb_From = 1, wb_To = 0, wb_PrevHash = [] \<rparr> of
        (Inl e, sz) \<Rightarrow> (Inl e, sz)
      | (Inr (head, seq, recent), sz) \<Rightarrow>
          (case verifyEvidenceCheckpoint c d seq head of Some e \<Rightarrow> (Inl e, sz) | None \<Rightarrow> (Inr (head, seq, recent), sz)))"

section \<open>Bounded start\<close>

definition blank :: "string \<Rightarrow> bool" where
  "blank l \<longleftrightarrow> trim_space l = []"

text \<open>The count of the records and the ring that keeps the last \<open>limit\<close> of the sealed ones.\<close>

definition ring_step :: "nat \<Rightarrow> nat \<Rightarrow> string \<Rightarrow> nat \<times> string list \<Rightarrow> nat \<times> string list" where
  "ring_step sealed limit l acc =
     (case acc of (n, ring) \<Rightarrow>
        if blank l then (n, ring)
        else let n = n + 1
             in if limit = 0 \<or> sealed < n then (n, ring) else (n, ring[(n - 1) mod limit := l]))"

definition evidenceLineWindow :: "string \<Rightarrow> nat \<Rightarrow> nat \<Rightarrow> evidence_error + nat \<times> string list" where
  "evidenceLineWindow file sealed limit =
     (case scan_lines file of (ls, tooLong) \<Rightarrow>
        case fold (ring_step sealed limit) ls (0, replicate limit []) of (n, ring) \<Rightarrow>
          if tooLong then Inl LineTooLong
          else if limit = 0 then Inr (n, [])
          else let keep = min (min n sealed) limit; start = (if n < sealed then n - keep else sealed - keep)
               in Inr (n, map (\<lambda>i. ring ! ((start + i) mod limit)) [0..<keep]))"

definition truncateEvidenceTo :: "evidence_io \<Rightarrow> nat \<Rightarrow> evidence_disk \<Rightarrow> evidence_error option \<times> evidence_disk" where
  "truncateEvidenceTo io n d =
     (case dk_ledger d of
        None \<Rightarrow> (Some (EvidenceIO ''no such file''), d)
      | Some file \<Rightarrow>
          case io_truncate io of
            Some e \<Rightarrow> (Some (EvidenceIO e), d)
          | None \<Rightarrow>
              case scan_lines file of (ls, tooLong) \<Rightarrow>
                let records = filter (\<lambda>l. \<not> blank l) ls
                in if tooLong \<and> length records \<le> n then (Some LineTooLong, d)
                   else (None, d\<lparr> dk_ledger := Some (concat (map (\<lambda>l. l @ [newline]) (take n records))), dk_private := True \<rparr>))"

definition readTrailingEvidenceLine :: "string \<Rightarrow> evidence_error + string" where
  "readTrailingEvidenceLine file =
     (case scan_lines file of (ls, tooLong) \<Rightarrow>
        let records = filter (\<lambda>l. \<not> blank l) ls
        in if tooLong then Inl LineTooLong else if records = [] then Inl NoRecords else Inr (last records))"

definition recoverUnsealedEvidenceTail :: "evidence_codec \<Rightarrow> evidence_io \<Rightarrow> evidenceCheckpoint \<Rightarrow> evidence_disk \<Rightarrow> evidence_error option \<times> evidence_disk" where
  "recoverUnsealedEvidenceTail c io p d =
     (case readTrailingEvidenceLine (case dk_ledger d of None \<Rightarrow> [] | Some file \<Rightarrow> file) of
        Inl e \<Rightarrow> (Some e, d)
      | Inr raw \<Rightarrow>
          (case verify_line c (cp_Sequence p + 1) (cp_HeadHash p) raw of
             Inr r \<Rightarrow>
               (case writeEvidenceCheckpoint c io (cp_Sequence p + 1) (lr_Hash r) d of
                  (Some e, d) \<Rightarrow> (Some (Recovery ''seal the recovered record'' (EvidenceIO e)), d)
                | (None, d) \<Rightarrow> (None, d))
           | Inl _ \<Rightarrow>
               (case truncateEvidenceTo io (cp_Sequence p) d of
                  (Some e, d) \<Rightarrow> (Some (Recovery ''remove the unsealed record'' e), d)
                | (None, d) \<Rightarrow> (None, d))))"

text \<open>The records of the window: the first one is taken at its own word about its predecessor.\<close>

fun verify_window :: "evidence_codec \<Rightarrow> nat \<Rightarrow> string option \<Rightarrow> string list \<Rightarrow> evidence_error + LedgerRecord list" where
  "verify_window c seq previous [] = Inr []"
| "verify_window c seq previous (l # ls) =
     (case Decrypt c ''evidence-record'' l (Some seq) of
        Inl e \<Rightarrow> Inl (AtLine seq (DecryptFailed e))
      | Inr (plain, _) \<Rightarrow>
          case cd_decodeRecord c plain of
            Inl e \<Rightarrow> Inl (AtLine seq (DecodeFailed e))
          | Inr r \<Rightarrow>
              case verifyEvidenceRecord c r seq (case previous of None \<Rightarrow> lr_PrevHash r | Some p \<Rightarrow> p) of
                Some e \<Rightarrow> Inl (AtLine seq e)
              | None \<Rightarrow> (case verify_window c (seq + 1) (Some (lr_Hash r)) ls of Inl e \<Rightarrow> Inl e | Inr rs \<Rightarrow> Inr (r # rs)))"

record bounded_result =
  br_head :: string
  br_sequence :: nat
  br_recent :: "LedgerRecord list"
  br_size :: int
  br_scope :: string

definition empty_start :: bounded_result where
  "empty_start = \<lparr> br_head = [], br_sequence = 0, br_recent = [], br_size = 0, br_scope = ''empty'' \<rparr>"

text \<open>The part after a possible recovery.\<close>

definition bounded_window :: "evidence_codec \<Rightarrow> nat \<Rightarrow> evidenceCheckpoint \<Rightarrow> string \<Rightarrow> evidence_error + bounded_result" where
  "bounded_window c limit p file =
     (case evidenceLineWindow file 0 0 of
        Inl e \<Rightarrow> Inl e
      | Inr (n, _) \<Rightarrow>
          if n \<noteq> cp_Sequence p then Inl (CountMismatch n (cp_Sequence p))
          else case evidenceLineWindow file (cp_Sequence p) limit of
            Inl e \<Rightarrow> Inl e
          | Inr (_, window) \<Rightarrow>
              let start = cp_Sequence p - length window + 1
              in case verify_window c start None window of
                   Inl e \<Rightarrow> Inl e
                 | Inr rs \<Rightarrow>
                     let previous = (if rs = [] then [] else lr_Hash (last rs))
                     in if previous \<noteq> cp_HeadHash p then Inl TailMismatch
                        else Inr \<lparr> br_head = previous, br_sequence = n, br_recent = rs, br_size = int (length file),
                                   br_scope = (if start = 1 then ''full'' else ''tail'') \<rparr>)"

definition bounded_checkpoint :: "evidence_codec \<Rightarrow> evidence_io \<Rightarrow> nat \<Rightarrow> evidenceCheckpoint \<Rightarrow> string \<Rightarrow> evidence_disk
    \<Rightarrow> (evidence_error + bounded_result) \<times> evidence_disk" where
  "bounded_checkpoint c io limit p file d =
     (case evidenceLineWindow file 0 0 of
        Inl e \<Rightarrow> (Inl e, d)
      | Inr (n, _) \<Rightarrow>
          if n = cp_Sequence p + 1 then
            (case recoverUnsealedEvidenceTail c io p d of
               (Some e, d) \<Rightarrow> (Inl (Recovery ''unsealed evidence record'' e), d)
             | (None, d) \<Rightarrow>
                 (case readEvidenceCheckpoint c d of
                    NotExist \<Rightarrow> (Inl (EvidenceIO ''no such file''), d)
                  | ReadError e \<Rightarrow> (Inl e, d)
                  | ReadOK p \<Rightarrow> (bounded_window c limit p (case dk_ledger d of None \<Rightarrow> [] | Some f \<Rightarrow> f), d)))
          else (bounded_window c limit p file, d))"

definition verifyEvidenceFilesBounded :: "evidence_codec \<Rightarrow> evidence_io \<Rightarrow> int \<Rightarrow> nat \<Rightarrow> evidence_disk
    \<Rightarrow> (evidence_error + bounded_result) \<times> evidence_disk" where
  "verifyEvidenceFilesBounded c io maxBytes tailLimit d =
     (let limit = (if tailLimit < 1 then evidenceRecentLimit else tailLimit)
      in case dk_ledger d of
           None \<Rightarrow> (if dk_head d \<noteq> None then Inl CheckpointOrphaned else Inr empty_start, d)
         | Some file \<Rightarrow>
             if \<not> dk_private d then (Inl LedgerPolicy, d)
             else if maxBytes < int (length file) then (Inl SizeBudgetExceeded, d)
             else case readEvidenceCheckpoint c d of
               NotExist \<Rightarrow> (if file = [] then Inr empty_start else Inl (EvidenceIO ''no such file''), d)
             | ReadError e \<Rightarrow> (Inl e, d)
             | ReadOK p \<Rightarrow>
                 if cp_Version p \<noteq> evidenceRecordVersion then (Inl CheckpointVersion, d)
                 else if cp_Sequence p = 0 then (if file \<noteq> [] then Inl CheckpointSealsNone else Inr empty_start, d)
                 else bounded_checkpoint c io limit p file d)"

section \<open>Operations\<close>

definition effectiveMaxBytesLocked :: "EvidenceLedger \<Rightarrow> int" where
  "effectiveMaxBytesLocked l = (if el_policyMaxBytes l > 0 then el_policyMaxBytes l else el_maxBytes l)"

definition ApplyPolicy :: "int \<Rightarrow> EvidenceLedger \<Rightarrow> EvidenceLedger" where
  "ApplyPolicy maxBytes l = (let l = l\<lparr> el_policyMaxBytes := maxBytes \<rparr> in if maxBytes > 0 then l\<lparr> el_maxBytes := maxBytes \<rparr> else l)"

definition verifyUnchangedLocked :: "evidence_codec \<Rightarrow> evidence_disk \<Rightarrow> EvidenceLedger \<Rightarrow> evidence_error option" where
  "verifyUnchangedLocked c d l =
     (case verifyEvidenceCheckpoint c d (el_sequence l) (el_headHash l) of
        Some e \<Rightarrow> Some e
      | None \<Rightarrow>
          case dk_ledger d of
            None \<Rightarrow> if el_expectedSize l = 0 then None else Some (EvidenceIO ''no such file'')
          | Some file \<Rightarrow> if \<not> dk_private d then Some PolicyChanged
              else if int (length file) \<noteq> el_expectedSize l then Some SizeChanged else None)"

definition prepared :: "evidence_io \<Rightarrow> LedgerRecord \<Rightarrow> EvidenceLedger \<Rightarrow> LedgerRecord" where
  "prepared io r l = r\<lparr> er_ID := (if er_ID r = [] then io_id io else er_ID r),
     er_Time := (if time_is_zero (er_Time r) then io_now io else er_Time r),
     lr_Version := evidenceRecordVersion, lr_Sequence := el_sequence l + 1, lr_PrevHash := el_headHash l, lr_Hash := [], lr_Signature := [] \<rparr>"

definition signed :: "evidence_codec \<Rightarrow> string \<Rightarrow> LedgerRecord \<Rightarrow> LedgerRecord" where
  "signed c canonical r = (let digest = evidenceHash c canonical in r\<lparr> lr_Hash := hex_encode digest, lr_Signature := b64_encode (cd_sign c digest) \<rparr>)"

text \<open>The append of a line to the file: \<open>io_write\<close> says how many bytes reached it before the write, the sync or the close failed.\<close>

definition write_line :: "evidence_io \<Rightarrow> string \<Rightarrow> evidence_disk \<Rightarrow> string option \<times> evidence_disk" where
  "write_line io data d =
     (let file = (case dk_ledger d of None \<Rightarrow> [] | Some f \<Rightarrow> f); d = (if dk_ledger d = None then d\<lparr> dk_private := True \<rparr> else d)
      in case io_write io of
           None \<Rightarrow> (None, d\<lparr> dk_ledger := Some (file @ data) \<rparr>)
         | Some (n, e) \<Rightarrow> (Some e, d\<lparr> dk_ledger := Some (file @ take n data) \<rparr>))"

text \<open>The part of \<open>Append\<close> after the encryption.\<close>

definition commit_line :: "evidence_codec \<Rightarrow> evidence_io \<Rightarrow> LedgerRecord \<Rightarrow> string \<Rightarrow> EvidenceLedger \<times> evidence_disk
    \<Rightarrow> (evidence_error + LedgerRecord) \<times> EvidenceLedger \<times> evidence_disk" where
  "commit_line c io r line ld =
     (case ld of (l, d) \<Rightarrow>
        let nextSize = el_expectedSize l + int (length line + 1)
        in if nextSize > effectiveMaxBytesLocked l then (Inl EvidenceBudget, l\<lparr> el_budgetExhausted := True \<rparr>, d)
           else let l = l\<lparr> el_budgetExhausted := False \<rparr>
             in case write_line io (line @ [newline]) d of
                  (Some e, d) \<Rightarrow> (Inl (EvidenceIO e), l, d)
                | (None, d) \<Rightarrow>
                    (case writeEvidenceCheckpoint c io (lr_Sequence r) (lr_Hash r) d of
                       (Some e, d) \<Rightarrow> (Inl (CheckpointCommit e), l\<lparr> el_integrityErr := Some (CheckpointCommit e) \<rparr>, d)
                     | (None, d) \<Rightarrow>
                         (Inr r, l\<lparr> el_sequence := lr_Sequence r, el_headHash := lr_Hash r, el_expectedSize := nextSize,
                                     el_recent := last_n evidenceRecentLimit (el_recent l @ [r]) \<rparr>, d)))"

definition Append :: "evidence_codec \<Rightarrow> evidence_io \<Rightarrow> LedgerRecord \<Rightarrow> EvidenceLedger \<times> evidence_disk
    \<Rightarrow> (evidence_error + LedgerRecord) \<times> EvidenceLedger \<times> evidence_disk" where
  "Append c io record ld =
     (case ld of (l, d) \<Rightarrow>
        case el_integrityErr l of
          Some e \<Rightarrow> (Inl (Quarantined e), l, d)
        | None \<Rightarrow>
            let r = prepared io record l
            in case validateEvidenceText r of
                 Some e \<Rightarrow> (Inl e, l, d)
               | None \<Rightarrow>
                   case verifyUnchangedLocked c d l of
                     Some e \<Rightarrow> (Inl e, l\<lparr> el_integrityErr := Some e \<rparr>, d)
                   | None \<Rightarrow>
                       case evidenceCanonical c r of
                         None \<Rightarrow> (Inl TimeEncoding, l, d)
                       | Some canonical \<Rightarrow>
                           let r = signed c canonical r
                           in case record_json c r of
                                None \<Rightarrow> (Inl TimeEncoding, l, d)
                              | Some plain \<Rightarrow>
                                  case cd_encrypt c ''evidence-record'' (lr_Sequence r) plain of
                                    Inl e \<Rightarrow> (Inl (EvidenceIO e), l, d)
                                  | Inr line \<Rightarrow> commit_line c io r line (l, d))"

definition writeWatermark :: "evidence_codec \<Rightarrow> evidence_io \<Rightarrow> nat \<Rightarrow> string \<Rightarrow> evidence_disk \<Rightarrow> string option \<times> evidence_disk" where
  "writeWatermark c io seq headHash d =
     (case write_sealed c ''evidence-verified'' \<lparr> cp_Version = evidenceRecordVersion, cp_Sequence = seq, cp_HeadHash = headHash \<rparr> (io_mark io) of
        Inl e \<Rightarrow> (Some e, d)
      | Inr data \<Rightarrow> (None, d\<lparr> dk_mark := Some data \<rparr>))"

text \<open>A watermark counts only when it is authenticated and names a position.\<close>

definition readWatermark :: "evidence_codec \<Rightarrow> evidence_disk \<Rightarrow> evidenceCheckpoint option" where
  "readWatermark c d =
     (case dk_mark d of
        None \<Rightarrow> None
      | Some data \<Rightarrow>
          case Decrypt c ''evidence-verified'' data None of
            Inr (plain, False) \<Rightarrow>
              (case cd_decodeCheckpoint c plain of
                 Inr p \<Rightarrow> if cp_Version p \<noteq> evidenceRecordVersion \<or> cp_HeadHash p = [] \<or> cp_Sequence p = 0 then None else Some p
               | Inl _ \<Rightarrow> None)
          | _ \<Rightarrow> None)"

definition markFullVerifiedLocked :: "gotime \<Rightarrow> EvidenceLedger \<Rightarrow> EvidenceLedger" where
  "markFullVerifiedLocked now l = l\<lparr> el_verifyScope := ''full'', el_fullVerifiedAt := Some now \<rparr>"

definition recordIntegrity :: "evidence_error \<Rightarrow> EvidenceLedger \<times> evidence_disk \<Rightarrow> evidence_error option \<times> EvidenceLedger \<times> evidence_disk" where
  "recordIntegrity e ld = (case ld of (l, d) \<Rightarrow> (Some e, l\<lparr> el_integrityErr := Some e \<rparr>, d))"

definition Verify :: "evidence_codec \<Rightarrow> evidence_io \<Rightarrow> EvidenceLedger \<times> evidence_disk \<Rightarrow> evidence_error option \<times> EvidenceLedger \<times> evidence_disk" where
  "Verify c io ld =
     (case ld of (l, d) \<Rightarrow>
        case el_integrityErr l of
          Some e \<Rightarrow> (Some e, l, d)
        | None \<Rightarrow>
            case verifyEvidenceFiles c d (effectiveMaxBytesLocked l) of
              (Inl e, _) \<Rightarrow> recordIntegrity e (l, d)
            | (Inr (head, seq, _), sz) \<Rightarrow>
                if head \<noteq> el_headHash l \<or> seq \<noteq> el_sequence l \<or> sz \<noteq> el_expectedSize l then recordIntegrity AdvancedOutside (l, d)
                else case writeWatermark c io seq head d of
                  (Some e, d) \<Rightarrow> recordIntegrity (WatermarkFailed e) (l, d)
                | (None, d) \<Rightarrow> (None, markFullVerifiedLocked (io_now io) l, d))"

text \<open>
  \<open>VerifyIncremental\<close> holds the lock only at its two ends. Other methods may run in between, so it is given the ledger \<open>l\<close> it reads its parameters from, the disk it finds when it
  reads the checkpoint (\<open>dc\<close>), the watermark (\<open>dw\<close>) and the records (\<open>df\<close>), and the ledger and disk on which it records its result.
\<close>

definition VerifyIncremental :: "evidence_codec \<Rightarrow> evidence_io \<Rightarrow> EvidenceLedger \<Rightarrow> evidence_disk \<Rightarrow> evidence_disk \<Rightarrow> evidence_disk \<Rightarrow> EvidenceLedger \<times> evidence_disk
    \<Rightarrow> evidence_error option \<times> EvidenceLedger \<times> evidence_disk" where
  "VerifyIncremental c io l dc dw df ld =
     (let maxBytes = effectiveMaxBytesLocked l; chunk = (if el_incrementalChunk l = 0 then evidenceIncrementalChunkRecords else el_incrementalChunk l)
      in case el_integrityErr l of
           Some e \<Rightarrow> (Some e, ld)
         | None \<Rightarrow>
             case readEvidenceCheckpoint c dc of
               NotExist \<Rightarrow> recordIntegrity (EvidenceIO ''evidence checkpoint'') ld
             | ReadError e \<Rightarrow> recordIntegrity e ld
             | ReadOK p \<Rightarrow>
                 if cp_Version p \<noteq> evidenceRecordVersion then recordIntegrity CheckpointVersion ld
                 else let (from, prev) = (case readWatermark c dw of Some m \<Rightarrow> (cp_Sequence m + 1, cp_HeadHash m) | None \<Rightarrow> (1, []))
                   in if cp_Sequence p < from then (None, apfst (markFullVerifiedLocked (io_now io)) ld)
                      else let to = min (from + chunk - 1) (cp_Sequence p)
                        in case verifyEvidenceChain c df maxBytes \<lparr> wb_From = from, wb_To = to, wb_PrevHash = prev \<rparr> of
                             (Inl e, _) \<Rightarrow> recordIntegrity e ld
                           | (Inr (head, seq, _), _) \<Rightarrow>
                               if seq \<noteq> to then recordIntegrity (RangeShort seq) ld
                               else (case ld of (l, d) \<Rightarrow>
                                 case writeWatermark c io to head d of
                                   (Some e, d) \<Rightarrow> recordIntegrity (WatermarkFailed e) (l, d)
                                 | (None, d) \<Rightarrow>
                                     (None, if to = cp_Sequence p then markFullVerifiedLocked (io_now io) l
                                            else l\<lparr> el_verifyScope := ''partial:'' @ dec_nat to @ ''/'' @ dec_nat (cp_Sequence p) \<rparr>, d)))"

text \<open>The constructor from the point where keys and paths are in order and no rotation was interrupted.\<close>

definition NewEvidenceLedger :: "evidence_codec \<Rightarrow> evidence_io \<Rightarrow> int \<Rightarrow> int \<Rightarrow> evidence_disk \<Rightarrow> EvidenceLedger \<times> evidence_disk" where
  "NewEvidenceLedger c io requested fallback d =
     (let maxBytes = (if requested < 1048576 then 67108864 else requested); budget = max maxBytes fallback;
          l = \<lparr> el_sequence = 0, el_headHash = [], el_expectedSize = 0, el_maxBytes = maxBytes, el_policyMaxBytes = budget, el_integrityErr = None,
                el_budgetExhausted = False, el_recent = [], el_verifyScope = [], el_fullVerifiedAt = None,
                el_incrementalChunk = evidenceIncrementalChunkRecords \<rparr>
      in case verifyEvidenceFilesBounded c io budget evidenceRecentLimit d of
           (Inl e, d) \<Rightarrow> (l\<lparr> el_integrityErr := Some e \<rparr>, d)
         | (Inr b, d) \<Rightarrow>
             let l = l\<lparr> el_headHash := br_head b, el_sequence := br_sequence b, el_recent := br_recent b, el_expectedSize := br_size b,
                        el_verifyScope := br_scope b \<rparr>
             in if br_scope b = ''full'' \<and> br_sequence b > 0 then
                  (case writeWatermark c io (br_sequence b) (br_head b) d of
                     (Some _, d) \<Rightarrow> (l\<lparr> el_verifyScope := ''tail'' \<rparr>, d)
                   | (None, d) \<Rightarrow> (l\<lparr> el_fullVerifiedAt := Some (io_now io) \<rparr>, d))
                else (l, d))"

definition ledger_Healthy :: "EvidenceLedger \<Rightarrow> evidence_error option" where
  "ledger_Healthy l = el_integrityErr l"

definition ledger_Status :: "EvidenceLedger \<Rightarrow> EvidenceStatus" where
  "ledger_Status l = \<lparr> es_Enabled = True, es_Healthy = (el_integrityErr l = None), es_Full = (el_integrityErr l = None \<and> el_budgetExhausted l),
     es_Records = of_nat (el_sequence l), es_HeadHash = el_headHash l,
     es_Error = (if el_integrityErr l \<noteq> None then ''evidence integrity unavailable'' else []), es_VerifyScope = el_verifyScope l \<rparr>"

definition Recent :: "int \<Rightarrow> EvidenceLedger \<Rightarrow> LedgerRecord list" where
  "Recent limit l =
     (let limit = (if limit < 1 then 100 else limit); limit = (if limit > 500 then 500 else limit)
      in rev (last_n (min (nat limit) (length (el_recent l))) (el_recent l)))"

end
