(* ===== verification/Evidence_Chain.thy ===== *)
theory Evidence_Chain
  imports Evidence_Ledger
begin

text \<open>
  What the evidence ledger guarantees and where it fails. A chain is a file whose lines decrypt, decode and verify one after the other; the
  walk of the code succeeds exactly on chains. Appending keeps a sealed chain sealed, two chains with the same head hold the same
  texts, and one record that is not UTF-8 makes the ledger fail its own verification.

  What the proofs use of the parameters is \<open>codec_ok\<close>.
\<close>

section \<open>Files of lines\<close>

text \<open>A line as the ledger writes it.\<close>

definition line_ok :: "string \<Rightarrow> bool" where
  "line_ok l \<longleftrightarrow> l \<noteq> [] \<and> newline \<notin> set l \<and> length l < scan_limit \<and> graphic (hd l) \<and> graphic (last l)"

definition file_of :: "string list \<Rightarrow> string" where
  "file_of ls = concat (map (\<lambda>l. l @ [newline]) ls)"

lemma file_of_simps [simp]: "file_of [] = []" "file_of (l # ls) = l @ newline # file_of ls" "file_of (ls @ ms) = file_of ls @ file_of ms"
  by (simp_all add: file_of_def)

lemma raw_lines_line: "newline \<notin> set l \<Longrightarrow> raw_lines (l @ newline # s) = l # raw_lines s"
  by (induction l) auto

lemma raw_lines_file: "\<forall>l \<in> set ls. newline \<notin> set l \<Longrightarrow> raw_lines (file_of ls) = ls"
  by (induction ls) (simp_all add: raw_lines_line)

lemma graphic_CR: "graphic c \<Longrightarrow> c \<noteq> CHR 0x0D"
  by (auto simp: graphic_def)

lemma drop_cr_ok: "line_ok l \<Longrightarrow> drop_cr l = l"
  by (auto simp: line_ok_def drop_cr_def dest: graphic_CR)

lemma blank_ok: "line_ok l \<Longrightarrow> \<not> blank l" "line_ok l \<Longrightarrow> trim_space l = l"
  by (simp_all add: line_ok_def blank_def trim_space_graphic)

lemma scan_file:
  assumes "\<forall>l \<in> set ls. line_ok l"
  shows "scan_lines (file_of ls) = (ls, False)"
proof -
  have "raw_lines (file_of ls) = ls" using assms by (intro raw_lines_file) (simp add: line_ok_def)
  moreover have "takeWhile (\<lambda>l. length l < scan_limit) ls = ls" using assms by (simp add: takeWhile_eq_all_conv line_ok_def)
  moreover have "map drop_cr ls = ls" using assms by (simp add: map_idI drop_cr_ok)
  ultimately show ?thesis by (simp add: scan_lines_def Let_def del: takeWhile_eq_all_conv)
qed

section \<open>Chains\<close>

fun chained :: "evidence_codec \<Rightarrow> nat \<Rightarrow> string \<Rightarrow> string list \<Rightarrow> LedgerRecord list \<Rightarrow> bool" where
  "chained c seq prev [] [] = True"
| "chained c seq prev (l # ls) (r # rs) = (verify_line c seq prev l = Inr r \<and> chained c (seq + 1) (lr_Hash r) ls rs)"
| "chained c seq prev _ _ = False"

definition chain_head :: "string \<Rightarrow> LedgerRecord list \<Rightarrow> string" where
  "chain_head prev rs = (if rs = [] then prev else lr_Hash (last rs))"

lemma chained_length: "chained c seq prev ls rs \<Longrightarrow> length rs = length ls"
  by (induction c seq prev ls rs rule: chained.induct) simp_all

lemma chained_snoc:
  assumes "chained c seq prev ls rs" and "verify_line c (seq + length rs) (chain_head prev rs) l = Inr r"
  shows "chained c seq prev (ls @ [l]) (rs @ [r])"
  using assms
proof (induction c seq prev ls rs rule: chained.induct)
  case (2 c seq prev l ls r rs)
  then show ?case by (simp add: chain_head_def split: if_splits)
qed (simp_all add: chain_head_def)

lemma chained_append:
  "chained c seq prev (ls @ ms) rs \<Longrightarrow> \<exists>us vs. rs = us @ vs \<and> chained c seq prev ls us \<and> chained c (seq + length ls) (chain_head prev us) ms vs"
proof (induction ls arbitrary: seq prev rs)
  case Nil
  then show ?case by (intro exI [of _ "[]"] exI [of _ rs]) (simp add: chain_head_def)
next
  case (Cons l ls)
  then obtain r rs' where rs: "rs = r # rs'" "verify_line c seq prev l = Inr r" "chained c (seq + 1) (lr_Hash r) (ls @ ms) rs'"
    by (cases rs) auto
  from Cons.IH [OF rs(3)] obtain us vs where "rs' = us @ vs" "chained c (seq + 1) (lr_Hash r) ls us"
    "chained c (seq + 1 + length ls) (chain_head (lr_Hash r) us) ms vs" by blast
  with rs show ?case by (intro exI [of _ "r # us"] exI [of _ vs]) (auto simp: chain_head_def)
qed

lemma verified_record:
  assumes "verifyEvidenceRecord c r seq prev = None"
  shows "lr_Version r = evidenceRecordVersion" "lr_Sequence r = seq" "lr_PrevHash r = prev" "er_ID r \<noteq> []" "\<not> time_is_zero (er_Time r)" "validateEvidenceText r = None"
    "\<exists>canonical. evidenceCanonical c r = Some canonical \<and> hex_decode (lr_Hash r) = Some (evidenceHash c canonical)"
  using assms by (auto simp: verifyEvidenceRecord_def Let_def split: if_split_asm option.split_asm)

lemma hex_decode_Nil: "hex_decode s = Some x \<Longrightarrow> length x = 32 \<Longrightarrow> s \<noteq> []"
  by auto

lemma verify_line_record:
  assumes "verify_line c seq prev l = Inr r"
  shows "verifyEvidenceRecord c r seq prev = None"
  using assms by (auto simp: verify_line_def split: sum.split_asm option.split_asm prod.split_asm)

lemma verified_hash: "verifyEvidenceRecord c r seq prev = None \<Longrightarrow> lr_Hash r \<noteq> []"
  by (auto simp: verifyEvidenceRecord_def Let_def split: if_split_asm option.split_asm)

text \<open>A walk over the whole file succeeds exactly on chains.\<close>

abbreviation whole :: walk_bounds where
  "whole \<equiv> \<lparr> wb_From = 1, wb_To = 0, wb_PrevHash = [] \<rparr>"

lemma walk_chained:
  assumes "chained c (Suc (ws_sequence w)) (ws_previous w) ls rs"
  shows "walk c whole ls w = Inr (w\<lparr> ws_sequence := ws_sequence w + length ls, ws_previous := chain_head (ws_previous w) rs,
      ws_lastVerified := chain_head (ws_lastVerified w) rs, ws_recent := fold (\<lambda>r acc. last_n evidenceRecentLimit (acc @ [r])) rs (ws_recent w) \<rparr>, False)"
  using assms
proof (induction ls arbitrary: w rs)
  case Nil
  then show ?case by (cases rs) (simp_all add: chain_head_def)
next
  case (Cons l ls)
  then obtain r rs' where rs: "rs = r # rs'" "verify_line c (Suc (ws_sequence w)) (ws_previous w) l = Inr r" "chained c (Suc (Suc (ws_sequence w))) (lr_Hash r) ls rs'"
    by (cases rs) auto
  let ?w = "w\<lparr> ws_sequence := Suc (ws_sequence w), ws_previous := lr_Hash r, ws_lastVerified := lr_Hash r,
      ws_recent := last_n evidenceRecentLimit (ws_recent w @ [r]) \<rparr>"
  have "walk c whole (l # ls) w = walk c whole ls ?w" using rs(2) by (simp add: Let_def)
  moreover note Cons.IH [of ?w rs']
  ultimately show ?case using rs by (simp add: chain_head_def)
qed

lemma walk_complete:
  assumes "walk c whole ls w = Inr (w', stopped)"
  shows "\<not> stopped \<and> (\<exists>rs. chained c (Suc (ws_sequence w)) (ws_previous w) ls rs)"
  using assms
proof (induction ls arbitrary: w)
  case (Cons l ls)
  from Cons.prems obtain r where r: "verify_line c (Suc (ws_sequence w)) (ws_previous w) l = Inr r"
    by (auto simp: Let_def split: sum.split_asm)
  let ?w = "w\<lparr> ws_sequence := Suc (ws_sequence w), ws_previous := lr_Hash r, ws_lastVerified := lr_Hash r,
      ws_recent := last_n evidenceRecentLimit (ws_recent w @ [r]) \<rparr>"
  have "walk c whole ls ?w = Inr (w', stopped)" using Cons.prems r by (simp add: Let_def)
  from Cons.IH [OF this] obtain rs where "\<not> stopped" "chained c (Suc (Suc (ws_sequence w))) (lr_Hash r) ls rs" by auto
  with r show ?case by (intro conjI exI [of _ "r # rs"]) simp_all
qed (auto intro: exI [of _ "[]"])

section \<open>The size of a record\<close>

lemma json_escape_length: "length (json_escape c) \<le> 6"
  by (simp add: json_escape_def Let_def)

lemma json_chunk_length:
  assumes "rune_len s = Some n"
  shows "length (json_chunk (take n s)) \<le> 6 * n"
proof -
  have "0 < n" "n \<le> length s" using rune_len_bounds [OF assms] by auto
  then show ?thesis using json_escape_length [of "hd (take n s)"] by (auto simp: json_chunk_def)
qed

lemma json_body_length: "length (json_body s) \<le> 6 * length s"
proof (induction s rule: coerce_utf8.induct)
  case (1 s)
  show ?case
  proof (cases "s = []")
    case False
    show ?thesis
    proof (cases "rune_len s")
      case None
      then show ?thesis using 1(1) [OF False None] False json_body_bad [OF False None] by (cases s) auto
    next
      case (Some n)
      have "json_body s = json_chunk (take n s) @ json_body (drop n s)" using json_body_rune [OF Some, of "drop n s"] by simp
      then show ?thesis using 1(2) [OF False Some] json_chunk_length [OF Some] rune_len_bounds [OF Some] by auto
    qed
  qed simp
qed

lemma json_string_length: "length (json_string s) \<le> 6 * length s + 2"
  using json_body_length [of s] by (simp add: json_string_def)

lemma json_field_length: "length (json_field k v) \<le> 6 * length k + 6 * length v + 6"
  using json_string_length [of k] json_string_length [of v] by (simp add: json_field_def)

lemma json_omitempty_length: "length (json_omitempty k v) \<le> 6 * length k + 6 * length v + 6"
  using json_field_length [of k v] by (simp add: json_omitempty_def)

lemma dec_digits_length: "n < 10 ^ k \<Longrightarrow> 0 < k \<Longrightarrow> length (dec_digits n) \<le> k"
proof (induction n arbitrary: k rule: dec_digits.induct)
  case (1 n)
  show ?case
  proof (cases "n < 10")
    case False
    then obtain j where k: "k = Suc j" "0 < j" using 1(2,3) by (cases k; cases "k - 1") auto
    have "n div 10 < 10 ^ j" using 1(2) k by (simp add: less_mult_imp_div_less mult.commute)
    from 1(1) [OF False this k(2)] show ?thesis using False k by (simp add: dec_digits.simps [of n])
  qed (use 1(3) in \<open>simp add: dec_digits.simps [of n]\<close>)
qed

lemma dec_nat_length: "n < 10 ^ 19 \<Longrightarrow> length (dec_nat n) \<le> 19"
  using dec_digits_length [of n 19] by (simp add: dec_nat_def)

lemma b64_encode_length: "length (b64_encode s) \<le> 2 * length s"
proof (induction s rule: b64_encode.induct)
  case (4 a b c cs)
  then have "length (b64_encode cs) \<le> 2 * length cs" by blast
  then show ?case by (simp add: Let_def)
qed (simp_all add: Let_def)

lemma hex_decode_length: "hex_decode s = Some x \<Longrightarrow> length s = 2 * length x"
  by (induction s arbitrary: x rule: hex_decode.induct) (auto split: option.split_asm)

lemma text_lengths:
  assumes "validateEvidenceText r = None"
  shows "length (er_Severity r) \<le> 32" "length (er_Kind r) \<le> 128" "length (er_Source r) \<le> 128" "length (er_Message r) \<le> 4096"
    "length (er_Target r) \<le> 1024" "length (lr_RequestID r) \<le> 256"
proof -
  have "\<forall>f \<in> set (text_fields r). text_fault f = None"
    using assms by (auto simp: validateEvidenceText_def find_None_iff split: option.split_asm dest!: iffD1 [OF find_Some_iff])
  then show "length (er_Severity r) \<le> 32" "length (er_Kind r) \<le> 128" "length (er_Source r) \<le> 128" "length (er_Message r) \<le> 4096"
    "length (er_Target r) \<le> 1024" "length (lr_RequestID r) \<le> 256"
    by (auto simp: text_fields_def text_fault_def split: if_split_asm)
qed

lemma record_json_length:
  assumes "record_json c r = Some b" and "validateEvidenceText r = None" and "lr_Version r = evidenceRecordVersion" and "lr_Sequence r < 10 ^ 19"
    and "length (er_ID r) \<le> 1000" and "length (lr_PrevHash r) \<le> 64" and "length (lr_Hash r) \<le> 64" and "length (lr_Signature r) \<le> 128"
    and "\<And>t s. cd_time c t = Some s \<Longrightarrow> length s < 64"
  shows "length b < 100000"
proof -
  obtain t where t: "cd_time c (er_Time r) = Some t"
    and b: "b = payload_json t r @ json_field ''hash'' (lr_Hash r) @ json_field ''signature'' (lr_Signature r) @ ''}''"
    using assms(1) by (auto simp: record_json_def)
  note len = text_lengths [OF assms(2)] assms(5-8) assms(9) [OF t] dec_nat_length [OF assms(4)]
    json_string_length [of "''version''"] json_string_length [of "''sequence''"] json_string_length [of "''time''"]
    json_field_length [of "''id''" "er_ID r"] json_field_length [of "''severity''" "er_Severity r"] json_field_length [of "''kind''" "er_Kind r"]
    json_field_length [of "''source''" "er_Source r"] json_field_length [of "''message''" "er_Message r"] json_omitempty_length [of "''target''" "er_Target r"]
    json_omitempty_length [of "''request_id''" "lr_RequestID r"] json_field_length [of "''prev_hash''" "lr_PrevHash r"]
    json_field_length [of "''hash''" "lr_Hash r"] json_field_length [of "''signature''" "lr_Signature r"]
  have "length (dec_int (lr_Version r)) = 1" by (simp add: assms(3) evidenceRecordVersion_def dec_int_def dec_nat_def dec_digits.simps)
  then show ?thesis using len unfolding b payload_json_def payload_front_def by simp
qed

section \<open>What is used of the libraries\<close>

definition texts :: "LedgerRecord \<Rightarrow> string list" where
  "texts r = [er_ID r, er_Severity r, er_Kind r, er_Source r, er_Message r, er_Target r, lr_RequestID r, lr_PrevHash r, lr_Hash r, lr_Signature r]"

definition coerced :: "LedgerRecord \<Rightarrow> LedgerRecord" where
  "coerced r = r\<lparr> er_ID := coerce_utf8 (er_ID r), er_Severity := coerce_utf8 (er_Severity r), er_Kind := coerce_utf8 (er_Kind r),
     er_Source := coerce_utf8 (er_Source r), er_Message := coerce_utf8 (er_Message r), er_Target := coerce_utf8 (er_Target r),
     lr_RequestID := coerce_utf8 (lr_RequestID r), lr_PrevHash := coerce_utf8 (lr_PrevHash r), lr_Hash := coerce_utf8 (lr_Hash r),
     lr_Signature := coerce_utf8 (lr_Signature r) \<rparr>"

lemma coerced_valid: "\<forall>t \<in> set (texts r). valid_utf8 t \<Longrightarrow> coerced r = r"
  by (simp add: texts_def coerced_def coerce_valid)

text \<open>
  SHA-256 has 32 bytes; an Ed25519 signature has 64 and verifies; an envelope is one line of JSON, not much longer than its content, that opens under the purpose and the
  sequence it was sealed with; decoding the JSON text of a record or of a checkpoint gives it back, with invalid UTF-8 replaced.
\<close>

definition envelope_ok :: "evidence_codec \<Rightarrow> string \<Rightarrow> nat \<Rightarrow> string \<Rightarrow> string \<Rightarrow> bool" where
  "envelope_ok c purpose n x e \<longleftrightarrow> e \<noteq> [] \<and> newline \<notin> set e \<and> hd e = CHR ''{'' \<and> last e = CHR ''}'' \<and> length e \<le> 2 * length x + 4096 + length (dec_nat n)
     \<and> cd_isEnvelope c e \<and> cd_open c purpose None e = Inr x \<and> cd_open c purpose (Some n) e = Inr x"

definition evidence_purposes :: "string set" where
  "evidence_purposes = {''evidence-record'', ''evidence-head'', ''evidence-verified''}"

definition codec_ok :: "evidence_codec \<Rightarrow> bool" where
  "codec_ok c \<longleftrightarrow> (\<forall>x. length (cd_sha256 c x) = 32) \<and> (\<forall>x. length (cd_sign c x) = 64 \<and> cd_verify c x (cd_sign c x))
     \<and> (\<forall>p \<in> evidence_purposes. \<forall>n x e. cd_encrypt c p n x = Inr e \<longrightarrow> envelope_ok c p n x e)
     \<and> (\<forall>r b. record_json c r = Some b \<longrightarrow> cd_decodeRecord c b = Inr (coerced r))
     \<and> (\<forall>p. valid_utf8 (cp_HeadHash p) \<longrightarrow> cd_decodeCheckpoint c (checkpoint_json p) = Inr p)
     \<and> (\<forall>t s. cd_time c t = Some s \<longrightarrow> length s < 64)"

lemma purpose_names: "''evidence-record'' \<in> evidence_purposes" "''evidence-head'' \<in> evidence_purposes" "''evidence-verified'' \<in> evidence_purposes"
  by (simp_all add: evidence_purposes_def)

lemma codec_okD:
  assumes "codec_ok c"
  shows "length (cd_sha256 c x) = 32" "length (cd_sign c x) = 64" "cd_verify c x (cd_sign c x)" "p \<in> evidence_purposes \<Longrightarrow> cd_encrypt c p n x = Inr e \<Longrightarrow> envelope_ok c p n x e"
    "record_json c r = Some b \<Longrightarrow> cd_decodeRecord c b = Inr (coerced r)" "valid_utf8 (cp_HeadHash q) \<Longrightarrow> cd_decodeCheckpoint c (checkpoint_json q) = Inr q"
    "cd_time c t = Some s \<Longrightarrow> length s < 64"
  using assms by (auto simp: codec_ok_def)

lemma brace_graphic: "graphic CHR ''{''" "graphic CHR ''}''"
  by (simp_all add: graphic_def)

lemma envelope_line:
  assumes "envelope_ok c p n x e" and "length x < 100000" and "n < 10 ^ 19"
  shows "line_ok e"
  using assms(1,2) dec_nat_length [OF assms(3)] brace_graphic by (simp add: envelope_ok_def line_ok_def scan_limit_def)

lemma trim_newline:
  assumes "e \<noteq> []" "graphic (hd e)" "graphic (last e)"
  shows "trim_space (e @ [newline]) = e"
proof -
  have l: "trim_left space_seqs (e @ [newline]) = e @ [newline]"
  proof (rule trim_left_id, intro ballI impI notI)
    fix p assume p: "p \<in> set space_seqs" "p \<noteq> []" "prefix p (e @ [newline])"
    from p(3) obtain zs where "e @ [newline] = p @ zs" by (auto simp: prefix_def)
    then have "hd (p @ zs) = hd (e @ [newline])" by simp
    then have "hd p = hd e" using p(2) assms(1) by simp
    then show False using p(1) assms(2) space_seqs_not_graphic by auto
  qed
  have n: "char_of (10 :: nat) = newline" "char_of (9 :: nat) \<noteq> newline" by (simp_all add: char_of_def bit_simps)
  have "find (\<lambda>p. p \<noteq> [] \<and> prefix p (newline # rev e)) (map rev space_seqs) = Some [newline]"
    by (simp add: space_seqs_def n prefix_def)
  then have "trim_left (map rev space_seqs) (newline # rev e) = trim_left (map rev space_seqs) (rev e)"
    by (subst trim_left.simps) simp
  moreover have "trim_space e = e" by (rule trim_space_graphic [OF assms])
  moreover have "trim_left space_seqs e = e" using assms space_seqs_not_graphic by (intro trim_left_id) (auto simp: prefix_def)
  ultimately show ?thesis by (simp add: trim_space_def l)
qed

lemma envelope_decrypt:
  assumes "envelope_ok c p n x e"
  shows "Decrypt c p e (Some n) = Inr (x, False)" "Decrypt c p (e @ [newline]) None = Inr (x, False)"
proof -
  have e: "e \<noteq> []" "graphic (hd e)" "graphic (last e)" using assms brace_graphic by (simp_all add: envelope_ok_def)
  show "Decrypt c p e (Some n) = Inr (x, False)" "Decrypt c p (e @ [newline]) None = Inr (x, False)"
    using assms e(1) trim_space_graphic [OF e] trim_newline [OF e] by (simp_all add: Decrypt_def envelope_ok_def)
qed

section \<open>Sealed ledgers\<close>

text \<open>The checkpoint on the disk names this position.\<close>

definition checkpoint_at :: "evidence_codec \<Rightarrow> evidence_disk \<Rightarrow> nat \<Rightarrow> string \<Rightarrow> bool" where
  "checkpoint_at c d n h \<longleftrightarrow> readEvidenceCheckpoint c d = ReadOK \<lparr> cp_Version = evidenceRecordVersion, cp_Sequence = n, cp_HeadHash = h \<rparr>"

text \<open>
  The ledger and the disk agree: the file consists of whole lines that form a chain, the checkpoint seals its end, and the ledger knows
  its length, its head and its size. Before the first record neither file need exist.
\<close>

definition sealed :: "evidence_codec \<Rightarrow> string list \<Rightarrow> LedgerRecord list \<Rightarrow> EvidenceLedger \<Rightarrow> evidence_disk \<Rightarrow> bool" where
  "sealed c ls rs l d \<longleftrightarrow> el_integrityErr l = None \<and> (\<forall>x \<in> set ls. line_ok x) \<and> chained c 1 [] ls rs
     \<and> el_sequence l = length rs \<and> el_headHash l = chain_head [] rs \<and> el_expectedSize l = int (length (file_of ls))
     \<and> el_expectedSize l \<le> effectiveMaxBytesLocked l
     \<and> (if ls = [] then dk_ledger d = None \<and> dk_head d = None \<and> dk_headErr d = None
        else dk_ledger d = Some (file_of ls) \<and> dk_private d \<and> checkpoint_at c d (length rs) (chain_head [] rs))"

lemma sealedD:
  assumes "sealed c ls rs l d"
  shows "el_integrityErr l = None" "\<forall>x \<in> set ls. line_ok x" "chained c 1 [] ls rs" "el_sequence l = length rs" "el_headHash l = chain_head [] rs"
    "el_expectedSize l = int (length (file_of ls))" "el_expectedSize l \<le> effectiveMaxBytesLocked l" "length rs = length ls"
    "ls \<noteq> [] \<Longrightarrow> dk_ledger d = Some (file_of ls)" "ls \<noteq> [] \<Longrightarrow> dk_private d" "ls \<noteq> [] \<Longrightarrow> checkpoint_at c d (length rs) (chain_head [] rs)"
    "ls = [] \<Longrightarrow> dk_ledger d = None \<and> dk_head d = None \<and> dk_headErr d = None"
  using assms chained_length by (auto simp: sealed_def)

lemma checkpoint_verifies: "checkpoint_at c d n h \<Longrightarrow> verifyEvidenceCheckpoint c d m k = (if m = n \<and> k = h then None else Some CheckpointMismatch)"
  by (auto simp: checkpoint_at_def verifyEvidenceCheckpoint_def)

lemma sealed_unchanged:
  assumes "sealed c ls rs l d"
  shows "verifyUnchangedLocked c d l = None"
proof (cases "ls = []")
  case True
  then show ?thesis using sealedD [OF assms]
    by (auto simp: verifyUnchangedLocked_def verifyEvidenceCheckpoint_def readEvidenceCheckpoint_def chain_head_def)
next
  case False
  then show ?thesis using sealedD [OF assms] checkpoint_verifies by (simp add: verifyUnchangedLocked_def)
qed

text \<open>The full verification of a sealed ledger.\<close>

definition recent_of :: "LedgerRecord list \<Rightarrow> LedgerRecord list" where
  "recent_of rs = fold (\<lambda>r acc. last_n evidenceRecentLimit (acc @ [r])) rs []"

lemma chain_verifies:
  assumes "\<forall>x \<in> set ls. line_ok x" "chained c 1 [] ls rs" "dk_ledger d = Some (file_of ls)" "dk_private d" "int (length (file_of ls)) \<le> m"
  shows "verifyEvidenceChain c d m whole = (Inr (chain_head [] rs, length rs, recent_of rs), int (length (file_of ls)))"
proof -
  let ?w = "\<lparr> ws_sequence = 0, ws_previous = [], ws_lastVerified = [], ws_recent = [] \<rparr>"
  have "walk c whole ls ?w = Inr (\<lparr> ws_sequence = length ls, ws_previous = chain_head [] rs, ws_lastVerified = chain_head [] rs, ws_recent = recent_of rs \<rparr>, False)"
    using walk_chained [of c ?w ls rs] assms(2) by (simp add: recent_of_def)
  then show ?thesis using assms chained_length [OF assms(2)] scan_file [OF assms(1)] by (simp add: verifyEvidenceChain_def)
qed

lemma sealed_files:
  assumes "sealed c ls rs l d"
  shows "verifyEvidenceFiles c d (effectiveMaxBytesLocked l) = (Inr (el_headHash l, el_sequence l, recent_of rs), el_expectedSize l)"
proof (cases "ls = []")
  case True
  then show ?thesis using sealedD [OF assms] by (simp add: verifyEvidenceFiles_def chain_head_def recent_of_def)
next
  case False
  note s = sealedD [OF assms]
  have "verifyEvidenceChain c d (effectiveMaxBytesLocked l) whole = (Inr (chain_head [] rs, length rs, recent_of rs), int (length (file_of ls)))"
    using s False by (intro chain_verifies) simp_all
  then show ?thesis using s False checkpoint_verifies [OF s(11)] by (simp add: verifyEvidenceFiles_def)
qed

lemma sealed_verify:
  assumes "sealed c ls rs l d" and "writeWatermark c io (el_sequence l) (el_headHash l) d = (None, d')"
  shows "Verify c io (l, d) = (None, markFullVerifiedLocked (io_now io) l, d')"
  using sealedD(1) [OF assms(1)] sealed_files [OF assms(1)] assms(2) by (simp add: Verify_def)

section \<open>Appending\<close>

lemma hash_plain: "valid_utf8 (hex_encode x)" "valid_utf8 (b64_encode x)"
  by (rule valid_plain, use hex_encode_plain b64_encode_plain in \<open>auto simp: json_plain_def\<close>)+

lemma hash_length:
  assumes "codec_ok c" "verifyEvidenceRecord c r n p = None"
  shows "length (lr_Hash r) = 64"
  using verified_record(7) [OF assms(2)] codec_okD(1) [OF assms(1)] hex_decode_length by (fastforce simp: evidenceHash_def)

text \<open>What \<open>Append\<close> signs verifies at the next position.\<close>

lemma signed_verifies:
  assumes "codec_ok c" "validateEvidenceText r = None" "evidenceCanonical c r = Some canonical" "lr_Version r = evidenceRecordVersion" "er_ID r \<noteq> []"
    "\<not> time_is_zero (er_Time r)"
  shows "verifyEvidenceRecord c (signed c canonical r) (lr_Sequence r) (lr_PrevHash r) = None"
proof -
  have "validateEvidenceText (signed c canonical r) = None" "evidenceCanonical c (signed c canonical r) = Some canonical"
    using assms(2,3) by (simp_all add: signed_def Let_def validateEvidenceText_def text_fields_def evidenceCanonical_def payload_json_def payload_front_def)
  then show ?thesis using assms codec_okD(1,2,3) [OF assms(1)]
    by (simp add: verifyEvidenceRecord_def signed_def Let_def evidenceHash_def)
qed


text \<open>The I/O of a call works, and what the caller passes is UTF-8 of moderate size.\<close>

definition io_ok :: "evidence_codec \<Rightarrow> evidence_io \<Rightarrow> bool" where
  "io_ok c io \<longleftrightarrow> io_write io = None \<and> io_head io = None \<and> io_mark io = None \<and> (\<forall>p \<in> evidence_purposes. \<forall>n x. \<exists>e. cd_encrypt c p n x = Inr e)
     \<and> io_id io \<noteq> [] \<and> valid_utf8 (io_id io) \<and> length (io_id io) \<le> 1000 \<and> \<not> time_is_zero (io_now io)"

definition text_ok :: "LedgerRecord \<Rightarrow> bool" where
  "text_ok r \<longleftrightarrow> (\<forall>t \<in> {er_ID r, er_Severity r, er_Kind r, er_Source r, er_Message r, er_Target r, lr_RequestID r}. valid_utf8 t) \<and> length (er_ID r) \<le> 1000"

lemma prepared_fields:
  "lr_Version (prepared io r l) = evidenceRecordVersion" "lr_Sequence (prepared io r l) = el_sequence l + 1" "lr_PrevHash (prepared io r l) = el_headHash l"
  "er_Severity (prepared io r l) = er_Severity r" "er_Kind (prepared io r l) = er_Kind r" "er_Source (prepared io r l) = er_Source r"
  "er_Message (prepared io r l) = er_Message r" "er_Target (prepared io r l) = er_Target r" "lr_RequestID (prepared io r l) = lr_RequestID r"
  by (simp_all add: prepared_def)

lemma signed_fields [simp]:
  "lr_Version (signed c k r) = lr_Version r" "lr_Sequence (signed c k r) = lr_Sequence r" "lr_PrevHash (signed c k r) = lr_PrevHash r"
  "er_ID (signed c k r) = er_ID r" "er_Time (signed c k r) = er_Time r" "er_Severity (signed c k r) = er_Severity r" "er_Kind (signed c k r) = er_Kind r"
  "er_Source (signed c k r) = er_Source r" "er_Message (signed c k r) = er_Message r" "er_Target (signed c k r) = er_Target r"
  "lr_RequestID (signed c k r) = lr_RequestID r" "lr_Hash (signed c k r) = hex_encode (evidenceHash c k)"
  "lr_Signature (signed c k r) = b64_encode (cd_sign c (evidenceHash c k))"
  by (simp_all add: signed_def Let_def)

text \<open>The three outcomes of an append to a ledger that is not quarantined and whose files are unchanged.\<close>

lemma append_cases:
  assumes "el_integrityErr l = None" "verifyUnchangedLocked c d l = None" "Append c io record (l, d) = (res, l', d')"
  obtains (refused) e where "res = Inl e" "l' = l" "d' = d"
  | (full) "res = Inl EvidenceBudget" "l' = l\<lparr> el_budgetExhausted := True \<rparr>" "d' = d"
  | (written) canonical plain line where "validateEvidenceText (prepared io record l) = None" "evidenceCanonical c (prepared io record l) = Some canonical"
      "record_json c (signed c canonical (prepared io record l)) = Some plain"
      "cd_encrypt c ''evidence-record'' (el_sequence l + 1) plain = Inr line"
      "el_expectedSize l + int (length line + 1) \<le> effectiveMaxBytesLocked l"
      "commit_line c io (signed c canonical (prepared io record l)) line (l, d) = (res, l', d')"
proof -
  let ?r = "prepared io record l"
  note a = assms(3) [unfolded Append_def prod.case Let_def assms(1) option.case assms(2)]
  show thesis
  proof (cases "validateEvidenceText ?r")
    case (Some e)
    with a show thesis by (intro refused [of e]) auto
  next
    case v: None
    show thesis
    proof (cases "evidenceCanonical c ?r")
      case None
      with a v assms(2) show thesis by (intro refused [of TimeEncoding]) auto
    next
      case (Some canonical)
      let ?s = "signed c canonical ?r"
      obtain plain where plain: "record_json c ?s = Some plain" using Some by (auto simp: evidenceCanonical_def record_json_def)
      show thesis
      proof (cases "cd_encrypt c ''evidence-record'' (el_sequence l + 1) plain")
        case (Inl e)
        with a v assms(2) Some plain show thesis by (intro refused [of "EvidenceIO e"]) (auto simp: prepared_fields)
      next
        case (Inr line)
        then have cl: "commit_line c io ?s line (l, d) = (res, l', d')" using a v assms(2) Some plain by (simp add: prepared_fields)
        show thesis
        proof (cases "el_expectedSize l + int (length line + 1) > effectiveMaxBytesLocked l")
          case True
          with cl show thesis by (intro full) (auto simp: commit_line_def)
        next
          case False
          with v Some plain Inr cl show thesis by (intro written) simp_all
        qed
      qed
    qed
  qed
qed

lemma length_file_of: "length ls \<le> length (file_of ls)"
  by (induction ls) simp_all

lemma chained_records: "chained c seq prev ls rs \<Longrightarrow> r \<in> set rs \<Longrightarrow> \<exists>n p. verifyEvidenceRecord c r n p = None"
proof (induction c seq prev ls rs rule: chained.induct)
  case (2 c seq prev l ls r' rs)
  then show ?case by (cases "r = r'") (auto dest!: verify_line_record)
qed simp_all

lemma hex_decode_ascii: "hex_decode s = Some x \<Longrightarrow> ch \<in> set s \<Longrightarrow> byte_of ch < 128"
proof (induction s arbitrary: x rule: hex_decode.induct)
  case (3 a b cs)
  have v: "hex_value e = Some v \<Longrightarrow> byte_of e < 128" for e v by (auto simp: hex_value_def byte_of_def Let_def split: if_split_asm)
  from 3 show ?case by (auto split: option.split_asm dest: v)
qed simp_all

lemma sealed_head:
  assumes "codec_ok c" "sealed c ls rs l d"
  shows "length (el_headHash l) \<le> 64" "valid_utf8 (el_headHash l)"
proof -
  have "length (el_headHash l) \<le> 64 \<and> valid_utf8 (el_headHash l)"
  proof (cases "rs = []")
    case True
    then show ?thesis using sealedD(5) [OF assms(2)] by (simp add: chain_head_def valid_utf8.simps)
  next
    case False
    then obtain n p where v: "verifyEvidenceRecord c (last rs) n p = None" using chained_records [OF sealedD(3) [OF assms(2)]] last_in_set by blast
    from verified_record(7) [OF v] obtain x where x: "hex_decode (lr_Hash (last rs)) = Some x" by auto
    have "valid_utf8 (lr_Hash (last rs))" by (rule valid_plain) (use hex_decode_ascii [OF x] in blast)
    then show ?thesis using False sealedD(5) [OF assms(2)] hash_length [OF assms(1) v] by (simp add: chain_head_def)
  qed
  then show "length (el_headHash l) \<le> 64" "valid_utf8 (el_headHash l)" by simp_all
qed

text \<open>The line that an append writes is one line of the file; read back it gives the signed record, with invalid UTF-8 replaced.\<close>

lemma written_plain:
  assumes ok: "codec_ok c" and s: "sealed c ls rs l d" and id: "length (er_ID (prepared io record l)) \<le> 1000" and mx: "in_int64 (effectiveMaxBytesLocked l)"
    and v: "validateEvidenceText (prepared io record l) = None" and p: "record_json c (signed c canonical (prepared io record l)) = Some plain"
    and e: "cd_encrypt c ''evidence-record'' (el_sequence l + 1) plain = Inr line"
  shows "line_ok line" "verify_line c (el_sequence l + 1) prev line =
    (let r = coerced (signed c canonical (prepared io record l))
     in case verifyEvidenceRecord c r (el_sequence l + 1) prev of Some e \<Rightarrow> Inl (AtLine (el_sequence l + 1) e) | None \<Rightarrow> Inr r)"
proof -
  let ?s = "signed c canonical (prepared io record l)"
  have env: "envelope_ok c ''evidence-record'' (el_sequence l + 1) plain line" by (rule codec_okD(4) [OF ok purpose_names(1) e])
  show "verify_line c (el_sequence l + 1) prev line = (let r = coerced ?s
     in case verifyEvidenceRecord c r (el_sequence l + 1) prev of Some e \<Rightarrow> Inl (AtLine (el_sequence l + 1) e) | None \<Rightarrow> Inr r)"
    using envelope_decrypt(1) [OF env] codec_okD(5) [OF ok p] by (simp add: verify_line_def Let_def split: option.split)
  have "int (length rs) \<le> int (length (file_of ls))" using length_file_of [of ls] sealedD(8) [OF s] by simp
  then have "int (length rs) < 2 ^ 63" using sealedD(6,7) [OF s] mx by (simp add: in_int64_def)
  then have sq: "el_sequence l + 1 < 10 ^ 19" using sealedD(4) [OF s] by simp
  moreover have "validateEvidenceText ?s = None" using v by (simp add: validateEvidenceText_def text_fields_def)
  moreover have "length (hex_encode (evidenceHash c canonical)) \<le> 64" "length (b64_encode (cd_sign c (evidenceHash c canonical))) \<le> 128"
    using codec_okD(1,2) [OF ok] b64_encode_length [of "cd_sign c (evidenceHash c canonical)"] by (simp_all add: evidenceHash_def)
  ultimately have "length plain < 100000"
    using record_json_length [OF p] id sealed_head(1) [OF ok s] codec_okD(7) [OF ok] by (simp add: prepared_fields)
  from envelope_line [OF env this sq] show "line_ok line" .
qed

lemma written_line:
  assumes ok: "codec_ok c" and s: "sealed c ls rs l d" and io: "io_id io \<noteq> [] \<and> valid_utf8 (io_id io) \<and> length (io_id io) \<le> 1000 \<and> \<not> time_is_zero (io_now io)"
    and tx: "text_ok record" and mx: "in_int64 (effectiveMaxBytesLocked l)"
    and v: "validateEvidenceText (prepared io record l) = None" and k: "evidenceCanonical c (prepared io record l) = Some canonical"
    and p: "record_json c (signed c canonical (prepared io record l)) = Some plain"
    and e: "cd_encrypt c ''evidence-record'' (el_sequence l + 1) plain = Inr line"
  shows "line_ok line" "verify_line c (el_sequence l + 1) (el_headHash l) line = Inr (signed c canonical (prepared io record l))"
proof -
  let ?r = "prepared io record l" let ?s = "signed c canonical ?r"
  have id: "er_ID ?r \<noteq> []" "valid_utf8 (er_ID ?r)" "length (er_ID ?r) \<le> 1000" "\<not> time_is_zero (er_Time ?r)"
    using io tx by (auto simp: prepared_def text_ok_def time_is_zero_def)
  have "\<forall>t \<in> set (texts ?s). valid_utf8 t"
    using id tx hash_plain sealed_head [OF ok s] by (simp add: texts_def prepared_fields text_ok_def)
  then have "coerced ?s = ?s" by (rule coerced_valid)
  moreover have "verifyEvidenceRecord c ?s (el_sequence l + 1) (el_headHash l) = None"
    using signed_verifies [OF ok v k _ id(1,4)] by (simp add: prepared_fields)
  ultimately show "line_ok line" "verify_line c (el_sequence l + 1) (el_headHash l) line = Inr ?s"
    using written_plain [OF ok s id(3) mx v p e] by simp_all
qed

lemma checkpoint_written:
  assumes "codec_ok c" "valid_utf8 h" "io_head io = None" "cd_encrypt c ''evidence-head'' n (checkpoint_json \<lparr> cp_Version = evidenceRecordVersion, cp_Sequence = n, cp_HeadHash = h \<rparr>) = Inr e"
    "dk_headErr d = None"
  shows "\<exists>d'. writeEvidenceCheckpoint c io n h d = (None, d') \<and> checkpoint_at c d' n h \<and> dk_ledger d' = dk_ledger d \<and> dk_private d' = dk_private d \<and> dk_headErr d' = None"
proof -
  let ?p = "\<lparr> cp_Version = evidenceRecordVersion, cp_Sequence = n, cp_HeadHash = h \<rparr>"
  have "envelope_ok c ''evidence-head'' n (checkpoint_json ?p) e" by (rule codec_okD(4) [OF assms(1) purpose_names(2) assms(4)])
  from envelope_decrypt(2) [OF this] have "readEvidenceCheckpoint c (d\<lparr> dk_head := Some (e @ [newline]) \<rparr>) = ReadOK ?p"
    using assms(5) codec_okD(6) [OF assms(1), of ?p] assms(2) by (simp add: readEvidenceCheckpoint_def)
  then show ?thesis using assms by (simp add: writeEvidenceCheckpoint_def write_sealed_def checkpoint_at_def)
qed

lemma sealed_budget_flag: "sealed c ls rs (l\<lparr> el_budgetExhausted := b \<rparr>) d = sealed c ls rs l d"
  by (simp add: sealed_def effectiveMaxBytesLocked_def)

lemma io_encrypts: "io_ok c io \<Longrightarrow> p \<in> evidence_purposes \<Longrightarrow> \<exists>e. cd_encrypt c p n x = Inr e"
  by (simp add: io_ok_def)

lemma sealed_verify_ok:
  assumes "sealed c ls rs l d" "io_ok c io"
  shows "fst (Verify c io (l, d)) = None"
proof -
  obtain e where "cd_encrypt c ''evidence-verified'' (el_sequence l) (checkpoint_json \<lparr> cp_Version = evidenceRecordVersion, cp_Sequence = el_sequence l, cp_HeadHash = el_headHash l \<rparr>) = Inr e"
    using io_encrypts [OF assms(2)] purpose_names by blast
  then have "writeWatermark c io (el_sequence l) (el_headHash l) d = (None, d\<lparr> dk_mark := Some (e @ [newline]) \<rparr>)"
    using assms(2) by (simp add: writeWatermark_def write_sealed_def io_ok_def)
  from sealed_verify [OF assms(1) this] show ?thesis by simp
qed

lemma sealed_write:
  assumes "sealed c ls rs l d" "io_write io = None"
  obtains d1 where "write_line io (line @ [newline]) d = (None, d1)" "dk_ledger d1 = Some (file_of (ls @ [line]))" "dk_private d1" "dk_headErr d1 = None"
proof -
  have "dk_headErr d = None" using sealedD(11,12) [OF assms(1)]
    by (cases "ls = []") (auto simp: checkpoint_at_def readEvidenceCheckpoint_def split: option.split_asm)
  moreover have "dk_ledger d = (if ls = [] then None else Some (file_of ls))" "ls \<noteq> [] \<longrightarrow> dk_private d" using sealedD(9,10,12) [OF assms(1)] by auto
  ultimately show thesis using assms(2) that by (cases "ls = []") (auto simp: write_line_def Let_def)
qed

lemma append_sealed:
  assumes ok: "codec_ok c" and s: "sealed c ls rs l d" and io: "io_ok c io" and tx: "text_ok record" and mx: "in_int64 (effectiveMaxBytesLocked l)"
    and call: "Append c io record (l, d) = (res, l', d')"
  shows "(\<exists>e. res = Inl e \<and> sealed c ls rs l' d') \<or> (\<exists>r line. res = Inr r \<and> sealed c (ls @ [line]) (rs @ [r]) l' d')"
    "effectiveMaxBytesLocked l' = effectiveMaxBytesLocked l"
proof -
  have "((\<exists>e. res = Inl e \<and> sealed c ls rs l' d') \<or> (\<exists>r line. res = Inr r \<and> sealed c (ls @ [line]) (rs @ [r]) l' d'))
    \<and> effectiveMaxBytesLocked l' = effectiveMaxBytesLocked l"
  proof (cases rule: append_cases [OF sealedD(1) [OF s] sealed_unchanged [OF s] call, case_names refused full written])
    case (refused e)
    then show ?thesis using s by simp
  next
    case full
    then show ?thesis using s by (simp add: sealed_budget_flag effectiveMaxBytesLocked_def)
  next
    case (written canonical plain line)
    let ?r = "signed c canonical (prepared io record l)"
    have idt: "io_id io \<noteq> [] \<and> valid_utf8 (io_id io) \<and> length (io_id io) \<le> 1000 \<and> \<not> time_is_zero (io_now io)" using io by (simp add: io_ok_def)
    note w = written_line [OF ok s idt tx mx written(1-4)]
    have nw: "io_write io = None" using io by (simp add: io_ok_def)
    obtain d1 where wl: "write_line io (line @ [newline]) d = (None, d1)" and dl: "dk_ledger d1 = Some (file_of (ls @ [line]))" "dk_private d1" "dk_headErr d1 = None"
      by (rule sealed_write [OF s nw, of line])
    obtain e where e: "cd_encrypt c ''evidence-head'' (lr_Sequence ?r) (checkpoint_json \<lparr> cp_Version = evidenceRecordVersion, cp_Sequence = lr_Sequence ?r, cp_HeadHash = lr_Hash ?r \<rparr>) = Inr e"
      using io_encrypts [OF io] purpose_names by blast
    have "io_head io = None" using io by (simp add: io_ok_def)
    from checkpoint_written [OF ok _ this e dl(3)] hash_plain(1) obtain d2 where d2: "writeEvidenceCheckpoint c io (lr_Sequence ?r) (lr_Hash ?r) d1 = (None, d2)"
      "checkpoint_at c d2 (lr_Sequence ?r) (lr_Hash ?r)" "dk_ledger d2 = dk_ledger d1" "dk_private d2 = dk_private d1" by auto
    have res: "res = Inr ?r" "d' = d2" "l' = l\<lparr> el_budgetExhausted := False, el_sequence := lr_Sequence ?r, el_headHash := lr_Hash ?r,
        el_expectedSize := el_expectedSize l + int (length line + 1), el_recent := last_n evidenceRecentLimit (el_recent l @ [?r]) \<rparr>"
      using written(5,6) wl d2(1) by (auto simp: commit_line_def Let_def)
    have "chained c 1 [] (ls @ [line]) (rs @ [?r])"
      using chained_snoc [OF sealedD(3) [OF s], of line ?r] w(2) sealedD(4,5) [OF s] by simp
    moreover have "lr_Sequence ?r = length (rs @ [?r])" using sealedD(4) [OF s] by (simp add: prepared_fields)
    moreover have mx': "effectiveMaxBytesLocked l' = effectiveMaxBytesLocked l" by (simp add: res(3) effectiveMaxBytesLocked_def)
    ultimately have "sealed c (ls @ [line]) (rs @ [?r]) l' d'"
      using w(1) sealedD(1,2,6) [OF s] d2(2-4) dl written(5) unfolding sealed_def mx' by (simp add: res chain_head_def del: signed_fields)
    with res(1) mx' show ?thesis by blast
  qed
  then show "(\<exists>e. res = Inl e \<and> sealed c ls rs l' d') \<or> (\<exists>r line. res = Inr r \<and> sealed c (ls @ [line]) (rs @ [r]) l' d')"
    "effectiveMaxBytesLocked l' = effectiveMaxBytesLocked l" by blast+
qed

text \<open>A record with valid text and a time that JSON can express is accepted while there is room for one line.\<close>

lemma append_accepted:
  assumes ok: "codec_ok c" and s: "sealed c ls rs l d" and io: "io_ok c io" and id: "length (er_ID record) \<le> 1000" and mx: "in_int64 (effectiveMaxBytesLocked l)"
    and v: "validateEvidenceText (prepared io record l) = None" and k: "evidenceCanonical c (prepared io record l) = Some canonical"
    and room: "el_expectedSize l + int scan_limit \<le> effectiveMaxBytesLocked l"
  shows "\<exists>l' d'. Append c io record (l, d) = (Inr (signed c canonical (prepared io record l)), l', d')"
proof -
  let ?r = "signed c canonical (prepared io record l)"
  obtain plain where p: "record_json c ?r = Some plain" using k by (auto simp: evidenceCanonical_def record_json_def)
  obtain line where e: "cd_encrypt c ''evidence-record'' (el_sequence l + 1) plain = Inr line" using io_encrypts [OF io] purpose_names by blast
  have id': "length (er_ID (prepared io record l)) \<le> 1000" using id io by (simp add: prepared_def io_ok_def)
  have "length line < scan_limit" using written_plain(1) [OF ok s id' mx v p e] by (simp add: line_ok_def)
  then have sz: "\<not> el_expectedSize l + int (length line + 1) > effectiveMaxBytesLocked l" using room by linarith
  have nw: "io_write io = None" "io_head io = None" using io by (simp_all add: io_ok_def)
  obtain d1 where wl: "write_line io (line @ [newline]) d = (None, d1)" by (rule sealed_write [OF s nw(1), of line])
  obtain x where "cd_encrypt c ''evidence-head'' (lr_Sequence ?r) (checkpoint_json \<lparr> cp_Version = evidenceRecordVersion, cp_Sequence = lr_Sequence ?r, cp_HeadHash = lr_Hash ?r \<rparr>) = Inr x"
    using io_encrypts [OF io] purpose_names by blast
  then obtain d2 where "writeEvidenceCheckpoint c io (lr_Sequence ?r) (lr_Hash ?r) d1 = (None, d2)" using nw(2) by (simp add: writeEvidenceCheckpoint_def write_sealed_def)
  then have "\<exists>l' d'. commit_line c io ?r line (l, d) = (Inr ?r, l', d')" using wl sz by (simp add: commit_line_def Let_def)
  then show ?thesis using sealedD(1) [OF s] sealed_unchanged [OF s] v k p e by (simp add: Append_def Let_def prepared_fields)
qed

lemma chained_sequence: "chained c seq prev ls rs \<Longrightarrow> map lr_Sequence rs = [seq..<seq + length rs]"
proof (induction c seq prev ls rs rule: chained.induct)
  case (2 c seq prev l ls r rs)
  then have "map lr_Sequence rs = [Suc seq..<Suc seq + length rs]" "lr_Sequence r = seq"
    using verified_record(2) [OF verify_line_record] by auto
  then show ?case by (simp add: upt_conv_Cons del: upt_Suc)
qed simp_all

text \<open>A run of appends; the records it accepted, in order.\<close>

fun append_all :: "evidence_codec \<Rightarrow> (evidence_io \<times> LedgerRecord) list \<Rightarrow> EvidenceLedger \<times> evidence_disk \<Rightarrow> LedgerRecord list \<times> EvidenceLedger \<times> evidence_disk" where
  "append_all c [] ld = ([], ld)"
| "append_all c ((io, record) # calls) ld =
     (case Append c io record ld of
        (Inl e, ld) \<Rightarrow> append_all c calls ld
      | (Inr r, ld) \<Rightarrow> (case append_all c calls ld of (rs, ld) \<Rightarrow> (r # rs, ld)))"

lemma append_all_sealed:
  assumes "codec_ok c" "sealed c ls rs l d" "\<forall>(io, record) \<in> set calls. io_ok c io \<and> text_ok record" "in_int64 (effectiveMaxBytesLocked l)"
    "append_all c calls (l, d) = (accepted, l', d')"
  shows "\<exists>ls'. sealed c ls' (rs @ accepted) l' d'"
  using assms
proof (induction calls arbitrary: ls rs l d accepted)
  case (Cons call calls)
  obtain io rd where call: "call = (io, rd)" by (rule prod.exhaust)
  obtain res l1 d1 where a: "Append c io rd (l, d) = (res, l1, d1)" by (metis prod_cases3)
  have io: "io_ok c io" "text_ok rd" using Cons.prems(3) call by auto
  note s = append_sealed [OF assms(1) Cons.prems(2) io Cons.prems(4) a]
  have mx: "in_int64 (effectiveMaxBytesLocked l1)" using s(2) Cons.prems(4) by simp
  have rest: "\<forall>(io, record) \<in> set calls. io_ok c io \<and> text_ok record" using Cons.prems(3) by simp
  show ?case
  proof (cases res)
    case (Inl e)
    then have "append_all c calls (l1, d1) = (accepted, l', d')" using Cons.prems(5) call a by simp
    from Cons.IH [OF assms(1) _ rest mx this] s(1) Inl show ?thesis by auto
  next
    case (Inr r)
    obtain acc l2 d2 where b: "append_all c calls (l1, d1) = (acc, l2, d2)" by (metis prod_cases3)
    then have acc: "accepted = r # acc" "l2 = l'" "d2 = d'" using Cons.prems(5) call a Inr by simp_all
    obtain line where "sealed c (ls @ [line]) (rs @ [r]) l1 d1" using s(1) Inr by auto
    from Cons.IH [OF assms(1) this rest mx b [unfolded acc]] show ?thesis using acc by simp
  qed
qed auto

definition empty_ledger :: "int \<Rightarrow> EvidenceLedger" where
  "empty_ledger m = \<lparr> el_sequence = 0, el_headHash = [], el_expectedSize = 0, el_maxBytes = m, el_policyMaxBytes = m, el_integrityErr = None,
     el_budgetExhausted = False, el_recent = [], el_verifyScope = ''empty'', el_fullVerifiedAt = None, el_incrementalChunk = evidenceIncrementalChunkRecords \<rparr>"

definition empty_disk :: evidence_disk where
  "empty_disk = \<lparr> dk_ledger = None, dk_private = True, dk_head = None, dk_mark = None, dk_headErr = None \<rparr>"

lemma empty_sealed: "0 \<le> m \<Longrightarrow> sealed c [] [] (empty_ledger m) empty_disk"
  by (simp add: sealed_def empty_ledger_def empty_disk_def effectiveMaxBytesLocked_def chain_head_def)

text \<open>
  C20: An honest ledger verifies. After any number of appends to a new ledger, some of them refused for their text or for the budget, the full
  verification from the first record finds no fault, the ledger counts exactly the accepted records, and its recent list and its head
  are theirs. The callers pass UTF-8 and the I/O works.
\<close>

theorem appended_ledger_verifies:
  assumes "codec_ok c" and "\<forall>(io, record) \<in> set calls. io_ok c io \<and> text_ok record" and "0 \<le> m" and "in_int64 m" and "io_ok c io"
    and "append_all c calls (empty_ledger m, empty_disk) = (accepted, l, d)"
  shows "fst (Verify c io (l, d)) = None \<and> el_sequence l = length accepted \<and> el_headHash l = chain_head [] accepted
    \<and> map lr_Sequence accepted = [1..<length accepted + 1]"
proof -
  have "in_int64 (effectiveMaxBytesLocked (empty_ledger m))" using assms(4) by (simp add: effectiveMaxBytesLocked_def empty_ledger_def)
  from append_all_sealed [OF assms(1) empty_sealed [OF assms(3)] assms(2) this assms(6)] obtain ls where s: "sealed c ls accepted l d" by auto
  from sealed_verify_ok [OF s assms(5)] chained_sequence [OF sealedD(3) [OF s]] show ?thesis using sealedD(4,5) [OF s] by simp
qed

section \<open>Tamper evidence\<close>

text \<open>The texts that the hashes of a file cover, line by line.\<close>

definition line_text :: "evidence_codec \<Rightarrow> nat \<Rightarrow> string \<Rightarrow> string option" where
  "line_text c seq line =
     (case Decrypt c ''evidence-record'' line (Some seq) of
        Inl _ \<Rightarrow> None
      | Inr (plain, _) \<Rightarrow> (case cd_decodeRecord c plain of Inl _ \<Rightarrow> None | Inr r \<Rightarrow> evidenceCanonical c r))"

definition ledger_texts :: "evidence_codec \<Rightarrow> evidence_disk \<Rightarrow> string option list" where
  "ledger_texts c d = (case dk_ledger d of None \<Rightarrow> [] | Some file \<Rightarrow> let ls = fst (scan_lines file) in map2 (line_text c) [1..<length ls + 1] ls)"

text \<open>SHA-256 tells these texts apart. No 32-byte hash does that for all texts, so the set is part of every statement.\<close>

definition no_collision :: "evidence_codec \<Rightarrow> string option set \<Rightarrow> bool" where
  "no_collision c K \<longleftrightarrow> inj_on (evidenceHash c) {k. Some k \<in> K}"

lemma no_collisionD: "no_collision c K \<Longrightarrow> Some k \<in> K \<Longrightarrow> Some k' \<in> K \<Longrightarrow> evidenceHash c k = evidenceHash c k' \<Longrightarrow> k = k'"
  by (auto simp: no_collision_def inj_on_def)

lemma no_collision_subset: "no_collision c K \<Longrightarrow> L \<subseteq> K \<Longrightarrow> no_collision c L"
  by (auto simp: no_collision_def inj_on_def)

lemma chained_texts: "chained c seq prev ls rs \<Longrightarrow> map2 (line_text c) [seq..<seq + length ls] ls = map (evidenceCanonical c) rs"
proof (induction c seq prev ls rs rule: chained.induct)
  case (2 c seq prev l ls r rs)
  have "line_text c seq l = evidenceCanonical c r"
    using 2(2) by (auto simp: line_text_def verify_line_def split: sum.split_asm option.split_asm prod.split_asm)
  moreover have "map2 (line_text c) [Suc seq..<Suc seq + length ls] ls = map (evidenceCanonical c) rs" using 2 by simp
  ultimately show ?case by (simp add: upt_conv_Cons del: upt_Suc)
qed simp_all

lemma hex_decode_plain: "hex_decode s = Some x \<Longrightarrow> ch \<in> set s \<Longrightarrow> json_plain ch"
proof (induction s arbitrary: x rule: hex_decode.induct)
  case (3 a b cs)
  have v: "hex_value e = Some v \<Longrightarrow> json_plain e" for e v
    by (auto simp: hex_value_def json_plain_def json_escape_def byte_of_def Let_def split: if_split_asm)
  from 3 show ?case by (auto split: option.split_asm dest: v)
qed simp_all

lemma canonical_prev:
  assumes "evidenceCanonical c r = Some k" "evidenceCanonical c r' = Some k" "length (lr_PrevHash r) = length (lr_PrevHash r')"
    "\<forall>ch \<in> set (lr_PrevHash r). json_plain ch" "\<forall>ch \<in> set (lr_PrevHash r'). json_plain ch"
  shows "lr_PrevHash r = lr_PrevHash r'"
proof -
  have tail: "\<exists>a. k = a @ lr_PrevHash q @ [CHR 0x22, CHR ''}'']" if k: "evidenceCanonical c q = Some k" and p: "\<forall>ch \<in> set (lr_PrevHash q). json_plain ch" for q
  proof -
    obtain t where t: "k = payload_json t q @ ''}''" using k by (auto simp: evidenceCanonical_def)
    have f: "json_field ''prev_hash'' (lr_PrevHash q) = (CHR '','' # json_string ''prev_hash'' @ [CHR '':'', CHR 0x22]) @ lr_PrevHash q @ [CHR 0x22]"
      using json_body_plain [OF p] by (simp add: json_field_def json_string_def)
    have "k = (payload_front t q @ (CHR '','' # json_string ''prev_hash'' @ [CHR '':'', CHR 0x22])) @ lr_PrevHash q @ [CHR 0x22, CHR ''}'']"
      unfolding t payload_json_def f by simp
    then show ?thesis by blast
  qed
  from tail [OF assms(1,4)] tail [OF assms(2,5)] obtain a b where
    "k = a @ lr_PrevHash r @ [CHR 0x22, CHR ''}'']" "k = b @ lr_PrevHash r' @ [CHR 0x22, CHR ''}'']" by blast
  then have "a @ lr_PrevHash r = b @ lr_PrevHash r'" by simp
  then show ?thesis using assms(3) by simp
qed

lemma verified_hash_length: "verifyEvidenceRecord c r seq prev = None \<Longrightarrow> length (lr_Hash r) = 64"
  by (auto simp: verifyEvidenceRecord_def Let_def split: if_split_asm option.split_asm dest!: hex_decode_length)

lemma chain_head_shape:
  assumes "chained c 1 [] ls rs"
  shows "length (chain_head [] rs) = (if rs = [] then 0 else 64)" "\<forall>ch \<in> set (chain_head [] rs). json_plain ch"
proof -
  have "length (lr_Hash r) = 64 \<and> (\<forall>ch \<in> set (lr_Hash r). json_plain ch)" if r: "r \<in> set rs" for r
  proof -
    obtain n p where v: "verifyEvidenceRecord c r n p = None" using chained_records [OF assms r] by blast
    then show ?thesis using verified_hash_length [OF v] verified_record(7) [OF v] hex_decode_plain by blast
  qed
  from this [OF last_in_set] show "length (chain_head [] rs) = (if rs = [] then 0 else 64)" "\<forall>ch \<in> set (chain_head [] rs). json_plain ch"
    by (simp_all add: chain_head_def)
qed

lemma chained_butlast:
  assumes "chained c 1 [] ls (us @ [r])"
  obtains ms where "chained c 1 [] ms us" "verifyEvidenceRecord c r (length us + 1) (chain_head [] us) = None"
proof -
  have "ls \<noteq> []" using chained_length [OF assms] by auto
  then obtain ms l where ls: "ls = ms @ [l]" by (cases ls rule: rev_cases) auto
  have ch: "chained c 1 [] (ms @ [l]) (us @ [r])" using assms ls by simp
  from chained_append [OF ch] obtain vs ws where w: "us @ [r] = vs @ ws" "chained c 1 [] ms vs" "chained c (1 + length ms) (chain_head [] vs) [l] ws" by blast
  have "length ws = 1" using chained_length [OF w(3)] by simp
  then obtain r' where ws: "ws = [r']" by (cases ws) auto
  then have "us = vs" "r = r'" using w(1) by simp_all
  moreover have "verifyEvidenceRecord c r' (1 + length ms) (chain_head [] vs) = None" using w(3) ws by (auto dest: verify_line_record)
  ultimately show thesis using that w(2) chained_length [OF w(2)] by simp
qed

lemma chains_agree:
  assumes "no_collision c (evidenceCanonical c ` (set rs \<union> set rs'))" "chained c 1 [] ls rs" "chained c 1 [] ls' rs'" "length rs = length rs'" "chain_head [] rs = chain_head [] rs'"
  shows "map (evidenceCanonical c) rs = map (evidenceCanonical c) rs'"
  using assms
proof (induction rs arbitrary: ls rs' ls' rule: rev_induct)
  case (snoc r us)
  then obtain r' us' where rs': "rs' = us' @ [r']" by (cases rs' rule: rev_cases) auto
  obtain ms where m: "chained c 1 [] ms us" "verifyEvidenceRecord c r (length us + 1) (chain_head [] us) = None"
    by (rule chained_butlast [OF snoc.prems(2)])
  obtain ms' where m': "chained c 1 [] ms' us'" "verifyEvidenceRecord c r' (length us' + 1) (chain_head [] us') = None"
    by (rule chained_butlast [OF snoc.prems(3) [unfolded rs']])
  have h: "lr_Hash r = lr_Hash r'" using snoc.prems(5) rs' by (simp add: chain_head_def)
  from verified_record(7) [OF m(2)] obtain k where k1: "evidenceCanonical c r = Some k" "hex_decode (lr_Hash r) = Some (evidenceHash c k)" by blast
  from verified_record(7) [OF m'(2)] obtain k' where k2: "evidenceCanonical c r' = Some k'" "hex_decode (lr_Hash r') = Some (evidenceHash c k')" by blast
  have k: "evidenceCanonical c r = Some k" "evidenceCanonical c r' = Some k'" "evidenceHash c k = evidenceHash c k'"
    using k1 k2 by (simp_all add: h)
  have "k = k'" by (rule no_collisionD [OF snoc.prems(1) _ _ k(3)]) (use k rs' in \<open>auto intro: rev_image_eqI\<close>)
  have len: "length us = length us'" using snoc.prems(4) rs' by simp
  have p: "lr_PrevHash r = chain_head [] us" "lr_PrevHash r' = chain_head [] us'" using verified_record(3) [OF m(2)] verified_record(3) [OF m'(2)] by simp_all
  have e: "us = [] \<longleftrightarrow> us' = []" using len by (cases us; cases us') simp_all
  have "lr_PrevHash r = lr_PrevHash r'"
  proof (rule canonical_prev [OF k(1)])
    show "evidenceCanonical c r' = Some k" using k(2) \<open>k = k'\<close> by simp
    show "length (lr_PrevHash r) = length (lr_PrevHash r')" using chain_head_shape(1) [OF m(1)] chain_head_shape(1) [OF m'(1)] e by (simp add: p)
    show "\<forall>ch \<in> set (lr_PrevHash r). json_plain ch" "\<forall>ch \<in> set (lr_PrevHash r'). json_plain ch"
      using chain_head_shape(2) [OF m(1)] chain_head_shape(2) [OF m'(1)] by (simp_all only: p)
  qed
  then have "chain_head [] us = chain_head [] us'" by (simp add: p)
  moreover have "no_collision c (evidenceCanonical c ` (set us \<union> set us'))" by (rule no_collision_subset [OF snoc.prems(1)]) (auto simp: rs')
  ultimately have "map (evidenceCanonical c) us = map (evidenceCanonical c) us'" using snoc.IH m(1) m'(1) len by blast
  then show ?case using k \<open>k = k'\<close> rs' by simp
qed simp


lemma files_verified:
  assumes "verifyEvidenceFiles c d m = (Inr (h, n, recent), sz)" and "dk_ledger d = Some file"
  obtains ls rs where "scan_lines file = (ls, False)" "chained c 1 [] ls rs" "h = chain_head [] rs" "n = length rs"
proof -
  let ?w = "\<lparr> ws_sequence = 0, ws_previous = [], ws_lastVerified = [], ws_recent = [] \<rparr>"
  obtain ls tooLong where sc: "scan_lines file = (ls, tooLong)" by (rule prod.exhaust)
  have v: "fst (verifyEvidenceChain c d m whole) = Inr (h, n, recent)"
    using assms by (auto simp: verifyEvidenceFiles_def split: sum.split_asm prod.split_asm option.split_asm)
  then obtain w stopped where wk: "walk c whole ls ?w = Inr (w, stopped)" "\<not> (tooLong \<and> \<not> stopped)"
    "h = ws_lastVerified w" "n = ws_sequence w"
    using assms(2) by (auto simp: verifyEvidenceChain_def sc Let_def split: if_split_asm sum.split_asm)
  from walk_complete [OF wk(1)] obtain rs where rs: "\<not> stopped" "chained c 1 [] ls rs" by auto
  from walk_chained [of c ?w ls rs] rs(2) wk(1) have "ws_lastVerified w = chain_head [] rs" "ws_sequence w = length ls" by auto
  then show thesis using that sc rs wk chained_length [OF rs(2)] by simp
qed

text \<open>
  C19: The head of the ledger fixes its contents. Two ledger files that pass the full verification with the same head and the same number of records
  carry, record by record, the same hashed texts, whoever wrote them; the only way around is a collision of SHA-256 among these texts.
\<close>

theorem ledger_head_binds:
  assumes "verifyEvidenceFiles c d m = (Inr (h, n, recent), sz)" and "verifyEvidenceFiles c d' m' = (Inr (h, n, recent'), sz')"
    and "dk_ledger d \<noteq> None" and "dk_ledger d' \<noteq> None"
    and "no_collision c (set (ledger_texts c d) \<union> set (ledger_texts c d'))"
  shows "ledger_texts c d = ledger_texts c d' \<and> length (ledger_texts c d) = n \<and> None \<notin> set (ledger_texts c d)"
proof -
  obtain f f' where f: "dk_ledger d = Some f" "dk_ledger d' = Some f'" using assms(3,4) by blast
  obtain ls rs where a: "scan_lines f = (ls, False)" "chained c 1 [] ls rs" "h = chain_head [] rs" "n = length rs"
    by (rule files_verified [OF assms(1) f(1)])
  obtain ls' rs' where b: "scan_lines f' = (ls', False)" "chained c 1 [] ls' rs'" "h = chain_head [] rs'" "n = length rs'"
    by (rule files_verified [OF assms(2) f(2)])
  have t: "ledger_texts c d = map (evidenceCanonical c) rs" "ledger_texts c d' = map (evidenceCanonical c) rs'"
    using chained_texts [OF a(2)] chained_texts [OF b(2)] a(1) b(1) by (simp_all add: ledger_texts_def f Let_def del: upt_Suc)
  have "map (evidenceCanonical c) rs = map (evidenceCanonical c) rs'" by (rule chains_agree [OF _ a(2) b(2)]) (use a b assms(5) in \<open>simp_all add: t image_Un\<close>)
  then have "ledger_texts c d = ledger_texts c d'" by (simp add: t)
  moreover have "evidenceCanonical c r \<noteq> None" if r: "r \<in> set rs" for r using chained_records [OF a(2) r] verified_record(7) by fastforce
  then have "None \<notin> set (ledger_texts c d)" unfolding t(1) by force
  moreover have "length (ledger_texts c d) = n" using a(4) by (simp add: t(1))
  ultimately show ?thesis by blast
qed

section \<open>Text that is not UTF-8\<close>

lemma coerce_Nil: "coerce_utf8 s = [] \<longleftrightarrow> s = []"
proof (cases "s = []")
  case False
  then show ?thesis using rune_len_bounds [of s]
    by (cases "rune_len s") (auto simp: coerce_utf8.simps [of s] replacement_char_def)
qed (simp add: coerce_utf8.simps)

lemma json_string_coerced:
  assumes "json_string s @ x = json_string (coerce_utf8 s) @ y"
  shows "valid_utf8 s \<and> x = y"
proof (cases "valid_utf8 s")
  case True
  then show ?thesis using assms by (simp add: coerce_valid)
next
  case False
  then obtain p u v where "json_body s = p @ CHR 0x5C # u" "json_body (coerce_utf8 s) = p @ char_of (239 :: nat) # v" using json_body_coerced by blast
  moreover have "char_of (239 :: nat) \<noteq> CHR 0x5C" by (simp add: char_of_def bit_simps)
  ultimately show ?thesis using assms by (simp add: json_string_def)
qed

lemma json_field_coerced:
  assumes "json_field k s @ x = json_field k (coerce_utf8 s) @ y"
  shows "valid_utf8 s \<and> x = y"
  using assms by (intro json_string_coerced) (simp add: json_field_def)

lemma json_omitempty_coerced:
  assumes "json_omitempty k s @ x = json_omitempty k (coerce_utf8 s) @ y"
  shows "valid_utf8 s \<and> x = y"
proof (cases "s = []")
  case True
  then show ?thesis using assms by (simp add: json_omitempty_def coerce_Nil valid_utf8.simps)
next
  case False
  then show ?thesis using assms by (intro json_field_coerced [of k]) (simp add: json_omitempty_def coerce_Nil)
qed

text \<open>A record and its coerced form have the same text only when there was nothing to coerce.\<close>

lemma payload_coerced:
  assumes "payload_json t r @ x = payload_json t (coerced r) @ y"
  shows "text_ok (r\<lparr> er_ID := [] \<rparr>) \<and> valid_utf8 (er_ID r)"
proof -
  have "json_field ''id'' (er_ID r) @ (CHR '','' # json_string ''time'' @ CHR '':'' # t @ json_field ''severity'' (er_Severity r)
      @ json_field ''kind'' (er_Kind r) @ json_field ''source'' (er_Source r) @ json_field ''message'' (er_Message r)
      @ json_omitempty ''target'' (er_Target r) @ json_omitempty ''request_id'' (lr_RequestID r) @ json_field ''prev_hash'' (lr_PrevHash r) @ x)
    = json_field ''id'' (coerce_utf8 (er_ID r)) @ (CHR '','' # json_string ''time'' @ CHR '':'' # t @ json_field ''severity'' (coerce_utf8 (er_Severity r))
      @ json_field ''kind'' (coerce_utf8 (er_Kind r)) @ json_field ''source'' (coerce_utf8 (er_Source r)) @ json_field ''message'' (coerce_utf8 (er_Message r))
      @ json_omitempty ''target'' (coerce_utf8 (er_Target r)) @ json_omitempty ''request_id'' (coerce_utf8 (lr_RequestID r))
      @ json_field ''prev_hash'' (coerce_utf8 (lr_PrevHash r)) @ y)"
    using assms by (simp add: payload_json_def payload_front_def coerced_def)
  from json_field_coerced [OF this] have id: "valid_utf8 (er_ID r)"
    and "json_field ''severity'' (er_Severity r) @ (json_field ''kind'' (er_Kind r) @ json_field ''source'' (er_Source r) @ json_field ''message'' (er_Message r)
      @ json_omitempty ''target'' (er_Target r) @ json_omitempty ''request_id'' (lr_RequestID r) @ json_field ''prev_hash'' (lr_PrevHash r) @ x)
    = json_field ''severity'' (coerce_utf8 (er_Severity r)) @ (json_field ''kind'' (coerce_utf8 (er_Kind r)) @ json_field ''source'' (coerce_utf8 (er_Source r))
      @ json_field ''message'' (coerce_utf8 (er_Message r)) @ json_omitempty ''target'' (coerce_utf8 (er_Target r))
      @ json_omitempty ''request_id'' (coerce_utf8 (lr_RequestID r)) @ json_field ''prev_hash'' (coerce_utf8 (lr_PrevHash r)) @ y)" by simp_all
  note sv = json_field_coerced [OF this(2)]
  note kd = json_field_coerced [OF conjunct2 [OF sv]]
  note so = json_field_coerced [OF conjunct2 [OF kd]]
  note ms = json_field_coerced [OF conjunct2 [OF so]]
  note tg = json_omitempty_coerced [OF conjunct2 [OF ms]]
  note rq = json_omitempty_coerced [OF conjunct2 [OF tg]]
  show ?thesis using id sv kd so ms tg rq by (simp add: text_ok_def valid_utf8.simps [of "[]"])
qed

lemma walk_fails:
  assumes "chained c (Suc (ws_sequence w)) (ws_previous w) ls rs" "verify_line c (Suc (ws_sequence w + length ls)) (chain_head (ws_previous w) rs) line = Inl e"
  shows "walk c whole (ls @ line # ms) w = Inl e"
  using assms
proof (induction ls arbitrary: w rs)
  case Nil
  then show ?case by (cases rs) (simp_all add: chain_head_def)
next
  case (Cons l ls)
  then obtain r rs' where rs: "rs = r # rs'" "verify_line c (Suc (ws_sequence w)) (ws_previous w) l = Inr r" "chained c (Suc (Suc (ws_sequence w))) (lr_Hash r) ls rs'"
    by (cases rs) auto
  let ?w = "w\<lparr> ws_sequence := Suc (ws_sequence w), ws_previous := lr_Hash r, ws_lastVerified := lr_Hash r,
      ws_recent := last_n evidenceRecentLimit (ws_recent w @ [r]) \<rparr>"
  have "walk c whole (ls @ line # ms) ?w = Inl e" using Cons.IH [of ?w rs'] rs Cons.prems(2) by (simp add: chain_head_def split: if_split_asm)
  then show ?case using rs(2) by (simp add: Let_def)
qed

text \<open>The signed record does not verify once its text has been replaced.\<close>

lemma coerced_rejected:
  assumes "no_collision c {Some canonical, evidenceCanonical c (coerced r)}" "\<not> (text_ok (r\<lparr> er_ID := [] \<rparr>) \<and> valid_utf8 (er_ID r))" "evidenceCanonical c r = Some canonical"
  shows "verifyEvidenceRecord c (coerced (signed c canonical r)) n p \<noteq> None"
proof
  assume "verifyEvidenceRecord c (coerced (signed c canonical r)) n p = None"
  from verified_record(7) [OF this] obtain k where k: "evidenceCanonical c (coerced (signed c canonical r)) = Some k"
    "hex_decode (lr_Hash (coerced (signed c canonical r))) = Some (evidenceHash c k)" by (elim exE conjE)
  have "lr_Hash (coerced (signed c canonical r)) = hex_encode (evidenceHash c canonical)"
    using coerce_valid [OF hash_plain(1)] by (simp add: coerced_def)
  with k(2) have h: "evidenceHash c canonical = evidenceHash c k" by (simp only: hex_decode_encode option.inject)
  have same: "payload_json t (coerced (signed c canonical r)) = payload_json t (coerced r)" for t
    by (simp add: payload_json_def payload_front_def coerced_def)
  have tm: "er_Time (coerced (signed c canonical r)) = er_Time r" "er_Time (coerced r) = er_Time r" by (simp_all add: coerced_def)
  have "evidenceCanonical c (coerced r) = Some k" using k(1) unfolding evidenceCanonical_def same tm .
  then have eq: "canonical = k" by (intro no_collisionD [OF assms(1) _ _ h]) simp_all
  obtain t where t: "cd_time c (er_Time r) = Some t" "canonical = payload_json t r @ ''}''" using assms(3) by (auto simp: evidenceCanonical_def)
  have "k = payload_json t (coerced r) @ ''}''" using k(1) t(1) unfolding evidenceCanonical_def same tm by simp
  with eq t(2) have "payload_json t r @ ''}'' = payload_json t (coerced r) @ ''}''" by simp
  from payload_coerced [OF this] assms(2) show False by simp
qed


text \<open>
  C21: One record with text that is not UTF-8 destroys the ledger. Such a record is accepted, hashed and signed over the escaped
  text, but read back it carries replacement characters, which are hashed unescaped: the next full verification fails, the ledger is quarantined and
  refuses every further record.
\<close>

theorem invalid_text_poisons:
  assumes "codec_ok c" and "sealed c ls rs l d" and "in_int64 (effectiveMaxBytesLocked l)" and "io_ok c io"
    and "length (er_ID record) \<le> 1000" and "\<not> valid_utf8 (er_Target record)" and "Append c io record (l, d) = (Inr r, l1, d1)"
    and "no_collision c {evidenceCanonical c r, evidenceCanonical c (coerced r)}" and "Verify c io' (l1, d1) = (e, l2, d2)"
  shows "e \<noteq> None \<and> (\<forall>io'' record'. \<exists>e'. Append c io'' record' (l2, d2) = (Inl (Quarantined e'), l2, d2))"
proof -
  note s = sealedD [OF assms(2)]
  show ?thesis
  proof (cases rule: append_cases [OF s(1) sealed_unchanged [OF assms(2)] assms(7), case_names refused full written])
    case (written canonical plain line)
    let ?r = "prepared io record l"
    let ?s = "signed c canonical ?r"
    have nw: "io_write io = None" using assms(4) by (simp add: io_ok_def)
    obtain d0 where wl: "write_line io (line @ [newline]) d = (None, d0)" and dl: "dk_ledger d0 = Some (file_of (ls @ [line]))" "dk_private d0"
      by (rule sealed_write [OF assms(2) nw, of line])
    have cm: "r = ?s" "dk_ledger d1 = dk_ledger d0" "el_integrityErr l1 = None"
      using written(5,6) wl s(1) by (auto simp: commit_line_def Let_def writeEvidenceCheckpoint_def split: prod.split_asm option.split_asm sum.split_asm)
    have same: "evidenceCanonical c ?s = Some canonical" "evidenceCanonical c (coerced ?s) = evidenceCanonical c (coerced ?r)"
      using written(2) by (simp_all add: evidenceCanonical_def payload_json_def payload_front_def coerced_def)
    have id: "length (er_ID ?r) \<le> 1000" using assms(4,5) by (simp add: prepared_def io_ok_def)
    note w = written_plain [OF assms(1,2) id assms(3) written(1,3,4)]
    have "\<not> (text_ok (?r\<lparr> er_ID := [] \<rparr>) \<and> valid_utf8 (er_ID ?r))" using assms(6) by (simp add: text_ok_def prepared_fields)
    from coerced_rejected [OF _ this written(2)] obtain f where "verifyEvidenceRecord c (coerced ?s) (el_sequence l + 1) (el_headHash l) = Some f"
      using assms(8) same cm(1) by fastforce
    then have bad: "verify_line c (Suc (length ls)) (chain_head [] rs) line = Inl (AtLine (Suc (length ls)) f)" using w(2) s(4,5,8) by (simp add: Let_def)
    have "walk c whole (ls @ [line]) \<lparr> ws_sequence = 0, ws_previous = [], ws_lastVerified = [], ws_recent = [] \<rparr> = Inl (AtLine (Suc (length ls)) f)"
      by (rule walk_fails [of _ _ _ rs]) (use s(3) bad in simp_all)
    moreover have "scan_lines (file_of (ls @ [line])) = (ls @ [line], False)" by (rule scan_file) (use s(2) w(1) in simp)
    ultimately have "\<exists>x. fst (verifyEvidenceFiles c d1 m) = Inl x" for m
      by (auto simp: verifyEvidenceFiles_def verifyEvidenceChain_def cm(2) dl(1) Let_def split: prod.split sum.split)
    then obtain x sz where "verifyEvidenceFiles c d1 (effectiveMaxBytesLocked l1) = (Inl x, sz)" by (metis prod.collapse)
    then have "Verify c io' (l1, d1) = (Some x, l1\<lparr> el_integrityErr := Some x \<rparr>, d1)" using cm(3) by (simp add: Verify_def recordIntegrity_def)
    then show ?thesis using assms(9) by (auto simp: Append_def)
  qed simp_all
qed

end
