(* ===== verification/Evidence_Recovery.thy ===== *)
theory Evidence_Recovery
  imports Evidence_Chain
begin

text \<open>
  The bounded start of the evidence ledger: the ring buffer that reads the end of the file, the recovery of an append that was interrupted between the record and the checkpoint
  or within the record, and the states the start and the later verification do not handle.
\<close>

section \<open>The window of a bounded start\<close>

lemma ring_skip: "fold (ring_step seal limit) ls acc = fold (ring_step seal limit) (filter (\<lambda>l. \<not> blank l) ls) acc"
  by (induction ls arbitrary: acc) (auto simp: ring_step_def split: prod.split)

lemma mod_differ: "(i :: nat) < j \<Longrightarrow> j < i + n \<Longrightarrow> i mod n \<noteq> j mod n"
proof
  assume a: "i < j" "j < i + n" "i mod n = j mod n"
  then have "n dvd j - i" by (metis mod_eq_dvd_iff_nat less_imp_le)
  then show False using a by (auto dest: dvd_imp_le)
qed

lemma ring_holds:
  assumes "0 < limit" "\<forall>l \<in> set ls. \<not> blank l"
  shows "\<exists>ring. fold (ring_step seal limit) ls (0, replicate limit []) = (length ls, ring) \<and> length ring = limit
    \<and> (\<forall>i < min (length ls) seal. min (length ls) seal \<le> i + limit \<longrightarrow> ring ! (i mod limit) = ls ! i)"
  using assms(2)
proof (induction ls rule: rev_induct)
  case (snoc l ls)
  then obtain ring where r: "fold (ring_step seal limit) ls (0, replicate limit []) = (length ls, ring)" "length ring = limit"
    "\<forall>i < min (length ls) seal. min (length ls) seal \<le> i + limit \<longrightarrow> ring ! (i mod limit) = ls ! i" by auto
  have nb: "\<not> blank l" using snoc.prems by simp
  show ?case
  proof (cases "length ls < seal")
    case False
    then have "ring_step seal limit l (length ls, ring) = (Suc (length ls), ring)" using nb by (simp add: ring_step_def)
    then show ?thesis using r False by (intro exI [of _ ring]) (auto simp: nth_append)
  next
    case True
    have "ring[length ls mod limit := l] ! (i mod limit) = (ls @ [l]) ! i" if i: "i < Suc (length ls)" "Suc (length ls) \<le> i + limit" for i
    proof (cases "i = length ls")
      case True
      then show ?thesis using r(2) assms(1) by simp
    next
      case False
      then have "i < length ls" "length ls \<le> i + limit" using i by auto
      moreover have "i mod limit \<noteq> length ls mod limit" using mod_differ [of i "length ls" limit] False i by simp
      ultimately show ?thesis using r(3) True by (simp add: nth_append)
    qed
    moreover have "ring_step seal limit l (length ls, ring) = (Suc (length ls), ring[length ls mod limit := l])"
      using nb True assms(1) by (simp add: ring_step_def)
    ultimately show ?thesis using r True by (intro exI [of _ "ring[length ls mod limit := l]"]) auto
  qed
qed simp

lemma line_window:
  assumes "scan_lines file = (ls, False)" and "0 < limit"
  shows "evidenceLineWindow file n limit = (let records = filter (\<lambda>l. \<not> blank l) ls in Inr (length records, last_n limit (take n records)))"
proof -
  let ?rs = "filter (\<lambda>l. \<not> blank l) ls"
  obtain ring where r: "fold (ring_step n limit) ?rs (0, replicate limit []) = (length ?rs, ring)"
    "\<forall>i < min (length ?rs) n. min (length ?rs) n \<le> i + limit \<longrightarrow> ring ! (i mod limit) = ?rs ! i"
    using ring_holds [OF assms(2), of ?rs n] by auto
  let ?m = "min (length ?rs) n" let ?keep = "min ?m limit"
  have start: "(if length ?rs < n then length ?rs - ?keep else n - ?keep) = ?m - ?keep" by auto
  have m: "map (\<lambda>i. ring ! ((?m - ?keep + i) mod limit)) [0..<?keep] = last_n limit (take n ?rs)"
  proof (rule nth_equalityI)
    show "length (map (\<lambda>i. ring ! ((?m - ?keep + i) mod limit)) [0..<?keep]) = length (last_n limit (take n ?rs))" by (auto simp: last_n_def)
    fix i assume "i < length (map (\<lambda>i. ring ! ((?m - ?keep + i) mod limit)) [0..<?keep])"
    then have i: "i < ?keep" by simp
    have "ring ! ((?m - ?keep + i) mod limit) = ?rs ! (?m - ?keep + i)" using i by (intro r(2) [rule_format]) linarith+
    moreover have "last_n limit (take n ?rs) ! i = take n ?rs ! (?m - ?keep + i)"
    proof -
      have e: "length (take n ?rs) - limit = ?m - ?keep" by auto
      show ?thesis unfolding last_n_def e by (rule nth_drop) auto
    qed
    moreover have "take n ?rs ! (?m - ?keep + i) = ?rs ! (?m - ?keep + i)" using i by (intro nth_take) linarith
    ultimately show "map (\<lambda>i. ring ! ((?m - ?keep + i) mod limit)) [0..<?keep] ! i = last_n limit (take n ?rs) ! i"
      using i by simp
  qed
  have f: "fold (ring_step n limit) ls (0, replicate limit []) = (length ?rs, ring)" by (subst ring_skip) (rule r(1))
  have z: "(limit = 0) = False" using assms(2) by simp
  show ?thesis unfolding evidenceLineWindow_def assms(1) prod.case f Let_def start m z if_False by (rule refl)
qed


text \<open>
  The ring buffer of the bounded start reads what it should: for every file, every sealed count and every positive limit it returns the number of records and exactly
  the last \<open>limit\<close> of the sealed ones, in order.
\<close>

theorem line_window_exact:
  assumes "scan_lines file = (ls, False)" and "0 < limit"
  shows "evidenceLineWindow file n limit = (let records = filter (\<lambda>l. \<not> blank l) ls in Inr (length records, last_n limit (take n records)))"
  by (rule line_window [OF assms])

section \<open>A bounded start\<close>

text \<open>The window of a chain verifies: its first record is anchored by its own word, the others by their predecessors.\<close>

lemma window_chained:
  "chained c seq p ls rs \<Longrightarrow> verify_window c seq (Some p) ls = Inr rs"
proof (induction c seq p ls rs rule: chained.induct)
  case (2 c seq prev l ls r rs)
  then show ?case by (auto simp: verify_line_def split: sum.split_asm option.split_asm prod.split_asm)
qed simp_all

lemma window_anchored:
  assumes "chained c seq p ls rs"
  shows "verify_window c seq None ls = Inr rs"
proof (cases ls)
  case Nil
  then show ?thesis using assms by (cases rs) auto
next
  case (Cons l ls')
  then obtain r rs' where rs: "rs = r # rs'" "verify_line c seq p l = Inr r" "chained c (seq + 1) (lr_Hash r) ls' rs'" using assms by (cases rs) auto
  have "lr_PrevHash r = p" using verified_record(3) [OF verify_line_record [OF rs(2)]] .
  then show ?thesis using rs window_chained [OF rs(3)] Cons
    by (auto simp: verify_line_def split: sum.split_asm option.split_asm prod.split_asm)
qed

lemma chained_drop:
  assumes "chained c 1 [] ls rs"
  shows "\<exists>p. chained c (1 + n) p (drop n ls) (drop n rs)"
proof (cases "n \<le> length ls")
  case True
  have "chained c 1 [] (take n ls @ drop n ls) rs" using assms by simp
  from chained_append [OF this] obtain us vs where u: "rs = us @ vs" "chained c 1 [] (take n ls) us" "chained c (1 + length (take n ls)) (chain_head [] us) (drop n ls) vs" by blast
  then have "vs = drop n rs" using chained_length [OF u(2)] True by simp
  with u(3) True show ?thesis by auto
next
  case False
  then show ?thesis using chained_length [OF assms] by simp
qed

lemma chain_head_drop: "rs \<noteq> [] \<Longrightarrow> n < length rs \<Longrightarrow> lr_Hash (last (drop n rs)) = chain_head [] rs"
  by (simp add: chain_head_def)

lemma no_blanks: "\<forall>l \<in> set ls. line_ok l \<Longrightarrow> filter (\<lambda>l. \<not> blank l) ls = ls"
  using blank_ok(1) by (simp add: filter_id_conv)

lemma line_count:
  assumes "scan_lines file = (ls, False)" "\<forall>l \<in> set ls. line_ok l"
  shows "\<exists>x. evidenceLineWindow file 0 0 = Inr (length ls, x)"
proof -
  have "fst (fold (ring_step 0 0) ls (k, x)) = k + length ls" for k and x :: "string list"
    using assms(2) blank_ok(1) by (induction ls arbitrary: k x) (auto simp: ring_step_def)
  from this [of 0 "replicate 0 []"] show ?thesis using assms(1) by (auto simp: evidenceLineWindow_def split: prod.split)
qed

text \<open>What the bounded verification returns on a sealed chain.\<close>

lemma bounded_window_chain:
  assumes "scan_lines file = (ls, False)" "\<forall>x \<in> set ls. line_ok x" "chained c 1 [] ls rs" "ls \<noteq> []" "0 < limit" "cp_Sequence p = length ls" "cp_HeadHash p = chain_head [] rs"
  shows "bounded_window c limit p file = Inr \<lparr> br_head = chain_head [] rs, br_sequence = length ls, br_recent = last_n limit rs,
    br_size = int (length file), br_scope = (if length ls \<le> limit then ''full'' else ''tail'') \<rparr>"
proof -
  note len = chained_length [OF assms(3)]
  note nb = no_blanks [OF assms(2)]
  have w: "evidenceLineWindow file (length ls) limit = Inr (length ls, last_n limit ls)"
    using line_window [OF assms(1,5), of "length ls"] nb by (simp add: Let_def)
  note n = line_count [OF assms(1,2)]
  let ?k = "length ls - limit"
  obtain q where q: "chained c (1 + ?k) q (drop ?k ls) (drop ?k rs)" using chained_drop [OF assms(3)] by blast
  have v: "verify_window c (length ls - length (last_n limit ls) + 1) None (last_n limit ls) = Inr (last_n limit rs)"
    using window_anchored [OF q] len by (simp add: last_n_def)
  have "rs \<noteq> []" using assms(4) len by auto
  then have "last_n limit rs \<noteq> []" "lr_Hash (last (last_n limit rs)) = chain_head [] rs" using assms(5)
    by (cases rs; simp add: last_n_def chain_head_def; linarith)+
  then show ?thesis using n w v assms(5,6,7) by (auto simp: bounded_window_def Let_def last_n_def)
qed

section \<open>A start after an interrupted append\<close>

lemma raw_lines_tail:
  assumes "\<forall>l \<in> set ls. newline \<notin> set l" "newline \<notin> set t" "t \<noteq> []"
  shows "raw_lines (file_of ls @ t) = ls @ [t]"
proof -
  have "raw_lines t = [t]" using assms(2,3)
  proof (induction t)
    case (Cons a t)
    then show ?case by (cases "t = []") auto
  qed simp
  then show ?thesis using assms(1) by (induction ls) (simp_all add: raw_lines_line)
qed

lemma scan_tail:
  assumes "\<forall>l \<in> set ls. line_ok l" "line_ok t"
  shows "scan_lines (file_of ls @ t) = (ls @ [t], False)"
proof -
  have r: "raw_lines (file_of ls @ t) = ls @ [t]" using assms by (intro raw_lines_tail) (auto simp: line_ok_def)
  have w: "takeWhile (\<lambda>l. length l < scan_limit) (ls @ [t]) = ls @ [t]" using assms by (simp add: takeWhile_eq_all_conv line_ok_def)
  have d: "map drop_cr (ls @ [t]) = ls @ [t]" using assms by (simp add: map_idI drop_cr_ok)
  show ?thesis unfolding scan_lines_def Let_def r w d by simp
qed

text \<open>The file holds one line more than the checkpoint seals, with or without its newline.\<close>

definition one_more :: "string list \<Rightarrow> string \<Rightarrow> string \<Rightarrow> bool" where
  "one_more ls t file \<longleftrightarrow> file = file_of ls @ t \<or> file = file_of (ls @ [t])"

lemma scan_one_more:
  assumes "\<forall>l \<in> set ls. line_ok l" "line_ok t" "one_more ls t file"
  shows "scan_lines file = (ls @ [t], False)"
  using assms scan_tail [OF assms(1,2)] scan_file [of "ls @ [t]"] by (auto simp: one_more_def)

lemma trailing_one_more:
  assumes "\<forall>l \<in> set ls. line_ok l" "line_ok t" "one_more ls t file"
  shows "readTrailingEvidenceLine file = Inr t"
  using scan_one_more [OF assms] no_blanks [of "ls @ [t]"] assms(1,2) by (simp add: readTrailingEvidenceLine_def)

text \<open>The tail is the next record: it is sealed. It is not: it is cut off.\<close>

lemma recover_adopts:
  assumes "\<forall>l \<in> set ls. line_ok l" "line_ok t" "one_more ls t file" "dk_ledger d = Some file" "verify_line c (cp_Sequence p + 1) (cp_HeadHash p) t = Inr r"
    "writeEvidenceCheckpoint c io (cp_Sequence p + 1) (lr_Hash r) d = (None, d')"
  shows "recoverUnsealedEvidenceTail c io p d = (None, d')"
  using trailing_one_more [OF assms(1-3)] assms(4-6) by (simp add: recoverUnsealedEvidenceTail_def)

lemma recover_drops:
  assumes "\<forall>l \<in> set ls. line_ok l" "line_ok t" "one_more ls t file" "dk_ledger d = Some file" "verify_line c (cp_Sequence p + 1) (cp_HeadHash p) t = Inl e"
    "io_truncate io = None" "cp_Sequence p = length ls"
  shows "recoverUnsealedEvidenceTail c io p d = (None, d\<lparr> dk_ledger := Some (file_of ls), dk_private := True \<rparr>)"
proof -
  have "filter (\<lambda>l. \<not> blank l) (ls @ [t]) = ls @ [t]" using no_blanks [of "ls @ [t]"] assms(1,2) by auto
  then show ?thesis using trailing_one_more [OF assms(1-3)] scan_one_more [OF assms(1-3)] assms(4-7)
    by (simp add: recoverUnsealedEvidenceTail_def truncateEvidenceTo_def Let_def file_of_def del: filter_append)
qed

lemma bounded_recovers:
  assumes "\<forall>l \<in> set ls. line_ok l" "line_ok t" "one_more ls t file" "cp_Sequence p = length ls"
    "recoverUnsealedEvidenceTail c io p d = (None, d')" "readEvidenceCheckpoint c d' = ReadOK p'" "dk_ledger d' = Some file'"
  shows "bounded_checkpoint c io limit p file d = (bounded_window c limit p' file', d')"
proof -
  obtain x where "evidenceLineWindow file 0 0 = Inr (Suc (length ls), x)" using line_count [OF scan_one_more [OF assms(1-3)]] assms(1,2) by auto
  then show ?thesis using assms(4-7) by (simp add: bounded_checkpoint_def)
qed

definition start_budget :: "int \<Rightarrow> int \<Rightarrow> int" where
  "start_budget requested fallback = max (if requested < 1048576 then 67108864 else requested) fallback"

lemma checkpoint_frame [simp]:
  "readEvidenceCheckpoint c (d\<lparr> dk_mark := x \<rparr>) = readEvidenceCheckpoint c d" "readEvidenceCheckpoint c (d\<lparr> dk_ledger := y \<rparr>) = readEvidenceCheckpoint c d"
  "readEvidenceCheckpoint c (d\<lparr> dk_private := b \<rparr>) = readEvidenceCheckpoint c d"
  by (cases "dk_headErr d"; simp add: readEvidenceCheckpoint_def)+

text \<open>A start whose bounded verification ends on a chain gives a sealed ledger.\<close>

lemma start_sealed:
  assumes "verifyEvidenceFilesBounded c io (start_budget requested fallback) evidenceRecentLimit d = (bounded_window c evidenceRecentLimit p (file_of ls), d1)"
    "\<forall>x \<in> set ls. line_ok x" "chained c 1 [] ls rs" "ls \<noteq> []" "checkpoint_at c d1 (length rs) (chain_head [] rs)"
    "readEvidenceCheckpoint c d1 = ReadOK p" "dk_ledger d1 = Some (file_of ls)" "dk_private d1" "int (length (file_of ls)) \<le> start_budget requested fallback"
    "NewEvidenceLedger c io requested fallback d = (l2, d2)"
  shows "sealed c ls rs l2 d2 \<and> effectiveMaxBytesLocked l2 = start_budget requested fallback"
proof -
  have p: "cp_Sequence p = length ls" "cp_HeadHash p = chain_head [] rs" using assms(5,6) chained_length [OF assms(3)] by (auto simp: checkpoint_at_def)
  have pos: "0 < start_budget requested fallback" by (auto simp: start_budget_def)
  have lim: "0 < evidenceRecentLimit" by (simp add: evidenceRecentLimit_def)
  note b = bounded_window_chain [OF scan_file [OF assms(2)] assms(2,3,4) lim p]
  have same: "checkpoint_at c (d1\<lparr> dk_mark := x \<rparr>) = checkpoint_at c d1" for x by (intro ext) (simp add: checkpoint_at_def)
  have lr: "length rs = length ls" by (rule chained_length [OF assms(3)])
  show ?thesis
  proof (cases "length ls \<le> evidenceRecentLimit")
    case True
    then show ?thesis using assms(1,2,3,4,5,7,8,9,10) pos lr unfolding NewEvidenceLedger_def b start_budget_def [symmetric] Let_def
      by (auto simp: sealed_def effectiveMaxBytesLocked_def writeWatermark_def same split: sum.split_asm prod.split_asm option.split_asm)
  next
    case False
    then show ?thesis using assms(1,2,3,4,5,7,8,9,10) pos lr unfolding NewEvidenceLedger_def b start_budget_def [symmetric] Let_def
      by (auto simp: sealed_def effectiveMaxBytesLocked_def)
  qed
qed

lemma bounded_start:
  assumes "dk_ledger d = Some file" "dk_private d" "int (length file) \<le> m" "checkpoint_at c d (Suc n) h"
  shows "verifyEvidenceFilesBounded c io m evidenceRecentLimit d =
    bounded_checkpoint c io evidenceRecentLimit \<lparr> cp_Version = evidenceRecordVersion, cp_Sequence = Suc n, cp_HeadHash = h \<rparr> file d"
  using assms by (simp add: verifyEvidenceFilesBounded_def checkpoint_at_def evidenceRecentLimit_def)

text \<open>A start on a chain whose checkpoint seals all of it, all but the last line, or all but a line that does not verify.\<close>

lemma start_whole:
  assumes "\<forall>x \<in> set ls. line_ok x" "chained c 1 [] ls rs" "ls \<noteq> []" "checkpoint_at c d (length rs) (chain_head [] rs)" "dk_ledger d = Some (file_of ls)" "dk_private d"
    "int (length (file_of ls)) \<le> start_budget requested fallback" "NewEvidenceLedger c io requested fallback d = (l2, d2)"
  shows "sealed c ls rs l2 d2 \<and> effectiveMaxBytesLocked l2 = start_budget requested fallback"
proof -
  let ?p = "\<lparr> cp_Version = evidenceRecordVersion, cp_Sequence = length rs, cp_HeadHash = chain_head [] rs \<rparr>"
  obtain n where n: "length rs = Suc n" using assms(3) chained_length [OF assms(2)] by (cases ls) auto
  obtain x where "evidenceLineWindow (file_of ls) 0 0 = Inr (length ls, x)" using line_count [OF scan_file [OF assms(1)] assms(1)] by blast
  then have "bounded_checkpoint c io evidenceRecentLimit ?p (file_of ls) d = (bounded_window c evidenceRecentLimit ?p (file_of ls), d)"
    using chained_length [OF assms(2)] by (simp add: bounded_checkpoint_def)
  moreover have "verifyEvidenceFilesBounded c io (start_budget requested fallback) evidenceRecentLimit d = bounded_checkpoint c io evidenceRecentLimit ?p (file_of ls) d"
    using bounded_start [OF assms(5,6,7)] assms(4) n by simp
  ultimately show ?thesis using start_sealed [OF _ assms(1,2,3,4) _ assms(5,6,7,8), of ?p] assms(4) by (simp add: checkpoint_at_def)
qed

lemma start_torn:
  assumes "\<forall>x \<in> set ls. line_ok x" "line_ok t" "one_more ls t file" "chained c 1 [] ls rs" "ls \<noteq> []" "checkpoint_at c d (length rs) (chain_head [] rs)" "dk_ledger d = Some file" "dk_private d"
    "int (length file) \<le> start_budget requested fallback" "io_truncate io = None" "verify_line c (Suc (length rs)) (chain_head [] rs) t = Inl e" "NewEvidenceLedger c io requested fallback d = (l2, d2)"
  shows "sealed c ls rs l2 d2 \<and> effectiveMaxBytesLocked l2 = start_budget requested fallback"
proof -
  let ?p = "\<lparr> cp_Version = evidenceRecordVersion, cp_Sequence = length rs, cp_HeadHash = chain_head [] rs \<rparr>"
  let ?d = "d\<lparr> dk_ledger := Some (file_of ls), dk_private := True \<rparr>"
  obtain n where n: "length rs = Suc n" using assms(5) chained_length [OF assms(4)] by (cases ls) auto
  have rd: "readEvidenceCheckpoint c ?d = ReadOK ?p" "readEvidenceCheckpoint c d = ReadOK ?p" using assms(6) by (simp_all add: checkpoint_at_def)
  have "recoverUnsealedEvidenceTail c io ?p d = (None, ?d)"
    by (rule recover_drops [OF assms(1-3,7) _ assms(10)]) (use assms(11) chained_length [OF assms(4)] in simp_all)
  from bounded_recovers [OF assms(1-3) _ this rd(1)] have "bounded_checkpoint c io evidenceRecentLimit ?p file d = (bounded_window c evidenceRecentLimit ?p (file_of ls), ?d)"
    using chained_length [OF assms(4)] by simp
  moreover have "verifyEvidenceFilesBounded c io (start_budget requested fallback) evidenceRecentLimit d = bounded_checkpoint c io evidenceRecentLimit ?p file d"
    using bounded_start [OF assms(7,8,9)] assms(6) n by simp
  moreover have "length (file_of ls) \<le> length file" using assms(3) by (auto simp: one_more_def)
  ultimately show ?thesis using start_sealed [OF _ assms(1,4,5) _ rd(1) _ _ _ assms(12)] assms(9) rd by (simp add: checkpoint_at_def)
qed

lemma start_adopts:
  assumes "codec_ok c" "io_ok c io" "\<forall>x \<in> set ls. line_ok x" "line_ok t" "chained c 1 [] ls rs" "ls \<noteq> []" "checkpoint_at c d (length rs) (chain_head [] rs)" "dk_ledger d = Some (file_of (ls @ [t]))" "dk_private d"
    "int (length (file_of (ls @ [t]))) \<le> start_budget requested fallback" "verify_line c (Suc (length rs)) (chain_head [] rs) t = Inr r" "NewEvidenceLedger c io requested fallback d = (l2, d2)"
  shows "sealed c (ls @ [t]) (rs @ [r]) l2 d2 \<and> effectiveMaxBytesLocked l2 = start_budget requested fallback"
proof -
  let ?p = "\<lparr> cp_Version = evidenceRecordVersion, cp_Sequence = length rs, cp_HeadHash = chain_head [] rs \<rparr>"
  let ?q = "\<lparr> cp_Version = evidenceRecordVersion, cp_Sequence = Suc (length rs), cp_HeadHash = lr_Hash r \<rparr>"
  obtain n where n: "length rs = Suc n" using assms(6) chained_length [OF assms(5)] by (cases ls) auto
  have ok: "\<forall>x \<in> set (ls @ [t]). line_ok x" using assms(3,4) by simp
  have ch: "chained c 1 [] (ls @ [t]) (rs @ [r])" by (rule chained_snoc [OF assms(5)]) (use assms(11) in simp)
  have rd: "readEvidenceCheckpoint c d = ReadOK ?p" and he: "dk_headErr d = None"
    using assms(7) by (auto simp: checkpoint_at_def readEvidenceCheckpoint_def split: option.split_asm)
  have hx: "valid_utf8 (lr_Hash r)"
    using verified_record(7) [OF verify_line_record [OF assms(11)]] hex_decode_ascii by (metis valid_plain)
  obtain e where e: "cd_encrypt c ''evidence-head'' (Suc (length rs)) (checkpoint_json ?q) = Inr e" using io_encrypts [OF assms(2)] purpose_names by blast
  have "io_head io = None" using assms(2) by (simp add: io_ok_def)
  from checkpoint_written [OF assms(1) hx this e he] obtain d' where d': "writeEvidenceCheckpoint c io (Suc (length rs)) (lr_Hash r) d = (None, d')"
    "checkpoint_at c d' (Suc (length rs)) (lr_Hash r)" "dk_ledger d' = dk_ledger d" "dk_private d' = dk_private d" by auto
  have om: "one_more ls t (file_of (ls @ [t]))" by (simp add: one_more_def)
  have "recoverUnsealedEvidenceTail c io ?p d = (None, d')"
    by (rule recover_adopts [OF assms(3,4) om assms(8)]) (use assms(11) d'(1) in simp_all)
  from bounded_recovers [OF assms(3,4) om _ this, of ?q] have "bounded_checkpoint c io evidenceRecentLimit ?p (file_of (ls @ [t])) d = (bounded_window c evidenceRecentLimit ?q (file_of (ls @ [t])), d')"
    using chained_length [OF assms(5)] d'(2,3) assms(8) by (simp add: checkpoint_at_def)
  moreover have "verifyEvidenceFilesBounded c io (start_budget requested fallback) evidenceRecentLimit d = bounded_checkpoint c io evidenceRecentLimit ?p (file_of (ls @ [t])) d"
    using bounded_start [OF assms(8,9,10)] assms(7) n by simp
  ultimately show ?thesis using start_sealed [OF _ ok ch _ _ _ _ _ assms(10,12), of ?q d'] d' assms(8,9) by (simp add: checkpoint_at_def chain_head_def)
qed

text \<open>An envelope is printable ASCII, and cut short it is neither an envelope nor a record.\<close>

definition torn_ok :: "evidence_codec \<Rightarrow> bool" where
  "torn_ok c \<longleftrightarrow> (\<forall>p \<in> evidence_purposes. \<forall>n x e. cd_encrypt c p n x = Inr e \<longrightarrow> (\<forall>ch \<in> set e. graphic ch)
     \<and> (\<forall>k < length e. \<not> cd_isEnvelope c (take k e) \<and> (\<exists>m. cd_decodeRecord c (take k e) = Inl m)))"

lemma torn_line:
  assumes "torn_ok c" "cd_encrypt c ''evidence-record'' n x = Inr e" "line_ok e" "0 < k" "k < length e"
  shows "line_ok (take k e)" "\<exists>m. verify_line c seq prev (take k e) = Inl m"
proof -
  have g: "\<forall>ch \<in> set e. graphic ch" and b: "\<not> cd_isEnvelope c (take k e)" "\<exists>m. cd_decodeRecord c (take k e) = Inl m"
    using assms(1,2,5) purpose_names(1) by (auto simp: torn_ok_def)
  have t: "take k e \<noteq> []" "set (take k e) \<subseteq> set e" using assms(4,5) by (cases e; auto dest: in_set_takeD)+
  then have h: "graphic (hd (take k e))" "graphic (last (take k e))" using g hd_in_set last_in_set by blast+
  then show "line_ok (take k e)" using assms(3) t by (auto simp: line_ok_def)
  have "Decrypt c ''evidence-record'' (take k e) (Some seq) = Inr (take k e, True)" using t(1) b(1) trim_space_graphic [OF t(1) h] by (simp add: Decrypt_def)
  then show "\<exists>m. verify_line c seq prev (take k e) = Inl m" using b(2) by (auto simp: verify_line_def)
qed

text \<open>Who calls the ledger and what time it is; nothing is said about the I/O.\<close>

definition caller_ok :: "evidence_io \<Rightarrow> bool" where
  "caller_ok io \<longleftrightarrow> io_id io \<noteq> [] \<and> valid_utf8 (io_id io) \<and> length (io_id io) \<le> 1000 \<and> \<not> time_is_zero (io_now io)"

text \<open>The disk after an append that went wrong at any point.\<close>

lemma crash_states:
  assumes ok: "codec_ok c" and s: "sealed c ls rs l d" and ne: "ls \<noteq> []" and io: "caller_ok io" and tx: "text_ok record" and mx: "in_int64 (effectiveMaxBytesLocked l)"
    and call: "Append c io record (l, d) = (res, l1, d1)"
  obtains (same) "d1 = d" | (whole) line r where "line_ok line" "verify_line c (Suc (length rs)) (chain_head [] rs) line = Inr r" "er_Message r = er_Message record"
      "dk_ledger d1 = Some (file_of (ls @ [line]))" "dk_private d1"
      "checkpoint_at c d1 (length rs) (chain_head [] rs) \<or> checkpoint_at c d1 (Suc (length rs)) (lr_Hash r)"
  | (torn) line n x k where "cd_encrypt c ''evidence-record'' n x = Inr line" "line_ok line" "dk_ledger d1 = Some (file_of ls @ take k line)" "k \<le> length line"
      "dk_private d1" "checkpoint_at c d1 (length rs) (chain_head [] rs)"
proof (cases rule: append_cases [OF sealedD(1) [OF s] sealed_unchanged [OF s] call, case_names refused full written])
  case (written canonical plain line)
  let ?r = "signed c canonical (prepared io record l)"
  note w = written_line [OF ok s io [unfolded caller_ok_def] tx mx written(1-4)]
  have v: "verify_line c (Suc (length rs)) (chain_head [] rs) line = Inr ?r" using w(2) sealedD(4,5) [OF s] by simp
  have m: "er_Message ?r = er_Message record" by (simp add: prepared_fields)
  have l: "dk_ledger d = Some (file_of ls)" "dk_private d" "checkpoint_at c d (length rs) (chain_head [] rs)" using sealedD(9-11) [OF s ne] .
  note cl = written(6) [unfolded commit_line_def prod.case Let_def]
  show thesis
  proof (cases "io_write io")
    case None
    let ?d = "d\<lparr> dk_ledger := Some (file_of (ls @ [line])) \<rparr>"
    have wl: "write_line io (line @ [newline]) d = (None, ?d)" using None l by (simp add: write_line_def)
    have hx: "valid_utf8 (lr_Hash ?r)" using hash_plain(1) by simp
    have he: "dk_headErr d = None" using l(3) by (auto simp: checkpoint_at_def readEvidenceCheckpoint_def split: option.split_asm)
    show thesis
    proof (cases "writeEvidenceCheckpoint c io (lr_Sequence ?r) (lr_Hash ?r) ?d")
      case (Pair e d2)
      have d1: "d1 = d2" using cl written(5) wl Pair by (auto split: option.split_asm)
      have sq: "lr_Sequence ?r = Suc (length rs)" using sealedD(4) [OF s] by (simp add: prepared_fields)
      show thesis
      proof (cases e)
        case None
        then obtain x where x: "cd_encrypt c ''evidence-head'' (Suc (length rs)) (checkpoint_json \<lparr> cp_Version = evidenceRecordVersion, cp_Sequence = Suc (length rs), cp_HeadHash = lr_Hash ?r \<rparr>) = Inr x" "io_head io = None"
          using Pair sq by (auto simp: writeEvidenceCheckpoint_def write_sealed_def split: sum.split_asm option.split_asm)
        from checkpoint_written [OF ok hx x(2,1), of ?d] he obtain d3 where "writeEvidenceCheckpoint c io (Suc (length rs)) (lr_Hash ?r) ?d = (None, d3)"
          "checkpoint_at c d3 (Suc (length rs)) (lr_Hash ?r)" "dk_ledger d3 = dk_ledger ?d" "dk_private d3 = dk_private ?d" by auto
        then show thesis using whole [OF w(1) v m] Pair sq d1 l by simp
      next
        case (Some m')
        then have "d2 = ?d" using Pair by (auto simp: writeEvidenceCheckpoint_def split: sum.split_asm)
        then show thesis using whole [OF w(1) v m] d1 l by (simp add: checkpoint_at_def)
      qed
    qed
  next
    case (Some ke)
    obtain k m' where ke: "ke = (k, m')" by (rule prod.exhaust)
    have wl: "write_line io (line @ [newline]) d = (Some m', d\<lparr> dk_ledger := Some (file_of ls @ take k (line @ [newline])) \<rparr>)" using Some ke l by (simp add: write_line_def)
    then have d1: "d1 = d\<lparr> dk_ledger := Some (file_of ls @ take k (line @ [newline])) \<rparr>" using cl written(5) by simp
    show thesis
    proof (cases "k \<le> length line")
      case True
      then show thesis using torn [OF written(4) w(1), of k] d1 l by (simp add: checkpoint_at_def)
    next
      case False
      then show thesis using whole [OF w(1) v m] d1 l by (simp add: checkpoint_at_def)
    qed
  qed
qed (use same in simp_all)

text \<open>
  C18: An interrupted append is recovered. Whatever happens to an append on a ledger that holds records (it is refused, the write is torn, the sync, the close or the
  checkpoint fails, or nothing fails), the next start finds a valid ledger again: the complete old chain, or the old chain with the new record at its end; the
  full verification then passes. Left out is a write that stops exactly before the newline. Assumed is that the new record is UTF-8 text with an identifier of at most 1000 bytes, that the next
  start can write, truncate and encrypt, that its budget covers the file, and that no proper prefix of an encrypted line reads as an envelope or a record.
\<close>

theorem interrupted_append_recovered:
  assumes "codec_ok c" and "torn_ok c" and "sealed c ls rs l d" and "ls \<noteq> []" and "caller_ok io" and "text_ok record" and "in_int64 (effectiveMaxBytesLocked l)"
    and "Append c io record (l, d) = (res, l1, d1)" and "dk_ledger d1 = Some file" and "last file = newline \<or> last file \<noteq> CHR ''}''"
    and "int (length file) \<le> start_budget requested fallback" and "io_ok c io'" and "io_truncate io' = None"
    and "NewEvidenceLedger c io' requested fallback d1 = (l2, d2)"
  shows "(\<exists>ls' rs'. sealed c ls' rs' l2 d2 \<and> (rs' = rs \<or> (\<exists>r. rs' = rs @ [r] \<and> er_Message r = er_Message record))) \<and> fst (Verify c io' (l2, d2)) = None"
proof -
  note s = sealedD [OF assms(3)]
  have "\<exists>ls' rs'. sealed c ls' rs' l2 d2 \<and> (rs' = rs \<or> (\<exists>r. rs' = rs @ [r] \<and> er_Message r = er_Message record))"
  proof (cases rule: crash_states [OF assms(1,3-8), case_names same whole torn])
    case same
    have "sealed c ls rs l2 d2 \<and> effectiveMaxBytesLocked l2 = start_budget requested fallback"
      by (rule start_whole [OF s(2,3) assms(4) _ _ _ _ assms(14)]) (use same s(9-11) assms(4,9,11) in simp_all)
    then show ?thesis by blast
  next
    case (whole line r)
    have f: "file = file_of (ls @ [line])" using whole(4) assms(9) by simp
    note sz = assms(11) [unfolded f]
    from whole(6) have "sealed c (ls @ [line]) (rs @ [r]) l2 d2"
    proof
      assume "checkpoint_at c d1 (length rs) (chain_head [] rs)"
      from start_adopts [OF assms(1,12) s(2) whole(1) s(3) assms(4) this whole(4,5) sz whole(2) assms(14)] show ?thesis by blast
    next
      assume cp: "checkpoint_at c d1 (Suc (length rs)) (lr_Hash r)"
      have "chained c 1 [] (ls @ [line]) (rs @ [r])" by (rule chained_snoc [OF s(3)]) (use whole(2) in simp)
      from start_whole [OF _ this _ _ whole(4,5) sz assms(14)] show ?thesis using cp s(2) whole(1) by (simp add: chain_head_def)
    qed
    then show ?thesis using whole(3) by blast
  next
    case (torn line n x k)
    have f: "file = file_of ls @ take k line" using torn(3) assms(9) by simp
    have "last line = CHR ''}''" using codec_okD(4) [OF assms(1) purpose_names(1) torn(1)] by (simp add: envelope_ok_def)
    then have "k \<noteq> length line" using assms(10) torn(2) f by (auto simp: line_ok_def)
    then have k: "k < length line" using torn(4) by simp
    show ?thesis
    proof (cases "k = 0")
      case True
      from start_whole [OF s(2,3) assms(4) torn(6) _ torn(5) _ assms(14)] show ?thesis using torn(3) f assms(11) True by auto
    next
      case False
      then obtain e where t: "line_ok (take k line)" "verify_line c (Suc (length rs)) (chain_head [] rs) (take k line) = Inl e" using torn_line [OF assms(2) torn(1,2) _ k] by blast
      have om: "one_more ls (take k line) file" by (simp add: one_more_def f)
      from start_torn [OF s(2) t(1) om s(3) assms(4) torn(6) assms(9) torn(5) assms(11,13) t(2) assms(14)] show ?thesis by blast
    qed
  qed
  moreover have "fst (Verify c io' (l2, d2)) = None" if "sealed c ls' rs' l2 d2" for ls' rs' by (rule sealed_verify_ok [OF that assms(12)])
  ultimately show ?thesis by blast
qed

section \<open>States that are not handled\<close>

text \<open>A start that the bounded verification refuses is a quarantine and leaves the disk as that left it.\<close>

lemma start_refused:
  assumes "verifyEvidenceFilesBounded c io (start_budget requested fallback) evidenceRecentLimit d = (Inl x, d1)" "NewEvidenceLedger c io requested fallback d = (l2, d2)"
  shows "el_integrityErr l2 = Some x \<and> el_sequence l2 = 0 \<and> d2 = d1"
  using assms by (auto simp: NewEvidenceLedger_def start_budget_def Let_def)

text \<open>
  An append that is interrupted before the very first checkpoint is not recovered. When the first record of a ledger, or a part of it, reached the file and the
  append failed, every later start is quarantined, and it leaves the disk as it is, so this does not change.
\<close>

theorem first_append_not_recovered:
  assumes "sealed c [] [] l d" and "Append c io record (l, d) = (Inl x, l1, d1)" and "dk_ledger d1 = Some file" and "file \<noteq> []"
    and "NewEvidenceLedger c io' requested fallback d1 = (l2, d2)"
  shows "el_integrityErr l2 \<noteq> None \<and> el_sequence l2 = 0 \<and> d2 = d1"
proof -
  note s = sealedD [OF assms(1)]
  have h: "dk_ledger d = None" "dk_head d = None" "dk_headErr d = None" using s(12) by simp_all
  have "readEvidenceCheckpoint c d1 = NotExist"
  proof (cases rule: append_cases [OF s(1) sealed_unchanged [OF assms(1)] assms(2), case_names refused full written])
    case (written canonical plain line)
    then have "d1 = d\<lparr> dk_private := True, dk_ledger := Some file \<rparr>" using h assms(3)
      by (auto simp: commit_line_def Let_def write_line_def writeEvidenceCheckpoint_def split: sum.split_asm option.split_asm)
    then have "readEvidenceCheckpoint c d1 = readEvidenceCheckpoint c d" by simp
    then show ?thesis using h(2,3) by (simp add: readEvidenceCheckpoint_def)
  qed (use h assms(3) in simp_all)
  then have "\<exists>y. verifyEvidenceFilesBounded c io' (start_budget requested fallback) evidenceRecentLimit d1 = (Inl y, d1)"
    using assms(3,4) by (simp add: verifyEvidenceFilesBounded_def)
  then show ?thesis using start_refused [OF _ assms(5)] by blast
qed

text \<open>
  C22: A lowered budget destroys the ledger. After the administrator sets the budget below the size of the file, the next full verification reports a damaged
  ledger; raising the budget again, to any value, does not help: every further record is refused.
\<close>

theorem budget_cut_quarantines:
  assumes "sealed c ls rs l d" and "0 < low" and "low < el_expectedSize l"
  shows "fst (Verify c io (ApplyPolicy low l, d)) = Some SizeBudgetExceeded
    \<and> (\<forall>l' d' high io' record. Verify c io (ApplyPolicy low l, d) = (Some SizeBudgetExceeded, l', d')
        \<longrightarrow> fst (Append c io' record (ApplyPolicy high l', d')) = Inl (Quarantined SizeBudgetExceeded))"
proof -
  note s = sealedD [OF assms(1)]
  have ne: "ls \<noteq> []" using s(6) assms(2,3) by auto
  have e: "effectiveMaxBytesLocked (ApplyPolicy low l) = low" "el_integrityErr (ApplyPolicy m k) = el_integrityErr k" for m k
    using assms(2) by (simp_all add: ApplyPolicy_def effectiveMaxBytesLocked_def Let_def)
  have "verifyEvidenceFiles c d low = (Inl SizeBudgetExceeded, el_expectedSize l)"
    using s(6) s(9,10) [OF ne] assms(3) by (simp add: verifyEvidenceFiles_def verifyEvidenceChain_def)
  then have "Verify c io (ApplyPolicy low l, d) = (Some SizeBudgetExceeded, (ApplyPolicy low l)\<lparr> el_integrityErr := Some SizeBudgetExceeded \<rparr>, d)"
    using s(1) by (simp add: Verify_def e recordIntegrity_def)
  then show ?thesis by (simp add: Append_def e)
qed

text \<open>
  C23: The start does not require an authenticated checkpoint. Whoever can write the two files, without any key, can cut the ledger back to any of its prefixes and
  put a checkpoint in plain JSON beside it: the start accepts it as sealed, and so does the full verification.
\<close>

theorem plain_checkpoint_accepted:
  assumes "codec_ok c" and "sealed c ls rs l d" and "0 < n" and "n \<le> length ls" and "io_ok c io"
    and "p = \<lparr> cp_Version = evidenceRecordVersion, cp_Sequence = n, cp_HeadHash = lr_Hash (rs ! (n - 1)) \<rparr>" and "\<not> cd_isEnvelope c (checkpoint_json p)"
    and "int (length (file_of ls)) \<le> start_budget requested fallback"
    and "NewEvidenceLedger c io requested fallback (d\<lparr> dk_ledger := Some (file_of (take n ls)), dk_head := Some (checkpoint_json p) \<rparr>) = (l2, d2)"
  shows "sealed c (take n ls) (take n rs) l2 d2 \<and> el_sequence l2 = n \<and> fst (Verify c io (l2, d2)) = None"
proof -
  note s = sealedD [OF assms(2)]
  let ?d = "d\<lparr> dk_ledger := Some (file_of (take n ls)), dk_head := Some (checkpoint_json p) \<rparr>"
  have ne: "ls \<noteq> []" "take n ls \<noteq> []" using assms(3,4) by auto
  have ch: "chained c 1 [] (take n ls) (take n rs)"
  proof -
    have "chained c 1 [] (take n ls @ drop n ls) rs" using s(3) by simp
    from chained_append [OF this] obtain us vs where u: "rs = us @ vs" "chained c 1 [] (take n ls) us" by blast
    moreover have "length us = n" using chained_length [OF u(2)] assms(4) by simp
    ultimately show ?thesis by auto
  qed
  have hd: "chain_head [] (take n rs) = lr_Hash (rs ! (n - 1))" using assms(3,4) s(8) by (auto simp: chain_head_def last_conv_nth min_absorb2)
  obtain k q where v: "verifyEvidenceRecord c (rs ! (n - 1)) k q = None" using chained_records [OF s(3), of "rs ! (n - 1)"] assms(3,4) s(8) by auto
  have u: "valid_utf8 (cp_HeadHash p)" using verified_record(7) [OF v] hex_decode_ascii assms(6) by (auto intro: valid_plain)
  have j: "checkpoint_json p \<noteq> []" "graphic (hd (checkpoint_json p))" "graphic (last (checkpoint_json p))" by (simp_all add: checkpoint_json_def brace_graphic)
  have "Decrypt c ''evidence-head'' (checkpoint_json p) None = Inr (checkpoint_json p, True)" using assms(7) j(1) trim_space_graphic [OF j] by (simp add: Decrypt_def)
  moreover have "dk_headErr d = None" using s(11) [OF ne(1)] by (auto simp: checkpoint_at_def readEvidenceCheckpoint_def split: option.split_asm)
  ultimately have "readEvidenceCheckpoint c ?d = ReadOK p" using codec_okD(6) [OF assms(1) u] by (simp add: readEvidenceCheckpoint_def)
  then have cp: "checkpoint_at c ?d (length (take n rs)) (chain_head [] (take n rs))" using assms(4,6) s(8) hd by (simp add: checkpoint_at_def min_absorb2)
  have "file_of ls = file_of (take n ls) @ file_of (drop n ls)" by (metis append_take_drop_id file_of_simps(3))
  then have "int (length (file_of (take n ls))) \<le> start_budget requested fallback" using assms(8) by simp
  from start_whole [OF _ ch ne(2) cp _ _ this assms(9)] have sl: "sealed c (take n ls) (take n rs) l2 d2" using s(2) s(10) [OF ne(1)] by (auto dest: in_set_takeD)
  moreover have "el_sequence l2 = n" using sealedD(4) [OF sl] assms(4) s(8) by simp
  moreover have "fst (Verify c io (l2, d2)) = None" by (rule sealed_verify_ok [OF sl assms(5)])
  ultimately show ?thesis by blast
qed

lemma start_accepted:
  assumes "verifyEvidenceFilesBounded c io (start_budget requested fallback) evidenceRecentLimit d = (Inr b, d1)" "NewEvidenceLedger c io requested fallback d = (l2, d2)"
  shows "el_integrityErr l2 = None" "el_sequence l2 = br_sequence b" "dk_ledger d2 = dk_ledger d1" "dk_private d2 = dk_private d1" "dk_headErr d2 = dk_headErr d1"
  using assms by (auto simp: NewEvidenceLedger_def start_budget_def Let_def writeWatermark_def split: if_split_asm sum.split_asm)

lemma append_success:
  assumes "Append c io record (l, d) = (Inr r, l', d')"
  obtains canonical n x line d1 where "cd_encrypt c ''evidence-record'' n x = Inr line" "lr_Hash r = hex_encode (evidenceHash c canonical)"
    "dk_ledger d1 = Some ((case dk_ledger d of None \<Rightarrow> [] | Some f \<Rightarrow> f) @ line @ [newline])" "dk_headErr d1 = dk_headErr d"
    "writeEvidenceCheckpoint c io (Suc (el_sequence l)) (lr_Hash r) d1 = (None, d')"
proof -
  from assms obtain canonical plain line where a: "cd_encrypt c ''evidence-record'' (Suc (el_sequence l)) plain = Inr line"
    "commit_line c io (signed c canonical (prepared io record l)) line (l, d) = (Inr r, l', d')"
    by (auto simp: Append_def Let_def prepared_fields split: option.split_asm sum.split_asm)
  from a(2) obtain d1 where d1: "write_line io (line @ [newline]) d = (None, d1)" "r = signed c canonical (prepared io record l)"
    "writeEvidenceCheckpoint c io (lr_Sequence r) (lr_Hash r) d1 = (None, d')"
    by (auto simp: commit_line_def Let_def split: if_split_asm option.split_asm prod.split_asm)
  have "dk_ledger d1 = Some ((case dk_ledger d of None \<Rightarrow> [] | Some f \<Rightarrow> f) @ line @ [newline])" "dk_headErr d1 = dk_headErr d"
    using d1(1) by (auto simp: write_line_def Let_def split: option.split_asm)
  with that [OF a(1)] d1(2,3) show thesis by (simp add: prepared_fields)
qed

text \<open>Two records on one line count as one, or as a line that is too long.\<close>

lemma glued_count:
  assumes "\<forall>x \<in> set ls. line_ok x" "line_ok a" "newline \<notin> set b" "b \<noteq> []" "last b = CHR ''}''"
  shows "evidenceLineWindow (file_of ls @ a @ b @ [newline]) 0 0 = Inl LineTooLong \<or> (\<exists>x. evidenceLineWindow (file_of ls @ a @ b @ [newline]) 0 0 = Inr (Suc (length ls), x))"
proof -
  have f: "file_of ls @ a @ b @ [newline] = file_of (ls @ [a @ b])" by simp
  have r: "raw_lines (file_of (ls @ [a @ b])) = ls @ [a @ b]" using assms(1-3) by (intro raw_lines_file) (auto simp: line_ok_def)
  show ?thesis
  proof (cases "length (a @ b) < scan_limit")
    case True
    have "line_ok (a @ b)" using True assms(2-5) brace_graphic(2) by (simp add: line_ok_def)
    then have ok: "\<forall>x \<in> set (ls @ [a @ b]). line_ok x" using assms(1) by simp
    show ?thesis unfolding f using line_count [OF scan_file [OF ok] ok] by simp
  next
    case False
    have "length (takeWhile (\<lambda>l. length l < scan_limit) (ls @ [a @ b])) < length (ls @ [a @ b])" using False assms(1) by (auto simp: takeWhile_append line_ok_def)
    then have "snd (scan_lines (file_of (ls @ [a @ b])))" by (simp only: scan_lines_def Let_def r snd_conv)
    then show ?thesis unfolding f by (auto simp: evidenceLineWindow_def split: prod.split)
  qed
qed

text \<open>
  A write that stops exactly before the newline loses the ledger. The start adopts the record, because a scanner does not need the last newline, but does not add
  the newline: the next append is accepted and puts its record on the same line, and from then on every start is quarantined.
\<close>

theorem missing_newline_quarantines:
  assumes "codec_ok c" and "sealed c ls rs l d" and "ls \<noteq> []" and "line_ok line" and "verify_line c (el_sequence l + 1) (el_headHash l) line = Inr r"
    and "int (length (file_of ls @ line)) \<le> start_budget requested fallback" and "io_ok c io"
    and "NewEvidenceLedger c io requested fallback (d\<lparr> dk_ledger := Some (file_of ls @ line) \<rparr>) = (l1, d1)"
    and "Append c io' record (l1, d1) = (Inr r', l2, d2)" and "NewEvidenceLedger c io'' requested' fallback' d2 = (l3, d3)"
  shows "el_integrityErr l1 = None \<and> el_sequence l1 = el_sequence l + 1 \<and> el_integrityErr l2 = None \<and> el_integrityErr l3 \<noteq> None"
proof -
  note s = sealedD [OF assms(2)]
  let ?d = "d\<lparr> dk_ledger := Some (file_of ls @ line) \<rparr>"
  let ?p = "\<lparr> cp_Version = evidenceRecordVersion, cp_Sequence = length rs, cp_HeadHash = chain_head [] rs \<rparr>"
  let ?q = "\<lparr> cp_Version = evidenceRecordVersion, cp_Sequence = Suc (length rs), cp_HeadHash = lr_Hash r \<rparr>"
  obtain n where n: "length rs = Suc n" using assms(3) s(8) by (cases ls) auto
  have ok: "\<forall>x \<in> set (ls @ [line]). line_ok x" using s(2) assms(4) by simp
  have v: "verify_line c (Suc (length rs)) (chain_head [] rs) line = Inr r" using assms(5) s(4,5) by simp
  have ch: "chained c 1 [] (ls @ [line]) (rs @ [r])" by (rule chained_snoc [OF s(3)]) (use v in simp)
  have rd: "readEvidenceCheckpoint c ?d = ReadOK ?p" and he: "dk_headErr d = None"
    using s(11) [OF assms(3)] by (auto simp: checkpoint_at_def) (auto simp: readEvidenceCheckpoint_def split: option.split_asm)
  have hx: "valid_utf8 (lr_Hash r)" using verified_record(7) [OF verify_line_record [OF v]] hex_decode_ascii by (metis valid_plain)
  obtain e where e: "cd_encrypt c ''evidence-head'' (Suc (length rs)) (checkpoint_json ?q) = Inr e" using io_encrypts [OF assms(7)] purpose_names by blast
  have "io_head io = None" using assms(7) by (simp add: io_ok_def)
  from checkpoint_written [OF assms(1) hx this e, of ?d] he obtain d' where d': "writeEvidenceCheckpoint c io (Suc (length rs)) (lr_Hash r) ?d = (None, d')"
    "checkpoint_at c d' (Suc (length rs)) (lr_Hash r)" "dk_ledger d' = dk_ledger ?d" "dk_headErr d' = None" by auto
  have om: "one_more ls line (file_of ls @ line)" by (simp add: one_more_def)
  have dl: "dk_ledger ?d = Some (file_of ls @ line)" by simp
  have "recoverUnsealedEvidenceTail c io ?p ?d = (None, d')" by (rule recover_adopts [OF s(2) assms(4) om dl]) (use v d'(1) in simp_all)
  from bounded_recovers [OF s(2) assms(4) om _ this, of ?q "file_of ls @ line" evidenceRecentLimit] d'(2,3) s(8)
  have "bounded_checkpoint c io evidenceRecentLimit ?p (file_of ls @ line) ?d = (bounded_window c evidenceRecentLimit ?q (file_of ls @ line), d')" by (simp add: checkpoint_at_def)
  moreover have "verifyEvidenceFilesBounded c io (start_budget requested fallback) evidenceRecentLimit ?d = bounded_checkpoint c io evidenceRecentLimit ?p (file_of ls @ line) ?d"
    using bounded_start [of ?d "file_of ls @ line" _ c n "chain_head [] rs"] s(10) [OF assms(3)] assms(6) rd n by (simp add: checkpoint_at_def)
  moreover have "0 < evidenceRecentLimit" by (simp add: evidenceRecentLimit_def)
  ultimately have st: "verifyEvidenceFilesBounded c io (start_budget requested fallback) evidenceRecentLimit ?d = (Inr \<lparr> br_head = lr_Hash r, br_sequence = Suc (length ls), br_recent = last_n evidenceRecentLimit (rs @ [r]),
      br_size = int (length (file_of ls @ line)), br_scope = (if length (ls @ [line]) \<le> evidenceRecentLimit then ''full'' else ''tail'') \<rparr>, d')"
    using bounded_window_chain [OF scan_one_more [OF s(2) assms(4) om] ok ch, of evidenceRecentLimit ?q] s(8) by (simp add: chain_head_def)
  note a = start_accepted [OF st assms(8)]
  obtain canonical k x line' d0 where b: "cd_encrypt c ''evidence-record'' k x = Inr line'" "lr_Hash r' = hex_encode (evidenceHash c canonical)"
    "dk_ledger d0 = Some (file_of ls @ line @ line' @ [newline])" "dk_headErr d0 = None" "writeEvidenceCheckpoint c io' (Suc (Suc (length rs))) (lr_Hash r') d0 = (None, d2)"
    by (rule append_success [OF assms(9)]) (use a d'(3,4) s(8) in simp)
  have env: "newline \<notin> set line'" "line' \<noteq> []" "last line' = CHR ''}''" using codec_okD(4) [OF assms(1) purpose_names(1) b(1)] by (simp_all add: envelope_ok_def)
  have hx': "valid_utf8 (lr_Hash r')" using b(2) hash_plain(1) by simp
  from b(5) obtain w where w: "cd_encrypt c ''evidence-head'' (Suc (Suc (length rs))) (checkpoint_json \<lparr> cp_Version = evidenceRecordVersion, cp_Sequence = Suc (Suc (length rs)), cp_HeadHash = lr_Hash r' \<rparr>) = Inr w" "io_head io' = None"
    by (auto simp: writeEvidenceCheckpoint_def write_sealed_def split: sum.split_asm option.split_asm)
  from checkpoint_written [OF assms(1) hx' w(2,1) b(4)] b(3,5) have c2: "checkpoint_at c d2 (Suc (Suc (length rs))) (lr_Hash r')" "dk_ledger d2 = Some (file_of ls @ line @ line' @ [newline])" by auto
  have "\<exists>y d4. verifyEvidenceFilesBounded c io'' m evidenceRecentLimit d2 = (Inl y, d4)" for m
    using glued_count [OF s(2) assms(4) env] c2 s(8) by (auto simp: verifyEvidenceFilesBounded_def checkpoint_at_def bounded_checkpoint_def bounded_window_def)
  then have "el_integrityErr l3 \<noteq> None" using start_refused [OF _ assms(10)] by blast
  moreover have "el_integrityErr l2 = None" using assms(9) a(1)
    by (auto simp: Append_def commit_line_def Let_def split: option.split_asm sum.split_asm if_split_asm prod.split_asm)
  ultimately show ?thesis using a(1,2) s(4,8) by simp
qed

end
