(* ===== verification/Evidence_Samples.thy ===== *)
theory Evidence_Samples
  imports Evidence_Recovery "HOL-Library.Monad_Syntax"
begin

text \<open>
  A concrete instance of the libraries the evidence ledger calls, for which the laws of \<open>codec_ok\<close> and \<open>torn_ok\<close> are proved, and applications of the theorems to it. The
  decoder is a parser for the JSON texts that the ledger writes; the envelope is the hexadecimal form in braces.
\<close>

section \<open>A decoder\<close>

definition lit :: "string \<Rightarrow> string \<Rightarrow> string option" where
  "lit p s = (if prefix p s then Some (drop (length p) s) else None)"

lemma lit_append [simp]: "lit p (p @ s) = Some s"
  by (simp add: lit_def)

definition p_nat :: "string \<Rightarrow> (nat \<times> string) option" where
  "p_nat s = (let ds = takeWhile (\<lambda>c. char_digit c \<noteq> None) s in map_option (\<lambda>n. (n, drop (length ds) s)) (dec_value 0 ds))"

definition p_int :: "string \<Rightarrow> (int \<times> string) option" where
  "p_int s = (case s of c # cs \<Rightarrow> if c = CHR ''-'' then map_option (\<lambda>(n, r). (- int n, r)) (p_nat cs) else map_option (\<lambda>(n, r). (int n, r)) (p_nat s) | [] \<Rightarrow> None)"

definition ends_number :: "string \<Rightarrow> bool" where
  "ends_number s \<longleftrightarrow> s = [] \<or> char_digit (hd s) = None"

lemma dec_nat_digit: "c \<in> set (dec_nat n) \<Longrightarrow> char_digit c \<noteq> None"
  using dec_digits_lt by (auto simp: dec_nat_def)

lemma p_nat_dec: "ends_number s \<Longrightarrow> p_nat (dec_nat n @ s) = Some (n, s)"
proof -
  assume "ends_number s"
  then have t: "takeWhile (\<lambda>c. char_digit c \<noteq> None) s = []" by (cases s) (auto simp: ends_number_def)
  have "takeWhile (\<lambda>c. char_digit c \<noteq> None) (dec_nat n @ s) = dec_nat n @ takeWhile (\<lambda>c. char_digit c \<noteq> None) s"
    by (rule takeWhile_append2) (rule dec_nat_digit)
  with t show ?thesis by (simp add: p_nat_def)
qed

lemma p_int_dec:
  assumes "ends_number s"
  shows "p_int (dec_int i @ s) = Some (i, s)"
proof (cases "i < 0")
  case True
  then show ?thesis using p_nat_dec [OF assms, of "nat (- i)"] by (simp add: p_int_def dec_int_def)
next
  case False
  obtain c cs where d: "dec_nat (nat i) = c # cs" by (cases "dec_nat (nat i)") simp_all
  then have "c \<noteq> CHR ''-''" using dec_nat_chars [of c "nat i"] by auto
  then show ?thesis using False p_nat_dec [OF assms, of "nat i"] d by (simp add: p_int_def dec_int_def)
qed

definition p_str :: "string \<Rightarrow> (string \<times> string) option" where
  "p_str s = Option.bind (lit [CHR 0x22] s) json_scan"

definition key_of :: "string \<Rightarrow> string" where
  "key_of k = CHR '','' # json_string k @ '':''"

definition p_field :: "string \<Rightarrow> string \<Rightarrow> (string \<times> string) option" where
  "p_field k s = Option.bind (lit (key_of k) s) p_str"

definition p_opt :: "string \<Rightarrow> string \<Rightarrow> (string \<times> string) option" where
  "p_opt k s = (if prefix (key_of k) s then p_field k s else Some ([], s))"

lemma p_str_json: "p_str (json_string s @ r) = Some (coerce_utf8 s, r)"
  using lit_append [of "[CHR 0x22]"] json_scan_body by (simp add: p_str_def json_string_def)

lemma p_field_json: "p_field k (json_field k v @ r) = Some (coerce_utf8 v, r)"
proof -
  have "json_field k v @ r = key_of k @ json_string v @ r" by (simp add: json_field_def key_of_def)
  then show ?thesis by (simp add: p_field_def p_str_json)
qed

lemma p_opt_json:
  assumes "\<not> prefix (key_of k) r"
  shows "p_opt k (json_omitempty k v @ r) = Some (coerce_utf8 v, r)"
proof (cases "v = []")
  case True
  then show ?thesis using assms by (simp add: p_opt_def json_omitempty_def coerce_utf8.simps)
next
  case False
  have "prefix (key_of k) (json_field k v @ r)" by (simp add: json_field_def key_of_def)
  then show ?thesis using False by (simp add: p_opt_def json_omitempty_def p_field_json)
qed

definition sample_time :: "gotime \<Rightarrow> string option" where
  "sample_time t = (if \<bar>t\<bar> < 10 ^ 19 then Some (CHR 0x22 # dec_int t @ [CHR 0x22]) else None)"

definition sample_decodeRecord :: "string \<Rightarrow> string + LedgerRecord" where
  "sample_decodeRecord s =
     (case do {
        s \<leftarrow> lit (CHR ''{'' # json_string ''version'' @ '':'') s;
        (version, s) \<leftarrow> p_int s;
        s \<leftarrow> lit (key_of ''sequence'') s;
        (sequence, s) \<leftarrow> p_nat s;
        (id, s) \<leftarrow> p_field ''id'' s;
        s \<leftarrow> lit (key_of ''time'' @ [CHR 0x22]) s;
        (t, s) \<leftarrow> p_int s;
        s \<leftarrow> lit [CHR 0x22] s;
        (severity, s) \<leftarrow> p_field ''severity'' s;
        (kind, s) \<leftarrow> p_field ''kind'' s;
        (source, s) \<leftarrow> p_field ''source'' s;
        (message, s) \<leftarrow> p_field ''message'' s;
        (target, s) \<leftarrow> p_opt ''target'' s;
        (request, s) \<leftarrow> p_opt ''request_id'' s;
        (prev, s) \<leftarrow> p_field ''prev_hash'' s;
        (hash, s) \<leftarrow> p_field ''hash'' s;
        (signature, s) \<leftarrow> p_field ''signature'' s;
        s \<leftarrow> lit ''}'' s;
        if s = [] then Some \<lparr> er_ID = id, er_Time = t, er_Severity = severity, er_Kind = kind, er_Source = source, er_Message = message, er_Target = target,
          lr_Version = version, lr_Sequence = sequence, lr_RequestID = request, lr_PrevHash = prev, lr_Hash = hash, lr_Signature = signature \<rparr> else None }
      of Some r \<Rightarrow> Inr r | None \<Rightarrow> Inl ''invalid record'')"

definition sample_decodeCheckpoint :: "string \<Rightarrow> string + evidenceCheckpoint" where
  "sample_decodeCheckpoint s =
     (case do {
        s \<leftarrow> lit (CHR ''{'' # json_string ''version'' @ '':'') s;
        (version, s) \<leftarrow> p_int s;
        s \<leftarrow> lit (key_of ''sequence'') s;
        (sequence, s) \<leftarrow> p_nat s;
        (head, s) \<leftarrow> p_field ''head_hash'' s;
        s \<leftarrow> lit ''}'' s;
        if s = [] then Some \<lparr> cp_Version = version, cp_Sequence = sequence, cp_HeadHash = head \<rparr> else None }
      of Some p \<Rightarrow> Inr p | None \<Rightarrow> Inl ''invalid checkpoint'')"

lemma key_ends: "ends_number (key_of k @ s)" "ends_number (CHR 0x22 # s)" "ends_number (json_field k v @ s)"
  by (simp_all add: ends_number_def key_of_def json_field_def char_digit_def)

lemma json_string_head: "json_string k = CHR 0x22 # json_body k @ [CHR 0x22]"
  by (simp add: json_string_def)

lemma json_body_word:
  "json_body ''target'' = ''target''" "json_body ''request_id'' = ''request_id''" "json_body ''prev_hash'' = ''prev_hash''"
  by (rule json_body_plain, simp add: json_plain_def json_escape_def byte_of_def)+

lemma key_mismatch:
  "\<not> prefix (key_of ''target'') (json_omitempty ''request_id'' v @ json_field ''prev_hash'' w @ s)" "\<not> prefix (key_of ''request_id'') (json_field ''prev_hash'' w @ s)"
  by (simp_all add: json_omitempty_def key_of_def json_field_def json_string_def json_body_word)

lemma sample_record:
  assumes "cd_time c = sample_time" "record_json c r = Some b"
  shows "sample_decodeRecord b = Inr (coerced r)"
proof -
  have t: "sample_time (er_Time r) = Some (CHR 0x22 # dec_int (er_Time r) @ [CHR 0x22])"
    and b: "b = payload_json (CHR 0x22 # dec_int (er_Time r) @ [CHR 0x22]) r @ json_field ''hash'' (lr_Hash r) @ json_field ''signature'' (lr_Signature r) @ ''}''"
    using assms by (auto simp: record_json_def sample_time_def split: if_split_asm)
  define r1 where "r1 = json_field ''prev_hash'' (lr_PrevHash r) @ json_field ''hash'' (lr_Hash r) @ json_field ''signature'' (lr_Signature r) @ ''}''"
  define r2 where "r2 = json_omitempty ''target'' (er_Target r) @ json_omitempty ''request_id'' (lr_RequestID r) @ r1"
  define r3 where "r3 = json_field ''severity'' (er_Severity r) @ json_field ''kind'' (er_Kind r) @ json_field ''source'' (er_Source r) @ json_field ''message'' (er_Message r) @ r2"
  define r4 where "r4 = json_field ''id'' (er_ID r) @ (key_of ''time'' @ [CHR 0x22]) @ dec_int (er_Time r) @ [CHR 0x22] @ r3"
  have b': "b = (CHR ''{'' # json_string ''version'' @ '':'') @ dec_int (lr_Version r) @ key_of ''sequence'' @ dec_nat (lr_Sequence r) @ r4"
    by (simp add: b r1_def r2_def r3_def r4_def payload_json_def payload_front_def key_of_def)
  have e4: "ends_number r4" by (simp add: r4_def key_ends)
  have mm: "\<not> prefix (key_of ''target'') (json_omitempty ''request_id'' (lr_RequestID r) @ r1)" "\<not> prefix (key_of ''request_id'') r1"
    unfolding r1_def by (rule key_mismatch)+
  have p2: "p_opt ''target'' r2 = Some (coerce_utf8 (er_Target r), json_omitempty ''request_id'' (lr_RequestID r) @ r1)"
    "p_opt ''request_id'' (json_omitempty ''request_id'' (lr_RequestID r) @ r1) = Some (coerce_utf8 (lr_RequestID r), r1)"
    unfolding r2_def by (rule p_opt_json, rule mm)+
  have p4: "p_field ''id'' r4 = Some (coerce_utf8 (er_ID r), (key_of ''time'' @ [CHR 0x22]) @ dec_int (er_Time r) @ [CHR 0x22] @ r3)"
    unfolding r4_def by (rule p_field_json)
  have pt: "p_int (dec_int (er_Time r) @ [CHR 0x22] @ r3) = Some (er_Time r, [CHR 0x22] @ r3)" by (rule p_int_dec) (simp add: key_ends)
  have p1: "p_field ''prev_hash'' r1 = Some (coerce_utf8 (lr_PrevHash r), json_field ''hash'' (lr_Hash r) @ json_field ''signature'' (lr_Signature r) @ ''}'')"
    unfolding r1_def by (rule p_field_json)
  have stop: "lit ''}'' ''}'' = Some []" by (simp add: lit_def)
  note step = lit_append Option.bind.bind_lunit prod.case p_int_dec [OF key_ends(1)] p_nat_dec [OF e4] p4 pt p2
  show ?thesis unfolding sample_decodeRecord_def b' step
    by (simp add: r3_def p_field_json p1 p2 stop) (simp add: coerced_def)
qed

lemma sample_checkpoint:
  assumes "valid_utf8 (cp_HeadHash p)"
  shows "sample_decodeCheckpoint (checkpoint_json p) = Inr p"
proof -
  have b: "checkpoint_json p = (CHR ''{'' # json_string ''version'' @ '':'') @ dec_int (cp_Version p) @ key_of ''sequence'' @ dec_nat (cp_Sequence p) @ json_field ''head_hash'' (cp_HeadHash p) @ ''}''"
    by (simp add: checkpoint_json_def key_of_def)
  have stop: "lit ''}'' ''}'' = Some []" by (simp add: lit_def)
  show ?thesis unfolding sample_decodeCheckpoint_def b
    by (simp add: lit_append [of "CHR ''{'' # json_string ''version'' @ '':''", simplified] p_int_dec key_ends p_nat_dec p_field_json coerce_valid [OF assms] stop)
qed

section \<open>The instance\<close>

definition sample_sha :: "string \<Rightarrow> string" where
  "sample_sha x = replicate 31 (CHR ''.'') @ [char_of (length x mod 256)]"

definition sample_seal :: "string \<Rightarrow> string" where
  "sample_seal x = CHR ''{'' # hex_encode x @ ''}''"

definition sample_isEnvelope :: "string \<Rightarrow> bool" where
  "sample_isEnvelope e \<longleftrightarrow> e \<noteq> [] \<and> hd e = CHR ''{'' \<and> last e = CHR ''}'' \<and> hex_decode (butlast (tl e)) \<noteq> None"

definition sample_codec :: evidence_codec where
  "sample_codec = \<lparr> cd_sha256 = sample_sha, cd_sign = (\<lambda>_. replicate 64 (CHR ''s'')), cd_verify = (\<lambda>_ sg. sg = replicate 64 (CHR ''s'')),
     cd_encrypt = (\<lambda>_ _ x. Inr (sample_seal x)), cd_isEnvelope = sample_isEnvelope,
     cd_open = (\<lambda>_ _ e. case hex_decode (butlast (tl e)) of Some x \<Rightarrow> Inr x | None \<Rightarrow> Inl ''invalid envelope''),
     cd_time = sample_time, cd_decodeRecord = sample_decodeRecord, cd_decodeCheckpoint = sample_decodeCheckpoint \<rparr>"

lemma sample_codec_simps [simp]:
  "cd_time sample_codec = sample_time" "cd_encrypt sample_codec p n x = Inr (sample_seal x)" "cd_isEnvelope sample_codec = sample_isEnvelope"
  "cd_decodeRecord sample_codec = sample_decodeRecord"
  by (simp_all add: sample_codec_def)

lemma hex_encode_chars: "c \<in> set (hex_encode s) \<Longrightarrow> c \<in> set ''0123456789abcdef''"
proof (induction s)
  case (Cons a s)
  have h: "hex_char d \<in> set ''0123456789abcdef''" if "d < 16" for d unfolding hex_char_def using that by (intro nth_mem) simp
  have "byte_of a div 16 < 16" "byte_of a mod 16 < 16" by (simp_all add: less_mult_imp_div_less)
  from h [OF this(1)] h [OF this(2)] Cons show ?case unfolding hex_encode.simps by (metis set_ConsD)
qed simp

lemma hex_encode_graphic: "c \<in> set (hex_encode s) \<Longrightarrow> graphic c \<and> c \<noteq> newline \<and> c \<noteq> CHR ''}'' \<and> c \<noteq> CHR 0x22"
  using hex_encode_chars by (fastforce simp: graphic_def)

lemma sample_envelope: "envelope_ok sample_codec p n x (sample_seal x)"
  using hex_encode_graphic by (fastforce simp: envelope_ok_def sample_seal_def sample_codec_def sample_isEnvelope_def)

lemma sample_codec_ok: "codec_ok sample_codec"
proof -
  have "length s < 64" if "sample_time t = Some s" for t s
    using that dec_nat_length [of "nat t"] dec_nat_length [of "nat (- t)"] by (auto simp: sample_time_def dec_int_def nat_less_iff split: if_split_asm)
  moreover have "record_json sample_codec r = Some b \<Longrightarrow> sample_decodeRecord b = Inr (coerced r)" for r b by (rule sample_record) simp_all
  ultimately show ?thesis using sample_envelope sample_checkpoint
    unfolding codec_ok_def by (auto simp: sample_codec_def sample_sha_def)
qed

section \<open>A ledger\<close>

definition sample_io :: evidence_io where
  "sample_io = \<lparr> io_now = 1700000000000000000, io_id = ''evt-1'', io_write = None, io_head = None, io_truncate = None, io_mark = None \<rparr>"

definition sample_record :: "string \<Rightarrow> LedgerRecord" where
  "sample_record target = \<lparr> er_ID = [], er_Time = 0, er_Severity = ''high'', er_Kind = ''policy'', er_Source = ''xdr'', er_Message = ''blocked'', er_Target = target,
     lr_Version = 0, lr_Sequence = 0, lr_RequestID = [], lr_PrevHash = [], lr_Hash = [], lr_Signature = [] \<rparr>"

definition sample_start :: "EvidenceLedger \<times> evidence_disk" where
  "sample_start = (empty_ledger 67108864, empty_disk)"

definition sample_state :: "EvidenceLedger \<times> evidence_disk" where
  "sample_state = snd (Append sample_codec sample_io (sample_record ''host'') sample_start)"

lemma sample_io_ok: "io_ok sample_codec sample_io"
  by (simp add: io_ok_def sample_io_def time_is_zero_def valid_utf8.simps byte_of_def)

lemma sample_text_ok: "text_ok (sample_record ''host'')"
  by (simp add: text_ok_def sample_record_def valid_utf8.simps byte_of_def)

lemma sample_prepared:
  assumes "length target \<le> 1024" "CHR 0x00 \<notin> set target"
  shows "validateEvidenceText (prepared sample_io (sample_record target) l) = None" "\<exists>k. evidenceCanonical sample_codec (prepared sample_io (sample_record target) l) = Some k"
  using assms by (simp_all add: validateEvidenceText_def text_fields_def text_fault_def prepared_def sample_record_def sample_io_def evidenceCanonical_def sample_time_def time_is_zero_def)

lemma sample_first:
  obtains line r where "sealed sample_codec [line] [r] (fst sample_state) (snd sample_state)" "effectiveMaxBytesLocked (fst sample_state) = 67108864"
proof -
  let ?rec = "sample_record ''host''"
  have s: "sealed sample_codec [] [] (empty_ledger 67108864) empty_disk" by (rule empty_sealed) simp
  have mx: "effectiveMaxBytesLocked (empty_ledger 67108864) = 67108864" by (simp add: effectiveMaxBytesLocked_def empty_ledger_def)
  have i64: "in_int64 (effectiveMaxBytesLocked (empty_ledger 67108864))" by (simp add: mx in_int64_def)
  have v: "validateEvidenceText (prepared sample_io ?rec (empty_ledger 67108864)) = None" by (rule sample_prepared(1)) simp_all
  obtain k where k: "evidenceCanonical sample_codec (prepared sample_io ?rec (empty_ledger 67108864)) = Some k" using sample_prepared(2) [of "''host''"] by auto
  have room: "el_expectedSize (empty_ledger 67108864) + int scan_limit \<le> effectiveMaxBytesLocked (empty_ledger 67108864)" by (simp add: mx) (simp add: empty_ledger_def scan_limit_def)
  have id: "length (er_ID ?rec) \<le> 1000" by (simp add: sample_record_def)
  from append_accepted [OF sample_codec_ok s sample_io_ok id i64 v k room] obtain r l d where a: "Append sample_codec sample_io ?rec (empty_ledger 67108864, empty_disk) = (Inr r, l, d)" by blast
  then have st: "sample_state = (l, d)" by (simp add: sample_state_def sample_start_def)
  note p = append_sealed [OF sample_codec_ok s sample_io_ok sample_text_ok i64 a]
  from p(1) obtain line where sl: "sealed sample_codec [line] [r] l d" by auto
  show thesis by (rule that [of line r]) (use sl p(2) mx in \<open>simp_all add: st\<close>)
qed

theorem appended_ledger_verifies_witness:
  "fst (Verify sample_codec sample_io (snd (append_all sample_codec [(sample_io, sample_record ''host''), (sample_io, sample_record ''host'')] sample_start))) = None"
proof -
  obtain acc l d where r: "append_all sample_codec [(sample_io, sample_record ''host''), (sample_io, sample_record ''host'')] (empty_ledger 67108864, empty_disk) = (acc, l, d)"
    by (rule prod_cases3)
  have "fst (Verify sample_codec sample_io (l, d)) = None"
    using appended_ledger_verifies [OF sample_codec_ok _ _ _ sample_io_ok r] sample_io_ok sample_text_ok by (simp add: in_int64_def)
  then show ?thesis unfolding sample_start_def r by simp
qed

lemma chain_scanned:
  assumes "scan_lines file = (ls, False)" "chained c 1 [] ls rs" "int (length file) \<le> m" "dk_ledger d = Some file" "dk_private d" "checkpoint_at c d (length rs) (chain_head [] rs)"
  shows "verifyEvidenceFiles c d m = (Inr (chain_head [] rs, length rs, recent_of rs), int (length file))"
proof -
  let ?w = "\<lparr> ws_sequence = 0, ws_previous = [], ws_lastVerified = [], ws_recent = [] \<rparr>"
  have "walk c whole ls ?w = Inr (\<lparr> ws_sequence = length ls, ws_previous = chain_head [] rs, ws_lastVerified = chain_head [] rs, ws_recent = recent_of rs \<rparr>, False)"
    using walk_chained [of c ?w ls rs] assms(2) by (simp add: recent_of_def)
  then show ?thesis using assms checkpoint_verifies [OF assms(6)] chained_length [OF assms(2)] by (simp add: verifyEvidenceFiles_def verifyEvidenceChain_def)
qed

text \<open>The second file lacks the last newline.\<close>

theorem ledger_head_binds_witness:
  "let d = snd sample_state; d' = d\<lparr> dk_ledger := map_option butlast (dk_ledger d) \<rparr>
   in dk_ledger d \<noteq> dk_ledger d' \<and> ledger_texts sample_codec d = ledger_texts sample_codec d' \<and> length (ledger_texts sample_codec d) = 1"
proof -
  obtain line r where s: "sealed sample_codec [line] [r] (fst sample_state) (snd sample_state)" by (rule sample_first)
  note sd = sealedD [OF s]
  let ?d = "snd sample_state" let ?d' = "?d\<lparr> dk_ledger := Some line \<rparr>"
  have ok: "line_ok line" using sd(2) by simp
  have f: "dk_ledger ?d = Some (line @ [newline])" using sd(9) by simp
  have sc: "scan_lines (line @ [newline]) = ([line], False)" "scan_lines line = ([line], False)" using scan_file [of "[line]"] scan_tail [of "[]" line] ok by simp_all
  have cp: "checkpoint_at sample_codec ?d 1 (chain_head [] [r])" using sd(11) by simp
  have v: "verifyEvidenceFiles sample_codec ?d (int (length line) + 1) = (Inr (chain_head [] [r], Suc 0, recent_of [r]), int (length line) + 1)"
    using chain_scanned [OF sc(1), of sample_codec "[r]" "int (length line) + 1" ?d] sd(3,10) f cp by simp
  have v': "verifyEvidenceFiles sample_codec ?d' (int (length line)) = (Inr (chain_head [] [r], Suc 0, recent_of [r]), int (length line))"
    using chain_scanned [OF sc(2), of sample_codec "[r]" "int (length line)" ?d'] sd(3,10) cp by (simp add: checkpoint_at_def)
  have t: "ledger_texts sample_codec ?d = [line_text sample_codec 1 line]" "ledger_texts sample_codec ?d' = [line_text sample_codec 1 line]"
    by (simp_all add: ledger_texts_def f sc)
  have nc: "no_collision sample_codec (set (ledger_texts sample_codec ?d) \<union> set (ledger_texts sample_codec ?d'))" unfolding t by (auto simp: no_collision_def inj_on_def) (metis option.inject)
  from ledger_head_binds [OF v v' _ _ nc] show ?thesis using f by (auto simp: Let_def)
qed


text \<open>The target is one byte that is not UTF-8.\<close>

theorem invalid_text_poisons_witness:
  "fst (Verify sample_codec sample_io (snd (Append sample_codec sample_io (sample_record [CHR 0xFF]) sample_start))) \<noteq> None"
proof -
  let ?rec = "sample_record [CHR 0xFF]" let ?l = "empty_ledger 67108864" let ?r = "prepared sample_io ?rec ?l"
  have s: "sealed sample_codec [] [] ?l empty_disk" by (rule empty_sealed) simp
  have mx: "effectiveMaxBytesLocked ?l = 67108864" by (simp add: effectiveMaxBytesLocked_def empty_ledger_def)
  have i64: "in_int64 (effectiveMaxBytesLocked ?l)" by (simp add: mx in_int64_def)
  have v: "validateEvidenceText ?r = None" by (rule sample_prepared(1)) simp_all
  obtain k where k: "evidenceCanonical sample_codec ?r = Some k" using sample_prepared(2) [of "[CHR 0xFF]"] by auto
  have room: "el_expectedSize ?l + int scan_limit \<le> effectiveMaxBytesLocked ?l" by (simp add: mx) (simp add: empty_ledger_def scan_limit_def)
  have id: "length (er_ID ?rec) \<le> 1000" by (simp add: sample_record_def)
  from append_accepted [OF sample_codec_ok s sample_io_ok id i64 v k room] obtain l d where
    a: "Append sample_codec sample_io ?rec (?l, empty_disk) = (Inr (signed sample_codec k ?r), l, d)" by blast
  obtain e l2 d2 where vf: "Verify sample_codec sample_io (l, d) = (e, l2, d2)" by (rule prod_cases3)
  have bad: "\<not> valid_utf8 (er_Target ?rec)" by (simp add: sample_record_def valid_utf8.simps byte_of_def)
  have "coerced ?r = ?r\<lparr> er_Target := replacement_char \<rparr>"
    by (simp add: coerced_def prepared_def sample_record_def sample_io_def empty_ledger_def coerce_utf8.simps byte_of_def time_is_zero_def)
  then have "evidenceCanonical sample_codec (coerced ?r) = Some (payload_json t (?r\<lparr> er_Target := replacement_char \<rparr>) @ ''}'')" if "sample_time (er_Time ?r) = Some t" for t
    using that by (simp add: evidenceCanonical_def)
  moreover obtain t where t: "sample_time (er_Time ?r) = Some t" "k = payload_json t ?r @ ''}''" using k by (auto simp: evidenceCanonical_def)
  moreover have "er_Target ?r = [CHR 0xFF]" by (simp add: prepared_fields sample_record_def)
  moreover have "length (json_body [CHR 0xFF]) = 6" "length (json_body replacement_char) = 3" "replacement_char \<noteq> []"
    using json_body_replacement [of "[]"] by (simp_all add: json_body.simps [of "[CHR 0xFF]"] byte_of_def replacement_char_def)
  ultimately obtain k' where k': "evidenceCanonical sample_codec (coerced ?r) = Some k'" "length k = length k' + 3"
    by (simp add: payload_json_def payload_front_def json_omitempty_def json_field_def json_string_def)
  have same: "evidenceCanonical sample_codec (signed sample_codec k ?r) = Some k" "evidenceCanonical sample_codec (coerced (signed sample_codec k ?r)) = Some k'"
    using k k'(1) by (simp_all add: evidenceCanonical_def payload_json_def payload_front_def coerced_def)
  have "(n + 3) mod 256 \<noteq> n mod (256 :: nat)" for n using mod_differ [of n "n + 3" 256] by simp
  then have "length (evidenceDomain @ k) mod 256 \<noteq> length (evidenceDomain @ k') mod 256"
    unfolding length_append k'(2) add.assoc [symmetric] by simp
  then have "evidenceHash sample_codec k \<noteq> evidenceHash sample_codec k'"
    by (auto simp del: length_append simp: evidenceHash_def sample_codec_def sample_sha_def)
  then have nc: "no_collision sample_codec {evidenceCanonical sample_codec (signed sample_codec k ?r), evidenceCanonical sample_codec (coerced (signed sample_codec k ?r))}"
    unfolding same by (auto simp: no_collision_def inj_on_def)
  from invalid_text_poisons [OF sample_codec_ok s i64 sample_io_ok id bad a nc vf] have "e \<noteq> None" by blast
  then show ?thesis by (simp add: sample_start_def a vf)
qed

theorem line_window_exact_witness:
  "evidenceLineWindow (file_of [''{a}'', ''{b}'', ''{c}'']) 2 1 = Inr (3, [''{b}''])"
proof -
  have ok: "\<forall>l \<in> set [''{a}'', ''{b}'', ''{c}'']. line_ok l" by (simp add: line_ok_def scan_limit_def graphic_def)
  show ?thesis using line_window_exact [OF scan_file [OF ok], of 1 2] no_blanks [OF ok] by (simp add: last_n_def numeral_2_eq_2)
qed

theorem budget_cut_quarantines_witness:
  "fst (Verify sample_codec sample_io (ApplyPolicy 1 (fst sample_state), snd sample_state)) = Some SizeBudgetExceeded"
proof -
  obtain line r where s: "sealed sample_codec [line] [r] (fst sample_state) (snd sample_state)" by (rule sample_first)
  have "line \<noteq> []" using sealedD(2) [OF s] by (simp add: line_ok_def)
  then have "1 < el_expectedSize (fst sample_state)" using sealedD(6) [OF s] by (cases line) simp_all
  from budget_cut_quarantines [OF s _ this] show ?thesis by simp
qed

lemma sample_torn_ok: "torn_ok sample_codec"
proof -
  have "\<not> sample_isEnvelope (take k (sample_seal x)) \<and> (\<exists>m. sample_decodeRecord (take k (sample_seal x)) = Inl m)" if k: "k < length (sample_seal x)" for k x
  proof -
    define h where "h = take (k - 1) (hex_encode x)"
    have t: "take k (sample_seal x) = (if k = 0 then [] else CHR ''{'' # h)" using k by (cases k) (simp_all add: sample_seal_def h_def)
    have c: "ch \<in> set h \<Longrightarrow> ch \<noteq> CHR ''}'' \<and> ch \<noteq> CHR 0x22" for ch using hex_encode_graphic [of ch x] in_set_takeD [of ch] unfolding h_def by blast
    have "last (CHR ''{'' # h) \<noteq> CHR ''}''" using c last_in_set [of h] by auto
    moreover have "\<not> prefix (CHR ''{'' # CHR 0x22 # u) (CHR ''{'' # h)" for u using c [of "CHR 0x22"] by (auto simp: prefix_def)
    ultimately show ?thesis using t by (auto simp: sample_isEnvelope_def sample_decodeRecord_def lit_def json_string_def)
  qed
  moreover have "\<forall>ch \<in> set (sample_seal x). graphic ch" for x using hex_encode_graphic brace_graphic by (auto simp: sample_seal_def)
  ultimately show ?thesis by (simp add: torn_ok_def)
qed

text \<open>The checkpoint of the second record cannot be written.\<close>

theorem interrupted_append_recovered_witness:
  "case Append sample_codec (sample_io\<lparr> io_head := Some ''disk full'' \<rparr>) (sample_record ''host'') sample_state of
     (res, l1, d1) \<Rightarrow> fst (Verify sample_codec sample_io (NewEvidenceLedger sample_codec sample_io 0 0 d1)) = None"
proof -
  let ?io = "sample_io\<lparr> io_head := Some ''disk full'' \<rparr>" let ?rec = "sample_record ''host''"
  obtain l d where st: "sample_state = (l, d)" by (rule prod.exhaust)
  obtain line r where s: "sealed sample_codec [line] [r] l d" and mx: "effectiveMaxBytesLocked l = 67108864" using sample_first unfolding st by auto
  note sd = sealedD [OF s]
  have i64: "in_int64 (effectiveMaxBytesLocked l)" by (simp add: mx in_int64_def)
  have co: "caller_ok ?io" using sample_io_ok by (simp add: caller_ok_def io_ok_def)
  have b: "start_budget 0 0 = 67108864" by (simp add: start_budget_def)
  obtain res l1 d1 where a: "Append sample_codec ?io ?rec (l, d) = (res, l1, d1)" by (rule prod_cases3)
  obtain l2 d2 where n: "NewEvidenceLedger sample_codec sample_io 0 0 d1 = (l2, d2)" by (rule prod.exhaust)
  have "\<exists>f. dk_ledger d1 = Some f \<and> last f = newline \<and> int (length f) \<le> start_budget 0 0"
  proof (cases rule: append_cases [OF sd(1) sealed_unchanged [OF s] a, case_names refused full written])
    case (written canonical plain line')
    have w: "write_line ?io (line' @ [newline]) d = (None, d\<lparr> dk_ledger := Some (file_of [line] @ line' @ [newline]) \<rparr>)"
      using sd(9) by (simp add: write_line_def sample_io_def)
    have "dk_ledger d1 = Some (file_of [line] @ line' @ [newline])"
      using written(5,6) w by (auto simp: commit_line_def Let_def writeEvidenceCheckpoint_def split: option.split_asm sum.split_asm)
    then show ?thesis using written(5) sd(6) mx b by simp
  qed (use sd(6,7,9) mx b in simp_all)
  then obtain fl where f: "dk_ledger d1 = Some fl" "last fl = newline" "int (length fl) \<le> start_budget 0 0" by blast
  have "fst (Verify sample_codec sample_io (l2, d2)) = None"
    using interrupted_append_recovered [OF sample_codec_ok sample_torn_ok s _ co sample_text_ok i64 a f(1) _ f(3) sample_io_ok _ n] f(2) by (simp add: sample_io_def)
  then show ?thesis using a n st by simp
qed

theorem plain_checkpoint_accepted_witness:
  "\<exists>line r. sealed sample_codec [line] [r] (fst sample_state) (snd sample_state)
    \<and> el_sequence (fst (NewEvidenceLedger sample_codec sample_io 0 0
        ((snd sample_state)\<lparr> dk_ledger := Some (file_of [line]), dk_head := Some (checkpoint_json \<lparr> cp_Version = evidenceRecordVersion, cp_Sequence = 1, cp_HeadHash = lr_Hash r \<rparr>) \<rparr>))) = 1"
proof -
  obtain line r where s: "sealed sample_codec [line] [r] (fst sample_state) (snd sample_state)" and mx: "effectiveMaxBytesLocked (fst sample_state) = 67108864" by (rule sample_first)
  let ?p = "\<lparr> cp_Version = evidenceRecordVersion, cp_Sequence = 1, cp_HeadHash = lr_Hash r \<rparr>"
  let ?d = "(snd sample_state)\<lparr> dk_ledger := Some (file_of [line]), dk_head := Some (checkpoint_json ?p) \<rparr>"
  obtain l2 d2 where n: "NewEvidenceLedger sample_codec sample_io 0 0 ?d = (l2, d2)" by (rule prod.exhaust)
  have "hex_decode (butlast (CHR 0x22 # w)) = None" if "w \<noteq> []" for w
  proof -
    have "butlast (CHR 0x22 # w) = CHR 0x22 # butlast w" using that by simp
    then show ?thesis by (cases "butlast w") (simp_all add: hex_value_def)
  qed
  then have e: "\<not> cd_isEnvelope sample_codec (checkpoint_json ?p)"
    by (simp add: sample_isEnvelope_def checkpoint_json_def json_string_head del: hex_decode.simps butlast.simps)
  have b: "int (length (file_of [line])) \<le> start_budget 0 0" using sealedD(6,7) [OF s] mx by (simp add: start_budget_def)
  have "el_sequence l2 = 1"
    using plain_checkpoint_accepted [OF sample_codec_ok s, of 1 sample_io ?p 0 0 l2 d2] sample_io_ok e b n by simp
  then show ?thesis using s n by (intro exI [of _ line] exI [of _ r]) simp
qed

end
