(* ===== verification/Storage_Cipher.thy ===== *)
theory Storage_Cipher
  imports Evidence_Recovery
begin

text \<open>
  The storage cipher, \<open>control/storage_crypto.go\<close>: documents sealed with AES-256-GCM under a key derived per purpose, in a JSON envelope that is bound to node, purpose, path and
  sequence. HMAC, SHA-256, the AEAD, the random nonce, \<open>filepath.Clean\<close> and the JSON decoder are parameters (\<open>crypto_lib\<close>), the JSON text that is written is modelled. The receiver is
  not nil: the callers in the ledger check it. Sequence numbers are natural numbers, as in the ledger.

  The second part connects the cipher with the ledger: the envelope parameters of \<open>evidence_codec\<close>, filled in with this cipher, make the ledger's \<open>Decrypt\<close> the one of this theory and meet
  what \<open>codec_ok\<close> asks of an envelope.
\<close>

section \<open>Data\<close>

definition encryptedStorageSchema :: string where
  "encryptedStorageSchema = ''vgt-gedefense-aes256gcm-v1''"

record encryptedStorageEnvelope =
  ev_Schema :: string
  ev_Cipher :: string
  ev_Purpose :: string
  ev_Sequence :: nat
  ev_AADHash :: string
  ev_Nonce :: string
  ev_Ciphertext :: string

record StorageCipher =
  sc_rootKey :: string
  sc_nodeName :: string

text \<open>
  The libraries: HMAC-SHA-256 of key and message, SHA-256, seal and open of AES-GCM (key, nonce, text, additional data), \<open>filepath.Clean\<close>, the schema field of a JSON document if it is one, and the
  strict decoder: the first value of the input as an envelope, and what follows it.
\<close>

record crypto_lib =
  lb_hmac :: "string \<Rightarrow> string \<Rightarrow> string"
  lb_sha256 :: "string \<Rightarrow> string"
  lb_seal :: "string \<Rightarrow> string \<Rightarrow> string \<Rightarrow> string \<Rightarrow> string"
  lb_open :: "string \<Rightarrow> string \<Rightarrow> string \<Rightarrow> string \<Rightarrow> string option"
  lb_clean :: "string \<Rightarrow> string"
  lb_probe :: "string \<Rightarrow> string option"
  lb_decode :: "string \<Rightarrow> string + encryptedStorageEnvelope \<times> string"

section \<open>Operations\<close>

definition purposeKey :: "crypto_lib \<Rightarrow> StorageCipher \<Rightarrow> string \<Rightarrow> string + string" where
  "purposeKey lb c purpose =
     (if purpose = [] \<or> length purpose > 96 then Inl ''invalid encryption purpose''
      else Inr (lb_hmac lb (sc_rootKey c) (''VGT-GEDEFENSE-AES256GCM-KEY-V1'' @ [CHR 0x00] @ sc_nodeName c @ [CHR 0x00] @ purpose)))"

definition storageAAD :: "crypto_lib \<Rightarrow> string \<Rightarrow> string \<Rightarrow> string \<Rightarrow> nat \<Rightarrow> string" where
  "storageAAD lb nodeName purpose path sequence =
     encryptedStorageSchema @ [CHR 0x00] @ ''node='' @ nodeName @ [CHR 0x00] @ ''purpose='' @ purpose @ [CHR 0x00] @ ''path='' @ lb_clean lb path @ [CHR 0x00] @ ''sequence='' @ dec_nat sequence"

text \<open>\<open>aes.NewCipher\<close> accepts keys of three lengths.\<close>

definition aes_key_error :: "string \<Rightarrow> string option" where
  "aes_key_error key = (if length key = 16 \<or> length key = 24 \<or> length key = 32 then None else Some (''crypto/aes: invalid key size '' @ dec_nat (length key)))"

text \<open>\<open>json.Marshal\<close> of an envelope; a sequence of zero is omitted.\<close>

definition envelope_json :: "encryptedStorageEnvelope \<Rightarrow> string" where
  "envelope_json v = CHR ''{'' # json_string ''schema'' @ CHR '':'' # json_string (ev_Schema v) @ json_field ''cipher'' (ev_Cipher v) @ json_field ''purpose'' (ev_Purpose v)
     @ (if ev_Sequence v = 0 then [] else CHR '','' # json_string ''sequence'' @ CHR '':'' # dec_nat (ev_Sequence v))
     @ json_field ''aad_sha256'' (ev_AADHash v) @ json_field ''nonce'' (ev_Nonce v) @ json_field ''ciphertext'' (ev_Ciphertext v) @ ''}''"

text \<open>The nonce is what the random source delivers, or its error.\<close>

definition cipher_Encrypt :: "crypto_lib \<Rightarrow> StorageCipher \<Rightarrow> string \<Rightarrow> string \<Rightarrow> nat \<Rightarrow> string + string \<Rightarrow> string \<Rightarrow> string + string" where
  "cipher_Encrypt lb c path purpose sequence random plaintext =
     (case purposeKey lb c purpose of
        Inl e \<Rightarrow> Inl e
      | Inr key \<Rightarrow>
          case aes_key_error key of
            Some e \<Rightarrow> Inl e
          | None \<Rightarrow>
              case random of
                Inl e \<Rightarrow> Inl e
              | Inr nonce \<Rightarrow>
                  let aad = storageAAD lb (sc_nodeName c) purpose path sequence
                  in Inr (envelope_json \<lparr> ev_Schema = encryptedStorageSchema, ev_Cipher = ''AES-256-GCM'', ev_Purpose = purpose, ev_Sequence = sequence,
                       ev_AADHash = hex_encode (lb_sha256 lb aad), ev_Nonce = b64_encode nonce, ev_Ciphertext = b64_encode (lb_seal lb key nonce plaintext aad) \<rparr>))"

text \<open>After the first value only white space may follow.\<close>

definition decodeEncryptedStorageEnvelope :: "crypto_lib \<Rightarrow> string \<Rightarrow> string + encryptedStorageEnvelope" where
  "decodeEncryptedStorageEnvelope lb data =
     (case lb_decode lb data of
        Inl e \<Rightarrow> Inl (''encrypted envelope: '' @ e)
      | Inr (v, rest) \<Rightarrow> if list_all (\<lambda>ch. byte_of ch \<in> {9, 10, 13, 32}) rest then Inr v else Inl ''encrypted envelope contains trailing data'')"

text \<open>The part of \<open>Decrypt\<close> that opens a document with the schema of an envelope.\<close>

definition cipher_open :: "crypto_lib \<Rightarrow> StorageCipher \<Rightarrow> string \<Rightarrow> string \<Rightarrow> nat option \<Rightarrow> string \<Rightarrow> string + string" where
  "cipher_open lb c path purpose expectedSequence trimmed =
     (case decodeEncryptedStorageEnvelope lb trimmed of
        Inl e \<Rightarrow> Inl e
      | Inr v \<Rightarrow>
          if ev_Schema v \<noteq> encryptedStorageSchema \<or> ev_Cipher v \<noteq> ''AES-256-GCM'' \<or> ev_Purpose v \<noteq> purpose then Inl ''encrypted envelope binding mismatch''
          else if expectedSequence \<noteq> None \<and> expectedSequence \<noteq> Some (ev_Sequence v) then Inl ''encrypted record sequence mismatch''
          else case b64_decode (ev_Nonce v) of
            None \<Rightarrow> Inl ''encrypted envelope nonce is malformed''
          | Some nonce \<Rightarrow>
              case b64_decode (ev_Ciphertext v) of
                None \<Rightarrow> Inl ''encrypted envelope ciphertext is malformed''
              | Some ciphertext \<Rightarrow>
                  let aad = storageAAD lb (sc_nodeName c) purpose path (ev_Sequence v)
                  in if hex_decode (ev_AADHash v) \<noteq> Some (lb_sha256 lb aad) then Inl ''encrypted envelope AAD binding mismatch''
                     else case purposeKey lb c purpose of
                       Inl e \<Rightarrow> Inl e
                     | Inr key \<Rightarrow>
                         case aes_key_error key of
                           Some e \<Rightarrow> Inl e
                         | None \<Rightarrow>
                             if length nonce \<noteq> 12 \<or> length ciphertext < 16 then Inl ''encrypted envelope sizes are invalid''
                             else case lb_open lb key nonce ciphertext aad of
                               None \<Rightarrow> Inl ''encrypted storage authentication failed''
                             | Some plaintext \<Rightarrow> Inr plaintext)"

definition cipher_Decrypt :: "crypto_lib \<Rightarrow> StorageCipher \<Rightarrow> string \<Rightarrow> string \<Rightarrow> string \<Rightarrow> nat option \<Rightarrow> string + string \<times> bool" where
  "cipher_Decrypt lb c path purpose data expectedSequence =
     (let trimmed = trim_space data
      in if trimmed = [] then Inl ''encrypted storage document is empty''
         else if lb_probe lb trimmed \<noteq> Some encryptedStorageSchema then Inr (data, True)
         else case cipher_open lb c path purpose expectedSequence trimmed of Inl e \<Rightarrow> Inl e | Inr plain \<Rightarrow> Inr (plain, False))"

text \<open>\<open>Destroy\<close> forgets the key; the receiver keeps an empty one.\<close>

definition cipher_Destroy :: "StorageCipher \<Rightarrow> StorageCipher" where
  "cipher_Destroy c = c\<lparr> sc_rootKey := [], sc_nodeName := [] \<rparr>"

section \<open>Round trip\<close>

text \<open>What is used of the libraries: the sizes of HMAC-SHA-256 and of the tag, that opening undoes sealing, and that both decoders read what was written, if it is UTF-8.\<close>

definition lib_ok :: "crypto_lib \<Rightarrow> bool" where
  "lib_ok lb \<longleftrightarrow> (\<forall>k m. length (lb_hmac lb k m) = 32) \<and> (\<forall>x. length (lb_sha256 lb x) = 32)
     \<and> (\<forall>k n x a. length (lb_seal lb k n x a) = length x + 16 \<and> lb_open lb k n (lb_seal lb k n x a) a = Some x)
     \<and> (\<forall>v. (\<forall>t \<in> {ev_Schema v, ev_Cipher v, ev_Purpose v, ev_AADHash v, ev_Nonce v, ev_Ciphertext v}. valid_utf8 t) \<longrightarrow>
          lb_probe lb (envelope_json v) = Some (ev_Schema v) \<and> lb_decode lb (envelope_json v) = Inr (v, []))"

lemma const_utf8: "valid_utf8 encryptedStorageSchema" "valid_utf8 ''AES-256-GCM''"
  by (rule valid_plain; simp add: encryptedStorageSchema_def byte_of_def)+

lemma encrypt_result:
  assumes "cipher_Encrypt lb c path purpose n random x = Inr e"
  obtains key nonce where "purposeKey lb c purpose = Inr key" "aes_key_error key = None" "random = Inr nonce"
    "e = envelope_json \<lparr> ev_Schema = encryptedStorageSchema, ev_Cipher = ''AES-256-GCM'', ev_Purpose = purpose, ev_Sequence = n,
       ev_AADHash = hex_encode (lb_sha256 lb (storageAAD lb (sc_nodeName c) purpose path n)), ev_Nonce = b64_encode nonce,
       ev_Ciphertext = b64_encode (lb_seal lb key nonce x (storageAAD lb (sc_nodeName c) purpose path n)) \<rparr>"
  using assms by (auto simp: cipher_Encrypt_def Let_def split: sum.split_asm option.split_asm)

text \<open>What the decoders make of an envelope that was written.\<close>

lemma encrypted_decodes:
  assumes "lib_ok lb" "valid_utf8 purpose" "cipher_Encrypt lb c path purpose n random x = Inr e"
  obtains v key nonce where "decodeEncryptedStorageEnvelope lb e = Inr v" "lb_probe lb e = Some encryptedStorageSchema" "e = envelope_json v" "purposeKey lb c purpose = Inr key"
    "aes_key_error key = None" "random = Inr nonce" "ev_Schema v = encryptedStorageSchema" "ev_Cipher v = ''AES-256-GCM''" "ev_Purpose v = purpose" "ev_Sequence v = n"
    "ev_AADHash v = hex_encode (lb_sha256 lb (storageAAD lb (sc_nodeName c) purpose path n))" "ev_Nonce v = b64_encode nonce"
    "ev_Ciphertext v = b64_encode (lb_seal lb key nonce x (storageAAD lb (sc_nodeName c) purpose path n))"
proof -
  obtain key nonce where k: "purposeKey lb c purpose = Inr key" "aes_key_error key = None" "random = Inr nonce"
    and e: "e = envelope_json \<lparr> ev_Schema = encryptedStorageSchema, ev_Cipher = ''AES-256-GCM'', ev_Purpose = purpose, ev_Sequence = n,
       ev_AADHash = hex_encode (lb_sha256 lb (storageAAD lb (sc_nodeName c) purpose path n)), ev_Nonce = b64_encode nonce,
       ev_Ciphertext = b64_encode (lb_seal lb key nonce x (storageAAD lb (sc_nodeName c) purpose path n)) \<rparr>" (is "e = envelope_json ?v")
    by (rule encrypt_result [OF assms(3)])
  have "lb_probe lb (envelope_json ?v) = Some (ev_Schema ?v) \<and> lb_decode lb (envelope_json ?v) = Inr (?v, [])"
    using assms(1,2) const_utf8 hash_plain unfolding lib_ok_def by simp
  then have "decodeEncryptedStorageEnvelope lb e = Inr ?v" "lb_probe lb e = Some encryptedStorageSchema" by (simp_all add: decodeEncryptedStorageEnvelope_def e)
  from that [OF this e k] show thesis by simp
qed

lemma envelope_ends: "envelope_json v \<noteq> []" "hd (envelope_json v) = CHR ''{''" "last (envelope_json v) = CHR ''}''"
  by (simp_all add: envelope_json_def)

lemma cipher_open_roundtrip:
  assumes ok: "lib_ok lb" and u: "valid_utf8 purpose" and e: "cipher_Encrypt lb c path purpose n (Inr nonce) x = Inr e" and nonce: "length nonce = 12" and s: "s = None \<or> s = Some n"
  shows "cipher_open lb c path purpose s e = Inr x"
proof (rule encrypted_decodes [OF ok u e])
  fix v key nonce'
  assume v: "decodeEncryptedStorageEnvelope lb e = Inr v" "purposeKey lb c purpose = Inr key" "aes_key_error key = None" "Inr nonce = (Inr nonce' :: string + string)"
    "ev_Schema v = encryptedStorageSchema" "ev_Cipher v = ''AES-256-GCM''" "ev_Purpose v = purpose" "ev_Sequence v = n"
    "ev_AADHash v = hex_encode (lb_sha256 lb (storageAAD lb (sc_nodeName c) purpose path n))" "ev_Nonce v = b64_encode nonce'"
    "ev_Ciphertext v = b64_encode (lb_seal lb key nonce' x (storageAAD lb (sc_nodeName c) purpose path n))"
  have "length (lb_seal lb key nonce x a) = length x + 16" "lb_open lb key nonce (lb_seal lb key nonce x a) a = Some x" for a using ok by (simp_all add: lib_ok_def)
  then show ?thesis using v nonce s by (auto simp: cipher_open_def Let_def)
qed

text \<open>What was encrypted for a path, purpose and sequence is decrypted again, also with white space around it.\<close>

theorem storage_roundtrip:
  assumes "lib_ok lb" and "valid_utf8 purpose" and "cipher_Encrypt lb c path purpose n (Inr nonce) x = Inr e" and "length nonce = 12" and "s = None \<or> s = Some n"
  shows "cipher_Decrypt lb c path purpose e s = Inr (x, False) \<and> cipher_Decrypt lb c path purpose (e @ [newline]) s = Inr (x, False)"
proof (rule encrypted_decodes [OF assms(1-3)])
  fix v
  assume v: "lb_probe lb e = Some encryptedStorageSchema" "e = envelope_json v"
  have j: "e \<noteq> []" "graphic (hd e)" "graphic (last e)" using envelope_ends [of v] brace_graphic v(2) by simp_all
  show ?thesis using cipher_open_roundtrip [OF assms] v(1) j(1) trim_space_graphic [OF j] trim_newline [OF j] by (simp add: cipher_Decrypt_def)
qed

section \<open>Binding\<close>

lemma nul_split: "a @ CHR 0x00 # b = a' @ CHR 0x00 # b' \<Longrightarrow> CHR 0x00 \<notin> set a \<Longrightarrow> CHR 0x00 \<notin> set a' \<Longrightarrow> a = a' \<and> b = b'"
proof (induction a arbitrary: a')
  case Nil
  then show ?case by (cases a') auto
next
  case (Cons x a)
  then show ?case by (cases a') auto
qed

lemma storageAAD_path:
  assumes "storageAAD lb node purpose path n = storageAAD lb node purpose path' n" and "CHR 0x00 \<notin> set (lb_clean lb path)" and "CHR 0x00 \<notin> set (lb_clean lb path')"
  shows "lb_clean lb path = lb_clean lb path'"
proof -
  have "lb_clean lb path @ CHR 0x00 # ''sequence='' @ dec_nat n = lb_clean lb path' @ CHR 0x00 # ''sequence='' @ dec_nat n"
    using assms(1) by (simp add: storageAAD_def)
  from nul_split [OF this assms(2,3)] show ?thesis by simp
qed

text \<open>
  An envelope is bound to its place. Read for another purpose, for another sequence, or from another path, it is refused, the last unless SHA-256 collides on the two
  bindings. File names hold no NUL byte.
\<close>

theorem envelope_bound:
  assumes "lib_ok lb" and "valid_utf8 purpose" and "cipher_Encrypt lb c path purpose n random x = Inr e"
    and moved: "purpose' \<noteq> purpose \<or> (s \<noteq> None \<and> s \<noteq> Some n) \<or> lb_clean lb path' \<noteq> lb_clean lb path"
    and names: "CHR 0x00 \<notin> set (lb_clean lb path)" "CHR 0x00 \<notin> set (lb_clean lb path')"
    and collision: "\<And>a b. a \<noteq> b \<Longrightarrow> a \<in> {storageAAD lb (sc_nodeName c) purpose path n, storageAAD lb (sc_nodeName c) purpose path' n} \<Longrightarrow>
      b \<in> {storageAAD lb (sc_nodeName c) purpose path n, storageAAD lb (sc_nodeName c) purpose path' n} \<Longrightarrow> lb_sha256 lb a \<noteq> lb_sha256 lb b"
  shows "\<exists>err. cipher_Decrypt lb c path' purpose' e s = Inl err"
proof (rule encrypted_decodes [OF assms(1-3)])
  fix v key nonce
  assume v: "decodeEncryptedStorageEnvelope lb e = Inr v" "lb_probe lb e = Some encryptedStorageSchema" "e = envelope_json v" "ev_Purpose v = purpose" "ev_Sequence v = n"
    "ev_AADHash v = hex_encode (lb_sha256 lb (storageAAD lb (sc_nodeName c) purpose path n))" "ev_Schema v = encryptedStorageSchema" "ev_Cipher v = ''AES-256-GCM''"
    "ev_Nonce v = b64_encode nonce" "ev_Ciphertext v = b64_encode (lb_seal lb key nonce x (storageAAD lb (sc_nodeName c) purpose path n))"
  have j: "e \<noteq> []" "graphic (hd e)" "graphic (last e)" using envelope_ends [of v] brace_graphic v(3) by simp_all
  have "\<exists>err. cipher_open lb c path' purpose' s e = Inl err"
  proof (cases "purpose' \<noteq> purpose \<or> (s \<noteq> None \<and> s \<noteq> Some n)")
    case True
    then show ?thesis using v(1,4,5) by (auto simp: cipher_open_def)
  next
    case False
    then have "storageAAD lb (sc_nodeName c) purpose path n \<noteq> storageAAD lb (sc_nodeName c) purpose path' n" using moved storageAAD_path [OF _ names] by metis
    then have "lb_sha256 lb (storageAAD lb (sc_nodeName c) purpose path n) \<noteq> lb_sha256 lb (storageAAD lb (sc_nodeName c) purpose path' n)" by (rule collision) simp_all
    then show ?thesis using False v by (auto simp: cipher_open_def Let_def)
  qed
  then show ?thesis using v(2) j(1) trim_space_graphic [OF j] by (auto simp: cipher_Decrypt_def)
qed

section \<open>The envelope of the ledger\<close>

text \<open>The codec of a ledger whose files are under one path per purpose: \<open>random\<close> is the nonce of each call.\<close>

definition storage_codec :: "crypto_lib \<Rightarrow> StorageCipher \<Rightarrow> (string \<Rightarrow> string) \<Rightarrow> (string \<Rightarrow> nat \<Rightarrow> string \<Rightarrow> string) \<Rightarrow> evidence_codec \<Rightarrow> evidence_codec" where
  "storage_codec lb c paths random base = base\<lparr> cd_encrypt := (\<lambda>p n x. cipher_Encrypt lb c (paths p) p n (Inr (random p n x)) x),
     cd_isEnvelope := (\<lambda>t. lb_probe lb t = Some encryptedStorageSchema), cd_open := (\<lambda>p s t. cipher_open lb c (paths p) p s t) \<rparr>"

theorem ledger_decrypt_refines: "Decrypt (storage_codec lb c paths random base) p data s = cipher_Decrypt lb c (paths p) p data s"
  by (simp add: Decrypt_def cipher_Decrypt_def storage_codec_def Let_def)

lemma plain_not_newline: "json_plain ch \<Longrightarrow> ch \<noteq> newline"
  by (auto simp: json_plain_def json_escape_def byte_of_def)

lemma plain_json_string: "\<forall>ch \<in> set s. json_plain ch \<Longrightarrow> json_string s = CHR 0x22 # s @ [CHR 0x22]"
  by (simp add: json_string_def json_body_plain)

lemma purpose_plain: "p \<in> evidence_purposes \<Longrightarrow> (\<forall>ch \<in> set p. json_plain ch) \<and> length p \<le> 17 \<and> p \<noteq> []"
  by (auto simp: evidence_purposes_def json_plain_def json_escape_def byte_of_def)

lemma label_plain:
  "\<forall>ch \<in> set ''schema''. json_plain ch" "\<forall>ch \<in> set ''cipher''. json_plain ch" "\<forall>ch \<in> set ''purpose''. json_plain ch" "\<forall>ch \<in> set ''sequence''. json_plain ch"
  "\<forall>ch \<in> set ''aad_sha256''. json_plain ch" "\<forall>ch \<in> set ''nonce''. json_plain ch" "\<forall>ch \<in> set ''ciphertext''. json_plain ch" "\<forall>ch \<in> set ''AES-256-GCM''. json_plain ch"
  "\<forall>ch \<in> set encryptedStorageSchema. json_plain ch"
  by (simp_all add: encryptedStorageSchema_def json_plain_def json_escape_def byte_of_def)

lemma digit_not_newline: "newline \<notin> set (dec_nat n)"
  by (auto dest!: dec_nat_chars)

text \<open>An envelope for a purpose of the ledger is one line of printable text, not much longer than what it holds.\<close>

lemma envelope_line_shape:
  assumes "p \<in> evidence_purposes" "length nonce = 12" "length h = 32"
    and "v = \<lparr> ev_Schema = encryptedStorageSchema, ev_Cipher = ''AES-256-GCM'', ev_Purpose = p, ev_Sequence = n, ev_AADHash = hex_encode h, ev_Nonce = b64_encode nonce, ev_Ciphertext = b64_encode y \<rparr>"
  shows "newline \<notin> set (envelope_json v)" "length (envelope_json v) \<le> 2 * length y + 400 + length (dec_nat n)"
proof -
  note pl = purpose_plain [OF assms(1)]
  have hx: "\<forall>ch \<in> set (hex_encode h). json_plain ch" "\<forall>ch \<in> set (b64_encode nonce). json_plain ch" "\<forall>ch \<in> set (b64_encode y). json_plain ch"
    using hex_encode_plain b64_encode_plain by blast+
  note strings = label_plain [THEN plain_json_string] hx [THEN plain_json_string] plain_json_string [OF conjunct1 [OF pl]]
  have nl: "newline \<notin> set t" if "\<forall>ch \<in> set t. json_plain ch" for t using that plain_not_newline by blast
  show "newline \<notin> set (envelope_json v)"
    using nl [OF hx(1)] nl [OF hx(2)] nl [OF hx(3)] nl [OF conjunct1 [OF pl]] digit_not_newline [of n]
    unfolding assms(4) envelope_json_def json_field_def by (simp add: strings) (simp add: encryptedStorageSchema_def)
  show "length (envelope_json v) \<le> 2 * length y + 400 + length (dec_nat n)"
    using b64_encode_length [of nonce] b64_encode_length [of y] assms(2,3) pl
    unfolding assms(4) envelope_json_def json_field_def by (simp add: strings) (simp add: encryptedStorageSchema_def)
qed

theorem storage_envelope_ok:
  assumes "lib_ok lb" and "\<And>p n x. length (random p n x) = 12" and "p \<in> evidence_purposes" and "cd_encrypt (storage_codec lb c paths random base) p n x = Inr e"
  shows "envelope_ok (storage_codec lb c paths random base) p n x e"
proof -
  have enc: "cipher_Encrypt lb c (paths p) p n (Inr (random p n x)) x = Inr e" using assms(4) by (simp add: storage_codec_def)
  have u: "valid_utf8 p" using purpose_plain [OF assms(3)] by (intro valid_plain) (simp add: json_plain_def)
  note open_it = cipher_open_roundtrip [OF assms(1) u enc assms(2)]
  obtain v where v: "e = envelope_json v" "lb_probe lb e = Some encryptedStorageSchema" by (rule encrypted_decodes [OF assms(1) u enc])
  obtain key nonce where w: "e = envelope_json \<lparr> ev_Schema = encryptedStorageSchema, ev_Cipher = ''AES-256-GCM'', ev_Purpose = p, ev_Sequence = n,
       ev_AADHash = hex_encode (lb_sha256 lb (storageAAD lb (sc_nodeName c) p (paths p) n)), ev_Nonce = b64_encode nonce,
       ev_Ciphertext = b64_encode (lb_seal lb key nonce x (storageAAD lb (sc_nodeName c) p (paths p) n)) \<rparr>" "length nonce = 12"
    by (rule encrypt_result [OF enc]) (use assms(2) in auto)
  have sizes: "length (lb_sha256 lb a) = 32" "length (lb_seal lb key nonce x a) = length x + 16" for a using assms(1) by (simp_all add: lib_ok_def)
  have "newline \<notin> set e" unfolding w(1) by (rule envelope_line_shape(1) [OF assms(3) w(2) sizes(1) refl])
  moreover have "length e \<le> 2 * (length x + 16) + 400 + length (dec_nat n)"
    unfolding w(1) sizes(2) [of "storageAAD lb (sc_nodeName c) p (paths p) n", symmetric] by (rule envelope_line_shape(2) [OF assms(3) w(2) sizes(1) refl])
  ultimately have "newline \<notin> set e" "length e \<le> 2 * length x + 4096 + length (dec_nat n)" by simp_all
  then show ?thesis using v envelope_ends [of v] open_it by (simp add: envelope_ok_def storage_codec_def)
qed

text \<open>The storage cipher meets what the ledger assumes of its codec, when hash, signature, time and the two record decoders do.\<close>

theorem storage_codec_ok:
  assumes "codec_ok base" and "lib_ok lb" and "\<And>p n x. length (random p n x) = 12"
  shows "codec_ok (storage_codec lb c paths random base)"
proof -
  have "record_json (storage_codec lb c paths random base) = record_json base" by (intro ext) (simp add: record_json_def storage_codec_def)
  then show ?thesis using assms(1) storage_envelope_ok [OF assms(2,3)] unfolding codec_ok_def by (simp add: storage_codec_def)
qed

end
