(* ===== verification/Storage_Samples.thy ===== *)
theory Storage_Samples
  imports Evidence_Samples Storage_Cipher
begin

text \<open>
  A concrete instance of the libraries the storage cipher calls: a parser for the envelopes that are written, and a seal that appends a tag. The laws of \<open>lib_ok\<close> hold for it, so the ledger's
  \<open>codec_ok\<close> holds with the storage cipher in place of the sample envelope.
\<close>

definition p_sequence :: "string \<Rightarrow> (nat \<times> string) option" where
  "p_sequence s = (if prefix (key_of ''sequence'') s then Option.bind (lit (key_of ''sequence'') s) p_nat else Some (0, s))"

definition sample_decodeEnvelope :: "string \<Rightarrow> string + encryptedStorageEnvelope \<times> string" where
  "sample_decodeEnvelope s =
     (case do {
        s \<leftarrow> lit (CHR ''{'' # json_string ''schema'' @ '':'') s;
        (schema, s) \<leftarrow> p_str s;
        (suite, s) \<leftarrow> p_field ''cipher'' s;
        (purpose, s) \<leftarrow> p_field ''purpose'' s;
        (sequence, s) \<leftarrow> p_sequence s;
        (aad, s) \<leftarrow> p_field ''aad_sha256'' s;
        (nonce, s) \<leftarrow> p_field ''nonce'' s;
        (ciphertext, s) \<leftarrow> p_field ''ciphertext'' s;
        s \<leftarrow> lit ''}'' s;
        Some (\<lparr> ev_Schema = schema, ev_Cipher = suite, ev_Purpose = purpose, ev_Sequence = sequence, ev_AADHash = aad, ev_Nonce = nonce, ev_Ciphertext = ciphertext \<rparr>, s) }
      of Some r \<Rightarrow> Inr r | None \<Rightarrow> Inl ''invalid envelope'')"

definition sample_lib :: crypto_lib where
  "sample_lib = \<lparr> lb_hmac = (\<lambda>_. sample_sha), lb_sha256 = sample_sha, lb_seal = (\<lambda>_ _ x _. x @ replicate 16 (CHR ''t'')),
     lb_open = (\<lambda>_ _ y _. if 16 \<le> length y then Some (take (length y - 16) y) else None), lb_clean = (\<lambda>p. p),
     lb_probe = (\<lambda>t. case sample_decodeEnvelope t of Inr (v, _) \<Rightarrow> Some (ev_Schema v) | Inl _ \<Rightarrow> None), lb_decode = sample_decodeEnvelope \<rparr>"

lemma p_sequence_json:
  "p_sequence ((if n = 0 then [] else CHR '','' # json_string ''sequence'' @ CHR '':'' # dec_nat n) @ json_field ''aad_sha256'' w @ r) = Some (n, json_field ''aad_sha256'' w @ r)"
proof (cases "n = 0")
  case True
  have "\<not> prefix (key_of ''sequence'') (json_field ''aad_sha256'' w @ r)"
    using label_plain(4,5) by (simp add: key_of_def json_field_def plain_json_string)
  then show ?thesis using True by (simp add: p_sequence_def)
next
  case False
  have s: "(CHR '','' # json_string ''sequence'' @ CHR '':'' # dec_nat n) @ json_field ''aad_sha256'' w @ r = key_of ''sequence'' @ dec_nat n @ json_field ''aad_sha256'' w @ r"
    by (simp add: key_of_def)
  show ?thesis using False p_nat_dec [OF key_ends(3)] unfolding if_not_P [OF False] s by (simp add: p_sequence_def)
qed

lemma sample_envelope_decodes:
  assumes "\<forall>t \<in> {ev_Schema v, ev_Cipher v, ev_Purpose v, ev_AADHash v, ev_Nonce v, ev_Ciphertext v}. valid_utf8 t"
  shows "sample_decodeEnvelope (envelope_json v) = Inr (v, [])"
proof -
  have c: "coerce_utf8 (ev_Schema v) = ev_Schema v" "coerce_utf8 (ev_Cipher v) = ev_Cipher v" "coerce_utf8 (ev_Purpose v) = ev_Purpose v" "coerce_utf8 (ev_AADHash v) = ev_AADHash v"
    "coerce_utf8 (ev_Nonce v) = ev_Nonce v" "coerce_utf8 (ev_Ciphertext v) = ev_Ciphertext v" using assms by (simp_all add: coerce_valid)
  define r1 where "r1 = json_field ''nonce'' (ev_Nonce v) @ json_field ''ciphertext'' (ev_Ciphertext v) @ ''}''"
  define r2 where "r2 = (if ev_Sequence v = 0 then [] else CHR '','' # json_string ''sequence'' @ CHR '':'' # dec_nat (ev_Sequence v)) @ json_field ''aad_sha256'' (ev_AADHash v) @ r1"
  have b: "envelope_json v = (CHR ''{'' # json_string ''schema'' @ '':'') @ json_string (ev_Schema v) @ json_field ''cipher'' (ev_Cipher v) @ json_field ''purpose'' (ev_Purpose v) @ r2"
    by (simp add: envelope_json_def r1_def r2_def)
  have p2: "p_sequence r2 = Some (ev_Sequence v, json_field ''aad_sha256'' (ev_AADHash v) @ r1)" unfolding r2_def by (rule p_sequence_json)
  have stop: "lit ''}'' ''}'' = Some []" by (simp add: lit_def)
  note step = lit_append Option.bind.bind_lunit prod.case p_str_json p_field_json p2
  show ?thesis unfolding sample_decodeEnvelope_def b step by (simp add: r1_def p_field_json stop c)
qed

lemma sample_lib_ok: "lib_ok sample_lib"
  using sample_envelope_decodes unfolding lib_ok_def by (simp add: sample_lib_def sample_sha_def)

definition sample_cipher :: StorageCipher where
  "sample_cipher = \<lparr> sc_rootKey = replicate 32 (CHR ''k''), sc_nodeName = ''edge-1'' \<rparr>"

lemma storage_ledger_codec: "codec_ok (storage_codec sample_lib sample_cipher (\<lambda>p. ''/var/lib/'' @ p) (\<lambda>_ _ _. replicate 12 (CHR ''n'')) sample_codec)"
  by (rule storage_codec_ok [OF sample_codec_ok sample_lib_ok]) simp

lemma storage_roundtrip_witness:
  "\<exists>e. cipher_Encrypt sample_lib sample_cipher ''/var/lib/head'' ''evidence-head'' 7 (Inr (replicate 12 (CHR ''n''))) ''{}'' = Inr e
     \<and> cipher_Decrypt sample_lib sample_cipher ''/var/lib/head'' ''evidence-head'' e (Some 7) = Inr (''{}'', False)"
proof -
  obtain e where e: "cipher_Encrypt sample_lib sample_cipher ''/var/lib/head'' ''evidence-head'' 7 (Inr (replicate 12 (CHR ''n''))) ''{}'' = Inr e"
    by (simp add: cipher_Encrypt_def purposeKey_def aes_key_error_def sample_lib_def sample_sha_def Let_def)
  have "valid_utf8 ''evidence-head''" by (rule valid_plain) (simp add: byte_of_def)
  from storage_roundtrip [OF sample_lib_ok this e, of "Some 7"] e show ?thesis by simp
qed

end
