(* ===== verification/Gateway_Sessions.thy ===== *)
theory Gateway_Sessions
  imports Encodings
begin

text \<open>
  The session registry and the session cookies of the access gateway, \<open>gateway/sessions.go\<close>, with the handlers that use them.

  The code keeps sessions behind pointers that two requests can hold at once, so the model has a heap: \<open>sr_heap\<close> is the list of all sessions ever
  allocated, a pointer is an index into it, and \<open>sr_sessions\<close> maps identifiers to pointers. Every method of the registry takes the lock for
  its whole body and is one step. The clock and the random identifiers are arguments, the MAC under the session key is a parameter.
\<close>

section \<open>The registry\<close>

definition sessionAbsoluteLifetime :: duration where "sessionAbsoluteLifetime = 8 * hour"
definition sessionIdleTimeout :: duration where "sessionIdleTimeout = 30 * minute"
definition sessionRotationInterval :: duration where "sessionRotationInterval = 15 * minute"
definition sessionRotationGrace :: duration where "sessionRotationGrace = 30 * second"
definition maxGatewaySessions :: nat where "maxGatewaySessions = 64"

record gatewaySession =
  sn_id :: string
  sn_previousID :: string
  sn_previousValidUntil :: gotime
  sn_created :: gotime
  sn_rotatedAt :: gotime
  sn_lastSeen :: gotime
  sn_expires :: gotime

type_synonym session_ref = nat

record sessionRegistry =
  sr_sessions :: "(string, session_ref) gomap"
  sr_maxEntries :: nat
  sr_absolute :: duration
  sr_idle :: duration
  sr_rotation :: duration
  sr_heap :: "gatewaySession list"

definition newSessionRegistry :: sessionRegistry where
  "newSessionRegistry = \<lparr> sr_sessions = [], sr_maxEntries = maxGatewaySessions, sr_absolute = sessionAbsoluteLifetime, sr_idle = sessionIdleTimeout,
     sr_rotation = sessionRotationInterval, sr_heap = [] \<rparr>"

abbreviation deref :: "sessionRegistry \<Rightarrow> session_ref \<Rightarrow> gatewaySession" where
  "deref r a \<equiv> sr_heap r ! a"

definition sessions_deleteLocked :: "session_ref \<Rightarrow> sessionRegistry \<Rightarrow> sessionRegistry" where
  "sessions_deleteLocked a r =
     (let s = deref r a; m = gm_del (sn_id s) (sr_sessions r)
      in r\<lparr> sr_sessions := if sn_previousID s \<noteq> [] then gm_del (sn_previousID s) m else m \<rparr>)"

definition session_stale :: "gotime \<Rightarrow> sessionRegistry \<Rightarrow> session_ref \<Rightarrow> bool" where
  "session_stale now r a \<longleftrightarrow> \<not> now < sn_expires (deref r a) \<or> time_sub now (sn_lastSeen (deref r a)) > sr_idle r"

text \<open>An entry that was deleted before the iteration reached it is not visited.\<close>

definition gc_entry :: "gotime \<Rightarrow> string \<times> session_ref \<Rightarrow> sessionRegistry \<Rightarrow> sessionRegistry" where
  "gc_entry now e r =
     (case e of (sid, a) \<Rightarrow>
        if gm_has (sr_sessions r) sid \<and> session_stale now r a
        then (let r = sessions_deleteLocked a r in r\<lparr> sr_sessions := gm_del sid (sr_sessions r) \<rparr>) else r)"

definition sessions_gcLocked :: "gotime \<Rightarrow> sessionRegistry \<Rightarrow> sessionRegistry" where
  "sessions_gcLocked now r = fold (gc_entry now) (sr_sessions r) r"

definition oldest_session :: "sessionRegistry \<Rightarrow> session_ref option" where
  "oldest_session r = fold (\<lambda>(_, a) oldest. case oldest of
      None \<Rightarrow> Some a | Some b \<Rightarrow> if sn_lastSeen (deref r a) < sn_lastSeen (deref r b) then Some a else Some b) (sr_sessions r) None"

text \<open>The part of \<open>create\<close> that makes room for one entry.\<close>

definition sessions_makeRoom :: "gotime \<Rightarrow> sessionRegistry \<Rightarrow> sessionRegistry" where
  "sessions_makeRoom now r =
     (let r = sessions_gcLocked now r
      in if length (sr_sessions r) \<ge> sr_maxEntries r then (case oldest_session r of None \<Rightarrow> r | Some a \<Rightarrow> sessions_deleteLocked a r) else r)"

text \<open>The identifier is absent when the random source fails.\<close>

definition sessions_create :: "gotime \<Rightarrow> string option \<Rightarrow> gotime \<Rightarrow> sessionRegistry \<Rightarrow> session_ref option \<times> sessionRegistry" where
  "sessions_create expires fresh now r =
     (let r = sessions_makeRoom now r
      in case fresh of
           None \<Rightarrow> (None, r)
         | Some sid \<Rightarrow>
             let expires = (if time_is_zero expires \<or> expires > time_add now (sr_absolute r) then time_add now (sr_absolute r) else expires);
                 a = length (sr_heap r)
             in (Some a, r\<lparr> sr_heap := sr_heap r @ [\<lparr> sn_id = sid, sn_previousID = [], sn_previousValidUntil = 0, sn_created = now, sn_rotatedAt = now,
                   sn_lastSeen = now, sn_expires = expires \<rparr>], sr_sessions := gm_put sid a (sr_sessions r) \<rparr>))"

definition sessions_validate :: "string \<Rightarrow> gotime \<Rightarrow> sessionRegistry \<Rightarrow> session_ref option \<times> sessionRegistry" where
  "sessions_validate sid now r =
     (case gm_get (sr_sessions r) sid of
        None \<Rightarrow> (None, r)
      | Some a \<Rightarrow>
          let s = deref r a
          in if sn_id s \<noteq> sid \<and> (sn_previousID s \<noteq> sid \<or> \<not> now < sn_previousValidUntil s) then (None, r\<lparr> sr_sessions := gm_del sid (sr_sessions r) \<rparr>)
             else if \<not> now < sn_expires s \<or> time_sub now (sn_lastSeen s) > sr_idle r \<or> time_sub now (sn_created s) > sr_absolute r
             then (None, sessions_deleteLocked a r)
             else (Some a, r\<lparr> sr_heap := (sr_heap r)[a := s\<lparr> sn_lastSeen := now \<rparr>] \<rparr>))"

definition sessions_rotate :: "session_ref option \<Rightarrow> string option \<Rightarrow> gotime \<Rightarrow> sessionRegistry \<Rightarrow> session_ref option \<times> sessionRegistry" where
  "sessions_rotate session fresh now r =
     (case (session, fresh) of
        (Some a, Some sid) \<Rightarrow>
          let s = deref r a;
              s' = s\<lparr> sn_previousID := sn_id s, sn_previousValidUntil := time_add now sessionRotationGrace, sn_id := sid, sn_rotatedAt := now, sn_lastSeen := now \<rparr>
          in (Some a, r\<lparr> sr_heap := (sr_heap r)[a := s'],
                sr_sessions := gm_put (sn_previousID s') a (gm_put sid a (gm_del (sn_id s) (sr_sessions r))) \<rparr>)
      | _ \<Rightarrow> (None, r))"

definition sessions_revoke :: "session_ref option \<Rightarrow> sessionRegistry \<Rightarrow> sessionRegistry" where
  "sessions_revoke session r = (case session of None \<Rightarrow> r | Some a \<Rightarrow> sessions_deleteLocked a r)"

definition sessions_count :: "sessionRegistry \<Rightarrow> nat" where
  "sessions_count r = length (filter (\<lambda>(_, a). sn_id (deref r a) \<noteq> []) (sr_sessions r))"

definition sessions_revokeAll :: "sessionRegistry \<Rightarrow> nat \<times> sessionRegistry" where
  "sessions_revokeAll r = (length (filter (\<lambda>(_, a). sn_id (deref r a) \<noteq> []) (sr_sessions r)), r\<lparr> sr_sessions := [] \<rparr>)"

section \<open>Cookies\<close>

text \<open>\<open>strings.Split\<close> at one character and \<open>strconv.ParseInt\<close> for base ten and 64 bits.\<close>

fun split_char :: "char \<Rightarrow> string \<Rightarrow> string list" where
  "split_char c [] = [[]]"
| "split_char c (x # xs) = (if x = c then [] # split_char c xs else (case split_char c xs of [] \<Rightarrow> [[x]] | p # ps \<Rightarrow> (x # p) # ps))"

definition parseInt64 :: "string \<Rightarrow> int option" where
  "parseInt64 s =
     (let neg = (s \<noteq> [] \<and> hd s = CHR ''-''); ds = (if s \<noteq> [] \<and> (hd s = CHR ''-'' \<or> hd s = CHR ''+'') then tl s else s)
      in if ds = [] then None
         else case dec_value 0 ds of
           None \<Rightarrow> None
         | Some n \<Rightarrow> let i = (if neg then - int n else int n) in if in_int64 i then Some i else None)"

definition unix_time :: "int \<Rightarrow> gotime" where
  "unix_time e = (e + 62135596800) * second"

definition sessionCookiePayload :: "gatewaySession \<Rightarrow> string" where
  "sessionCookiePayload s = dec_int (time_unix (sn_expires s)) @ CHR ''.'' # sn_id s"

definition cookie_domain :: string where
  "cookie_domain = ''VGT-GEDEFENSE-ACCESS-COOKIE-V3'' @ [CHR 0x00]"

definition signSessionPayload :: "(string \<Rightarrow> string) \<Rightarrow> string \<Rightarrow> string" where
  "signSessionPayload mac payload = b64_encode payload @ CHR ''.'' # b64_encode (mac (cookie_domain @ payload))"

definition parseSessionCookie :: "(string \<Rightarrow> string) \<Rightarrow> gotime \<Rightarrow> string option \<Rightarrow> (string \<times> gotime) option" where
  "parseSessionCookie mac now cookie =
     (case cookie of
        None \<Rightarrow> None
      | Some text \<Rightarrow>
          case split_char CHR ''.'' text of
            [p, g] \<Rightarrow>
              (case (b64_decode p, b64_decode g) of
                 (Some payload, Some signature) \<Rightarrow>
                   if length signature \<noteq> 32 \<or> signature \<noteq> mac (cookie_domain @ payload) then None
                   else (case split_char CHR ''.'' payload of
                     [e, sid] \<Rightarrow>
                       (case parseInt64 e of
                          None \<Rightarrow> None
                        | Some expiry \<Rightarrow>
                            if length sid < 16 \<or> length sid > 128 then None
                            else if time_unix now > expiry \<or> expiry > time_unix (time_add now (sessionAbsoluteLifetime + hour)) then None
                            else Some (sid, unix_time expiry))
                   | _ \<Rightarrow> None)
               | _ \<Rightarrow> None)
          | _ \<Rightarrow> None)"

section \<open>Handlers\<close>

text \<open>
  What a request brings: its cookie, the readings of the clock in the order they are taken, a random identifier, the outcome of the origin check
  and the decoded body of a revocation.
\<close>

record gateway_request =
  rq_cookie :: "string option"
  rq_parsed :: gotime
  rq_validated :: gotime
  rq_since :: gotime
  rq_rotated :: gotime
  rq_fresh :: "string option"
  rq_sameOrigin :: bool
  rq_body :: "(string \<times> string) option"

definition validateSession :: "(string \<Rightarrow> string) \<Rightarrow> gateway_request \<Rightarrow> sessionRegistry \<Rightarrow> session_ref option \<times> sessionRegistry" where
  "validateSession mac q r =
     (case parseSessionCookie mac (rq_parsed q) (rq_cookie q) of
        None \<Rightarrow> (None, r)
      | Some (sid, _) \<Rightarrow>
          case sessions_validate sid (rq_validated q) r of
            (None, r) \<Rightarrow> (None, r)
          | (Some a, r) \<Rightarrow>
              if time_sub (rq_since q) (sn_rotatedAt (deref r a)) \<ge> sessionRotationInterval
              then (case sessions_rotate (Some a) (rq_fresh q) (rq_rotated q) r of (Some a, r) \<Rightarrow> (Some a, r) | (None, r) \<Rightarrow> (Some a, r))
              else (Some a, r))"

function rune_count :: "string \<Rightarrow> nat" where
  "rune_count s = (if s = [] then 0 else case rune_len s of None \<Rightarrow> Suc (rune_count (tl s)) | Some n \<Rightarrow> Suc (rune_count (drop n s)))"
  by pat_completeness auto
termination
  by (relation "measure length") (auto dest: rune_len_bounds)

declare rune_count.simps [simp del]

text \<open>The status code of the response.\<close>

definition rotateSession :: "(string \<Rightarrow> string) \<Rightarrow> gateway_request \<Rightarrow> string option \<Rightarrow> gotime \<Rightarrow> sessionRegistry \<Rightarrow> nat \<times> sessionRegistry" where
  "rotateSession mac q fresh now r =
     (case validateSession mac q r of
        (None, r) \<Rightarrow> (401, r)
      | (Some a, r) \<Rightarrow>
          if \<not> rq_sameOrigin q then (403, r)
          else case sessions_rotate (Some a) fresh now r of (None, r) \<Rightarrow> (503, r) | (Some _, r) \<Rightarrow> (204, r))"

definition revokeAllSessions :: "(string \<Rightarrow> string) \<Rightarrow> gateway_request \<Rightarrow> sessionRegistry \<Rightarrow> (nat \<times> nat) \<times> sessionRegistry" where
  "revokeAllSessions mac q r =
     (case validateSession mac q r of
        (None, r) \<Rightarrow> ((401, 0), r)
      | (Some _, r) \<Rightarrow>
          if \<not> rq_sameOrigin q then ((403, 0), r)
          else case rq_body q of
            None \<Rightarrow> ((400, 0), r)
          | Some (confirmation, reason) \<Rightarrow>
              if confirmation \<noteq> ''REVOKE ALL SESSIONS'' \<or> rune_count reason < 8 \<or> rune_count reason > 240 then ((400, 0), r)
              else (case sessions_revokeAll r of (revoked, r) \<Rightarrow> ((200, revoked), r)))"

definition gateway_logout :: "(string \<Rightarrow> string) \<Rightarrow> gateway_request \<Rightarrow> sessionRegistry \<Rightarrow> nat \<times> sessionRegistry" where
  "gateway_logout mac q r =
     (if \<not> rq_sameOrigin q then (403, r)
      else case parseSessionCookie mac (rq_parsed q) (rq_cookie q) of
        None \<Rightarrow> (303, r)
      | Some (sid, _) \<Rightarrow>
          case sessions_validate sid (rq_validated q) r of
            (None, r) \<Rightarrow> (303, r)
          | (Some a, r) \<Rightarrow> (303, sessions_revoke (Some a) r))"

definition issueSession :: "(string \<Rightarrow> string) \<Rightarrow> gotime \<Rightarrow> string option \<Rightarrow> gotime \<Rightarrow> sessionRegistry \<Rightarrow> string option \<times> sessionRegistry" where
  "issueSession mac expires fresh now r =
     (case sessions_create expires fresh now r of
        (None, r) \<Rightarrow> (None, r)
      | (Some a, r) \<Rightarrow> (Some (signSessionPayload mac (sessionCookiePayload (deref r a))), r))"

section \<open>Revocation\<close>

text \<open>The calls of the registry that requests interleave.\<close>

datatype registry_op = Create gotime "string option" gotime | Validate string gotime | Rotate session_ref "string option" gotime | Revoke session_ref | RevokeAll

definition run_registry :: "registry_op \<Rightarrow> sessionRegistry \<Rightarrow> sessionRegistry" where
  "run_registry op r = (case op of
     Create expires fresh now \<Rightarrow> snd (sessions_create expires fresh now r)
   | Validate sid now \<Rightarrow> snd (sessions_validate sid now r)
   | Rotate a fresh now \<Rightarrow> snd (sessions_rotate (Some a) fresh now r)
   | Revoke a \<Rightarrow> sessions_revoke (Some a) r
   | RevokeAll \<Rightarrow> snd (sessions_revokeAll r))"

text \<open>Random identifiers are not empty; pointers come from earlier calls.\<close>

definition op_ok :: "registry_op \<Rightarrow> sessionRegistry \<Rightarrow> bool" where
  "op_ok op r \<longleftrightarrow> (case op of
     Create _ fresh _ \<Rightarrow> fresh \<noteq> Some [] | Rotate a fresh _ \<Rightarrow> a < length (sr_heap r) \<and> fresh \<noteq> Some [] | Revoke a \<Rightarrow> a < length (sr_heap r) | _ \<Rightarrow> True)"

inductive registry_runs :: "(registry_op \<Rightarrow> bool) \<Rightarrow> sessionRegistry \<Rightarrow> sessionRegistry \<Rightarrow> bool" for P r where
  start: "registry_runs P r r"
| call: "registry_runs P r s \<Longrightarrow> op_ok op s \<Longrightarrow> P op \<Longrightarrow> registry_runs P r (run_registry op s)"

fun rotates :: "session_ref \<Rightarrow> registry_op \<Rightarrow> bool" where
  "rotates a (Rotate b _ _) = (b = a)"
| "rotates a _ = False"

abbreviation registry_reachable :: "sessionRegistry \<Rightarrow> bool" where
  "registry_reachable \<equiv> registry_runs (\<lambda>_. True) newSessionRegistry"

abbreviation runs_without :: "session_ref \<Rightarrow> sessionRegistry \<Rightarrow> sessionRegistry \<Rightarrow> bool" where
  "runs_without a \<equiv> registry_runs (\<lambda>op. \<not> rotates a op)"

definition registry_wf :: "sessionRegistry \<Rightarrow> bool" where
  "registry_wf r \<longleftrightarrow> (\<forall>k a. gm_get (sr_sessions r) k = Some a \<longrightarrow> a < length (sr_heap r) \<and> k \<noteq> [])"

text \<open>No entry leads to the session under an identifier it answers to.\<close>

definition session_dead :: "session_ref \<Rightarrow> sessionRegistry \<Rightarrow> bool" where
  "session_dead a r \<longleftrightarrow> a < length (sr_heap r)
     \<and> (\<forall>k. gm_get (sr_sessions r) k = Some a \<longrightarrow> k \<noteq> sn_id (deref r a) \<and> k \<noteq> sn_previousID (deref r a))"

text \<open>Deletions leave the heap alone and only take entries away.\<close>

definition shrinks :: "sessionRegistry \<Rightarrow> sessionRegistry \<Rightarrow> bool" where
  "shrinks r s \<longleftrightarrow> sr_heap s = sr_heap r \<and> (\<forall>k a. gm_get (sr_sessions s) k = Some a \<longrightarrow> gm_get (sr_sessions r) k = Some a)"

lemma shrinks_refl [simp]: "shrinks r r"
  by (simp add: shrinks_def)

lemma shrinks_trans: "shrinks r s \<Longrightarrow> shrinks s t \<Longrightarrow> shrinks r t"
  by (simp add: shrinks_def)

lemma shrinks_dead: "shrinks r s \<Longrightarrow> session_dead a r \<Longrightarrow> session_dead a s"
  by (simp add: shrinks_def session_dead_def)

lemma shrinks_wf: "shrinks r s \<Longrightarrow> registry_wf r \<Longrightarrow> registry_wf s"
  by (auto simp: shrinks_def registry_wf_def)

lemma shrinks_del: "shrinks r (r\<lparr> sr_sessions := gm_del k (sr_sessions r) \<rparr>)"
  by (simp add: shrinks_def)

lemma shrinks_delete: "shrinks r (sessions_deleteLocked a r)"
  by (auto simp: shrinks_def sessions_deleteLocked_def Let_def split: if_split_asm)

lemma shrinks_gc_entry: "shrinks r (gc_entry now e r)"
proof (cases e)
  case (Pair k a)
  then show ?thesis using shrinks_trans [OF shrinks_delete shrinks_del] by (simp add: gc_entry_def Let_def)
qed

lemma shrinks_gc: "shrinks r (sessions_gcLocked now r)"
proof -
  have "shrinks r (fold (gc_entry now) es r)" for es
  proof (induction es rule: rev_induct)
    case (snoc e es)
    then show ?case using shrinks_trans [OF _ shrinks_gc_entry] by simp
  qed simp
  then show ?thesis by (simp add: sessions_gcLocked_def)
qed

lemma shrinks_room: "shrinks r (sessions_makeRoom now r)"
  using shrinks_gc shrinks_trans [OF shrinks_gc shrinks_delete] by (auto simp: sessions_makeRoom_def Let_def split: option.split)

lemma dead_create:
  assumes "session_dead a r"
  shows "session_dead a (snd (sessions_create expires fresh now r))"
proof -
  have "session_dead a (sessions_makeRoom now r)" by (rule shrinks_dead [OF shrinks_room assms])
  then show ?thesis by (cases fresh) (auto simp: sessions_create_def Let_def session_dead_def nth_append)
qed

lemma validate_dead:
  assumes "session_dead a r"
  shows "fst (sessions_validate sid now r) \<noteq> Some a" "session_dead a (snd (sessions_validate sid now r))"
proof -
  show "fst (sessions_validate sid now r) \<noteq> Some a" using assms by (auto simp: sessions_validate_def session_dead_def Let_def split: option.split)
  then show "session_dead a (snd (sessions_validate sid now r))"
    using assms shrinks_dead [OF shrinks_delete assms] shrinks_dead [OF shrinks_del assms]
    by (auto simp: sessions_validate_def Let_def nth_list_update session_dead_def split: option.split if_split_asm)
qed

lemma rotate_other_dead:
  assumes "session_dead a r" "b \<noteq> a"
  shows "session_dead a (snd (sessions_rotate (Some b) fresh now r))"
  using assms by (auto simp: sessions_rotate_def Let_def session_dead_def split: option.split)

lemma deleted_dead:
  assumes "registry_wf r" "a < length (sr_heap r)"
  shows "session_dead a (sessions_deleteLocked a r)"
  using assms by (auto simp: session_dead_def sessions_deleteLocked_def Let_def registry_wf_def)

lemma run_dead:
  assumes "runs_without a r s" "session_dead a r"
  shows "session_dead a s"
  using assms(1)
proof (induction rule: registry_runs.induct)
  case (call s op)
  show ?case
  proof (cases op)
    case (Rotate b fresh now)
    then show ?thesis using rotate_other_dead [OF call(4)] call(3) by (simp add: run_registry_def)
  next
    case RevokeAll
    then show ?thesis using call(4) by (simp add: run_registry_def sessions_revokeAll_def session_dead_def)
  qed (use call(4) dead_create validate_dead(2) shrinks_dead [OF shrinks_delete] in \<open>simp_all add: run_registry_def sessions_revoke_def\<close>)
qed (rule assms(2))

text \<open>Every entry of a reachable registry has a session and an identifier.\<close>

lemma wf_validate:
  assumes "registry_wf r"
  shows "registry_wf (snd (sessions_validate sid now r))"
proof -
  have "registry_wf (sessions_deleteLocked a r)" "registry_wf (r\<lparr> sr_sessions := gm_del k (sr_sessions r) \<rparr>)" "registry_wf (r\<lparr> sr_heap := (sr_heap r)[a := x] \<rparr>)" for a k x
    using shrinks_wf [OF shrinks_delete assms] shrinks_wf [OF shrinks_del assms] assms by (simp_all add: registry_wf_def)
  then show ?thesis using assms by (simp add: sessions_validate_def Let_def split: option.split)
qed

lemma wf_create: "registry_wf r \<Longrightarrow> fresh \<noteq> Some [] \<Longrightarrow> registry_wf (snd (sessions_create expires fresh now r))"
  using shrinks_wf [OF shrinks_room, of r now]
  by (cases fresh) (auto simp: sessions_create_def Let_def registry_wf_def intro: less_SucI)

text \<open>Sessions keep an identifier, so a rotation never registers the empty one.\<close>

definition ids_ok :: "sessionRegistry \<Rightarrow> bool" where
  "ids_ok r \<longleftrightarrow> (\<forall>s \<in> set (sr_heap r). sn_id s \<noteq> [])"

lemma ids_shrinks: "shrinks r s \<Longrightarrow> ids_ok r \<Longrightarrow> ids_ok s"
  by (simp add: shrinks_def ids_ok_def)

lemma ids_update: "ids_ok r \<Longrightarrow> sn_id s \<noteq> [] \<Longrightarrow> ids_ok (r\<lparr> sr_heap := (sr_heap r)[a := s] \<rparr>)"
  by (auto simp: ids_ok_def dest!: set_update_subset_insert [THEN subsetD])

lemma ids_validate:
  assumes "registry_wf r" "ids_ok r"
  shows "ids_ok (snd (sessions_validate sid now r))"
proof -
  have "sn_id (deref r a) \<noteq> []" if "gm_get (sr_sessions r) sid = Some a" for a using assms that by (simp add: registry_wf_def ids_ok_def)
  then show ?thesis using assms(2) ids_shrinks [OF shrinks_delete] ids_shrinks [OF shrinks_del] ids_update
    by (auto simp: sessions_validate_def Let_def split: option.split)
qed

lemma wf_rotate:
  assumes "registry_wf r" "ids_ok r" "a < length (sr_heap r)" "fresh \<noteq> Some []"
  shows "registry_wf (snd (sessions_rotate (Some a) fresh now r)) \<and> ids_ok (snd (sessions_rotate (Some a) fresh now r))"
proof (cases fresh)
  case (Some sid)
  have "sn_id (deref r a) \<noteq> []" using assms(2,3) by (simp add: ids_ok_def)
  then have "registry_wf (snd (sessions_rotate (Some a) fresh now r))" using assms(1,3,4) Some by (auto simp: sessions_rotate_def Let_def registry_wf_def)
  moreover have "ids_ok (snd (sessions_rotate (Some a) fresh now r))" using assms(2,4) Some
    by (auto simp: sessions_rotate_def Let_def ids_ok_def dest!: set_update_subset_insert [THEN subsetD])
  ultimately show ?thesis by blast
qed (use assms in \<open>simp add: sessions_rotate_def\<close>)

lemma reachable_ok:
  assumes "registry_reachable r"
  shows "registry_wf r \<and> ids_ok r"
  using assms
proof (induction rule: registry_runs.induct)
  case start
  show ?case by (simp add: registry_wf_def ids_ok_def newSessionRegistry_def)
next
  case (call s op)
  then have w: "registry_wf s" "ids_ok s" by simp_all
  show ?case
  proof (cases op)
    case (Create e fresh now)
    then have "registry_wf (run_registry op s)" using wf_create [OF w(1)] call(2) by (simp add: run_registry_def op_ok_def)
    moreover have "ids_ok (run_registry op s)" using ids_shrinks [OF shrinks_room w(2)] call(2) Create
      by (cases fresh) (auto simp: run_registry_def sessions_create_def Let_def ids_ok_def op_ok_def)
    ultimately show ?thesis by blast
  next
    case (Rotate a fresh now)
    then show ?thesis using wf_rotate [OF w] call(2) by (simp add: run_registry_def op_ok_def)
  next
    case RevokeAll
    then show ?thesis using w by (simp add: run_registry_def sessions_revokeAll_def registry_wf_def ids_ok_def)
  qed (use w wf_validate ids_validate shrinks_wf [OF shrinks_delete] ids_shrinks [OF shrinks_delete] in \<open>simp_all add: run_registry_def sessions_revoke_def\<close>)
qed

lemmas reachable_wf = reachable_ok [THEN conjunct1]

lemma validateSession_validates:
  assumes "fst (validateSession mac q r) = Some a"
  obtains sid now where "fst (sessions_validate sid now r) = Some a"
proof -
  obtain sid e where p: "parseSessionCookie mac (rq_parsed q) (rq_cookie q) = Some (sid, e)" using assms by (auto simp: validateSession_def split: option.split_asm)
  obtain b r1 where v: "sessions_validate sid (rq_validated q) r = (Some b, r1)"
    using assms p by (auto simp: validateSession_def split: option.split_asm prod.split_asm)
  have "b = a" using assms p v by (auto simp: validateSession_def sessions_rotate_def Let_def split: if_split_asm option.split_asm)
  then show thesis using that v by (metis fst_conv)
qed

text \<open>
  C26: A revoked session stays revoked. After a logout of the session or the revocation of all sessions, no request is accepted for it any more, whatever cookie it carries, in
  every later interleaving of sign-ins, validations, revocations and rotations of other sessions. Rotations of the revoked session itself are excluded.
\<close>

theorem revoked_stays_dead:
  assumes "registry_reachable r" and "a < length (sr_heap r)" and "r1 = sessions_revoke (Some a) r \<or> r1 = snd (sessions_revokeAll r)" and "runs_without a r1 r2"
  shows "fst (validateSession mac q r2) \<noteq> Some a"
proof
  assume "fst (validateSession mac q r2) = Some a"
  then obtain sid now where v: "fst (sessions_validate sid now r2) = Some a" by (rule validateSession_validates)
  have "session_dead a (snd (sessions_revokeAll r))" using assms(2) by (simp add: session_dead_def sessions_revokeAll_def)
  then have "session_dead a r1" using assms(3) deleted_dead [OF reachable_wf [OF assms(1)] assms(2)] by (auto simp: sessions_revoke_def)
  then have "session_dead a r2" by (rule run_dead [OF assms(4)])
  then show False using validate_dead(1) v by blast
qed

text \<open>
  C31: A rotation brings a revoked session back. When all sessions are revoked between the validation of a request and the rotation that the same request
  performs, the rotated session is registered again and the new cookie is accepted until the session ends by its age.
\<close>

theorem rotation_undoes_revocation:
  assumes "registry_reachable r" and "sessions_validate sid now r = (Some a, r1)" and "sessions_rotate (Some a) (Some fresh) now1 (snd (sessions_revokeAll r1)) = (Some b, r2)"
    and "now2 < sn_expires (deref r a)" and "time_sub now2 now1 \<le> sr_idle r" and "time_sub now2 (sn_created (deref r a)) \<le> sr_absolute r"
  shows "fst (sessions_validate fresh now2 r2) = Some a"
proof -
  have a: "a < length (sr_heap r)" "r1 = r\<lparr> sr_heap := (sr_heap r)[a := (deref r a)\<lparr> sn_lastSeen := now \<rparr>] \<rparr>"
    using reachable_wf [OF assms(1)] assms(2) by (auto simp: sessions_validate_def Let_def registry_wf_def split: option.split_asm if_split_asm)
  then show ?thesis using assms(3-6) by (auto simp: sessions_rotate_def sessions_revokeAll_def Let_def sessions_validate_def)
qed

section \<open>Rotation\<close>

fun rotate_all :: "session_ref \<Rightarrow> (string \<times> gotime) list \<Rightarrow> sessionRegistry \<Rightarrow> sessionRegistry" where
  "rotate_all a [] r = r"
| "rotate_all a ((sid, now) # calls) r = rotate_all a calls (snd (sessions_rotate (Some a) (Some sid) now r))"

lemma length_gm_card: "gm_wf m \<Longrightarrow> length m = card (dom (gm_get m))"
  by (metis distinct_card dom_map_of_conv_image_fst gm_wf_def length_map set_map)

text \<open>All entries lead to the one session, which answers to the last two of them.\<close>

definition one_session :: "string set \<Rightarrow> sessionRegistry \<Rightarrow> bool" where
  "one_session K r \<longleftrightarrow> [] \<notin> K \<and> length (sr_heap r) = 1 \<and> gm_wf (sr_sessions r) \<and> (\<forall>k. gm_get (sr_sessions r) k = (if k \<in> K then Some 0 else None))
     \<and> sn_id (deref r 0) \<in> K \<and> sn_id (deref r 0) \<noteq> [] \<and> (sn_previousID (deref r 0) = [] \<or> sn_previousID (deref r 0) \<in> K - {sn_id (deref r 0)})"

lemma one_session_rotate:
  assumes "one_session K r" "sid \<notin> K" "sid \<noteq> []"
  shows "one_session (insert sid K) (snd (sessions_rotate (Some 0) (Some sid) now r))" "sn_previousID (deref (snd (sessions_rotate (Some 0) (Some sid) now r)) 0) \<noteq> []"
  using assms by (auto simp: one_session_def sessions_rotate_def Let_def)

lemma one_session_all:
  assumes "one_session K r" "distinct (map fst calls)" "set (map fst calls) \<inter> K = {}" "[] \<notin> set (map fst calls)"
  shows "one_session (K \<union> set (map fst calls)) (rotate_all 0 calls r)
    \<and> (calls \<noteq> [] \<or> sn_previousID (deref r 0) \<noteq> [] \<longrightarrow> sn_previousID (deref (rotate_all 0 calls r) 0) \<noteq> [])
    \<and> (calls = [] \<longrightarrow> sn_previousID (deref (rotate_all 0 calls r) 0) = sn_previousID (deref r 0))"
  using assms
proof (induction calls arbitrary: K r)
  case (Cons call calls)
  obtain sid now where c: "call = (sid, now)" by (rule prod.exhaust)
  let ?r = "snd (sessions_rotate (Some 0) (Some sid) now r)"
  have sid: "sid \<notin> K" "sid \<noteq> []" using Cons.prems(3,4) c by auto
  note o = one_session_rotate [OF Cons.prems(1) sid]
  have "one_session (insert sid K \<union> set (map fst calls)) (rotate_all 0 calls ?r)
    \<and> (calls \<noteq> [] \<or> sn_previousID (deref ?r 0) \<noteq> [] \<longrightarrow> sn_previousID (deref (rotate_all 0 calls ?r) 0) \<noteq> [])
    \<and> (calls = [] \<longrightarrow> sn_previousID (deref (rotate_all 0 calls ?r) 0) = sn_previousID (deref ?r 0))"
    by (rule Cons.IH [OF o(1)]) (use Cons.prems c in auto)
  then show ?case using o(2) c by simp
qed simp

lemma one_session_count:
  assumes "one_session K r" "finite K"
  shows "sessions_count r = card K"
    "sessions_count (sessions_revoke (Some 0) r) = card (K - {sn_id (deref r 0), sn_previousID (deref r 0)})"
proof -
  have h: "length (sr_heap r) = 1" "gm_wf (sr_sessions r)" "\<And>k. gm_get (sr_sessions r) k = (if k \<in> K then Some 0 else None)" "sn_id (deref r 0) \<noteq> []"
    using assms(1) by (auto simp: one_session_def)
  have all: "filter (\<lambda>(_, a). sn_id (deref r a) \<noteq> []) m = m" if "gm_wf m" "\<And>k x. gm_get m k = Some x \<Longrightarrow> x = 0" for m
    using that h(4) by (auto simp: filter_id_conv gm_wf_get_iff)
  have d: "dom (gm_get (sr_sessions r)) = K" using h(3) by (auto simp: dom_def)
  have "\<And>k x. gm_get (sr_sessions r) k = Some x \<Longrightarrow> x = 0" using h(3) by (simp split: if_split_asm)
  from all [OF h(2) this] show "sessions_count r = card K" using length_gm_card [OF h(2)] d by (simp add: sessions_count_def)
  let ?m = "sr_sessions (sessions_deleteLocked 0 r)"
  have w: "gm_wf ?m" "sr_heap (sessions_deleteLocked 0 r) = sr_heap r" using h(2) by (simp_all add: sessions_deleteLocked_def Let_def)
  have e: "dom (gm_get ?m) = K - {sn_id (deref r 0), sn_previousID (deref r 0)}"
    using h(3) assms(1) by (auto simp: sessions_deleteLocked_def Let_def dom_def one_session_def split: if_split_asm)
  have "\<And>k x. gm_get ?m k = Some x \<Longrightarrow> x = 0" using h(3) by (auto simp: sessions_deleteLocked_def Let_def split: if_split_asm)
  from all [OF w(1) this] show "sessions_count (sessions_revoke (Some 0) r) = card (K - {sn_id (deref r 0), sn_previousID (deref r 0)})"
    using length_gm_card [OF w(1)] e w(2) by (simp add: sessions_count_def sessions_revoke_def)
qed

text \<open>
  Every rotation leaves an entry behind. One session that was rotated \<open>n\<close> times counts as \<open>n + 1\<close> sessions in the status and against the capacity of the table, and
  after its logout \<open>n - 1\<close> entries remain that no identifier of a session can reach.
\<close>

theorem rotation_leaks_entries:
  assumes "sessions_create expires (Some first) now newSessionRegistry = (Some a, r)" and "distinct (first # map fst calls)" and "[] \<notin> set (first # map fst calls)"
  shows "length (sr_heap (rotate_all a calls r)) = 1 \<and> sessions_count (rotate_all a calls r) = length calls + 1
    \<and> sessions_count (sessions_revoke (Some a) (rotate_all a calls r)) = length calls - 1"
proof -
  have room: "sessions_makeRoom now newSessionRegistry = newSessionRegistry" by (simp add: sessions_makeRoom_def sessions_gcLocked_def newSessionRegistry_def maxGatewaySessions_def)
  have a: "a = 0" "one_session {first} r" "sn_previousID (deref r 0) = []"
    using assms(1,3) by (auto simp: sessions_create_def room Let_def one_session_def) (auto simp: newSessionRegistry_def gm_wf_def)
  let ?r = "rotate_all 0 calls r" let ?K = "{first} \<union> set (map fst calls)"
  have o: "one_session ?K ?r" "calls \<noteq> [] \<Longrightarrow> sn_previousID (deref ?r 0) \<noteq> []" "calls = [] \<Longrightarrow> sn_previousID (deref ?r 0) = []"
    using one_session_all [OF a(2), of calls] assms(2,3) a(3) by auto
  have card: "card ?K = length calls + 1" using distinct_card [OF assms(2)] by simp
  note c = one_session_count [OF o(1)]
  have m: "sn_id (deref ?r 0) \<in> ?K" "sn_previousID (deref ?r 0) = [] \<or> sn_previousID (deref ?r 0) \<in> ?K - {sn_id (deref ?r 0)}" "[] \<notin> ?K"
    using o(1) by (auto simp: one_session_def)
  have "card (?K - {sn_id (deref ?r 0), sn_previousID (deref ?r 0)}) = length calls - 1"
  proof (cases "calls = []")
    case True
    then show ?thesis using m by auto
  next
    case False
    then have p: "sn_previousID (deref ?r 0) \<in> ?K - {sn_id (deref ?r 0)}" using m(2) o(2) by blast
    have "?K - {sn_id (deref ?r 0), sn_previousID (deref ?r 0)} = ?K - {sn_id (deref ?r 0)} - {sn_previousID (deref ?r 0)}" by blast
    then show ?thesis using card card_Diff_singleton [OF m(1)] card_Diff_singleton [OF p] by simp
  qed
  then show ?thesis using c card o(1) a(1) by (simp add: one_session_def)
qed

section \<open>The cookie\<close>

lemma split_char_none: "c \<notin> set p \<Longrightarrow> split_char c p = [p]"
  by (induction p) auto

lemma split_char_append: "c \<notin> set p \<Longrightarrow> split_char c (p @ c # q) = p # split_char c q"
  by (induction p) auto

lemma split_char_pair: "c \<notin> set p \<Longrightarrow> c \<notin> set q \<Longrightarrow> split_char c (p @ c # q) = [p, q]"
  by (simp add: split_char_append split_char_none)

lemma dec_int_dot: "CHR ''.'' \<notin> set (dec_int i)"
  using dec_nat_not_sep by (auto simp: dec_int_def)

lemma parseInt64_dec:
  assumes "in_int64 i"
  shows "parseInt64 (dec_int i) = Some i"
proof (cases "i < 0")
  case True
  then show ?thesis using assms by (simp add: parseInt64_def dec_int_def)
next
  case False
  obtain c cs where d: "dec_nat (nat i) = c # cs" by (cases "dec_nat (nat i)") simp_all
  then have "c \<noteq> CHR ''-''" "c \<noteq> CHR ''+''" using dec_nat_chars [of c "nat i"] by auto
  then show ?thesis using False assms d dec_value_dec_nat [of "nat i"] by (simp add: parseInt64_def dec_int_def)
qed

text \<open>
  The cookie of a session names that session. What \<open>sessionCookie\<close> signs is read back, while the cookie is in its time, as the identifier of the session and its expiry
  in whole seconds.
\<close>

theorem session_cookie_roundtrip:
  assumes "\<And>x. length (mac x) = 32" and "CHR ''.'' \<notin> set (sn_id s)" and "16 \<le> length (sn_id s)" and "length (sn_id s) \<le> 128" and "in_int64 (time_unix (sn_expires s))"
    and "time_unix now \<le> time_unix (sn_expires s)" and "time_unix (sn_expires s) \<le> time_unix (time_add now (sessionAbsoluteLifetime + hour))"
  shows "parseSessionCookie mac now (Some (signSessionPayload mac (sessionCookiePayload s))) = Some (sn_id s, unix_time (time_unix (sn_expires s)))"
proof -
  let ?p = "sessionCookiePayload s"
  have c: "split_char CHR ''.'' (signSessionPayload mac ?p) = [b64_encode ?p, b64_encode (mac (cookie_domain @ ?p))]"
    unfolding signSessionPayload_def by (rule split_char_pair [OF b64_encode_dot b64_encode_dot])
  have f: "split_char CHR ''.'' ?p = [dec_int (time_unix (sn_expires s)), sn_id s]"
    unfolding sessionCookiePayload_def by (rule split_char_pair [OF dec_int_dot assms(2)])
  show ?thesis using c f assms(1,3-7) parseInt64_dec [OF assms(5)] by (simp add: parseSessionCookie_def)
qed

section \<open>Examples\<close>

definition sample_mac :: "string \<Rightarrow> string" where
  "sample_mac x = replicate 32 (CHR ''m'')"

definition sample_now :: gotime where "sample_now = unix_time 1700000000"

definition sample_request :: gateway_request where
  "sample_request = \<lparr> rq_cookie = Some (signSessionPayload sample_mac (sessionCookiePayload \<lparr> sn_id = ''operator-session-1'', sn_previousID = [], sn_previousValidUntil = 0,
     sn_created = sample_now, sn_rotatedAt = sample_now, sn_lastSeen = sample_now, sn_expires = sample_now + 8 * hour \<rparr>)), rq_parsed = sample_now, rq_validated = sample_now,
     rq_since = sample_now, rq_rotated = sample_now, rq_fresh = None, rq_sameOrigin = True, rq_body = None \<rparr>"

definition sample_registry :: sessionRegistry where
  "sample_registry = run_registry (Create 0 (Some ''operator-session-1'') sample_now) newSessionRegistry"

lemma sample_registry_eq:
  "sample_registry = newSessionRegistry\<lparr> sr_sessions := [(''operator-session-1'', 0)], sr_heap := [\<lparr> sn_id = ''operator-session-1'', sn_previousID = [],
     sn_previousValidUntil = 0, sn_created = sample_now, sn_rotatedAt = sample_now, sn_lastSeen = sample_now, sn_expires = sample_now + 8 * hour \<rparr>] \<rparr>"
  by (simp add: sample_registry_def run_registry_def sessions_create_def sessions_makeRoom_def sessions_gcLocked_def newSessionRegistry_def maxGatewaySessions_def
      Let_def time_is_zero_def time_add_def sessionAbsoluteLifetime_def)

lemma sample_reachable: "registry_reachable sample_registry"
  unfolding sample_registry_def by (rule registry_runs.call [OF registry_runs.start]) (simp_all add: op_ok_def)

lemma sample_before: "fst (sessions_validate ''operator-session-1'' sample_now sample_registry) = Some 0"
  by (simp add: sample_registry_eq sessions_validate_def newSessionRegistry_def Let_def time_sub_def max_duration_def min_duration_def sessionIdleTimeout_def sessionAbsoluteLifetime_def)

text \<open>After the logout another operator signs in; the old cookie is refused, which it was not before.\<close>

theorem revoked_stays_dead_witness:
  "fst (validateSession sample_mac sample_request (run_registry (Create 0 (Some ''operator-session-2'') sample_now) (sessions_revoke (Some 0) sample_registry))) \<noteq> Some 0
    \<and> fst (sessions_validate ''operator-session-1'' sample_now sample_registry) = Some 0"
proof -
  let ?r1 = "sessions_revoke (Some 0) sample_registry" let ?op = "Create 0 (Some ''operator-session-2'') sample_now"
  have "runs_without 0 ?r1 (run_registry ?op ?r1)" by (rule registry_runs.call [OF registry_runs.start]) (simp_all add: op_ok_def)
  from revoked_stays_dead [OF sample_reachable _ _ this] show ?thesis using sample_before by (simp add: sample_registry_eq)
qed

text \<open>The request was validated before the revocation and rotates after it.\<close>

theorem rotation_undoes_revocation_witness:
  "fst (sessions_validate ''operator-session-2'' sample_now (snd (sessions_rotate (Some 0) (Some ''operator-session-2'') sample_now
     (snd (sessions_revokeAll (snd (sessions_validate ''operator-session-1'' sample_now sample_registry))))))) = Some 0"
proof -
  obtain r1 where v: "sessions_validate ''operator-session-1'' sample_now sample_registry = (Some 0, r1)" using sample_before by (metis prod.collapse)
  obtain r2 where t: "sessions_rotate (Some 0) (Some ''operator-session-2'') sample_now (snd (sessions_revokeAll r1)) = (Some 0, r2)" by (simp add: sessions_rotate_def Let_def)
  show ?thesis using rotation_undoes_revocation [OF sample_reachable v t, of sample_now] v t
    by (simp add: sample_registry_eq newSessionRegistry_def time_sub_def max_duration_def min_duration_def sessionIdleTimeout_def sessionAbsoluteLifetime_def)
qed

theorem rotation_leaks_entries_witness:
  "sessions_count (rotate_all 0 [(''operator-session-2'', sample_now), (''operator-session-3'', sample_now)] sample_registry) = 3
    \<and> sessions_count (sessions_revoke (Some 0) (rotate_all 0 [(''operator-session-2'', sample_now), (''operator-session-3'', sample_now)] sample_registry)) = 1"
proof -
  have c: "sessions_create 0 (Some ''operator-session-1'') sample_now newSessionRegistry = (Some 0, sample_registry)"
    by (simp add: sample_registry_eq sessions_create_def sessions_makeRoom_def sessions_gcLocked_def newSessionRegistry_def maxGatewaySessions_def
        Let_def time_is_zero_def time_add_def sessionAbsoluteLifetime_def)
  from rotation_leaks_entries [OF c, of "[(''operator-session-2'', sample_now), (''operator-session-3'', sample_now)]"] show ?thesis by simp
qed

theorem session_cookie_roundtrip_witness:
  "parseSessionCookie sample_mac sample_now (Some (signSessionPayload sample_mac (sessionCookiePayload (deref sample_registry 0))))
    = Some (''operator-session-1'', unix_time 1700028800)"
  using session_cookie_roundtrip [of sample_mac "deref sample_registry 0" sample_now]
  by (simp add: sample_registry_eq sample_mac_def sample_now_def time_unix_def unix_time_def time_add_def sessionAbsoluteLifetime_def in_int64_def)

end
