(* ===== verification/Login_Limiter.thy ===== *)
theory Login_Limiter
  imports Prelude
begin

text \<open>
  The sign-in limiter of the access gateway, \<open>gateway/main.go\<close>: a window of failed attempts per source address and a ring of all recent failures. The lock is held for
  each method, so a method is one step; a sign-in calls \<open>allow\<close>, reads the form, checks the password without the lock and then calls \<open>fail\<close> or \<open>success\<close>, or neither when the form is rejected.
\<close>

record login_limiter =
  ll_entries :: "(string, gotime list) gomap"
  ll_maxEntries :: nat
  ll_failures :: "gotime list"

definition newLimiter :: login_limiter where
  "newLimiter = \<lparr> ll_entries = [], ll_maxEntries = 4096, ll_failures = [] \<rparr>"

definition lastFailure :: "gotime list \<Rightarrow> gotime" where
  "lastFailure w = (if w = [] then 0 else last w)"

definition limiter_oldest :: "(string, gotime list) gomap \<Rightarrow> string \<times> gotime" where
  "limiter_oldest m = fold (\<lambda>(key, w) (oldestKey, oldest). if oldestKey = [] \<or> lastFailure w < oldest then (key, lastFailure w) else (oldestKey, oldest)) m ([], 0)"

definition limiter_evict :: "login_limiter \<Rightarrow> login_limiter" where
  "limiter_evict l =
     (if length (ll_entries l) \<ge> ll_maxEntries l
      then (case limiter_oldest (ll_entries l) of (key, _) \<Rightarrow> if key \<noteq> [] then l\<lparr> ll_entries := gm_del key (ll_entries l) \<rparr> else l) else l)"

definition limiter_allow :: "string \<Rightarrow> gotime \<Rightarrow> login_limiter \<Rightarrow> bool \<times> login_limiter" where
  "limiter_allow ip now l =
     (let cutoff = time_add now (- (15 * minute));
          l = (if gm_has (ll_entries l) ip then l else (let l = limiter_evict l in l\<lparr> ll_entries := gm_put ip [] (ll_entries l) \<rparr>));
          kept = filter (\<lambda>t. t > cutoff) (the (gm_get (ll_entries l) ip))
      in (length kept < 5, l\<lparr> ll_entries := gm_put ip kept (ll_entries l) \<rparr>))"

definition limiter_fail :: "string \<Rightarrow> gotime \<Rightarrow> login_limiter \<Rightarrow> login_limiter" where
  "limiter_fail ip now l =
     (let w = (case gm_get (ll_entries l) ip of None \<Rightarrow> [] | Some w \<Rightarrow> w);
          kept = filter (\<lambda>t. t > time_add now (- (5 * minute))) (ll_failures l @ [now])
      in l\<lparr> ll_entries := gm_put ip (w @ [now]) (ll_entries l), ll_failures := (if length kept > 512 then drop (length kept - 512) kept else kept) \<rparr>)"

definition limiter_pressure :: "gotime \<Rightarrow> login_limiter \<Rightarrow> nat" where
  "limiter_pressure now l = length (filter (\<lambda>t. t > time_add now (- (5 * minute))) (ll_failures l))"

definition limiter_success :: "string \<Rightarrow> login_limiter \<Rightarrow> login_limiter" where
  "limiter_success ip l = l\<lparr> ll_entries := gm_del ip (ll_entries l) \<rparr>"

section \<open>Sign-ins one after the other\<close>

text \<open>
  A sign-in that reaches the limiter: source, time, and what the form holds: it is rejected for its size or its token before a password is read, or its password is wrong or right. The result says
  whether a password was checked at all.
\<close>

datatype login_form = FormRejected | PasswordWrong | PasswordRight

type_synonym sign_in = "string \<times> gotime \<times> login_form"

definition limiter_login :: "sign_in \<Rightarrow> login_limiter \<Rightarrow> bool \<times> login_limiter" where
  "limiter_login e l =
     (case e of (ip, now, form) \<Rightarrow>
        case limiter_allow ip now l of
          (False, l) \<Rightarrow> (False, l)
        | (True, l) \<Rightarrow> (case form of
              FormRejected \<Rightarrow> (False, l)
            | PasswordWrong \<Rightarrow> (True, limiter_fail ip now l)
            | PasswordRight \<Rightarrow> (True, limiter_success ip l)))"

text \<open>The failed password checks of a source since its last success, with their times.\<close>

fun login_run :: "sign_in list \<Rightarrow> login_limiter \<times> (string \<Rightarrow> gotime list) \<Rightarrow> login_limiter \<times> (string \<Rightarrow> gotime list)" where
  "login_run [] s = s"
| "login_run ((ip, now, form) # es) (l, checked) =
     (case limiter_login (ip, now, form) l of
        (False, l) \<Rightarrow> login_run es (l, checked)
      | (True, l) \<Rightarrow> login_run es (l, checked(ip := if form = PasswordRight then [] else checked ip @ [now])))"

text \<open>Every window of the limiter holds what it must of the checks, and no fifteen minutes hold more than five.\<close>

definition window_count :: "gotime \<Rightarrow> gotime list \<Rightarrow> nat" where
  "window_count t ts = length (filter (\<lambda>u. t - 15 * minute < u \<and> u \<le> t) ts)"

definition limiter_inv :: "gotime \<Rightarrow> login_limiter \<times> (string \<Rightarrow> gotime list) \<Rightarrow> bool" where
  "limiter_inv now s \<longleftrightarrow> (case s of (l, checked) \<Rightarrow> gm_wf (ll_entries l)
     \<and> (\<forall>ip. \<forall>c \<ge> now - 15 * minute. filter (\<lambda>t. t > c) (case gm_get (ll_entries l) ip of None \<Rightarrow> [] | Some w \<Rightarrow> w) = filter (\<lambda>t. t > c) (checked ip))
     \<and> (\<forall>ip. \<forall>u \<in> set (checked ip). u \<le> now) \<and> (\<forall>ip t. window_count t (checked ip) \<le> 5))"

lemma filter_filter_le: "c \<le> d \<Longrightarrow> filter (\<lambda>t. t > d) (filter (\<lambda>t. t > c) xs) = filter (\<lambda>t. t > d) (xs :: gotime list)"
  by (induction xs) auto

lemma window_snoc:
  assumes "length (filter (\<lambda>t. t > now - 15 * minute) ts) < 5" "\<forall>u \<in> set ts. u \<le> now" "\<forall>t. window_count t ts \<le> 5"
  shows "window_count t (ts @ [now]) \<le> 5"
proof (cases "t - 15 * minute < now \<and> now \<le> t")
  case True
  have "length (filter (\<lambda>u. t - 15 * minute < u \<and> u \<le> t) ts) \<le> length (filter (\<lambda>u. u > now - 15 * minute) ts)"
  proof -
    have "filter (\<lambda>u. t - 15 * minute < u \<and> u \<le> t) ts = filter (\<lambda>u. t - 15 * minute < u \<and> u \<le> t) (filter (\<lambda>u. u > now - 15 * minute) ts)"
      unfolding filter_filter by (rule filter_cong) (use True in auto)
    then show ?thesis by (simp only: length_filter_le)
  qed
  then show ?thesis using assms(1) by (simp add: window_count_def)
next
  case False
  then show ?thesis using assms(3) by (auto simp: window_count_def)
qed

lemma login_keeps:
  assumes inv: "limiter_inv before (l, checked)" and le: "before \<le> now" and room: "gm_has (ll_entries l) ip \<or> length (ll_entries l) < ll_maxEntries l"
  shows "limiter_inv now (login_run [(ip, now, form)] (l, checked))"
    and "fst ` set (ll_entries (fst (login_run [(ip, now, form)] (l, checked)))) \<subseteq> insert ip (fst ` set (ll_entries l))"
    and "ll_maxEntries (fst (login_run [(ip, now, form)] (l, checked))) = ll_maxEntries l"
proof -
  let ?c = "now - 15 * minute"
  define w where "w = (case gm_get (ll_entries l) ip of None \<Rightarrow> [] | Some w \<Rightarrow> w)"
  let ?kept = "filter (\<lambda>t. t > ?c) w"
  have old: "\<And>k c. c \<ge> before - 15 * minute \<Longrightarrow> filter (\<lambda>t. t > c) (case gm_get (ll_entries l) k of None \<Rightarrow> [] | Some w \<Rightarrow> w) = filter (\<lambda>t. t > c) (checked k)"
    "\<And>k u. u \<in> set (checked k) \<Longrightarrow> u \<le> before" "\<And>k t. window_count t (checked k) \<le> 5" "gm_wf (ll_entries l)"
    using inv by (auto simp: limiter_inv_def)
  have kept: "filter (\<lambda>t. t > c) ?kept = filter (\<lambda>t. t > c) (checked ip)" if "c \<ge> ?c" for c
    using filter_filter_le [OF that] old(1) [of c ip] that le by (simp add: w_def)
  have allow: "\<exists>m. limiter_allow ip now l = (length ?kept < 5, l\<lparr> ll_entries := gm_put ip ?kept m \<rparr>) \<and> gm_wf m \<and> (\<forall>k. k \<noteq> ip \<longrightarrow> gm_get m k = gm_get (ll_entries l) k)
      \<and> fst ` set m \<subseteq> insert ip (fst ` set (ll_entries l))"
  proof (cases "gm_has (ll_entries l) ip")
    case True
    then show ?thesis using old(4) by (intro exI [of _ "ll_entries l"]) (auto simp: limiter_allow_def Let_def time_add_def w_def gm_has_def)
  next
    case False
    then have "limiter_evict l = l" using room by (simp add: limiter_evict_def)
    then show ?thesis using False old(4)
      by (intro exI [of _ "gm_put ip [] (ll_entries l)"]) (auto simp: limiter_allow_def Let_def time_add_def w_def gm_has_def dom_update)
  qed
  then obtain m where m: "limiter_allow ip now l = (length ?kept < 5, l\<lparr> ll_entries := gm_put ip ?kept m \<rparr>)" "gm_wf m" "\<And>k. k \<noteq> ip \<Longrightarrow> gm_get m k = gm_get (ll_entries l) k"
    "fst ` set m \<subseteq> insert ip (fst ` set (ll_entries l))" by blast
  have bound: "\<And>k u. u \<in> set (checked k) \<Longrightarrow> u \<le> now" using old(2) le by fastforce
  have other: "filter (\<lambda>t. t > c) (case gm_get m k of None \<Rightarrow> [] | Some w \<Rightarrow> w) = filter (\<lambda>t. t > c) (checked k)" if "c \<ge> ?c" "k \<noteq> ip" for c k
    using old(1) [of c k] that le m(3) by simp
  consider (locked) "\<not> length ?kept < 5" | (refused) "length ?kept < 5" "form = FormRejected"
    | (ok) "length ?kept < 5" "form = PasswordRight" | (wrong) "length ?kept < 5" "form = PasswordWrong" by (cases form) blast+
  then show "limiter_inv now (login_run [(ip, now, form)] (l, checked))"
  proof cases
    case locked
    then have "login_run [(ip, now, form)] (l, checked) = (l\<lparr> ll_entries := gm_put ip ?kept m \<rparr>, checked)" by (simp add: limiter_login_def m(1))
    then show ?thesis using kept other bound old(3) m(2) by (simp add: limiter_inv_def)
  next
    case refused
    then have "login_run [(ip, now, form)] (l, checked) = (l\<lparr> ll_entries := gm_put ip ?kept m \<rparr>, checked)" by (simp add: limiter_login_def m(1))
    then show ?thesis using kept other bound old(3) m(2) by (simp add: limiter_inv_def)
  next
    case ok
    then have "login_run [(ip, now, form)] (l, checked) = (l\<lparr> ll_entries := gm_del ip (gm_put ip ?kept m) \<rparr>, checked(ip := []))"
      by (simp add: limiter_login_def m(1) limiter_success_def)
    then show ?thesis using other bound old(3) m(2) by (simp add: limiter_inv_def window_count_def)
  next
    case wrong
    obtain fs where r: "login_run [(ip, now, form)] (l, checked)
      = (l\<lparr> ll_entries := gm_put ip (?kept @ [now]) (gm_put ip ?kept m), ll_failures := fs \<rparr>, checked(ip := checked ip @ [now]))"
      using wrong by (simp add: limiter_login_def m(1) limiter_fail_def Let_def)
    have "length (filter (\<lambda>t. t > ?c) (checked ip)) < 5" using kept [of ?c] wrong(1) by simp
    then have win: "window_count t (checked ip @ [now]) \<le> 5" for t by (rule window_snoc) (use bound old(3) in auto)
    have "filter (\<lambda>t. t > c) (?kept @ [now]) = filter (\<lambda>t. t > c) (checked ip @ [now])" if "c \<ge> ?c" for c using kept [OF that] by (simp only: filter_append)
    then show ?thesis unfolding r limiter_inv_def using other bound old(3) m(2) win by (auto simp del: filter_append filter_filter)
  qed
  show "fst ` set (ll_entries (fst (login_run [(ip, now, form)] (l, checked)))) \<subseteq> insert ip (fst ` set (ll_entries l))"
  proof -
    have d: "fst ` set (gm_del ip x) \<subseteq> fst ` set x" for x :: "(string, gotime list) gomap" by (auto simp: AList.delete_eq)
    have u: "fst ` set (gm_put ip ?kept m) \<subseteq> insert ip (fst ` set (ll_entries l))" using m(4) by (simp add: dom_update)
    have x: "fst ` set (gm_del ip (gm_put ip ?kept m)) \<subseteq> insert ip (fst ` set (ll_entries l))" by (rule order_trans [OF d u])
    show ?thesis using x u m(4)
      by (cases "length ?kept < 5"; cases form) (simp_all add: limiter_login_def m(1) limiter_success_def limiter_fail_def Let_def dom_update)
  qed
  show "ll_maxEntries (fst (login_run [(ip, now, form)] (l, checked))) = ll_maxEntries l"
    by (cases "length ?kept < 5"; cases form) (simp_all add: limiter_login_def m(1) limiter_success_def limiter_fail_def Let_def)
qed

lemma inv_mono: "limiter_inv now s \<Longrightarrow> now \<le> t \<Longrightarrow> limiter_inv t s"
  by (fastforce simp: limiter_inv_def split: prod.split_asm)

lemma login_run_append: "login_run (es @ fs) s = login_run fs (login_run es s)"
proof (induction es arbitrary: s)
  case (Cons e es)
  obtain ip now form where e: "e = (ip, now, form)" by (rule prod_cases3)
  obtain l checked where s: "s = (l, checked)" by (rule prod.exhaust)
  show ?case using Cons by (simp add: e s split: prod.split bool.split)
qed simp

lemma login_run_inv:
  assumes "sorted (map (\<lambda>(_, now, _). now) es)" "card (fst ` set es) \<le> ll_maxEntries l" "ll_entries l = []" "\<forall>(_, now, _) \<in> set es. now \<le> t"
  shows "limiter_inv t (login_run es (l, \<lambda>_. [])) \<and> fst ` set (ll_entries (fst (login_run es (l, \<lambda>_. [])))) \<subseteq> fst ` set es
    \<and> ll_maxEntries (fst (login_run es (l, \<lambda>_. []))) = ll_maxEntries l"
  using assms
proof (induction es arbitrary: t rule: rev_induct)
  case Nil
  then show ?case by (simp add: limiter_inv_def window_count_def gm_wf_def)
next
  case (snoc e es)
  obtain ip now form where e: "e = (ip, now, form)" by (rule prod_cases3)
  let ?s = "login_run es (l, \<lambda>_. [])"
  have c: "card (fst ` set es) \<le> card (fst ` set (es @ [e]))" by (rule card_mono) auto
  have srt: "sorted (map (\<lambda>(_, now, _). now) es)" "\<forall>(_, u, _) \<in> set es. u \<le> now" using snoc.prems(1) e by (auto simp: sorted_append)
  have ih: "limiter_inv now ?s" "fst ` set (ll_entries (fst ?s)) \<subseteq> fst ` set es" "ll_maxEntries (fst ?s) = ll_maxEntries l"
    using snoc.IH [OF srt(1) _ snoc.prems(3) srt(2)] c snoc.prems(2) by auto
  obtain l' checked where s: "?s = (l', checked)" by (rule prod.exhaust)
  have room: "gm_has (ll_entries l') ip \<or> length (ll_entries l') < ll_maxEntries l'"
  proof (cases "gm_has (ll_entries l') ip")
    case False
    have w: "gm_wf (ll_entries l')" using ih(1) s by (simp add: limiter_inv_def)
    then have "length (ll_entries l') = card (fst ` set (ll_entries l'))" by (metis distinct_card gm_wf_def length_map set_map)
    moreover have "ip \<notin> fst ` set (ll_entries l')" using False by (simp add: gm_has_iff_fst)
    then have "fst ` set (ll_entries l') \<subset> fst ` set (es @ [e])" using ih(2) s e by auto
    then have "card (fst ` set (ll_entries l')) < card (fst ` set (es @ [e]))" by (rule psubset_card_mono [rotated]) simp
    ultimately show ?thesis using snoc.prems(2) ih(3) s by simp
  qed simp
  note k = login_keeps [OF ih(1) [unfolded s] order.refl room, of form]
  have "now \<le> t" using snoc.prems(4) e by auto
  then have "limiter_inv t (login_run [e] ?s)" using inv_mono [OF k(1)] unfolding e s by simp
  moreover have "fst ` set (ll_entries (fst (login_run [e] ?s))) \<subseteq> fst ` set (es @ [e])" unfolding e s
    by (rule order_trans [OF k(2)]) (use ih(2) s in auto)
  ultimately show ?case using k(3) ih(3) unfolding login_run_append e s by simp
qed

text \<open>
  C29: Sign-ins that do not overlap are throttled. When sign-ins are handled one after the other, from at most as many sources as the table holds, no source has more than five
  wrong passwords checked within any fifteen minutes since its last success, however the sources alternate.
\<close>

theorem login_attempts_bounded:
  assumes "sorted (map (\<lambda>(_, now, _). now) es)" and "card (fst ` set es) \<le> ll_maxEntries newLimiter"
  shows "window_count t (snd (login_run es (newLimiter, \<lambda>_. [])) ip) \<le> 5"
proof -
  define u where "u = Max (insert 0 ((\<lambda>(_, now, _). now) ` set es))"
  have "\<forall>(_, now, _) \<in> set es. now \<le> u" unfolding u_def by (auto intro!: Max_ge rev_image_eqI)
  from login_run_inv [OF assms _ this] have "limiter_inv u (login_run es (newLimiter, \<lambda>_. []))" by (simp add: newLimiter_def)
  then show ?thesis by (auto simp: limiter_inv_def split: prod.split_asm)
qed

section \<open>Sign-ins that overlap\<close>

text \<open>Requests of one source that arrive together: how many of them the limiter lets through, and the limiter after they were all refused for their password.\<close>

fun arrive :: "nat \<Rightarrow> string \<Rightarrow> gotime \<Rightarrow> login_limiter \<Rightarrow> nat \<times> login_limiter" where
  "arrive 0 ip now l = (0, l)"
| "arrive (Suc n) ip now l =
     (case limiter_allow ip now l of (ok, l) \<Rightarrow> case arrive n ip now l of (k, l) \<Rightarrow> (if ok then Suc k else k, l))"

lemma arrive_free:
  assumes "gm_get (ll_entries l) ip = Some []"
  shows "\<exists>l'. arrive n ip now l = (n, l') \<and> gm_get (ll_entries l') ip = Some []"
  using assms
proof (induction n arbitrary: l)
  case (Suc n)
  have "\<exists>l'. limiter_allow ip now l = (True, l') \<and> gm_get (ll_entries l') ip = Some []" using Suc.prems by (simp add: limiter_allow_def gm_has_def Let_def)
  then show ?case using Suc.IH by fastforce
qed simp

lemma fails_recorded:
  assumes "gm_get (ll_entries l) ip = Some w"
  shows "gm_get (ll_entries ((limiter_fail ip now ^^ n) l)) ip = Some (w @ replicate n now)"
  using assms by (induction n) (simp_all add: limiter_fail_def Let_def replicate_append_same)

text \<open>
  C30: Sign-ins that overlap are not throttled. The limiter counts a failure only after the password was checked, so any number of requests of one source that arrive together
  pass it: all \<open>n\<close> passwords are checked, and only then the source is locked.
\<close>

theorem login_burst_unthrottled:
  assumes "0 < n"
  shows "fst (arrive n ip now newLimiter) = n
    \<and> gm_get (ll_entries ((limiter_fail ip now ^^ n) (snd (arrive n ip now newLimiter)))) ip = Some (replicate n now)"
proof -
  obtain k where k: "n = Suc k" using assms by (cases n) auto
  have "\<exists>l. limiter_allow ip now newLimiter = (True, l) \<and> gm_get (ll_entries l) ip = Some []"
    by (simp add: limiter_allow_def limiter_evict_def newLimiter_def gm_has_def Let_def)
  then obtain l where l: "limiter_allow ip now newLimiter = (True, l)" "gm_get (ll_entries l) ip = Some []" by blast
  obtain l' where "arrive k ip now l = (k, l')" "gm_get (ll_entries l') ip = Some []" using arrive_free [OF l(2)] by blast
  then have a: "arrive n ip now newLimiter = (n, l')" "gm_get (ll_entries l') ip = Some []" using l(1) by (simp_all add: k)
  show ?thesis using a fails_recorded [OF a(2)] by simp
qed

section \<open>Examples\<close>

definition sample_attempts :: "sign_in list" where
  "sample_attempts = map (\<lambda>i. (''203.0.113.7'', int i * second, PasswordWrong)) [0..<8]"

theorem login_attempts_bounded_witness:
  "window_count (10 * second) (snd (login_run sample_attempts (newLimiter, \<lambda>_. [])) ''203.0.113.7'') \<le> 5"
proof (rule login_attempts_bounded)
  show "sorted (map (\<lambda>(_, now, _). now) sample_attempts)" by (simp add: sample_attempts_def upt_rec)
  show "card (fst ` set sample_attempts) \<le> ll_maxEntries newLimiter" by (simp add: sample_attempts_def upt_rec newLimiter_def)
qed

theorem login_burst_unthrottled_witness:
  "fst (arrive 1000 ''203.0.113.7'' 0 newLimiter) = 1000"
  using login_burst_unthrottled [of 1000 "''203.0.113.7''" 0] by simp

end
