(* ===== verification/Go_Float.thy ===== *)
theory Go_Float
  imports Complex_Main "HOL-Library.Log_Nat" Prelude
begin

text \<open>
  The float64 arithmetic of the rate limiter: a value of binary64 is the rational number it stands for and every operation is the exact result followed by \<open>fl64\<close>, the rounding
  to the nearest of 53 significant bits, ties to even. The exponent is not bounded: the limiter computes with zero and with magnitudes between \<open>2 ^ -100\<close> and \<open>2 ^ 110\<close>, far
  from underflow and overflow. Products and sums are rounded separately, as the baseline amd64 compiler does.
\<close>

definition pow2 :: "int \<Rightarrow> rat" where
  "pow2 e = (if 0 \<le> e then 2 ^ nat e else 1 / 2 ^ nat (- e))"

definition round_even :: "rat \<Rightarrow> int" where
  "round_even x =
     (let n = \<lfloor>x\<rfloor>; d = x - of_int n
      in if d < 1 / 2 then n else if d > 1 / 2 then n + 1 else if even n then n else n + 1)"

text \<open>The exponent of a positive number: \<open>pow2 e \<le> x < pow2 (e + 1)\<close>.\<close>

definition exponent2 :: "rat \<Rightarrow> int" where
  "exponent2 x = (case quotient_of x of (p, q) \<Rightarrow> let e = bitlen p - bitlen q in if pow2 e \<le> x then e else e - 1)"

definition round53 :: "rat \<Rightarrow> rat" where
  "round53 x = (let s = pow2 (exponent2 x - 52) in of_int (round_even (x / s)) * s)"

definition fl64 :: "rat \<Rightarrow> rat" where
  "fl64 x = (if x = 0 then 0 else if x < 0 then - round53 (- x) else round53 x)"

text \<open>\<open>Duration.Seconds\<close>: whole seconds and the fraction are converted apart; both quotients truncate towards zero.\<close>

definition Seconds :: "duration \<Rightarrow> rat" where
  "Seconds d = fl64 (fl64 (of_int (sgn d * (\<bar>d\<bar> div second))) + fl64 (fl64 (of_int (sgn d * (\<bar>d\<bar> mod second))) / 1000000000))"

text \<open>Sample values: one tenth, and the two odd integers above \<open>2 ^ 53\<close>, where ties go to the even neighbour.\<close>

lemma fl64_samples: "fl64 (1 / 10) = 3602879701896397 / 36028797018963968 \<and> fl64 9007199254740993 = 9007199254740992 \<and> fl64 9007199254740995 = 9007199254740996"
  by code_simp

section \<open>Rounding error\<close>

definition unit_roundoff :: rat where
  "unit_roundoff = 1 / 2 ^ 53"

lemma unit_roundoff_range: "0 < unit_roundoff" "unit_roundoff < 1"
  by (simp_all add: unit_roundoff_def)

lemma pow2_pos: "0 < pow2 e"
  by (simp add: pow2_def)

lemma pow2_powi: "pow2 e = 2 powi e"
  by (simp add: pow2_def power_int_def field_simps)

lemma pow2_add: "pow2 (a + b) = pow2 a * pow2 b"
  by (simp add: pow2_powi power_int_add)

lemma round_even_error: "\<bar>of_int (round_even x) - x\<bar> \<le> 1 / 2"
proof -
  have "of_int \<lfloor>x\<rfloor> \<le> x" "x < of_int \<lfloor>x\<rfloor> + 1" by linarith+
  then show ?thesis by (simp add: round_even_def Let_def)
qed

lemma round_even_of_int: "round_even (of_int n) = n"
  by (simp add: round_even_def)

lemma exponent2_lower:
  assumes "0 < x"
  shows "pow2 (exponent2 x) \<le> x"
proof -
  obtain p q where pq: "quotient_of x = (p, q)" by (rule prod.exhaust)
  have q: "0 < q" using quotient_of_denom_pos [OF pq] .
  have x: "x = of_int p / of_int q" using quotient_of_div [OF pq] .
  then have p: "0 < p" using assms q by (simp add: zero_less_divide_iff)
  have bp: "0 < bitlen p" using bitlen_bounds [OF p] p bitlen_nonneg [of p] by (cases "bitlen p = 0") auto
  have "2 ^ nat (bitlen p - 1) \<le> p" using bitlen_bounds [OF p] by simp
  moreover have "q \<le> 2 ^ nat (bitlen q)" using bitlen_bounds [OF q] by simp
  ultimately have "of_int (2 ^ nat (bitlen p - 1)) \<le> (of_int p :: rat)" "of_int q \<le> (of_int (2 ^ nat (bitlen q)) :: rat)" by (simp_all only: of_int_le_iff)
  then have b: "pow2 (bitlen p - 1) \<le> of_int p" "of_int q \<le> pow2 (bitlen q)" using bp by (simp_all add: pow2_def bitlen_nonneg)
  have "pow2 (bitlen p - bitlen q - 1) * of_int q \<le> pow2 (bitlen p - bitlen q - 1) * pow2 (bitlen q)" using b(2) pow2_pos by (intro mult_left_mono) (simp_all add: less_imp_le)
  also have "\<dots> = pow2 (bitlen p - 1)" by (simp add: pow2_add [symmetric])
  also have "\<dots> \<le> of_int p" by (rule b(1))
  finally have "pow2 (bitlen p - bitlen q - 1) \<le> x" using q by (simp add: x pos_le_divide_eq)
  then show ?thesis by (simp add: exponent2_def pq Let_def)
qed

lemma round53_error:
  assumes "0 < x"
  shows "\<bar>round53 x - x\<bar> \<le> unit_roundoff * x"
proof -
  define s where "s = pow2 (exponent2 x - 52)"
  have s: "0 < s" by (simp add: s_def pow2_pos)
  have "round53 x - x = (of_int (round_even (x / s)) - x / s) * s" using s by (simp add: round53_def s_def Let_def field_simps)
  then have "\<bar>round53 x - x\<bar> = \<bar>of_int (round_even (x / s)) - x / s\<bar> * s" using s by (simp add: abs_mult)
  also have "\<dots> \<le> 1 / 2 * s" by (rule mult_right_mono [OF round_even_error]) (use s in simp)
  also have "\<dots> = unit_roundoff * pow2 (exponent2 x)" by (simp add: s_def pow2_powi power_int_diff unit_roundoff_def)
  also have "\<dots> \<le> unit_roundoff * x" using exponent2_lower [OF assms] unit_roundoff_range by (intro mult_left_mono) simp_all
  finally show ?thesis .
qed

lemma fl64_error: "\<bar>fl64 x - x\<bar> \<le> unit_roundoff * \<bar>x\<bar>"
proof (cases "x < 0")
  case True
  then have "\<bar>round53 (- x) - (- x)\<bar> \<le> unit_roundoff * \<bar>x\<bar>" using round53_error [of "- x"] by simp
  moreover have "fl64 x - x = - (round53 (- x) - (- x))" using True by (simp add: fl64_def)
  ultimately show ?thesis by (simp only: abs_minus_cancel)
next
  case False
  then show ?thesis using round53_error [of x] by (cases "x = 0") (simp_all add: fl64_def)
qed

lemma fl64_bounds:
  assumes "0 \<le> x"
  shows "fl64 x \<le> (1 + unit_roundoff) * x" "0 \<le> fl64 x" "0 < x \<Longrightarrow> 0 < fl64 x"
proof -
  have e: "\<bar>fl64 x - x\<bar> \<le> unit_roundoff * x" using fl64_error [of x] assms by simp
  then have "fl64 x - x \<le> unit_roundoff * x" by linarith
  then show "fl64 x \<le> (1 + unit_roundoff) * x" by (simp add: algebra_simps)
  have l: "x - unit_roundoff * x \<le> fl64 x" using e by linarith
  moreover have "unit_roundoff * x \<le> 1 * x" using assms unit_roundoff_range by (intro mult_right_mono) simp_all
  ultimately show "0 \<le> fl64 x" by simp
  show "0 < fl64 x" if "0 < x" using l mult_strict_right_mono [OF unit_roundoff_range(2) that] by simp
qed

lemma fl64_of_int:
  assumes "\<bar>n\<bar> < 2 ^ 53"
  shows "fl64 (of_int n) = of_int n"
proof -
  have "round53 (of_int m) = of_int m" if m: "0 < m" "m < 2 ^ 53" for m :: int
  proof -
    define e where "e = exponent2 (of_int m)"
    have "pow2 e \<le> of_int m" using exponent2_lower [of "of_int m"] m(1) by (simp add: e_def)
    also have "\<dots> < of_int (2 ^ 53)" using m(2) by (simp only: of_int_less_iff)
    also have "\<dots> = pow2 53" by (simp add: pow2_def)
    finally have "(2 :: rat) powi e < 2 powi 53" by (simp add: pow2_powi)
    then have "e \<le> 52" using power_int_increasing [of 53 e "2 :: rat"] by linarith
    then have "of_int m / pow2 (e - 52) = (of_int (m * 2 ^ nat (52 - e)) :: rat)"
      by (cases "e = 52") (simp_all add: pow2_def)
    then show ?thesis using pow2_pos [of "e - 52"] by (simp add: round53_def e_def [symmetric] round_even_of_int del: of_int_mult) (simp add: field_simps)
  qed
  from this [of n] this [of "- n"] show ?thesis using assms by (auto simp: fl64_def)
qed

lemma Seconds_bounds:
  assumes "0 \<le> d" "d \<le> max_duration"
  shows "Seconds d \<le> (1 + unit_roundoff) ^ 2 * (of_int d / 1000000000)" "0 \<le> Seconds d" "0 < d \<Longrightarrow> 0 < Seconds d"
proof -
  define u :: rat where "u = unit_roundoff"
  define s f where "s = d div second" and "f = d mod second"
  have u: "0 \<le> u" using unit_roundoff_range by (simp add: u_def)
  have d: "d = 1000000000 * s + f" by (simp add: s_def f_def)
  have f: "0 \<le> f" "f < 1000000000" by (simp_all add: f_def)
  have s: "0 \<le> s" "s < 2 ^ 53" using assms by (simp_all add: s_def max_duration_def) 
  have ex: "fl64 (of_int s) = of_int s" "fl64 (of_int f) = of_int f" using s f by (simp_all add: fl64_of_int)
  have S: "Seconds d = fl64 (of_int s + fl64 (of_int f / 1000000000))"
    using assms(1) ex by (cases "d = 0") (simp_all add: Seconds_def s_def f_def fl64_def)
  note b = fl64_bounds [of "of_int f / 1000000000", folded u_def]
  have f0: "(0 :: rat) \<le> of_int f / 1000000000" using f by simp
  have "of_int s + fl64 (of_int f / 1000000000) \<le> (1 + u) * of_int s + (1 + u) * (of_int f / 1000000000)"
    using b(1) [OF f0] s(1) u by (intro add_mono) (simp_all add: algebra_simps)
  also have "\<dots> = (1 + u) * (of_int d / 1000000000)" by (simp add: d field_simps)
  finally have in_bound: "of_int s + fl64 (of_int f / 1000000000) \<le> (1 + u) * (of_int d / 1000000000)" .
  have in_pos: "0 \<le> of_int s + fl64 (of_int f / 1000000000)" using b(2) [OF f0] s(1) by simp
  note o = fl64_bounds [OF in_pos, folded u_def]
  show "Seconds d \<le> (1 + unit_roundoff) ^ 2 * (of_int d / 1000000000)"
    using order_trans [OF o(1) mult_left_mono [OF in_bound, of "1 + u"]] u by (simp add: S u_def [symmetric] power2_eq_square mult.assoc)
  show "0 \<le> Seconds d" using o(2) by (simp add: S)
  show "0 < Seconds d" if "0 < d"
  proof -
    have "0 < s \<or> 0 < f" using that d s f by linarith
    then have "0 < of_int s + fl64 (of_int f / 1000000000)" using b(2,3) [OF f0] s(1) by (auto intro: add_pos_nonneg add_nonneg_pos)
    then show ?thesis using o(3) by (simp add: S)
  qed
qed

lemma Seconds_nonpos:
  assumes "d \<le> 0"
  shows "Seconds d \<le> 0"
proof -
  have neg: "fl64 x \<le> 0" if "x \<le> 0" for x using fl64_bounds(2) [of "- x"] that by (auto simp: fl64_def split: if_split_asm)
  have "sgn d * k \<le> 0" if "0 \<le> k" for k :: int using assms that by (simp add: sgn_if)
  then have q: "(of_int (sgn d * (\<bar>d\<bar> div second)) :: rat) \<le> 0" "(of_int (sgn d * (\<bar>d\<bar> mod second)) :: rat) \<le> 0"
    by (simp_all only: of_int_le_0_iff)
  then show ?thesis unfolding Seconds_def by (intro neg add_nonpos_nonpos divide_nonpos_nonneg) simp_all
qed

end
