(* ===== verification/Request_Guards.thy ===== *)
theory Request_Guards
  imports Go_Float
begin

text \<open>
  The request guards of the API server, \<open>control/rate_limit.go\<close>: the token bucket per client and the replay guard for request identifiers. Each method holds its
  lock for its whole body and is one step. Tokens, rate and burst are float64 values, computed with the roundings of \<open>Go_Float\<close>.
\<close>

section \<open>Rate limiter\<close>

record rateBucket =
  rb_tokens :: rat
  rb_last :: gotime

record RateLimiter =
  rl_rate :: rat
  rl_burst :: rat
  rl_maxVisitors :: nat
  rl_visitors :: "(string, rateBucket) gomap"
  rl_lastGC :: gotime

definition NewRateLimiter :: "int \<Rightarrow> int \<Rightarrow> gotime \<Rightarrow> RateLimiter" where
  "NewRateLimiter perMinute burst now = \<lparr> rl_rate = fl64 (fl64 (of_int perMinute) / 60), rl_burst = fl64 (of_int burst), rl_maxVisitors = 65536, rl_visitors = [], rl_lastGC = now \<rparr>"

definition oldest_visitor :: "(string, rateBucket) gomap \<Rightarrow> string \<times> gotime" where
  "oldest_visitor m = fold (\<lambda>(key, b) (oldestKey, oldest). if oldestKey = [] \<or> rb_last b < oldest then (key, rb_last b) else (oldestKey, oldest)) m ([], 0)"

definition refill :: "gotime \<Rightarrow> RateLimiter \<Rightarrow> rateBucket \<Rightarrow> rateBucket" where
  "refill now l b =
     (let b = (if time_is_zero (rb_last b) then \<lparr> rb_tokens = rl_burst l, rb_last = now \<rparr> else b);
          elapsed = Seconds (time_sub now (rb_last b));
          tokens = fl64 (rb_tokens b + fl64 (elapsed * rl_rate l))
      in if elapsed > 0 then \<lparr> rb_tokens = (if tokens > rl_burst l then rl_burst l else tokens), rb_last = now \<rparr> else b)"

definition limiter_gc :: "gotime \<Rightarrow> RateLimiter \<Rightarrow> RateLimiter" where
  "limiter_gc now l =
     (if time_sub now (rl_lastGC l) > 5 * minute
      then l\<lparr> rl_visitors := filter (\<lambda>(_, b). \<not> time_sub now (rb_last b) > 15 * minute) (rl_visitors l), rl_lastGC := now \<rparr> else l)"

definition Allow :: "string \<Rightarrow> gotime \<Rightarrow> RateLimiter \<Rightarrow> bool \<times> RateLimiter" where
  "Allow identity now l =
     (let room = (if \<not> gm_has (rl_visitors l) identity \<and> length (rl_visitors l) \<ge> rl_maxVisitors l
                  then (case oldest_visitor (rl_visitors l) of (key, _) \<Rightarrow> if key = [] then None else Some (l\<lparr> rl_visitors := gm_del key (rl_visitors l) \<rparr>))
                  else Some l)
      in case room of
           None \<Rightarrow> (False, l)
         | Some l' \<Rightarrow>
             let b = refill now l' (case gm_get (rl_visitors l) identity of None \<Rightarrow> \<lparr> rb_tokens = 0, rb_last = 0 \<rparr> | Some b \<Rightarrow> b);
                 allowed = (rb_tokens b \<ge> 1);
                 b = (if allowed then b\<lparr> rb_tokens := fl64 (rb_tokens b - 1) \<rparr> else b)
             in (allowed, limiter_gc now (l'\<lparr> rl_visitors := gm_put identity b (rl_visitors l') \<rparr>)))"

section \<open>Replay guard\<close>

definition id_char :: "char \<Rightarrow> bool" where
  "id_char c \<longleftrightarrow> (let n = (of_char c :: nat) in 48 \<le> n \<and> n \<le> 57 \<or> 65 \<le> n \<and> n \<le> 90 \<or> 97 \<le> n \<and> n \<le> 122 \<or> c = CHR ''_'' \<or> c = CHR ''-'')"

definition requestIDPattern :: "string \<Rightarrow> bool" where
  "requestIDPattern s \<longleftrightarrow> 16 \<le> length s \<and> length s \<le> 96 \<and> list_all id_char s"

record ReplayGuard =
  rg_seen :: "(string, gotime) gomap"
  rg_window :: duration
  rg_maxEntries :: nat

definition NewReplayGuard :: "duration \<Rightarrow> ReplayGuard" where
  "NewReplayGuard window = \<lparr> rg_seen = [], rg_window = window, rg_maxEntries = 65536 \<rparr>"

definition Claim :: "string \<Rightarrow> gotime \<Rightarrow> ReplayGuard \<Rightarrow> bool \<times> ReplayGuard" where
  "Claim key now g =
     (if \<not> requestIDPattern key then (False, g)
      else let g = g\<lparr> rg_seen := filter (\<lambda>(_, expiry). expiry > now) (rg_seen g) \<rparr>
           in if (case gm_get (rg_seen g) key of None \<Rightarrow> False | Some expiry \<Rightarrow> expiry > now) then (False, g)
              else if length (rg_seen g) \<ge> rg_maxEntries g then (False, g)
              else (True, g\<lparr> rg_seen := gm_put key (time_add now (rg_window g)) (rg_seen g) \<rparr>))"

section \<open>No replay\<close>

text \<open>The accepted claims of a run, in order.\<close>

fun claim_run :: "(string \<times> gotime) list \<Rightarrow> ReplayGuard \<Rightarrow> (string \<times> gotime) list \<times> ReplayGuard" where
  "claim_run [] g = ([], g)"
| "claim_run ((key, now) # calls) g =
     (case Claim key now g of (ok, g) \<Rightarrow> case claim_run calls g of (acc, g) \<Rightarrow> (if ok then (key, now) # acc else acc, g))"

definition guard_ok :: "ReplayGuard \<Rightarrow> bool" where
  "guard_ok g \<longleftrightarrow> gm_wf (rg_seen g) \<and> length (rg_seen g) \<le> rg_maxEntries g"

lemma get_filter: "gm_wf m \<Longrightarrow> gm_get (filter P m) k = (case gm_get m k of None \<Rightarrow> None | Some v \<Rightarrow> if P (k, v) then Some v else None)"
proof (induction m)
  case (Cons x m)
  obtain k' v where x: "x = (k', v)" by (rule prod.exhaust)
  have "k' = k \<Longrightarrow> gm_get m k = None" using Cons.prems x by (auto simp: gm_wf_def map_of_eq_None_iff)
  then show ?case using Cons x by (cases "k' = k") (auto simp: gm_wf_def)
qed simp

lemma claim_step:
  assumes "guard_ok g"
  shows "guard_ok (snd (Claim key now g))" "rg_window (snd (Claim key now g)) = rg_window g" "rg_maxEntries (snd (Claim key now g)) = rg_maxEntries g"
    "fst (Claim key now g) \<Longrightarrow> gm_get (rg_seen (snd (Claim key now g))) key = Some (now + rg_window g)"
    "gm_get (rg_seen g) k = Some e \<Longrightarrow> e > now \<Longrightarrow> k \<noteq> key \<or> \<not> fst (Claim key now g) \<Longrightarrow> gm_get (rg_seen (snd (Claim key now g))) k = Some e"
    "gm_get (rg_seen g) key = Some e \<Longrightarrow> e > now \<Longrightarrow> \<not> fst (Claim key now g)"
proof -
  let ?m = "filter (\<lambda>(_, expiry). expiry > now) (rg_seen g)"
  have w: "gm_wf (rg_seen g)" "length (rg_seen g) \<le> rg_maxEntries g" using assms by (simp_all add: guard_ok_def)
  have m: "gm_wf ?m" "length ?m \<le> rg_maxEntries g" using w by (auto intro: order_trans [OF length_filter_le])
  have get: "gm_get ?m k = (case gm_get (rg_seen g) k of None \<Rightarrow> None | Some e \<Rightarrow> if e > now then Some e else None)" for k using get_filter [OF w(1)] by (simp split: option.split)
  show "guard_ok (snd (Claim key now g))" using w m by (auto simp: Claim_def guard_ok_def Let_def length_gm_put)
  show "rg_window (snd (Claim key now g)) = rg_window g" "rg_maxEntries (snd (Claim key now g)) = rg_maxEntries g" by (simp_all add: Claim_def Let_def)
  show "gm_get (rg_seen (snd (Claim key now g))) key = Some (now + rg_window g)" if "fst (Claim key now g)"
    using that by (auto simp: Claim_def Let_def time_add_def split: if_split_asm)
  show "gm_get (rg_seen (snd (Claim key now g))) k = Some e" if "gm_get (rg_seen g) k = Some e" "e > now" "k \<noteq> key \<or> \<not> fst (Claim key now g)"
    using that get [of k] by (auto simp: Claim_def Let_def)
  show "\<not> fst (Claim key now g)" if "gm_get (rg_seen g) key = Some e" "e > now"
    using that get [of key] by (auto simp: Claim_def Let_def)
qed

lemma claim_run_subset: "set (fst (claim_run calls g)) \<subseteq> set calls"
proof (induction calls arbitrary: g)
  case (Cons call calls)
  obtain k u where c: "call = (k, u)" by (rule prod.exhaust)
  have "fst (claim_run (call # calls) g) = (if fst (Claim k u g) then (k, u) # fst (claim_run calls (snd (Claim k u g))) else fst (claim_run calls (snd (Claim k u g))))"
    by (simp add: c split: prod.split)
  then show ?case using Cons.IH [of "snd (Claim k u g)"] c by auto
qed simp

text \<open>A claim that was accepted blocks its identifier until it expires.\<close>

lemma claimed_blocks:
  assumes "guard_ok g" "sorted (map snd calls)" "\<forall>(_, u) \<in> set calls. now \<le> u" "gm_get (rg_seen g) key = Some e" "(key, t) \<in> set (fst (claim_run calls g))"
  shows "e \<le> t"
  using assms
proof (induction calls arbitrary: g)
  case (Cons call calls)
  obtain k u where c: "call = (k, u)" by (rule prod.exhaust)
  let ?g = "snd (Claim k u g)"
  note st = claim_step [OF Cons.prems(1)]
  have run: "fst (claim_run (call # calls) g) = (if fst (Claim k u g) then (k, u) # fst (claim_run calls ?g) else fst (claim_run calls ?g))"
    by (simp add: c split: prod.split)
  have le: "\<forall>(_, v) \<in> set calls. u \<le> v" "sorted (map snd calls)" using Cons.prems(2) c by auto
  show ?case
  proof (cases "e > u")
    case False
    have "u \<le> t" using Cons.prems(5) run le(1) claim_run_subset [of calls ?g] by (auto split: if_split_asm)
    then show ?thesis using False by simp
  next
    case True
    have nk: "key \<noteq> k \<or> \<not> fst (Claim k u g)" using st(6) [OF _ True] Cons.prems(4) by blast
    have "gm_get (rg_seen ?g) key = Some e" by (rule st(5) [OF Cons.prems(4) True nk])
    moreover have "(key, t) \<in> set (fst (claim_run calls ?g))" using Cons.prems(5) run nk by (auto split: if_split_asm)
    ultimately show ?thesis using Cons.IH [OF st(1) le(2)] Cons.prems(3) by auto
  qed
qed simp

text \<open>
  C27: No request identifier is accepted twice within its window. In every run of claims in the order of time, with any number of other identifiers in between and also when the table is
  full, two accepted claims of one identifier are at least the window apart, and the table never exceeds its capacity.
\<close>

theorem replay_refused:
  assumes "sorted (map snd calls)" and "claim_run calls (NewReplayGuard window) = (accepted, g)"
  shows "sorted_wrt (\<lambda>(key, t) (key', u). key = key' \<longrightarrow> t + window \<le> u) accepted \<and> length (rg_seen g) \<le> 65536"
proof -
  have "sorted_wrt (\<lambda>(key, t) (key', u). key = key' \<longrightarrow> t + rg_window g \<le> u) (fst (claim_run calls g)) \<and> guard_ok (snd (claim_run calls g))
    \<and> rg_maxEntries (snd (claim_run calls g)) = rg_maxEntries g" if "guard_ok g" for g
    using that assms(1)
  proof (induction calls arbitrary: g)
    case (Cons call calls)
    obtain k u where c: "call = (k, u)" by (rule prod.exhaust)
    let ?g = "snd (Claim k u g)"
    note st = claim_step [OF Cons.prems(1), of k u]
    have run: "fst (claim_run (call # calls) g) = (if fst (Claim k u g) then (k, u) # fst (claim_run calls ?g) else fst (claim_run calls ?g))"
      "snd (claim_run (call # calls) g) = snd (claim_run calls ?g)" by (simp_all add: c split: prod.split)
    have srt: "sorted (map snd calls)" "\<forall>(_, v) \<in> set calls. u \<le> v" using Cons.prems(2) c by auto
    have "u + rg_window g \<le> t" if "fst (Claim k u g)" "(k, t) \<in> set (fst (claim_run calls ?g))" for t
      by (rule claimed_blocks [OF st(1) srt st(4) [OF that(1)] that(2)])
    then show ?case using Cons.IH [OF st(1) srt(1)] run st(2,3) by auto
  qed simp
  from this [of "NewReplayGuard window"] show ?thesis using assms(2) by (simp add: NewReplayGuard_def guard_ok_def gm_wf_def)
qed

theorem replay_refused_witness:
  "case claim_run [(''request-0000000001'', 0), (''request-0000000002'', second), (''request-0000000001'', 2 * second)] (NewReplayGuard (10 * minute)) of
     (accepted, g) \<Rightarrow> sorted_wrt (\<lambda>(key, t) (key', u). key = key' \<longrightarrow> t + 10 * minute \<le> u) accepted \<and> length accepted = 2"
proof -
  let ?calls = "[(''request-0000000001'', 0), (''request-0000000002'', second), (''request-0000000001'', 2 * second)] :: (string \<times> gotime) list"
  obtain acc g where r: "claim_run ?calls (NewReplayGuard (10 * minute)) = (acc, g)" by (rule prod.exhaust)
  have "length (fst (claim_run ?calls (NewReplayGuard (10 * minute)))) = 2"
    by (simp add: Claim_def NewReplayGuard_def requestIDPattern_def id_char_def Let_def time_add_def)
  moreover have "sorted (map snd ?calls)" by simp
  ultimately show ?thesis using replay_refused [OF _ r] r by simp
qed

section \<open>The rate\<close>

text \<open>The number of allowed requests of one client in a run.\<close>

fun allow_run :: "string \<Rightarrow> (string \<times> gotime) list \<Rightarrow> nat \<times> RateLimiter \<Rightarrow> nat \<times> RateLimiter" where
  "allow_run client [] s = s"
| "allow_run client ((identity, now) # calls) (n, l) =
     (case Allow identity now l of (ok, l) \<Rightarrow> allow_run client calls (if ok \<and> identity = client then Suc n else n, l))"

abbreviation seconds :: "int \<Rightarrow> rat" where
  "seconds d \<equiv> of_int d / 1000000000"

text \<open>What the client could spend now, at a rate that covers the roundings of a refill.\<close>

definition credit :: "rat \<Rightarrow> string \<Rightarrow> gotime \<Rightarrow> RateLimiter \<Rightarrow> rat" where
  "credit R client now l = (case gm_get (rl_visitors l) client of
     None \<Rightarrow> rl_burst l | Some b \<Rightarrow> min (rl_burst l) (rb_tokens b + seconds (now - rb_last b) * R))"

definition visitors_ok :: "gotime \<Rightarrow> RateLimiter \<Rightarrow> bool" where
  "visitors_ok now l \<longleftrightarrow> gm_wf (rl_visitors l)
     \<and> (\<forall>k b. gm_get (rl_visitors l) k = Some b \<longrightarrow> 0 \<le> rb_tokens b \<and> rb_tokens b \<le> rl_burst l \<and> 0 < rb_last b \<and> rb_last b \<le> now)"

definition rates_ok :: "rat \<Rightarrow> RateLimiter \<Rightarrow> bool" where
  "rates_ok R l \<longleftrightarrow> 0 \<le> rl_rate l \<and> (1 + unit_roundoff) ^ 4 * rl_rate l \<le> R \<and> 0 \<le> rl_burst l \<and> rl_burst l \<le> 2 ^ 53 \<and> rl_burst l \<le> 900 * R"

lemma rates_nonneg: "rates_ok R l \<Longrightarrow> 0 \<le> R"
  using unit_roundoff_range by (auto simp: rates_ok_def intro: order_trans [rotated])

text \<open>What one rounded operation on the tokens can give away.\<close>

definition slack :: "RateLimiter \<Rightarrow> rat" where
  "slack l = unit_roundoff * rl_burst l"

lemma time_sub_upper: "u \<le> t \<Longrightarrow> time_sub t u \<le> t - u \<and> 0 \<le> time_sub t u \<and> time_sub t u \<le> max_duration"
  by (auto simp: time_sub_def max_duration_def min_duration_def)

lemma refill_rounding:
  assumes "0 \<le> d" "d \<le> max_duration" "rates_ok R l" "0 \<le> x" "x \<le> rl_burst l"
  shows "0 \<le> fl64 (x + fl64 (Seconds d * rl_rate l))" "fl64 (x + fl64 (Seconds d * rl_rate l)) \<le> x + seconds d * R + slack l"
proof -
  define u where "u = unit_roundoff"
  have u: "0 \<le> u" using unit_roundoff_range by (simp add: u_def)
  have r: "0 \<le> rl_rate l" "(1 + u) ^ 4 * rl_rate l \<le> R" using assms(3) by (simp_all add: rates_ok_def u_def)
  note S = Seconds_bounds [OF assms(1,2), folded u_def]
  let ?p = "Seconds d * rl_rate l"
  have p: "0 \<le> ?p" using S(2) r(1) by simp
  note fp = fl64_bounds [OF p, folded u_def]
  have q: "0 \<le> x + fl64 ?p" using assms(4) fp(2) by simp
  note fq = fl64_bounds [OF q, folded u_def]
  show "0 \<le> fl64 (x + fl64 ?p)" by (rule fq(2))
  have "fl64 (x + fl64 ?p) \<le> x + u * x + (1 + u) * fl64 ?p" using fq(1) by (simp add: algebra_simps)
  moreover have "u * x \<le> slack l" using mult_left_mono [OF assms(5) u] by (simp add: slack_def u_def)
  moreover have "(1 + u) * fl64 ?p \<le> seconds d * R"
  proof -
    have "(1 + u) * fl64 ?p \<le> (1 + u) * ((1 + u) * (((1 + u) ^ 2 * seconds d) * rl_rate l))"
      using u r(1) by (intro mult_left_mono order_trans [OF fp(1)] mult_right_mono S(1)) simp_all
    also have "\<dots> = seconds d * ((1 + u) ^ 4 * rl_rate l)" by (simp add: power_def algebra_simps)
    also have "\<dots> \<le> seconds d * R" using assms(1) r(2) by (intro mult_left_mono) simp_all
    finally show ?thesis .
  qed
  ultimately show "fl64 (x + fl64 ?p) \<le> x + seconds d * R + slack l" by linarith
qed

text \<open>Taking a token from at most \<open>2 ^ 53\<close> of them does not round up to more than there were.\<close>

lemma spend_rounding:
  assumes "1 \<le> x" "x \<le> rl_burst l" "rl_burst l \<le> 2 ^ 53"
  shows "0 \<le> fl64 (x - 1)" "fl64 (x - 1) \<le> x" "fl64 (x - 1) + 1 \<le> x + slack l"
proof -
  have p: "0 \<le> x - 1" using assms(1) by simp
  note f = fl64_bounds [OF p]
  show "0 \<le> fl64 (x - 1)" by (rule f(2))
  have "unit_roundoff * (x - 1) \<le> unit_roundoff * rl_burst l" "unit_roundoff * (x - 1) \<le> unit_roundoff * 2 ^ 53"
    using assms unit_roundoff_range by (intro mult_left_mono; simp)+
  then have e: "unit_roundoff * (x - 1) \<le> slack l" "unit_roundoff * (x - 1) \<le> 1" by (simp_all only: slack_def) (simp add: unit_roundoff_def)
  have "fl64 (x - 1) \<le> x - 1 + unit_roundoff * (x - 1)" using f(1) by (simp add: algebra_simps)
  then show "fl64 (x - 1) \<le> x" "fl64 (x - 1) + 1 \<le> x + slack l" using e by linarith+
qed

lemma refill_credit:
  assumes "rates_ok R l" "0 < now" "visitors_ok now l"
    and b_def: "b = refill now l (case gm_get (rl_visitors l) k of None \<Rightarrow> \<lparr> rb_tokens = 0, rb_last = 0 \<rparr> | Some b \<Rightarrow> b)"
  shows "0 \<le> rb_tokens b" "rb_tokens b \<le> rl_burst l" "rb_tokens b \<le> credit R k now l + slack l" "rb_last b = now"
proof -
  have r: "0 \<le> R" "0 \<le> rl_burst l" using assms(1) rates_nonneg [OF assms(1)] by (simp_all add: rates_ok_def)
  have s: "0 \<le> slack l" using r unit_roundoff_range by (simp add: slack_def)
  have "0 \<le> rb_tokens b \<and> rb_tokens b \<le> rl_burst l \<and> rb_tokens b \<le> credit R k now l + slack l \<and> rb_last b = now"
  proof (cases "gm_get (rl_visitors l) k")
    case None
    then show ?thesis using r s Seconds_nonpos [of 0] by (simp add: b_def refill_def credit_def time_is_zero_def Let_def time_sub_def max_duration_def min_duration_def)
  next
    case (Some v)
    have v: "0 \<le> rb_tokens v" "rb_tokens v \<le> rl_burst l" "0 < rb_last v" "rb_last v \<le> now" using assms(3) Some by (auto simp: visitors_ok_def)
    let ?d = "time_sub now (rb_last v)"
    note t = time_sub_upper [OF v(4)]
    show ?thesis
    proof (cases "?d > 0")
      case True
      define x where "x = fl64 (rb_tokens v + fl64 (Seconds ?d * rl_rate l))"
      have b: "b = \<lparr> rb_tokens = (if x > rl_burst l then rl_burst l else x), rb_last = now \<rparr>"
        using Some v(3) Seconds_bounds(3) [OF _ _ True] t by (simp add: b_def refill_def time_is_zero_def Let_def x_def)
      have d: "0 \<le> ?d" "?d \<le> max_duration" using t by simp_all
      note f = refill_rounding [OF d assms(1) v(1,2), folded x_def]
      have "seconds ?d * R \<le> seconds (now - rb_last v) * R" using t r(1) by (intro mult_right_mono divide_right_mono) simp_all
      then have "x \<le> rb_tokens v + seconds (now - rb_last v) * R + slack l" using f(2) by linarith
      then show ?thesis using b f(1) r s Some by (simp add: credit_def min_def)
    next
      case False
      then have z: "?d = 0" using t by simp
      then have "rb_last v = now" using v(4) by (auto simp: time_sub_def max_duration_def min_duration_def max_def min_def split: if_split_asm)
      moreover have "b = v" using Some v(3) Seconds_nonpos [of ?d] z by (simp add: b_def refill_def time_is_zero_def Let_def)
      ultimately show ?thesis using v Some s by (simp add: credit_def)
    qed
  qed
  then show "0 \<le> rb_tokens b" "rb_tokens b \<le> rl_burst l" "rb_tokens b \<le> credit R k now l + slack l" "rb_last b = now" by simp_all
qed

text \<open>The collection removes only clients whose bucket is full again.\<close>

lemma gc_credit:
  assumes "rates_ok R l" "visitors_ok now l"
  shows "credit R k now (limiter_gc now l) = credit R k now l" "visitors_ok now (limiter_gc now l)"
    "rl_rate (limiter_gc now l) = rl_rate l" "rl_burst (limiter_gc now l) = rl_burst l" "rl_maxVisitors (limiter_gc now l) = rl_maxVisitors l"
    "fst ` set (rl_visitors (limiter_gc now l)) \<subseteq> fst ` set (rl_visitors l)"
proof -
  let ?m = "filter (\<lambda>(_, b). \<not> time_sub now (rb_last b) > 15 * minute) (rl_visitors l)"
  have w: "gm_wf (rl_visitors l)" using assms(2) by (simp add: visitors_ok_def)
  have get: "gm_get ?m k = (case gm_get (rl_visitors l) k of None \<Rightarrow> None | Some b \<Rightarrow> if time_sub now (rb_last b) > 15 * minute then None else Some b)" for k
    using get_filter [OF w] by (simp split: option.split)
  have full: "min (rl_burst l) (rb_tokens b + seconds (now - rb_last b) * R) = rl_burst l"
    if b: "gm_get (rl_visitors l) k = Some b" "time_sub now (rb_last b) > 15 * minute" for b
  proof -
    have v: "0 \<le> rb_tokens b" "rb_last b \<le> now" using assms(2) b(1) by (auto simp: visitors_ok_def)
    have "900000000000 \<le> now - rb_last b" using time_sub_upper [OF v(2)] b(2) by simp
    then have "(of_int 900000000000 :: rat) \<le> of_int (now - rb_last b)" by (simp only: of_int_le_iff)
    then have "900 \<le> seconds (now - rb_last b)" by simp
    then have "900 * R \<le> seconds (now - rb_last b) * R" using rates_nonneg [OF assms(1)] by (intro mult_right_mono) simp_all
    then show ?thesis using assms(1) v(1) by (simp add: rates_ok_def min_def)
  qed
  show "credit R k now (limiter_gc now l) = credit R k now l"
  proof (cases "gm_get (rl_visitors l) k")
    case None
    then show ?thesis using get [of k] by (simp add: credit_def limiter_gc_def)
  next
    case (Some b)
    then show ?thesis using get [of k] full [OF Some] by (cases "time_sub now (rb_last b) > 15 * minute") (auto simp: credit_def limiter_gc_def)
  qed
  show "visitors_ok now (limiter_gc now l)" using assms(2) get w by (auto simp: visitors_ok_def limiter_gc_def split: option.split_asm if_split_asm)
  show "rl_rate (limiter_gc now l) = rl_rate l" "rl_burst (limiter_gc now l) = rl_burst l" "rl_maxVisitors (limiter_gc now l) = rl_maxVisitors l"
    "fst ` set (rl_visitors (limiter_gc now l)) \<subseteq> fst ` set (rl_visitors l)" by (auto simp: limiter_gc_def)
qed

lemma credit_advance:
  assumes "rates_ok R l" "visitors_ok now l" "now \<le> later"
  shows "credit R k later l \<le> credit R k now l + seconds (later - now) * R" "visitors_ok later l"
proof -
  define d where "d = seconds (later - now) * R"
  have d: "0 \<le> d" using rates_nonneg [OF assms(1)] assms(3) by (simp add: d_def)
  have s: "seconds (later - x) * R = seconds (now - x) * R + d" for x by (simp add: d_def field_simps)
  have m: "min B (x + (y + d)) \<le> min B (x + y) + d" for B x y :: rat using d by (simp add: min_def)
  show "credit R k later l \<le> credit R k now l + seconds (later - now) * R" unfolding d_def [symmetric]
  proof (cases "gm_get (rl_visitors l) k")
    case None
    then show "credit R k later l \<le> credit R k now l + d" using d by (simp add: credit_def)
  next
    case (Some b)
    show "credit R k later l \<le> credit R k now l + d" unfolding credit_def Some option.case s by (rule m)
  qed
  show "visitors_ok later l" using assms(2,3) unfolding visitors_ok_def by (meson order_trans)
qed

text \<open>One request, when there is room for the client.\<close>

lemma allow_step:
  assumes r: "rates_ok R l" and now: "0 < now" and v: "visitors_ok now l" and room: "gm_has (rl_visitors l) k \<or> length (rl_visitors l) < rl_maxVisitors l"
  defines "l' \<equiv> snd (Allow k now l)"
  shows "visitors_ok now l'" "rl_rate l' = rl_rate l" "rl_burst l' = rl_burst l" "rl_maxVisitors l' = rl_maxVisitors l"
    "fst ` set (rl_visitors l') \<subseteq> insert k (fst ` set (rl_visitors l))"
    "credit R c now l' + (if fst (Allow k now l) \<and> k = c then 1 else 0) \<le> credit R c now l + (if k = c then 2 * slack l else 0)"
proof -
  define b where "b = refill now l (case gm_get (rl_visitors l) k of None \<Rightarrow> \<lparr> rb_tokens = 0, rb_last = 0 \<rparr> | Some b \<Rightarrow> b)"
  note rc = refill_credit [OF r now v b_def]
  define b' where "b' = (if rb_tokens b \<ge> 1 then b\<lparr> rb_tokens := fl64 (rb_tokens b - 1) \<rparr> else b)"
  define m where "m = l\<lparr> rl_visitors := gm_put k b' (rl_visitors l) \<rparr>"
  have a: "Allow k now l = (rb_tokens b \<ge> 1, limiter_gc now m)" using room by (auto simp: Allow_def b_def b'_def m_def Let_def)
  have b': "0 \<le> rb_tokens b'" "rb_tokens b' \<le> rl_burst l" "rb_last b' = now" "rb_tokens b' + (if rb_tokens b \<ge> 1 then 1 else 0) \<le> credit R k now l + 2 * slack l"
  proof -
    have B: "rl_burst l \<le> 2 ^ 53" "0 \<le> slack l" using r unit_roundoff_range by (simp_all add: rates_ok_def slack_def)
    note sp = spend_rounding [OF _ rc(2) B(1)]
    show "0 \<le> rb_tokens b'" "rb_last b' = now" using rc sp(1) by (simp_all add: b'_def)
    show "rb_tokens b' \<le> rl_burst l" using rc(2) order_trans [OF sp(2) rc(2)] by (simp add: b'_def)
    show "rb_tokens b' + (if rb_tokens b \<ge> 1 then 1 else 0) \<le> credit R k now l + 2 * slack l" using rc(3) sp(3) B(2) by (cases "rb_tokens b \<ge> 1") (simp_all add: b'_def)
  qed
  have mr: "rates_ok R m" using r by (simp add: m_def rates_ok_def)
  have mv: "visitors_ok now m" using v b' now by (auto simp: m_def visitors_ok_def)
  note g = gc_credit [OF mr mv]
  have l': "l' = limiter_gc now m" by (simp add: l'_def a)
  show "visitors_ok now l'" "rl_rate l' = rl_rate l" "rl_burst l' = rl_burst l" "rl_maxVisitors l' = rl_maxVisitors l" using g(2-5) by (simp_all add: l') (simp_all add: m_def)
  show "fst ` set (rl_visitors l') \<subseteq> insert k (fst ` set (rl_visitors l))" using g(6) by (simp add: l') (simp add: m_def dom_update)
  have "credit R c now l' = credit R c now m" using g(1) by (simp add: l')
  moreover have "credit R c now m = (if c = k then min (rl_burst l) (rb_tokens b') else credit R c now l)" using b'(3) by (simp add: credit_def m_def split: option.split)
  ultimately show "credit R c now l' + (if fst (Allow k now l) \<and> k = c then 1 else 0) \<le> credit R c now l + (if k = c then 2 * slack l else 0)" using b'(4) a by auto
qed

definition calls_of :: "string \<Rightarrow> (string \<times> gotime) list \<Rightarrow> nat" where
  "calls_of client calls = length (filter (\<lambda>(identity, _). identity = client) calls)"

lemma allow_run_bound:
  assumes "sorted (map snd calls)" "\<forall>(_, u) \<in> set calls. t \<le> u \<and> u \<le> later" "0 < t" "t \<le> later" "rates_ok R l" "visitors_ok t l"
    "fst ` set (rl_visitors l) \<union> fst ` set calls \<subseteq> K" "finite K" "card K \<le> rl_maxVisitors l"
  shows "of_nat (fst (allow_run client calls (n, l))) \<le> of_nat n + credit R client t l + seconds (later - t) * R + 2 * slack l * of_nat (calls_of client calls)"
  using assms
proof (induction calls arbitrary: n l t)
  case Nil
  have "0 \<le> seconds (later - t) * R" "0 \<le> credit R client t l"
    using Nil rates_nonneg [OF Nil(5)] by (auto simp: rates_ok_def credit_def visitors_ok_def split: option.split)
  then show ?case by (simp add: calls_of_def)
next
  case (Cons call calls)
  obtain k u where c: "call = (k, u)" by (rule prod.exhaust)
  have u: "t \<le> u" "u \<le> later" using Cons.prems(2) c by auto
  then have pos: "0 < u" using Cons.prems(3) by simp
  note ca = credit_advance [OF Cons.prems(5,6) u(1)]
  have room: "gm_has (rl_visitors l) k \<or> length (rl_visitors l) < rl_maxVisitors l"
  proof (cases "gm_has (rl_visitors l) k")
    case False
    have w: "gm_wf (rl_visitors l)" using Cons.prems(6) by (simp add: visitors_ok_def)
    then have "length (rl_visitors l) = card (fst ` set (rl_visitors l))" by (metis distinct_card gm_wf_def length_map set_map)
    moreover have "k \<notin> fst ` set (rl_visitors l)" using False by (simp add: gm_has_iff_fst)
    then have "fst ` set (rl_visitors l) \<subset> K" using Cons.prems(7) c by auto
    then have "card (fst ` set (rl_visitors l)) < card K" by (rule psubset_card_mono [OF Cons.prems(8)])
    ultimately show ?thesis using Cons.prems(9) by simp
  qed simp
  note st = allow_step [OF Cons.prems(5) pos ca(2) room]
  let ?l = "snd (Allow k u l)" let ?n = "if fst (Allow k u l) \<and> k = client then Suc n else n"
  have run: "allow_run client (call # calls) (n, l) = allow_run client calls (?n, ?l)" by (cases "Allow k u l") (simp add: c)
  have r: "rates_ok R ?l" using Cons.prems(5) st(2,3) by (simp add: rates_ok_def)
  have "of_nat (fst (allow_run client calls (?n, ?l))) \<le> of_nat ?n + credit R client u ?l + seconds (later - u) * R + 2 * slack ?l * of_nat (calls_of client calls)"
  proof (rule Cons.IH [OF _ _ pos u(2) r st(1) _ Cons.prems(8)])
    show "sorted (map snd calls)" "\<forall>(_, v) \<in> set calls. u \<le> v \<and> v \<le> later" using Cons.prems(1,2) c by auto
    show "fst ` set (rl_visitors ?l) \<union> fst ` set calls \<subseteq> K" using st(5) Cons.prems(7) c by auto
    show "card K \<le> rl_maxVisitors ?l" using Cons.prems(9) st(4) by simp
  qed
  then have "of_nat (fst (allow_run client calls (?n, ?l))) \<le> of_nat ?n + credit R client u ?l + seconds (later - u) * R + 2 * slack l * of_nat (calls_of client calls)"
    by (simp only: slack_def st(3))
  moreover have "(of_nat ?n :: rat) + credit R client u ?l \<le> of_nat n + credit R client u l + (if k = client then 2 * slack l else 0)" using st(6) [of client] by (auto split: if_split_asm)
  moreover have "seconds (later - t) * R = seconds (u - t) * R + seconds (later - u) * R" by (simp add: field_simps)
  moreover have "2 * slack l * of_nat (calls_of client (call # calls)) = (if k = client then 2 * slack l else 0) + 2 * slack l * of_nat (calls_of client calls)"
    by (simp add: calls_of_def c algebra_simps)
  moreover have "x \<le> a + b + e + y \<Longrightarrow> a + b \<le> c + f + z \<Longrightarrow> g = h + e \<Longrightarrow> v = z + y \<Longrightarrow> f \<le> i + h \<Longrightarrow> x \<le> c + i + g + v"
    for a b c e f g h i x y z v :: rat by linarith
  ultimately show ?case using ca(1) [of client] unfolding run by blast
qed

lemma new_rates_ok:
  assumes "0 \<le> perMinute" "0 \<le> burst" "burst \<le> 15 * perMinute" "burst < 2 ^ 53"
  shows "rates_ok ((1 + unit_roundoff) ^ 6 * (of_int perMinute / 60)) (NewRateLimiter perMinute burst t)"
proof -
  define u p where "u = unit_roundoff" and "p = (of_int perMinute :: rat)"
  let ?l = "NewRateLimiter perMinute burst t"
  have u: "0 \<le> u" using unit_roundoff_range by (simp add: u_def)
  have p: "0 \<le> p" using assms(1) by (simp add: p_def)
  have b: "rl_burst ?l = of_int burst" using assms(2,4) by (simp add: NewRateLimiter_def fl64_of_int)
  have rate: "rl_rate ?l = fl64 (fl64 p / 60)" by (simp add: NewRateLimiter_def p_def)
  have f: "0 \<le> fl64 p / 60" using fl64_bounds(2) [OF p] by simp
  have "fl64 p / 60 \<le> (1 + u) * p / 60" using fl64_bounds(1) [OF p] by (simp add: u_def divide_right_mono)
  then have "(1 + u) * (fl64 p / 60) \<le> (1 + u) * ((1 + u) * p / 60)" by (rule mult_left_mono) (use u in simp)
  then have "rl_rate ?l \<le> (1 + u) * ((1 + u) * p / 60)" using order_trans [OF fl64_bounds(1) [OF f]] unfolding rate u_def by blast
  then have "(1 + u) ^ 4 * rl_rate ?l \<le> (1 + u) ^ 4 * ((1 + u) * ((1 + u) * p / 60))" using u by (intro mult_left_mono) simp_all
  also have "\<dots> = (1 + u) ^ 6 * (p / 60)" by (simp add: eval_nat_numeral mult.assoc)
  finally have R: "(1 + u) ^ 4 * rl_rate ?l \<le> (1 + u) ^ 6 * (p / 60)" .
  have "(of_int burst :: rat) \<le> of_int (15 * perMinute)" "(of_int burst :: rat) < of_int (2 ^ 53)" using assms(3,4) by (simp_all only: of_int_le_iff of_int_less_iff)
  moreover have "1 * (p / 60) \<le> (1 + u) ^ 6 * (p / 60)" using u p by (intro mult_right_mono) simp_all
  ultimately have "of_int burst \<le> 900 * ((1 + u) ^ 6 * (p / 60))" "(of_int burst :: rat) \<le> 2 ^ 53" by (simp_all add: p_def algebra_simps)
  then show ?thesis using R b fl64_bounds(2) [OF f] assms(2) rate by (simp add: rates_ok_def u_def p_def)
qed

text \<open>
  C28: A client gets its burst and its rate, up to rounding. In every run of requests of any clients in the order of time, of no more clients than the table holds, the requests of one
  client that are allowed until a time number at most the burst plus the rate times the time since the start, where the float64 roundings of the code stretch the rate by at most
  \<open>(1 + 2 ^ -53) ^ 6\<close> and add at most \<open>2 * 2 ^ -53\<close> of the burst for each request of the client. Collecting idle clients gives nothing away, provided a bucket
  fills within the fifteen minutes after which it is collected; the burst is at most \<open>2 ^ 53\<close> and neither number is negative.
\<close>

theorem rate_bounded:
  assumes "sorted (map snd calls)" and "\<forall>(_, u) \<in> set calls. t \<le> u \<and> u \<le> later" and "0 < t" and "t \<le> later" and "0 \<le> perMinute" and "0 \<le> burst" and "burst \<le> 15 * perMinute"
    and "burst < 2 ^ 53" and "card (fst ` set calls) \<le> rl_maxVisitors (NewRateLimiter perMinute burst t)"
  shows "of_nat (fst (allow_run client calls (0, NewRateLimiter perMinute burst t)))
    \<le> of_int burst + seconds (later - t) * ((1 + unit_roundoff) ^ 6 * (of_int perMinute / 60)) + 2 * unit_roundoff * of_int burst * of_nat (calls_of client calls)"
proof -
  let ?l = "NewRateLimiter perMinute burst t" and ?R = "(1 + unit_roundoff) ^ 6 * (of_int perMinute / 60)"
  have b: "rl_burst ?l = of_int burst" using assms(6,8) by (simp add: NewRateLimiter_def fl64_of_int)
  have r: "rates_ok ?R ?l" by (rule new_rates_ok [OF assms(5-8)])
  have v: "visitors_ok t ?l" by (simp add: visitors_ok_def NewRateLimiter_def gm_wf_def)
  have "fst ` set (rl_visitors ?l) \<union> fst ` set calls \<subseteq> fst ` set calls" by (simp add: NewRateLimiter_def)
  from allow_run_bound [OF assms(1-4) r v this _ assms(9), of client 0]
  have "of_nat (fst (allow_run client calls (0, ?l))) \<le> credit ?R client t ?l + seconds (later - t) * ?R + 2 * slack ?l * of_nat (calls_of client calls)" by simp
  moreover have "credit ?R client t ?l = of_int burst" using b by (simp add: credit_def) (simp add: NewRateLimiter_def)
  ultimately show ?thesis by (simp only: slack_def b mult.assoc)
qed

theorem rate_bounded_witness:
  "(of_nat (fst (allow_run ''10.0.0.9'' (replicate 100 (''10.0.0.9'', second)) (0, NewRateLimiter 60 20 second))) :: rat) < 21"
  using rate_bounded [of "replicate 100 (''10.0.0.9'', second)" second second 60 20 "''10.0.0.9''"]
  by (simp add: sorted_replicate map_replicate_const NewRateLimiter_def image_constant_conv calls_of_def unit_roundoff_def)

end
