(* ===== verification/Spec2Isabelle.thy ===== *)
theory Spec2Isabelle
  imports Kinetic_Runtime Storage_Samples Gateway_Sessions Login_Limiter Request_Guards
begin

text \<open>
  GeDefense is a host defence platform. A Rust core owns the kernel: an XDP program that samples ingress traffic and drops packets
  of the addresses in a block map. A Go control plane, \<open>src/control\<close>, decides what is in that map. This development models the network path
  of the control plane, from a kernel sample to a kernel block, together with the shared state it acts on, the release
  controller that decides whether it may act at all, the signed evidence ledger in which its actions are recorded, and the guards in front of its API: the
  sessions and the sign-in limiter of the access gateway, \<open>src/gateway\<close>, and the rate limiter and replay guard of the API server.

  \<^bold>\<open>The parts and how they interact.\<close> The runtime loop (\<open>kinetic_runtime.go\<close>) drains samples from the core and feeds each of them to the detection
  engine (\<open>kinetic_engine.go\<close>, with the windows of \<open>kinetic_live.go\<close>, the registry of \<open>kinetic_rules.go\<close> and the threat index of \<open>feeds.go\<close>). The engine
  returns events. The loop picks the strongest event per target and asks the response engine (\<open>kinetic_response.go\<close>) to act on it. The response
  engine checks its gates, changes the block list of the shared state (\<open>state.go\<close>) and the kernel map; the loop then persists the signed policy
  (\<open>persistPolicy\<close>) and commits or rolls back. The expiry worker (\<open>block_expiry.go\<close>) takes expired blocks out again. The release
  controller (\<open>release.go\<close>) holds the phase (observe, canary, enforce, degraded); it gates promotions, falls back on failures while it keeps the kernel
  entries, and recovers. The loop calls it whenever the ingress sensor is not online or a transaction ends divergent. Every action is reported to the evidence
  ledger (\<open>evidence_ledger.go\<close>) through \<open>State.RecordEvidence\<close>, and a ledger that is not healthy is one of the gates. Operators reach the control plane through the gateway: a sign-in that passes
  the limiter (\<open>main.go\<close>) gets a session (\<open>sessions.go\<close>), every request is checked against the registry, and the API server counts and deduplicates requests (\<open>rate_limit.go\<close>).

  \<^bold>\<open>Theories.\<close>
  \<^item> \<open>Prelude\<close>: Go as far as the code uses it: 64-bit wrap-around, truncating division, maps as association lists (\<open>gomap\<close>), wall and
    monotonic time, text functions; \<open>Net_Addr\<close> and \<open>Net_Facts\<close>: addresses, networks and \<open>normalizeTarget\<close>.
  \<^item> \<open>Config_Types\<close>, \<open>Kinetic_Types\<close>, \<open>Kinetic_Rules\<close>: configuration records, events, coverage, telemetry, the bounded event queue, the rules.
  \<^item> \<open>Kinetic_Windows\<close>: the ring windows, with the locale \<open>ring_window\<close> interpreted for the four rings.
  \<^item> \<open>State_Model\<close>, \<open>Block_State\<close>, \<open>State_Status\<close>: the record \<open>State\<close> and the methods of \<open>state.go\<close>: setters, events, evidence, degradation causes, incidents;
    blocks; and the verdicts derived on reading.
  \<^item> \<open>Threat_Index\<close>, \<open>Allowlist\<close>: the prefix lookup of feeds and the compiled management allowlist.
  \<^item> \<open>Kinetic_Engine\<close>, \<open>Kinetic_Detection\<close>: the detection engine and what it guarantees; the locales \<open>evictable\<close> and \<open>aggregate_table\<close> are the contract
    of its bounded tables.
  \<^item> \<open>Kinetic_Response\<close>: the response engine; \<open>Block_Expiry\<close>: the expiry worker; both rest on the undo laws of the locale \<open>undo_store\<close>.
  \<^item> \<open>Release_Controller\<close>, \<open>Release_Safety\<close>: the release controller and its machine as step relations; the locales \<open>step_order\<close> and
    \<open>step_invariant\<close> carry facts about single methods to runs.
  \<^item> \<open>Kinetic_Runtime\<close>: the loop that composes all of them.
  \<^item> \<open>Encodings\<close>: hexadecimal, Base64, UTF-8 and the JSON strings of Go, with their round trips; \<open>Evidence_Ledger\<close>: the ledger; \<open>Evidence_Chain\<close>: chains, appending
    and tampering; \<open>Evidence_Recovery\<close>: the bounded start; \<open>Evidence_Samples\<close>: an instance of the libraries and examples on it.
  \<^item> \<open>Storage_Cipher\<close>: the encrypted envelopes of \<open>storage_crypto.go\<close> over AES-GCM, HMAC and SHA-256 as parameters, their round trips, and that they meet what the ledger assumes
    of its envelope; \<open>Storage_Samples\<close>: an instance.
  \<^item> \<open>Go_Float\<close>: \<open>float64\<close> arithmetic on positive normal numbers as rounding of rationals to 53 bits, half to even, with its error bounds.
  \<^item> \<open>Gateway_Sessions\<close>: the session registry over a heap of sessions, cookies and handlers; \<open>Login_Limiter\<close>; \<open>Request_Guards\<close>.

  \<^bold>\<open>How state and operations correspond.\<close> A struct is a record with prefixed field names, an enumeration a datatype, a method a function that takes and returns
  the records it reads and changes: a pair of engine and \<open>State\<close> for the detection engine, a triple with the kernel for the response engine,
  a \<open>release_world\<close> for the release controller, a \<open>runtime_world\<close> for the loop. Locks disappear: a method is one step and interleavings are
  sequences of steps. For most methods that is what the lock gives, since they hold it for their whole body. The exceptions: \<open>VerifyIncremental\<close> lets go of the lock between
  its stages, so it is given the ledger and the disk that each stage sees; a sign-in calls the methods of the limiter one by one, and so does the model. \<open>ExecuteDecision\<close> and
  \<open>RecordEvidence\<close> call into other components between parts that are locked separately and are one step each, so an interleaving inside these two is not covered. What a call reads from outside is an argument: the clocks and fresh identifiers
  (\<open>env\<close>), the emergency stop file (\<open>stat_result\<close>), failures of writes (\<open>release_call\<close>, \<open>evidence_io\<close>), the answers of the core. The kernel core, the policy store and, for
  the shared state, the ledger are parameters with their own state types; what the proofs assume of them is a named hypothesis (\<open>core_exact\<close>, \<open>core_keeps\<close>) that the example
  worlds satisfy. The ledger itself works on a record of file contents (\<open>evidence_disk\<close>) and takes hash, signature, envelope and JSON decoder from \<open>evidence_codec\<close>, with
  \<open>codec_ok\<close> and \<open>torn_ok\<close> as what is used of them; \<open>Storage_Cipher\<close> supplies the envelope from its own code. Maps are association lists; where the code ranges over a map, the model visits the list in its order, and the statements
  do not depend on which order that is. Integers that can overflow are words or wrap at 64 bits; the tokens of the rate limiter are computed with
  the roundings of \<open>float64\<close> (\<open>fl64\<close>), and scores and ratios of detection that Go keeps in floating point are rationals. Error values are datatypes whose texts are those of the code where a text is published.

  \<^bold>\<open>What is shown.\<close>
  \<^item> Safety of blocking: no block contains an allowlisted address, for one decision and for every run of the loop; a decision takes effect only in a
    live, verified state and within its rate; detection alone changes no block.
  \<^item> Transactions: a decision that fails leaves everything as it was, the kernel mirrors the enforced blocks unless divergence is reported, rollback restores,
    expiry is all or nothing under the same mirror.
  \<^item> The release machine: automatic operations never remove a kernel entry or weaken a block, enforce is entered only by a call whose own readings of the clock and of the state
    pass the gates and the soak or the calm period, reported phases
    and modes fit together in every reachable state, a fall-back or an entry into enforce that reports verified enforcement had every block confirmed by the kernel, a calm degraded platform does recover, and a
    fall-back stops all responses.
  \<^item> Detection: tables, ports and queues stay bounded and the eviction loops end, windows count exactly the samples in them, the threat lookup equals the bitwise prefix
    test, a rule strikes once per cool-down.
  \<^item> State: canonical sorted block list, exact expiry, owned degradation causes, one coverage verdict in all views, an exact protection claim.
  \<^item> Evidence: an honest ledger verifies, its head fixes its contents, an interrupted append is recovered from every point but one, the window of the bounded start is exact, and an
    encrypted envelope opens to its text under its purpose and sequence.
  \<^item> Access: a revoked session stays dead under every interleaving that does not rotate it, cookies round-trip, sequential sign-ins are throttled, the request rate is bounded up to the rounding of
    \<open>float64\<close>, and no identifier is accepted twice within its window.
  \<^item> Where the code deviates from its comments or documents the deviation is a theorem: an emergency stop that keeps the kernel list, a failed insertion or deletion that is undone and not queued, the overflow of the backoff, wall clock in \<open>AddBlock\<close> and in the promotion ladder,
    a cleared kernel behind a verified status, kernel epochs invisible in the windows, a scan that hides an evidence failure, and for the ledger text that is not UTF-8,
    a lowered budget, a checkpoint in plain JSON, a crash before the first checkpoint and a record without its newline; for the gateway a rotation that undoes a revocation, entries that rotations leave behind, and sign-ins
    that arrive together.

  \<^bold>\<open>Bounds.\<close> Every function is total. The eviction loops of \<open>UpdateConfig\<close> return an option and are shown to return. The drain of a poll takes the sixteen batches
  of \<open>kineticMaxDrainBatches\<close> from the code, no fuel of its own. Capacities are those of the configuration and of the constants in the code.

  \<^bold>\<open>Not modelled.\<close> The XDR engine, file integrity, Titan, boot trust, cases, cells and transactions are engines of their own over process tables and files, reached from
  the shared state only through setters. Feed download, signing, the settings and policy files, the rotation of evidence files and the core socket
  are I/O and cryptography behind the parameters above. The HTTP server dispatches to the modelled methods; pages, TLS, password hashing and the reverse proxy of the gateway are libraries and I/O. JSON forms and dashboard
  texts are left out where nothing decides on them. Rust, C++ and JavaScript sources are other programs.
\<close>

end
